(* ===== verification/Prelude.thy ===== *)
theory Prelude
  imports "HOL-Library.Word" "HOL-Library.Monad_Syntax"
begin

text \<open>
  Shared vocabulary of the development: the types every component uses, the three ways a
  call can end other than by returning, the effectful call of the database code, the C++
  library functions on text that the sources call, and generic lemmas.

  \<^item> Pure code that touches memory returns an option: \<open>None\<close> is undefined behaviour
    (an access outside the object) or a failed \<open>assert\<close>.
  \<^item> Code with effects is a function of the state that returns a result and the new state;
    the result is a value or a \<open>fault\<close>.
\<close>

section \<open>Types\<close>

type_synonym byte = "8 word"

text \<open>The bytes that may be accessed through a pointer, from the address it holds.\<close>
type_synonym mem = "byte list"

text \<open>How a call ends when it does not return to its caller.\<close>
datatype fault =
    BufferOverflow        \<comment> \<open>a write past the end of a fixed array\<close>
  | OutOfRange            \<comment> \<open>\<open>std::out_of_range\<close> thrown\<close>
  | InvalidArgument       \<comment> \<open>\<open>std::invalid_argument\<close> thrown\<close>
  | JsonError             \<comment> \<open>an exception of the JSON library\<close>
  | Uninitialised         \<comment> \<open>an indeterminate value is used\<close>
  | NullPointer           \<comment> \<open>a null pointer is dereferenced\<close>
  | BadAccess             \<comment> \<open>a read outside the object\<close>
  | MissingReturn         \<comment> \<open>the end of a function with a result is reached\<close>
  | ProcessExit int       \<comment> \<open>\<open>exit(code)\<close>\<close>

text \<open>A raw pointer: not yet assigned, null, or to an object.\<close>
datatype 'a pointer = Indeterminate | Null | Object 'a

text \<open>Dereferencing a pointer.\<close>

fun deref :: "'a pointer \<Rightarrow> fault + 'a" where
  "deref Indeterminate = Inl Uninitialised"
| "deref Null = Inl NullPointer"
| "deref (Object x) = Inr x"

text \<open>An element of an array, of which \<open>xs\<close> holds the elements that exist.\<close>

definition elem_at :: "'a list \<Rightarrow> nat \<Rightarrow> fault + 'a" where
  "elem_at xs i = (if i < length xs then Inr (xs ! i) else Inl BadAccess)"

text \<open>The lookup in a configuration file: section, key and the default.\<close>
type_synonym ini = "string \<Rightarrow> string \<Rightarrow> string \<Rightarrow> string"

type_synonym ('s, 'a) call = "'s \<Rightarrow> (fault + 'a) \<times> 's"

section \<open>Sequencing\<close>

definition ret :: "'a \<Rightarrow> ('s, 'a) call" where
  "ret x = (\<lambda>s. (Inr x, s))"

definition raise :: "fault \<Rightarrow> ('s, 'a) call" where
  "raise e = (\<lambda>s. (Inl e, s))"

definition andThen :: "('s, 'a) call \<Rightarrow> ('a \<Rightarrow> ('s, 'b) call) \<Rightarrow> ('s, 'b) call" where
  "andThen m k = (\<lambda>s. case m s of (Inl e, t) \<Rightarrow> (Inl e, t) | (Inr x, t) \<Rightarrow> k x t)"

definition lift_result :: "fault + 'a \<Rightarrow> ('s, 'a) call" where
  "lift_result r = (\<lambda>s. (r, s))"

named_theorems call_simps \<open>evaluation of effectful calls on a given state\<close>

lemma ret_apply [call_simps]: "ret x s = (Inr x, s)"
  by (simp add: ret_def)

lemma raise_apply [call_simps]: "raise e s = (Inl e, s)"
  by (simp add: raise_def)

lemma lift_result_apply [call_simps]: "lift_result r s = (r, s)"
  by (simp add: lift_result_def)

lemma andThen_Inr [call_simps]: "m s = (Inr x, t) \<Longrightarrow> andThen m k s = k x t"
  by (simp add: andThen_def)

lemma andThen_Inl [call_simps]: "m s = (Inl e, t) \<Longrightarrow> andThen m k s = (Inl e, t)"
  by (simp add: andThen_def)

lemma andThen_split:
  "P (andThen m k s) \<longleftrightarrow>
    (\<forall>e t. m s = (Inl e, t) \<longrightarrow> P (Inl e, t)) \<and> (\<forall>x t. m s = (Inr x, t) \<longrightarrow> P (k x t))"
  by (auto simp: andThen_def split: prod.splits sum.splits)

lemma andThen_assoc: "andThen (andThen m k) l = andThen m (\<lambda>x. andThen (k x) l)"
  by (rule ext) (auto simp: andThen_def split: prod.splits sum.splits)

lemma andThen_eq_Inr:
  "andThen m k s = (Inr y, u) \<longleftrightarrow> (\<exists>x t. m s = (Inr x, t) \<and> k x t = (Inr y, u))"
  by (auto simp: andThen_def split: prod.splits sum.splits)

text \<open>An error result of a pure computation.\<close>

definition bindE :: "'e + 'a \<Rightarrow> ('a \<Rightarrow> 'e + 'b) \<Rightarrow> 'e + 'b" where
  "bindE r k = (case r of Inl e \<Rightarrow> Inl e | Inr x \<Rightarrow> k x)"

lemma bindE_simps [simp]: "bindE (Inl e) k = Inl e" "bindE (Inr x) k = k x"
  by (simp_all add: bindE_def)

lemma bindE_Inr: "bindE r k = Inr y \<longleftrightarrow> (\<exists>x. r = Inr x \<and> k x = Inr y)"
  by (cases r) auto

section \<open>Unsigned arithmetic of size_t\<close>

text \<open>
  \<open>size_t\<close> is 64 bits wide: subtraction wraps. Indices are natural numbers here; the sums
  the code forms stay far below the width, because each summand is bounded by the length of
  an object or by a 32 bit field.
\<close>

definition size_sub :: "nat \<Rightarrow> nat \<Rightarrow> nat" where
  "size_sub a b = nat ((int a - int b) mod 2 ^ 64)"

lemma size_sub_ge: "b \<le> a \<Longrightarrow> a < 2 ^ 64 \<Longrightarrow> size_sub a b = a - b"
  by (simp add: size_sub_def flip: of_nat_diff)

lemma size_sub_wrap:
  assumes "a < b" "b \<le> a + 2 ^ 64"
  shows "size_sub a b = 2 ^ 64 - (b - a)"
proof -
  have "(int a - int b) mod 2 ^ 64 = (int a - int b + 2 ^ 64) mod 2 ^ 64"
    by simp
  also have "\<dots> = int a - int b + 2 ^ 64"
    using assms by (intro mod_pos_pos_trivial) auto
  finally show ?thesis
    using assms by (simp add: size_sub_def)
qed

section \<open>Text\<close>

text \<open>\<open>std::to_string\<close> and \<open>operator<<\<close> on integers: decimal digits, no padding.\<close>

definition digit_char :: "nat \<Rightarrow> char" where
  "digit_char d = char_of (48 + d)"

fun nat_str :: "nat \<Rightarrow> string" where
  "nat_str n = (if n < 10 then [digit_char n] else nat_str (n div 10) @ [digit_char (n mod 10)])"

declare nat_str.simps [simp del]

definition int_str :: "int \<Rightarrow> string" where
  "int_str i = (if i < 0 then CHR ''-'' # nat_str (nat (- i)) else nat_str (nat i))"

definition is_digit :: "char \<Rightarrow> bool" where
  "is_digit c \<longleftrightarrow> 48 \<le> (of_char c :: nat) \<and> (of_char c :: nat) \<le> 57"

definition digit_val :: "char \<Rightarrow> nat" where
  "digit_val c = of_char c - 48"

lemma digit_char_digit [simp]: "d < 10 \<Longrightarrow> is_digit (digit_char d)"
  by (simp add: is_digit_def digit_char_def)

lemma digit_val_char [simp]: "d < 10 \<Longrightarrow> digit_val (digit_char d) = d"
  by (simp add: digit_val_def digit_char_def)

lemma nat_str_digits: "c \<in> set (nat_str n) \<Longrightarrow> is_digit c"
proof (induction n rule: nat_str.induct)
  case (1 n)
  then show ?case
    by (subst (asm) nat_str.simps) (auto split: if_splits)
qed

lemma nat_str_nonempty [simp]: "nat_str n \<noteq> []"
  by (subst nat_str.simps) simp

lemma nat_str_no_nul [simp]: "CHR 0x00 \<notin> set (nat_str n)"
  using nat_str_digits [of "CHR 0x00" n] by (auto simp: is_digit_def)

text \<open>Reading decimal digits back.\<close>

definition digits_val :: "string \<Rightarrow> nat" where
  "digits_val s = foldl (\<lambda>a c. 10 * a + digit_val c) 0 s"

lemma digits_val_snoc: "digits_val (s @ [c]) = 10 * digits_val s + digit_val c"
  by (simp add: digits_val_def)

lemma digits_val_nat_str [simp]: "digits_val (nat_str n) = n"
proof (induction n rule: nat_str.induct)
  case (1 n)
  show ?case
  proof (cases "n < 10")
    case True
    then show ?thesis by (simp add: nat_str.simps [of n] digits_val_def)
  next
    case False
    with 1 show ?thesis
      by (simp add: nat_str.simps [of n] digits_val_snoc)
  qed
qed

text \<open>
  \<open>std::stoi\<close>: skips white space, reads an optional sign and the longest run of digits; throws
  \<open>invalid_argument\<close> without a digit and \<open>out_of_range\<close> outside a 32 bit int.
\<close>

definition is_space :: "char \<Rightarrow> bool" where
  "is_space c \<longleftrightarrow> c = CHR '' '' \<or> (9 \<le> (of_char c :: nat) \<and> (of_char c :: nat) \<le> 13)"

definition stoi :: "string \<Rightarrow> fault + int" where
  "stoi s =
    (let t = dropWhile is_space s;
         neg = (t \<noteq> [] \<and> hd t = CHR ''-'');
         u = (if t \<noteq> [] \<and> (hd t = CHR ''-'' \<or> hd t = CHR ''+'') then tl t else t);
         ds = takeWhile is_digit u;
         v = (if neg then - int (digits_val ds) else int (digits_val ds))
     in if ds = [] then Inl InvalidArgument
        else if v < - (2 ^ 31) \<or> 2 ^ 31 \<le> v then Inl OutOfRange
        else Inr v)"

lemma is_digit_not_space: "is_digit c \<Longrightarrow> \<not> is_space c"
  by (auto simp: is_digit_def is_space_def)

lemma stoi_nat_str:
  assumes "n < 2 ^ 31"
  shows "stoi (nat_str n) = Inr (int n)"
proof -
  obtain c cs where c: "nat_str n = c # cs" and d: "is_digit c"
    using nat_str_digits [of _ n] nat_str_nonempty [of n]
    by (metis list.exhaust list.set_intros(1))
  have drop: "dropWhile is_space (nat_str n) = nat_str n"
    using c d by (simp add: is_digit_not_space)
  have sign: "hd (nat_str n) \<noteq> CHR ''-''" "hd (nat_str n) \<noteq> CHR ''+''"
    using c d by (auto simp: is_digit_def)
  have digits: "takeWhile is_digit (nat_str n) = nat_str n"
    using nat_str_digits by (simp add: takeWhile_eq_all_conv)
  show ?thesis
    using sign assms by (simp add: stoi_def Let_def drop digits)
qed

text \<open>
  \<open>sprintf\<close> into an array of \<open>n\<close> chars, which also holds the terminating NUL. C strings carry
  no NUL themselves.
\<close>

definition sprintf_fits :: "nat \<Rightarrow> string \<Rightarrow> bool" where
  "sprintf_fits n s \<longleftrightarrow> length s < n"

section \<open>Lists\<close>

lemma take_length_append [simp]: "take (length xs) (xs @ ys) = xs"
  by simp

lemma drop_length_append [simp]: "drop (length xs) (xs @ ys) = ys"
  by simp

lemma nth_append_at: "i = length xs \<Longrightarrow> (xs @ y # ys) ! i = y"
  by simp

lemma split_at:
  assumes "i + n \<le> length xs"
  shows "xs = take i xs @ take n (drop i xs) @ drop (i + n) xs"
  by (metis append_take_drop_id drop_drop add.commute)

lemma proper_prefix:
  assumes "xs @ ys = us @ vs" "length xs < length us"
  shows "\<exists>ms. us = xs @ ms \<and> ms \<noteq> []"
  using assms by (auto simp: append_eq_append_conv2)

end
