(* ===== verification/Bytes.thy ===== *)
theory Bytes
  imports Prelude
begin

text \<open>
  Memory access and byte order. A \<^typ>\<open>mem\<close> is what a pointer may touch; loads and stores past
  its end are \<open>None\<close>. Multi-byte accesses are those of the little-endian host the program runs
  on (x86-64), where unaligned access is allowed; \<open>ntohs\<close>, \<open>ntohl\<close> and \<open>be64toh\<close> reverse the
  bytes. The locale \<open>wire_codec\<close> is the interface the packet and buffer code uses: a field of
  fixed width in network order that is read back as it was written.
\<close>

section \<open>Loads and stores\<close>

definition load8 :: "mem \<Rightarrow> nat \<Rightarrow> byte option" where
  "load8 m i = (if i < length m then Some (m ! i) else None)"

definition load16 :: "mem \<Rightarrow> nat \<Rightarrow> 16 word option" where
  "load16 m i = do { b0 \<leftarrow> load8 m i; b1 \<leftarrow> load8 m (i + 1); Some (word_cat b1 b0) }"

definition load32 :: "mem \<Rightarrow> nat \<Rightarrow> 32 word option" where
  "load32 m i = do { lo \<leftarrow> load16 m i; hi \<leftarrow> load16 m (i + 2); Some (word_cat hi lo) }"

definition load64 :: "mem \<Rightarrow> nat \<Rightarrow> 64 word option" where
  "load64 m i = do { lo \<leftarrow> load32 m i; hi \<leftarrow> load32 m (i + 4); Some (word_cat hi lo) }"

text \<open>\<open>memcpy(dst, p + i, n)\<close>: the bytes read.\<close>

definition load_bytes :: "mem \<Rightarrow> nat \<Rightarrow> nat \<Rightarrow> byte list option" where
  "load_bytes m i n = (if i + n \<le> length m then Some (take n (drop i m)) else None)"

text \<open>\<open>memcpy(p + i, src, n)\<close> and \<open>std::copy\<close>: the memory after the write.\<close>

definition store_bytes :: "mem \<Rightarrow> nat \<Rightarrow> byte list \<Rightarrow> mem option" where
  "store_bytes m i bs =
    (if i + length bs \<le> length m then Some (take i m @ bs @ drop (i + length bs) m) else None)"

definition host16 :: "16 word \<Rightarrow> byte list" where
  "host16 x = [ucast x, ucast (drop_bit 8 x)]"

definition host32 :: "32 word \<Rightarrow> byte list" where
  "host32 x = host16 (ucast x) @ host16 (ucast (drop_bit 16 x))"

definition host64 :: "64 word \<Rightarrow> byte list" where
  "host64 x = host32 (ucast x) @ host32 (ucast (drop_bit 32 x))"

definition store16 :: "mem \<Rightarrow> nat \<Rightarrow> 16 word \<Rightarrow> mem option" where
  "store16 m i x = store_bytes m i (host16 x)"

definition store32 :: "mem \<Rightarrow> nat \<Rightarrow> 32 word \<Rightarrow> mem option" where
  "store32 m i x = store_bytes m i (host32 x)"

section \<open>Byte order\<close>

definition ntohs :: "16 word \<Rightarrow> 16 word" where
  "ntohs x = word_cat (ucast x :: byte) (ucast (drop_bit 8 x) :: byte)"

definition ntohl :: "32 word \<Rightarrow> 32 word" where
  "ntohl x = word_cat (ntohs (ucast x)) (ntohs (ucast (drop_bit 16 x)))"

definition be64toh :: "64 word \<Rightarrow> 64 word" where
  "be64toh x = word_cat (ntohl (ucast x)) (ntohl (ucast (drop_bit 32 x)))"

text \<open>The other direction reverses the same bytes.\<close>

definition htons :: "16 word \<Rightarrow> 16 word" where
  "htons = ntohs"

definition htonl :: "32 word \<Rightarrow> 32 word" where
  "htonl = ntohl"

definition htobe64 :: "64 word \<Rightarrow> 64 word" where
  "htobe64 = be64toh"

named_theorems byte_defs \<open>definitions of loads, stores and byte order\<close>

lemmas [byte_defs] = load16_def load32_def load64_def store16_def store32_def
  host16_def host32_def host64_def ntohs_def ntohl_def be64toh_def
  htons_def htonl_def htobe64_def

text \<open>Splitting a word and joining it again.\<close>

lemma cat_split16: "word_cat (ucast (drop_bit 8 x) :: byte) (ucast x :: byte) = (x :: 16 word)"
  by (rule bit_word_eqI) (auto simp: bit_simps)

lemma cat_split32:
  "word_cat (ucast (drop_bit 16 x) :: 16 word) (ucast x :: 16 word) = (x :: 32 word)"
  by (rule bit_word_eqI) (auto simp: bit_simps)

lemma cat_split64:
  "word_cat (ucast (drop_bit 32 x) :: 32 word) (ucast x :: 32 word) = (x :: 64 word)"
  by (rule bit_word_eqI) (auto simp: bit_simps)

lemma split_cat16 [simp]:
  "ucast (word_cat (a :: byte) (b :: byte) :: 16 word) = b"
  "ucast (drop_bit 8 (word_cat (a :: byte) (b :: byte) :: 16 word)) = a"
  by (rule bit_word_eqI, auto simp: bit_simps)+

lemma split_cat32 [simp]:
  "ucast (word_cat (a :: 16 word) (b :: 16 word) :: 32 word) = b"
  "ucast (drop_bit 16 (word_cat (a :: 16 word) (b :: 16 word) :: 32 word)) = a"
  by (rule bit_word_eqI, auto simp: bit_simps)+

lemma split_cat64 [simp]:
  "ucast (word_cat (a :: 32 word) (b :: 32 word) :: 64 word) = b"
  "ucast (drop_bit 32 (word_cat (a :: 32 word) (b :: 32 word) :: 64 word)) = a"
  by (rule bit_word_eqI, auto simp: bit_simps)+

lemma ntohs_ntohs [simp]: "ntohs (ntohs x) = x"
  by (simp add: ntohs_def cat_split16)

lemma ntohl_ntohl [simp]: "ntohl (ntohl x) = x"
  by (simp add: ntohl_def cat_split32)

lemma be64toh_be64toh [simp]: "be64toh (be64toh x) = x"
  by (simp add: be64toh_def cat_split64)

section \<open>Loads after stores\<close>

lemma length_host [simp]:
  "length (host16 x) = 2" "length (host32 y) = 4" "length (host64 z) = 8"
  by (simp_all add: host16_def host32_def host64_def)

lemma load8_append [simp]: "load8 (xs @ b # ys) (length xs) = Some b"
  by (simp add: load8_def)

lemma load16_host: "load16 (xs @ host16 x @ ys) (length xs) = Some x"
  by (simp add: load16_def load8_def host16_def nth_append cat_split16)

lemma load32_host: "load32 (xs @ host32 x @ ys) (length xs) = Some x"
proof -
  let ?lo = "host16 (ucast x)" and ?hi = "host16 (ucast (drop_bit 16 x))"
  have "load16 (xs @ ?lo @ (?hi @ ys)) (length xs) = Some (ucast x)"
    by (rule load16_host)
  moreover have "load16 ((xs @ ?lo) @ ?hi @ ys) (length (xs @ ?lo)) = Some (ucast (drop_bit 16 x))"
    by (rule load16_host)
  ultimately show ?thesis
    by (simp add: load32_def host32_def cat_split32)
qed

lemma load64_host: "load64 (xs @ host64 x @ ys) (length xs) = Some x"
proof -
  let ?lo = "host32 (ucast x)" and ?hi = "host32 (ucast (drop_bit 32 x))"
  have "load32 (xs @ ?lo @ (?hi @ ys)) (length xs) = Some (ucast x)"
    by (rule load32_host)
  moreover have "load32 ((xs @ ?lo) @ ?hi @ ys) (length (xs @ ?lo)) = Some (ucast (drop_bit 32 x))"
    by (rule load32_host)
  ultimately show ?thesis
    by (simp add: load64_def host64_def cat_split64)
qed

lemma load8_None [simp]: "load8 m i = None \<longleftrightarrow> length m \<le> i"
  by (simp add: load8_def)

lemma load16_eq:
  "load16 m i = (if i + 2 \<le> length m then Some (word_cat (m ! (i + 1)) (m ! i)) else None)"
  by (simp add: load16_def load8_def)

lemma load32_eq:
  "load32 m i =
    (if i + 4 \<le> length m
     then Some (word_cat (word_cat (m ! (i + 3)) (m ! (i + 2)) :: 16 word)
                         (word_cat (m ! (i + 1)) (m ! i) :: 16 word))
     else None)"
  by (simp add: load32_def load16_eq eval_nat_numeral)

lemma load16_None [simp]: "load16 m i = None \<longleftrightarrow> length m < i + 2"
  by (auto simp: load16_eq)

lemma load32_None [simp]: "load32 m i = None \<longleftrightarrow> length m < i + 4"
  by (auto simp: load32_eq)

lemma load_bytes_None [simp]: "load_bytes m i n = None \<longleftrightarrow> length m < i + n"
  by (auto simp: load_bytes_def)

lemma load_bytes_append [simp]: "load_bytes (xs @ bs @ ys) (length xs) (length bs) = Some bs"
  by (simp add: load_bytes_def)

lemma store_bytes_append:
  "length bs = length old \<Longrightarrow> store_bytes (xs @ old @ ys) (length xs) bs = Some (xs @ bs @ ys)"
  by (simp add: store_bytes_def)

lemma length_load_bytes: "load_bytes m i n = Some bs \<Longrightarrow> length bs = n"
  by (auto simp: load_bytes_def split: if_splits)

lemma length_store_bytes: "store_bytes m i bs = Some m' \<Longrightarrow> length m' = length m"
  by (auto simp: store_bytes_def split: if_splits)

section \<open>The codec interface\<close>

text \<open>
  What the serialising code relies on: a value of a fixed width is encoded to that many bytes,
  and a load at the position of the encoding gives the value back; a load that would leave the
  memory fails.
\<close>

locale wire_codec =
  fixes enc :: "'a \<Rightarrow> byte list" and dec :: "mem \<Rightarrow> nat \<Rightarrow> 'a option" and width :: nat
  assumes enc_width: "length (enc x) = width"
    and dec_enc: "dec (xs @ enc x @ ys) (length xs) = Some x"
    and dec_None: "dec m i = None \<longleftrightarrow> length m < i + width"
begin

lemma dec_at:
  assumes "drop i m = enc x @ ys" "i \<le> length m"
  shows "dec m i = Some x"
proof -
  have "m = take i m @ enc x @ ys" "length (take i m) = i"
    using assms by (simp_all flip: assms(1))
  then show ?thesis
    by (metis dec_enc)
qed

lemma enc_inject: "enc x = enc y \<longleftrightarrow> x = y"
  using dec_enc [of "[]" _ "[]"] by (metis option.inject)

lemma dec_Some: "i + width \<le> length m \<Longrightarrow> \<exists>x. dec m i = Some x"
  using dec_None [of m i] by (metis linorder_not_less option.exhaust)

lemma store_dec:
  assumes "store_bytes m i (enc x) = Some m'"
  shows "dec m' i = Some x"
proof -
  have "i + width \<le> length m" "m' = take i m @ enc x @ drop (i + width) m"
    using assms by (auto simp: store_bytes_def enc_width split: if_splits)
  moreover from this have "length (take i m) = i"
    by simp
  ultimately show ?thesis
    by (metis dec_enc)
qed

end

text \<open>The fields of this program: one byte, and 16, 32 and 64 bits in network order.\<close>

definition put8 :: "byte \<Rightarrow> byte list" where
  "put8 x = [x]"

definition put16 :: "16 word \<Rightarrow> byte list" where
  "put16 x = host16 (htons x)"

definition put32 :: "32 word \<Rightarrow> byte list" where
  "put32 x = host32 (htonl x)"

definition put64 :: "64 word \<Rightarrow> byte list" where
  "put64 x = host64 (htobe64 x)"

definition get16 :: "mem \<Rightarrow> nat \<Rightarrow> 16 word option" where
  "get16 m i = map_option ntohs (load16 m i)"

definition get32 :: "mem \<Rightarrow> nat \<Rightarrow> 32 word option" where
  "get32 m i = map_option ntohl (load32 m i)"

definition get64 :: "mem \<Rightarrow> nat \<Rightarrow> 64 word option" where
  "get64 m i = map_option be64toh (load64 m i)"

interpretation u8: wire_codec put8 load8 1
  by unfold_locales (auto simp: put8_def)

interpretation u16: wire_codec put16 get16 2
  by unfold_locales (auto simp: put16_def get16_def load16_host htons_def)

interpretation u32: wire_codec put32 get32 4
  by unfold_locales (auto simp: put32_def get32_def load32_host htonl_def)

interpretation u64: wire_codec put64 get64 8
proof unfold_locales
  fix m i
  show "get64 m i = None \<longleftrightarrow> length m < i + 8"
    by (cases "load32 m i"; cases "load32 m (i + 4)") (auto simp: get64_def load64_def load32_eq split: if_splits)
qed (auto simp: put64_def get64_def load64_host htobe64_def)

lemmas put_width [simp] = u8.enc_width u16.enc_width u32.enc_width u64.enc_width

text \<open>Network order spelled out: the most significant byte comes first.\<close>

lemma put16_big_endian: "put16 x = [ucast (drop_bit 8 x), ucast x]"
  by (simp add: put16_def host16_def htons_def ntohs_def)

lemma put32_big_endian: "put32 x = put16 (ucast (drop_bit 16 x)) @ put16 (ucast x)"
  by (simp add: put32_def put16_def host32_def htonl_def ntohl_def htons_def)

lemma get16_eq: "get16 m i = (if i + 2 \<le> length m then Some (word_cat (m ! i) (m ! (i + 1))) else None)"
  by (simp add: get16_def load16_eq ntohs_def)

end
