(* ===== verification/Muduo_Buffer.thy ===== *)
theory Muduo_Buffer
  imports Bytes
begin

text \<open>
  The network buffer, src/src/muduo/net/Buffer.h: a vector with a read and a write index. The
  state is the record \<open>Buffer\<close>; a pointer into the buffer is an index from \<open>begin()\<close>. A method
  that asserts, or that accesses the vector, returns an option: \<open>None\<close> is a failed \<open>assert\<close>, an
  access outside the vector, or a \<open>resize\<close> beyond the largest vector.

  The abstract value of a buffer is the list of its readable bytes, \<open>content\<close>. The invariant
  \<open>buf_inv\<close> orders the indices; under it every method is related to an operation on \<open>content\<close>.
  The locale \<open>byte_stream\<close> is the interface the server uses of it.
\<close>

section \<open>State\<close>

record Buffer =
  buffer :: "byte list"
  readerIndex :: nat
  writerIndex :: nat

definition kCheapPrepend :: nat where
  "kCheapPrepend = 8"

definition kInitialSize :: nat where
  "kInitialSize = 1024"

text \<open>\<open>vector::resize\<close>: the new elements are zero; the largest vector of bytes has \<open>2 ^ 63 - 1\<close>.\<close>

definition vector_resize :: "byte list \<Rightarrow> nat \<Rightarrow> byte list option" where
  "vector_resize v n = (if n < 2 ^ 63 then Some (take n v @ replicate (n - length v) 0) else None)"

definition Buffer_ctor :: "nat \<Rightarrow> Buffer option" where
  "Buffer_ctor initialSize = do {
     v \<leftarrow> vector_resize [] (kCheapPrepend + initialSize);
     Some \<lparr>buffer = v, readerIndex = kCheapPrepend, writerIndex = kCheapPrepend\<rparr> }"

text \<open>The first component is \<open>*this\<close>, the second \<open>rhs\<close>, before and after.\<close>

definition swap :: "Buffer \<Rightarrow> Buffer \<Rightarrow> Buffer \<times> Buffer" where
  "swap this rhs =
    (this\<lparr>buffer := buffer rhs, readerIndex := readerIndex rhs, writerIndex := writerIndex rhs\<rparr>,
     rhs\<lparr>buffer := buffer this, readerIndex := readerIndex this, writerIndex := writerIndex this\<rparr>)"

section \<open>Sizes and positions\<close>

definition readableBytes :: "Buffer \<Rightarrow> nat" where
  "readableBytes b = size_sub (writerIndex b) (readerIndex b)"

definition writableBytes :: "Buffer \<Rightarrow> nat" where
  "writableBytes b = size_sub (length (buffer b)) (writerIndex b)"

definition prependableBytes :: "Buffer \<Rightarrow> nat" where
  "prependableBytes b = readerIndex b"

definition peek :: "Buffer \<Rightarrow> nat" where
  "peek b = readerIndex b"

definition beginWrite :: "Buffer \<Rightarrow> nat" where
  "beginWrite b = writerIndex b"

text \<open>What may be accessed through the pointer \<open>peek()\<close>: the vector from there on.\<close>

definition peek_mem :: "Buffer \<Rightarrow> mem" where
  "peek_mem b = drop (peek b) (buffer b)"

section \<open>Searching\<close>

text \<open>
  \<open>std::search\<close> for a two-byte needle and \<open>memchr\<close>, over the bytes from \<open>start\<close> up to
  \<open>beginWrite()\<close>. \<open>kCRLF\<close> is declared in the header and defined elsewhere: a parameter.
\<close>

fun search2 :: "byte \<times> byte \<Rightarrow> byte list \<Rightarrow> nat option" where
  "search2 k (x # y # zs) = (if (x, y) = k then Some 0 else map_option Suc (search2 k (y # zs)))"
| "search2 k _ = None"

fun memchr :: "byte \<Rightarrow> byte list \<Rightarrow> nat option" where
  "memchr c [] = None"
| "memchr c (x # xs) = (if x = c then Some 0 else map_option Suc (memchr c xs))"

definition written_from :: "Buffer \<Rightarrow> nat \<Rightarrow> byte list" where
  "written_from b start = drop start (take (beginWrite b) (buffer b))"

definition findCRLF :: "byte \<times> byte \<Rightarrow> Buffer \<Rightarrow> nat option" where
  "findCRLF kCRLF b = map_option (\<lambda>i. peek b + i) (search2 kCRLF (written_from b (peek b)))"

text \<open>The outer option is the assertions on \<open>start\<close>, the inner one the NULL result.\<close>

definition findCRLF_start :: "byte \<times> byte \<Rightarrow> Buffer \<Rightarrow> nat \<Rightarrow> nat option option" where
  "findCRLF_start kCRLF b start =
    (if peek b \<le> start \<and> start \<le> beginWrite b
     then Some (map_option (\<lambda>i. start + i) (search2 kCRLF (written_from b start)))
     else None)"

definition findEOL :: "Buffer \<Rightarrow> nat option" where
  "findEOL b = map_option (\<lambda>i. peek b + i) (memchr 10 (written_from b (peek b)))"

definition findEOL_start :: "Buffer \<Rightarrow> nat \<Rightarrow> nat option option" where
  "findEOL_start b start =
    (if peek b \<le> start \<and> start \<le> beginWrite b
     then Some (map_option (\<lambda>i. start + i) (memchr 10 (written_from b start)))
     else None)"

section \<open>Consuming\<close>

definition retrieveAll :: "Buffer \<Rightarrow> Buffer" where
  "retrieveAll b = b\<lparr>readerIndex := kCheapPrepend, writerIndex := kCheapPrepend\<rparr>"

definition retrieve :: "Buffer \<Rightarrow> nat \<Rightarrow> Buffer option" where
  "retrieve b len =
    (if len \<le> readableBytes b
     then Some (if len < readableBytes b then b\<lparr>readerIndex := readerIndex b + len\<rparr>
                else retrieveAll b)
     else None)"

definition retrieveUntil :: "Buffer \<Rightarrow> nat \<Rightarrow> Buffer option" where
  "retrieveUntil b till =
    (if peek b \<le> till \<and> till \<le> beginWrite b then retrieve b (till - peek b) else None)"

definition retrieveInt64 :: "Buffer \<Rightarrow> Buffer option" where
  "retrieveInt64 b = retrieve b 8"

definition retrieveInt32 :: "Buffer \<Rightarrow> Buffer option" where
  "retrieveInt32 b = retrieve b 4"

definition retrieveInt16 :: "Buffer \<Rightarrow> Buffer option" where
  "retrieveInt16 b = retrieve b 2"

definition retrieveInt8 :: "Buffer \<Rightarrow> Buffer option" where
  "retrieveInt8 b = retrieve b 1"

definition retrieveAsString :: "Buffer \<Rightarrow> nat \<Rightarrow> (byte list \<times> Buffer) option" where
  "retrieveAsString b len =
    (if len \<le> readableBytes b
     then do { result \<leftarrow> load_bytes (peek_mem b) 0 len; b \<leftarrow> retrieve b len; Some (result, b) }
     else None)"

definition retrieveAllAsString :: "Buffer \<Rightarrow> (byte list \<times> Buffer) option" where
  "retrieveAllAsString b = retrieveAsString b (readableBytes b)"

text \<open>
  A \<open>StringPiece\<close> is a pointer and an \<open>int\<close> length: the static cast keeps the low 32 bits, and
  \<open>append\<close> converts the length back to \<open>size_t\<close>.
\<close>

definition int_of_size :: "nat \<Rightarrow> int" where
  "int_of_size n = sint (word_of_nat n :: 32 word)"

definition size_of_int :: "int \<Rightarrow> nat" where
  "size_of_int i = nat (i mod 2 ^ 64)"

definition toStringPiece :: "Buffer \<Rightarrow> mem \<times> int" where
  "toStringPiece b = (peek_mem b, int_of_size (readableBytes b))"

section \<open>Producing\<close>

definition makeSpace :: "Buffer \<Rightarrow> nat \<Rightarrow> Buffer option" where
  "makeSpace b len =
    (if writableBytes b + prependableBytes b < len + kCheapPrepend
     then do { v \<leftarrow> vector_resize (buffer b) (writerIndex b + len); Some (b\<lparr>buffer := v\<rparr>) }
     else if kCheapPrepend < readerIndex b
     then do {
       let readable = readableBytes b;
       src \<leftarrow> load_bytes (buffer b) (readerIndex b) readable;
       v \<leftarrow> store_bytes (buffer b) kCheapPrepend src;
       let b = b\<lparr>buffer := v, readerIndex := kCheapPrepend,
                 writerIndex := kCheapPrepend + readable\<rparr>;
       if readable = readableBytes b then Some b else None }
     else None)"

definition ensureWritableBytes :: "Buffer \<Rightarrow> nat \<Rightarrow> Buffer option" where
  "ensureWritableBytes b len = do {
     b \<leftarrow> (if writableBytes b < len then makeSpace b len else Some b);
     if len \<le> writableBytes b then Some b else None }"

definition hasWritten :: "Buffer \<Rightarrow> nat \<Rightarrow> Buffer option" where
  "hasWritten b len =
    (if len \<le> writableBytes b then Some (b\<lparr>writerIndex := writerIndex b + len\<rparr>) else None)"

definition unwrite :: "Buffer \<Rightarrow> nat \<Rightarrow> Buffer option" where
  "unwrite b len =
    (if len \<le> readableBytes b then Some (b\<lparr>writerIndex := size_sub (writerIndex b) len\<rparr>) else None)"

text \<open>\<open>append(data, len)\<close>: \<open>data\<close> points to \<open>m\<close>.\<close>

definition append_mem :: "Buffer \<Rightarrow> mem \<Rightarrow> nat \<Rightarrow> Buffer option" where
  "append_mem b m len = do {
     b \<leftarrow> ensureWritableBytes b len;
     d \<leftarrow> load_bytes m 0 len;
     v \<leftarrow> store_bytes (buffer b) (beginWrite b) d;
     hasWritten (b\<lparr>buffer := v\<rparr>) len }"

definition append_bytes :: "Buffer \<Rightarrow> byte list \<Rightarrow> Buffer option" where
  "append_bytes b d = append_mem b d (length d)"

definition append_piece :: "Buffer \<Rightarrow> mem \<times> int \<Rightarrow> Buffer option" where
  "append_piece b piece = append_mem b (fst piece) (size_of_int (snd piece))"

definition prepend :: "Buffer \<Rightarrow> byte list \<Rightarrow> Buffer option" where
  "prepend b d =
    (if length d \<le> prependableBytes b
     then do {
       let b = b\<lparr>readerIndex := size_sub (readerIndex b) (length d)\<rparr>;
       v \<leftarrow> store_bytes (buffer b) (readerIndex b) d;
       Some (b\<lparr>buffer := v\<rparr>) }
     else None)"

definition shrink :: "Buffer \<Rightarrow> nat \<Rightarrow> Buffer option" where
  "shrink b reserve = do {
     other \<leftarrow> Buffer_ctor kInitialSize;
     other \<leftarrow> ensureWritableBytes other (readableBytes b + reserve);
     other \<leftarrow> append_piece other (toStringPiece b);
     Some (fst (swap b other)) }"

section \<open>Integers in network order\<close>

definition appendInt64 :: "Buffer \<Rightarrow> 64 word \<Rightarrow> Buffer option" where
  "appendInt64 b x = append_bytes b (host64 (htobe64 x))"

definition appendInt32 :: "Buffer \<Rightarrow> 32 word \<Rightarrow> Buffer option" where
  "appendInt32 b x = append_bytes b (host32 (htonl x))"

definition appendInt16 :: "Buffer \<Rightarrow> 16 word \<Rightarrow> Buffer option" where
  "appendInt16 b x = append_bytes b (host16 (htons x))"

definition appendInt8 :: "Buffer \<Rightarrow> byte \<Rightarrow> Buffer option" where
  "appendInt8 b x = append_bytes b [x]"

definition peekInt64 :: "Buffer \<Rightarrow> 64 word option" where
  "peekInt64 b = (if 8 \<le> readableBytes b then map_option be64toh (load64 (peek_mem b) 0) else None)"

definition peekInt32 :: "Buffer \<Rightarrow> 32 word option" where
  "peekInt32 b = (if 4 \<le> readableBytes b then map_option ntohl (load32 (peek_mem b) 0) else None)"

definition peekInt16 :: "Buffer \<Rightarrow> 16 word option" where
  "peekInt16 b = (if 2 \<le> readableBytes b then map_option ntohs (load16 (peek_mem b) 0) else None)"

definition peekInt8 :: "Buffer \<Rightarrow> byte option" where
  "peekInt8 b = (if 1 \<le> readableBytes b then load8 (peek_mem b) 0 else None)"

definition readInt64 :: "Buffer \<Rightarrow> (64 word \<times> Buffer) option" where
  "readInt64 b = do { x \<leftarrow> peekInt64 b; b \<leftarrow> retrieveInt64 b; Some (x, b) }"

definition readInt32 :: "Buffer \<Rightarrow> (32 word \<times> Buffer) option" where
  "readInt32 b = do { x \<leftarrow> peekInt32 b; b \<leftarrow> retrieveInt32 b; Some (x, b) }"

definition readInt16 :: "Buffer \<Rightarrow> (16 word \<times> Buffer) option" where
  "readInt16 b = do { x \<leftarrow> peekInt16 b; b \<leftarrow> retrieveInt16 b; Some (x, b) }"

definition readInt8 :: "Buffer \<Rightarrow> (byte \<times> Buffer) option" where
  "readInt8 b = do { x \<leftarrow> peekInt8 b; b \<leftarrow> retrieveInt8 b; Some (x, b) }"

definition prependInt64 :: "Buffer \<Rightarrow> 64 word \<Rightarrow> Buffer option" where
  "prependInt64 b x = prepend b (host64 (htobe64 x))"

definition prependInt32 :: "Buffer \<Rightarrow> 32 word \<Rightarrow> Buffer option" where
  "prependInt32 b x = prepend b (host32 (htonl x))"

definition prependInt16 :: "Buffer \<Rightarrow> 16 word \<Rightarrow> Buffer option" where
  "prependInt16 b x = prepend b (host16 (htons x))"

definition prependInt8 :: "Buffer \<Rightarrow> byte \<Rightarrow> Buffer option" where
  "prependInt8 b x = prepend b [x]"

section \<open>Invariant and abstract value\<close>

definition buf_inv :: "Buffer \<Rightarrow> bool" where
  "buf_inv b \<longleftrightarrow> readerIndex b \<le> writerIndex b \<and> writerIndex b \<le> length (buffer b)
     \<and> kCheapPrepend \<le> length (buffer b) \<and> length (buffer b) < 2 ^ 63"

definition content :: "Buffer \<Rightarrow> byte list" where
  "content b = take (writerIndex b - readerIndex b) (drop (readerIndex b) (buffer b))"

named_theorems buf_simps \<open>sizes of a buffer that satisfies the invariant\<close>

lemma buf_invD:
  assumes "buf_inv b"
  shows "readerIndex b \<le> writerIndex b" "writerIndex b \<le> length (buffer b)"
    "8 \<le> length (buffer b)" "length (buffer b) < 2 ^ 63"
  using assms by (simp_all add: buf_inv_def kCheapPrepend_def)

lemma readableBytes_inv [buf_simps]:
  "buf_inv b \<Longrightarrow> readableBytes b = writerIndex b - readerIndex b"
  by (simp add: readableBytes_def size_sub_ge buf_inv_def)

lemma writableBytes_inv [buf_simps]:
  "buf_inv b \<Longrightarrow> writableBytes b = length (buffer b) - writerIndex b"
  by (simp add: writableBytes_def size_sub_ge buf_inv_def)

lemma length_content: "buf_inv b \<Longrightarrow> length (content b) = readableBytes b"
  by (auto simp: content_def buf_simps dest: buf_invD)

lemma content_empty_iff: "buf_inv b \<Longrightarrow> content b = [] \<longleftrightarrow> readableBytes b = 0"
  by (metis length_content length_0_conv)

lemma peek_mem_content:
  assumes "buf_inv b"
  shows "peek_mem b = content b @ drop (writerIndex b) (buffer b)"
proof -
  let ?d = "drop (readerIndex b) (buffer b)" and ?n = "writerIndex b - readerIndex b"
  have "drop ?n ?d = drop (writerIndex b) (buffer b)"
    using buf_invD(1) [OF assms] by simp
  then show ?thesis
    by (metis append_take_drop_id content_def peek_def peek_mem_def)
qed

lemma written_from_content: "buf_inv b \<Longrightarrow> written_from b (peek b) = content b"
  by (simp add: written_from_def peek_def beginWrite_def content_def drop_take)

lemma buffer_split:
  assumes "buf_inv b"
  shows "buffer b = take (readerIndex b) (buffer b) @ content b @ drop (writerIndex b) (buffer b)"
  using peek_mem_content [OF assms] by (metis append_take_drop_id peek_def peek_mem_def)

lemma vector_resize_Some:
  "vector_resize v n = Some v' \<longleftrightarrow> n < 2 ^ 63 \<and> v' = take n v @ replicate (n - length v) 0"
  by (auto simp: vector_resize_def)

section \<open>Consuming drops a prefix of the content\<close>

lemma retrieveAll_inv: "buf_inv b \<Longrightarrow> buf_inv (retrieveAll b)"
  by (simp add: retrieveAll_def buf_inv_def)

lemma retrieveAll_content [simp]: "content (retrieveAll b) = []"
  by (simp add: retrieveAll_def content_def)

lemma retrieve_ok:
  assumes "buf_inv b" "len \<le> length (content b)"
  shows "\<exists>b'. retrieve b len = Some b' \<and> buf_inv b' \<and> content b' = drop len (content b)"
proof (cases "len < readableBytes b")
  case True
  let ?b = "b\<lparr>readerIndex := readerIndex b + len\<rparr>"
  have "buf_inv ?b" "content ?b = drop len (content b)"
    using True assms(1) by (auto simp: buf_inv_def content_def drop_take add.commute buf_simps)
  then show ?thesis
    using True by (simp add: retrieve_def)
next
  case False
  then have "len = length (content b)"
    using assms by (simp add: length_content)
  then show ?thesis
    using False assms retrieveAll_inv by (simp add: retrieve_def length_content)
qed

lemma retrieve_None: "buf_inv b \<Longrightarrow> retrieve b len = None \<longleftrightarrow> length (content b) < len"
  by (auto simp: retrieve_def length_content)

lemma retrieveAsString_ok:
  assumes "buf_inv b" "len \<le> length (content b)"
  shows "\<exists>b'. retrieveAsString b len = Some (take len (content b), b') \<and> buf_inv b'
           \<and> content b' = drop len (content b)"
proof -
  obtain b' where b': "retrieve b len = Some b'" "buf_inv b'" "content b' = drop len (content b)"
    using retrieve_ok [OF assms] by blast
  moreover have "load_bytes (peek_mem b) 0 len = Some (take len (content b))"
    using assms by (simp add: load_bytes_def peek_mem_content)
  ultimately show ?thesis
    using assms by (simp add: retrieveAsString_def length_content)
qed

lemma unwrite_ok:
  assumes "buf_inv b" "len \<le> length (content b)"
  shows "\<exists>b'. unwrite b len = Some b' \<and> buf_inv b'
           \<and> content b' = take (length (content b) - len) (content b)"
proof -
  let ?b = "b\<lparr>writerIndex := writerIndex b - len\<rparr>"
  have len: "len \<le> writerIndex b - readerIndex b"
    using assms by (simp add: length_content buf_simps)
  then have "size_sub (writerIndex b) len = writerIndex b - len"
    using assms(1) by (auto simp: buf_inv_def intro!: size_sub_ge)
  then have "unwrite b len = Some ?b"
    using len assms(1) by (simp add: unwrite_def buf_simps)
  moreover have "buf_inv ?b"
    using assms(1) len by (auto simp: buf_inv_def)
  moreover have "content ?b = take (length (content b) - len) (content b)"
  proof -
    have "length (content b) = writerIndex b - readerIndex b"
      using assms(1) by (simp add: length_content buf_simps)
    then show ?thesis
      unfolding content_def [of ?b] content_def [of b] by (simp add: min_def add.commute)
  qed
  ultimately show ?thesis
    by (intro exI [of _ ?b]) simp
qed

section \<open>Producing extends the content\<close>

text \<open>
  The assertion of \<open>makeSpace\<close> before it moves the readable bytes to the front always holds
  where it is reached from \<open>ensureWritableBytes\<close>.
\<close>

lemma makeSpace_ok:
  assumes inv: "buf_inv b" and need: "writableBytes b < len" and room: "writerIndex b + len < 2 ^ 63"
  shows "\<exists>b'. makeSpace b len = Some b' \<and> buf_inv b' \<and> content b' = content b
           \<and> len \<le> writableBytes b' \<and> writerIndex b' \<le> max 8 (writerIndex b)"
proof (cases "writableBytes b + prependableBytes b < len + kCheapPrepend")
  case True
  let ?v = "buffer b @ replicate (writerIndex b + len - length (buffer b)) 0"
  let ?b = "b\<lparr>buffer := ?v\<rparr>"
  have grow: "length (buffer b) < writerIndex b + len"
    using need inv buf_invD(2) [OF inv] by (simp add: buf_simps)
  then have "makeSpace b len = Some ?b" and len: "length ?v = writerIndex b + len"
    using True room by (simp_all add: makeSpace_def vector_resize_def)
  moreover have inv': "buf_inv ?b" and "content ?b = content b"
    using inv grow room len by (auto simp: buf_inv_def content_def)
  moreover have "len \<le> writableBytes ?b"
    using inv' len by (simp add: buf_simps)
  ultimately show ?thesis
    by (intro exI [of _ ?b]) simp
next
  case False
  let ?r = "readableBytes b" and ?v = "take 8 (buffer b) @ content b @ drop (8 + readableBytes b) (buffer b)"
  let ?b = "b\<lparr>buffer := ?v, readerIndex := 8, writerIndex := 8 + ?r\<rparr>"
  note D = buf_invD [OF inv]
  have r: "?r = writerIndex b - readerIndex b" and w: "writableBytes b = length (buffer b) - writerIndex b"
    using inv by (simp_all add: buf_simps)
  have rd: "8 < readerIndex b"
    using False need by (simp add: prependableBytes_def kCheapPrepend_def)
  have c: "length (content b) = ?r"
    using inv by (rule length_content)
  have fits: "8 + ?r \<le> length (buffer b)"
    using D rd r by simp
  have "load_bytes (buffer b) (readerIndex b) ?r = Some (content b)"
    using D r by (simp add: load_bytes_def content_def)
  moreover have "store_bytes (buffer b) 8 (content b) = Some ?v"
    using fits c by (simp add: store_bytes_def)
  moreover have v: "length ?v = length (buffer b)"
    using fits c D by simp
  have inv': "buf_inv ?b"
    using v fits D by (simp add: buf_inv_def kCheapPrepend_def)
  moreover have "readableBytes ?b = ?r"
    using inv' by (simp add: buf_simps)
  moreover have "content ?b = content b"
    unfolding content_def [of ?b] using D(3) by (simp add: c)
  moreover have "len \<le> writableBytes ?b" "writerIndex ?b \<le> max 8 (writerIndex b)"
    using inv' v False D r w rd
    by (simp_all add: buf_simps kCheapPrepend_def prependableBytes_def)
  ultimately show ?thesis
    using False rd by (simp add: makeSpace_def kCheapPrepend_def Let_def)
qed

lemma ensureWritableBytes_ok:
  assumes "buf_inv b" "writerIndex b + len < 2 ^ 63"
  shows "\<exists>b'. ensureWritableBytes b len = Some b' \<and> buf_inv b' \<and> content b' = content b
           \<and> len \<le> writableBytes b' \<and> writerIndex b' \<le> max 8 (writerIndex b)"
proof (cases "writableBytes b < len")
  case True
  then show ?thesis
    using makeSpace_ok [OF assms(1) True assms(2)] by (auto simp: ensureWritableBytes_def)
next
  case False
  then show ?thesis
    using assms(1) by (simp add: ensureWritableBytes_def)
qed

lemma append_mem_ok:
  assumes "buf_inv b" "writerIndex b + len < 2 ^ 63" "len \<le> length m"
  shows "\<exists>b'. append_mem b m len = Some b' \<and> buf_inv b' \<and> content b' = content b @ take len m
           \<and> writerIndex b' \<le> max 8 (writerIndex b) + len"
proof -
  obtain c where c: "ensureWritableBytes b len = Some c" "buf_inv c" "content c = content b"
    "len \<le> writableBytes c" "writerIndex c \<le> max 8 (writerIndex b)"
    using ensureWritableBytes_ok [OF assms(1,2)] by blast
  note D = buf_invD [OF c(2)]
  let ?v = "take (writerIndex c) (buffer c) @ take len m @ drop (writerIndex c + len) (buffer c)"
  let ?c = "c\<lparr>buffer := ?v\<rparr>"
  let ?b = "?c\<lparr>writerIndex := writerIndex c + len\<rparr>"
  have room: "writerIndex c + len \<le> length (buffer c)"
    using c(2,4) D by (simp add: buf_simps)
  have v: "length ?v = length (buffer c)"
    using room assms(3) D by simp
  have "buf_inv ?c"
    using v D by (simp add: buf_inv_def kCheapPrepend_def)
  then have "len \<le> writableBytes ?c"
    using v room by (simp add: buf_simps)
  then have "append_mem b m len = Some ?b"
    using c(1) room assms(3)
    by (simp add: append_mem_def load_bytes_def store_bytes_def beginWrite_def hasWritten_def)
  moreover have "buf_inv ?b"
    using v room D by (simp add: buf_inv_def kCheapPrepend_def)
  moreover have "content ?b = content b @ take len m"
  proof -
    have "drop (readerIndex c) ?v = content c @ take len m @ drop (writerIndex c + len) (buffer c)"
      using D room by (simp add: content_def drop_take)
    moreover have "length (content c) + len = writerIndex c + len - readerIndex c"
      using D c(2) by (simp add: length_content buf_simps)
    ultimately have "content ?b = take (length (content c) + len)
        (content c @ take len m @ drop (writerIndex c + len) (buffer c))"
      unfolding content_def [of ?b] by simp
    then show ?thesis
      using assms(3) c(3) by simp
  qed
  ultimately show ?thesis
    using c(5) by (intro exI [of _ ?b]) simp
qed

lemma append_bytes_ok:
  assumes "buf_inv b" "writerIndex b + length d < 2 ^ 63"
  shows "\<exists>b'. append_bytes b d = Some b' \<and> buf_inv b' \<and> content b' = content b @ d"
  using append_mem_ok [OF assms, of d] by (auto simp: append_bytes_def)

lemma prepend_ok:
  assumes "buf_inv b" "length d \<le> readerIndex b"
  shows "\<exists>b'. prepend b d = Some b' \<and> buf_inv b' \<and> content b' = d @ content b"
proof -
  note D = buf_invD [OF assms(1)]
  let ?i = "readerIndex b - length d"
  let ?v = "take ?i (buffer b) @ d @ drop (readerIndex b) (buffer b)"
  let ?b = "b\<lparr>buffer := ?v, readerIndex := ?i\<rparr>"
  have i: "size_sub (readerIndex b) (length d) = ?i"
    using D assms(2) by (intro size_sub_ge) auto
  have "prepend b d = Some ?b"
    using D assms(2) i by (simp add: prepend_def prependableBytes_def store_bytes_def)
  moreover have "length ?v = length (buffer b)"
    using D assms(2) by simp
  then have "buf_inv ?b"
    using D assms(2) by (simp add: buf_inv_def kCheapPrepend_def)
  moreover have "content ?b = d @ content b"
    using D assms(2) by (simp add: content_def)
  ultimately show ?thesis
    by (intro exI [of _ ?b]) simp
qed

lemma Buffer_ctor_ok:
  assumes "n + 8 < 2 ^ 63"
  shows "\<exists>b. Buffer_ctor n = Some b \<and> buf_inv b \<and> content b = [] \<and> readerIndex b = 8
           \<and> writerIndex b = 8 \<and> writableBytes b = n"
proof -
  let ?b = "\<lparr>buffer = replicate (8 + n) 0, readerIndex = 8, writerIndex = 8\<rparr>"
  have "Buffer_ctor n = Some ?b" "buf_inv ?b"
    using assms by (simp_all add: Buffer_ctor_def vector_resize_def kCheapPrepend_def buf_inv_def)
  then show ?thesis
    by (intro exI [of _ ?b]) (simp add: content_def buf_simps)
qed

section \<open>The byte stream interface\<close>

text \<open>
  What a reader of the network relies on: a buffer holds the bytes that arrived and were not
  consumed, in order. \<open>room b n\<close> says that \<open>n\<close> more bytes can be stored.
\<close>

locale byte_stream =
  fixes inv :: "'b \<Rightarrow> bool" and bytes :: "'b \<Rightarrow> byte list" and room :: "'b \<Rightarrow> nat \<Rightarrow> bool"
    and append :: "'b \<Rightarrow> byte list \<Rightarrow> 'b option" and consume :: "'b \<Rightarrow> nat \<Rightarrow> 'b option"
    and clear :: "'b \<Rightarrow> 'b"
  assumes append_some: "inv b \<Longrightarrow> room b (length d) \<Longrightarrow>
      \<exists>b'. append b d = Some b' \<and> inv b' \<and> bytes b' = bytes b @ d"
    and consume_some: "inv b \<Longrightarrow> n \<le> length (bytes b) \<Longrightarrow>
      \<exists>b'. consume b n = Some b' \<and> inv b' \<and> bytes b' = drop n (bytes b)"
    and consume_none: "inv b \<Longrightarrow> length (bytes b) < n \<Longrightarrow> consume b n = None"
    and clear_inv: "inv b \<Longrightarrow> inv (clear b)"
    and clear_bytes: "inv b \<Longrightarrow> bytes (clear b) = []"
begin

lemma consumeD:
  assumes "inv b" "consume b n = Some b'"
  shows "n \<le> length (bytes b)" "inv b'" "bytes b' = drop n (bytes b)"
proof -
  show "n \<le> length (bytes b)"
    using assms consume_none [of b n] by (metis linorder_not_less option.distinct(1))
  from consume_some [OF assms(1) this] assms(2) show "inv b'" "bytes b' = drop n (bytes b)"
    by auto
qed

lemma consume_prefix:
  assumes "inv b" "bytes b = p @ r"
  shows "\<exists>b'. consume b (length p) = Some b' \<and> inv b' \<and> bytes b' = r"
  using consume_some [OF assms(1), of "length p"] assms(2) by simp

lemma append_consume:
  assumes "inv b" "room b (length d)" "append b d = Some b1" "consume b1 (length (bytes b)) = Some b2"
  shows "bytes b2 = d"
proof -
  have "inv b1" "bytes b1 = bytes b @ d"
    using append_some [OF assms(1,2)] assms(3) by auto
  then show ?thesis
    using consumeD(3) [OF _ assms(4)] by simp
qed

lemma consume_consume:
  assumes "inv b" "consume b n = Some b1" "consume b1 k = Some b2"
  shows "bytes b2 = drop (n + k) (bytes b)"
  using consumeD [OF assms(1,2)] consumeD(3) [OF _ assms(3)] by (simp add: add.commute)

end

definition room_for :: "Buffer \<Rightarrow> nat \<Rightarrow> bool" where
  "room_for b n \<longleftrightarrow> writerIndex b + n < 2 ^ 63"

interpretation buf: byte_stream buf_inv content room_for append_bytes retrieve retrieveAll
proof unfold_locales
  fix b :: Buffer and d :: "byte list"
  assume "buf_inv b" "room_for b (length d)"
  then show "\<exists>b'. append_bytes b d = Some b' \<and> buf_inv b' \<and> content b' = content b @ d"
    by (simp add: append_bytes_ok room_for_def)
qed (simp_all add: retrieve_ok retrieve_None retrieveAll_inv)

section \<open>Integers are read back as they were written\<close>

context wire_codec
begin

lemma decode_front:
  assumes "buf_inv b" "content b = enc x @ ys"
  shows "width \<le> readableBytes b" "dec (peek_mem b) 0 = Some x"
    "\<exists>b'. retrieve b width = Some b' \<and> buf_inv b' \<and> content b' = ys"
proof -
  show "width \<le> readableBytes b"
    using assms length_content [OF assms(1)] by (simp add: enc_width)
  show "dec (peek_mem b) 0 = Some x"
    using assms by (intro dec_at) (simp_all add: peek_mem_content)
  show "\<exists>b'. retrieve b width = Some b' \<and> buf_inv b' \<and> content b' = ys"
    using buf.consume_prefix [OF assms] by (simp add: enc_width)
qed

end

lemmas int_defs = readInt64_def readInt32_def readInt16_def readInt8_def
  peekInt64_def peekInt32_def peekInt16_def peekInt8_def
  retrieveInt64_def retrieveInt32_def retrieveInt16_def retrieveInt8_def

lemma readInt64_front:
  assumes "buf_inv b" "content b = put64 x @ ys"
  shows "\<exists>b'. readInt64 b = Some (x, b') \<and> buf_inv b' \<and> content b' = ys"
  using u64.decode_front [OF assms] by (auto simp: int_defs get64_def)

lemma readInt32_front:
  assumes "buf_inv b" "content b = put32 x @ ys"
  shows "\<exists>b'. readInt32 b = Some (x, b') \<and> buf_inv b' \<and> content b' = ys"
  using u32.decode_front [OF assms] by (auto simp: int_defs get32_def)

lemma readInt16_front:
  assumes "buf_inv b" "content b = put16 x @ ys"
  shows "\<exists>b'. readInt16 b = Some (x, b') \<and> buf_inv b' \<and> content b' = ys"
  using u16.decode_front [OF assms] by (auto simp: int_defs get16_def)

lemma readInt8_front:
  assumes "buf_inv b" "content b = put8 x @ ys"
  shows "\<exists>b'. readInt8 b = Some (x, b') \<and> buf_inv b' \<and> content b' = ys"
  using u8.decode_front [OF assms] by (auto simp: int_defs)

lemma append_int_bytes:
  "appendInt64 b w = append_bytes b (put64 w)" "appendInt32 b x = append_bytes b (put32 x)"
  "appendInt16 b y = append_bytes b (put16 y)" "appendInt8 b z = append_bytes b (put8 z)"
  by (simp_all add: appendInt64_def appendInt32_def appendInt16_def appendInt8_def
      put64_def put32_def put16_def put8_def)

lemma prepend_int_bytes:
  "prependInt64 b w = prepend b (put64 w)" "prependInt32 b x = prepend b (put32 x)"
  "prependInt16 b y = prepend b (put16 y)" "prependInt8 b z = prepend b (put8 z)"
  by (simp_all add: prependInt64_def prependInt32_def prependInt16_def prependInt8_def
      put64_def put32_def put16_def put8_def)

section \<open>Searching finds the first occurrence\<close>

lemma search2_Some:
  "search2 k xs = Some i \<longleftrightarrow>
    i + 1 < length xs \<and> (xs ! i, xs ! (i + 1)) = k \<and> (\<forall>j < i. (xs ! j, xs ! (j + 1)) \<noteq> k)"
proof (induction k xs arbitrary: i rule: search2.induct)
  case (1 k x y zs)
  show ?case
  proof (cases i)
    case 0
    then show ?thesis by auto
  next
    case (Suc j)
    have "(\<forall>l < Suc j. ((x # y # zs) ! l, (y # zs) ! l) \<noteq> k) \<longleftrightarrow>
        (x, y) \<noteq> k \<and> (\<forall>l < j. ((y # zs) ! l, zs ! l) \<noteq> k)"
      by (auto simp: less_Suc_eq_0_disj)
    then show ?thesis
      using 1 [of j] Suc by auto
  qed
qed auto

lemma search2_None:
  "search2 k xs = None \<longleftrightarrow> (\<forall>j. j + 1 < length xs \<longrightarrow> (xs ! j, xs ! (j + 1)) \<noteq> k)"
proof (induction k xs rule: search2.induct)
  case (1 k x y zs)
  have "(\<forall>l. l < Suc (length zs) \<longrightarrow> ((x # y # zs) ! l, (y # zs) ! l) \<noteq> k) \<longleftrightarrow>
      (x, y) \<noteq> k \<and> (\<forall>l. l < length zs \<longrightarrow> ((y # zs) ! l, zs ! l) \<noteq> k)"
    by (metis (no_types, lifting) Suc_less_eq not0_implies_Suc nth_Cons_0 nth_Cons_Suc zero_less_Suc)
  then show ?case
    using 1 by auto
qed auto

lemma memchr_Some: "memchr c xs = Some i \<longleftrightarrow> i < length xs \<and> xs ! i = c \<and> c \<notin> set (take i xs)"
proof (induction xs arbitrary: i)
  case (Cons x xs)
  then show ?case by (cases i) auto
qed simp

section \<open>Shrinking keeps the content\<close>

lemma int_of_size_small: "n < 2 ^ 31 \<Longrightarrow> size_of_int (int_of_size n) = n"
  by (simp add: size_of_int_def int_of_size_def signed_of_nat signed_take_bit_int_eq_self)

lemma shrink_ok:
  assumes "buf_inv b" "length (content b) < 2 ^ 31" "reserve < 2 ^ 62"
  shows "\<exists>b'. shrink b reserve = Some b' \<and> buf_inv b' \<and> content b' = content b"
proof -
  let ?n = "readableBytes b"
  have n: "?n = length (content b)" and small: "?n < 2 ^ 31"
    using assms by (simp_all add: length_content)
  obtain o1 where o1: "Buffer_ctor kInitialSize = Some o1" "buf_inv o1" "content o1 = []"
    "writerIndex o1 = 8"
    using Buffer_ctor_ok [of kInitialSize] by (auto simp: kInitialSize_def)
  obtain o2 where o2: "ensureWritableBytes o1 (?n + reserve) = Some o2" "buf_inv o2" "content o2 = []"
    "writerIndex o2 \<le> 8"
    using ensureWritableBytes_ok [OF o1(2), of "?n + reserve"] o1 small assms(3) by auto
  have mem: "?n \<le> length (peek_mem b)" "take ?n (peek_mem b) = content b"
    using assms(1) n by (simp_all add: peek_mem_content)
  obtain o3 where o3: "append_mem o2 (peek_mem b) ?n = Some o3" "buf_inv o3" "content o3 = content b"
    using append_mem_ok [OF o2(2) _ mem(1)] o2(3,4) small mem(2) by auto
  have "shrink b reserve = Some (fst (swap b o3))"
    using o1(1) o2(1) o3(1) small
    by (simp add: shrink_def append_piece_def toStringPiece_def int_of_size_small)
  moreover have "fst (swap b o3) = o3"
    by (simp add: swap_def)
  ultimately show ?thesis
    using o3 by simp
qed

section \<open>Properties\<close>

text \<open>Integers of the four widths, written and read in a row.\<close>

datatype wire_int = I8 byte | I16 "16 word" | I32 "32 word" | I64 "64 word"

fun wire_bytes :: "wire_int \<Rightarrow> byte list" where
  "wire_bytes (I8 w) = put8 w"
| "wire_bytes (I16 w) = put16 w"
| "wire_bytes (I32 w) = put32 w"
| "wire_bytes (I64 w) = put64 w"

fun append_int :: "Buffer \<Rightarrow> wire_int \<Rightarrow> Buffer option" where
  "append_int b (I8 w) = appendInt8 b w"
| "append_int b (I16 w) = appendInt16 b w"
| "append_int b (I32 w) = appendInt32 b w"
| "append_int b (I64 w) = appendInt64 b w"

text \<open>Reading an integer of the same width as the one given.\<close>

fun read_like :: "Buffer \<Rightarrow> wire_int \<Rightarrow> (wire_int \<times> Buffer) option" where
  "read_like b (I8 _) = map_option (\<lambda>(w, b). (I8 w, b)) (readInt8 b)"
| "read_like b (I16 _) = map_option (\<lambda>(w, b). (I16 w, b)) (readInt16 b)"
| "read_like b (I32 _) = map_option (\<lambda>(w, b). (I32 w, b)) (readInt32 b)"
| "read_like b (I64 _) = map_option (\<lambda>(w, b). (I64 w, b)) (readInt64 b)"

fun append_ints :: "Buffer \<Rightarrow> wire_int list \<Rightarrow> Buffer option" where
  "append_ints b [] = Some b"
| "append_ints b (i # is) = do { b \<leftarrow> append_int b i; append_ints b is }"

fun read_ints :: "Buffer \<Rightarrow> wire_int list \<Rightarrow> (wire_int list \<times> Buffer) option" where
  "read_ints b [] = Some ([], b)"
| "read_ints b (i # is) = do { (x, b) \<leftarrow> read_like b i; (xs, b) \<leftarrow> read_ints b is; Some (x # xs, b) }"

lemma append_int_eq: "append_int b i = append_bytes b (wire_bytes i)"
  by (cases i) (simp_all add: append_int_bytes)

lemma wire_bytes_length: "length (wire_bytes i) \<le> 8"
  by (cases i) (simp_all add: put_width)

lemma append_ints_content:
  assumes "buf_inv b" "max 8 (writerIndex b) + 8 * length is < 2 ^ 63"
  shows "\<exists>b'. append_ints b is = Some b' \<and> buf_inv b' \<and> content b' = content b @ concat (map wire_bytes is)"
  using assms
proof (induction "is" arbitrary: b)
  case (Cons i "is")
  have w: "length (wire_bytes i) \<le> 8"
    by (rule wire_bytes_length)
  then have "writerIndex b + length (wire_bytes i) < 2 ^ 63"
    using Cons.prems(2) by simp
  then obtain c where c: "append_mem b (wire_bytes i) (length (wire_bytes i)) = Some c" "buf_inv c"
    "content c = content b @ wire_bytes i" "writerIndex c \<le> max 8 (writerIndex b) + length (wire_bytes i)"
    using append_mem_ok [OF Cons.prems(1), of "length (wire_bytes i)" "wire_bytes i"] by auto
  have "max 8 (writerIndex c) + 8 * length is < 2 ^ 63"
    using c(4) w Cons.prems(2) by simp
  then show ?case
    using Cons.IH [OF c(2)] c(1,3) by (simp add: append_int_eq append_bytes_def)
qed simp

lemma read_like_front:
  assumes "buf_inv b" "content b = wire_bytes i @ ys"
  shows "\<exists>b'. read_like b i = Some (i, b') \<and> buf_inv b' \<and> content b' = ys"
proof (cases i)
  case (I8 w)
  then show ?thesis
    using readInt8_front [of b w ys] assms by auto
next
  case (I16 w)
  then show ?thesis
    using readInt16_front [of b w ys] assms by auto
next
  case (I32 w)
  then show ?thesis
    using readInt32_front [of b w ys] assms by auto
next
  case (I64 w)
  then show ?thesis
    using readInt64_front [of b w ys] assms by auto
qed

lemma read_ints_front:
  assumes "buf_inv b" "content b = concat (map wire_bytes is) @ ys"
  shows "\<exists>b'. read_ints b is = Some (is, b') \<and> buf_inv b' \<and> content b' = ys"
  using assms
proof (induction "is" arbitrary: b)
  case (Cons i "is")
  obtain c where c: "read_like b i = Some (i, c)" "buf_inv c" "content c = concat (map wire_bytes is) @ ys"
    using read_like_front [OF Cons.prems(1), of i "concat (map wire_bytes is) @ ys"] Cons.prems(2) by auto
  then show ?case
    using Cons.IH [OF c(2,3)] by auto
qed simp

text \<open>
  C40: integers are read back as they were written. Appending any sequence of 8, 16, 32 and 64 bit
  integers to an empty buffer succeeds, growing or compacting it as needed; reading the same
  widths returns the same values in order and leaves the buffer empty.
\<close>

theorem Buffer_int_roundtrip:
  assumes "buf_inv b" "content b = []" "max 8 (writerIndex b) + 8 * length is < 2 ^ 63"
  shows "\<exists>b1 b2. append_ints b is = Some b1 \<and> buf_inv b1 \<and> read_ints b1 is = Some (is, b2)
    \<and> buf_inv b2 \<and> content b2 = []"
proof -
  obtain b1 where b1: "append_ints b is = Some b1" "buf_inv b1" "content b1 = concat (map wire_bytes is)"
    using append_ints_content [OF assms(1,3)] assms(2) by auto
  then show ?thesis
    using read_ints_front [OF b1(2), of "is" "[]"] by auto
qed

definition empty_buffer :: Buffer where
  "empty_buffer = \<lparr>buffer = replicate 16 0, readerIndex = 8, writerIndex = 8\<rparr>"

lemma empty_buffer_inv: "buf_inv empty_buffer" "content empty_buffer = []"
  by (simp_all add: empty_buffer_def buf_inv_def content_def kCheapPrepend_def)

lemma Buffer_int_roundtrip_witness:
  "\<exists>b1 b2. append_ints empty_buffer [I64 1, I16 0xABCD, I32 7, I8 255] = Some b1
     \<and> read_ints b1 [I64 1, I16 0xABCD, I32 7, I8 255] = Some ([I64 1, I16 0xABCD, I32 7, I8 255], b2)"
  using Buffer_int_roundtrip [OF empty_buffer_inv, of "[I64 1, I16 0xABCD, I32 7, I8 255]"]
  by (auto simp: empty_buffer_def)

text \<open>
  \<open>findCRLF\<close> returns the position of the first occurrence of the two bytes in the readable
  part, and nothing exactly when they do not occur there.
\<close>

theorem findCRLF_first:
  assumes "buf_inv b"
  shows "case findCRLF crlf b of
      Some p \<Rightarrow> \<exists>i. p = readerIndex b + i \<and> i + 1 < length (content b)
        \<and> (content b ! i, content b ! (i + 1)) = crlf
        \<and> (\<forall>j < i. (content b ! j, content b ! (j + 1)) \<noteq> crlf)
    | None \<Rightarrow> \<forall>j. j + 1 < length (content b) \<longrightarrow> (content b ! j, content b ! (j + 1)) \<noteq> crlf"
proof -
  have find: "findCRLF crlf b = map_option (\<lambda>i. readerIndex b + i) (search2 crlf (content b))"
    using written_from_content [OF assms] by (simp add: findCRLF_def peek_def)
  show ?thesis
  proof (cases "search2 crlf (content b)")
    case None
    then show ?thesis
      using find search2_None [of crlf "content b"] by simp
  next
    case (Some i)
    then show ?thesis
      using find search2_Some [of crlf "content b" i] by simp
  qed
qed

lemma findCRLF_first_witness:
  "findCRLF (13, 10) (empty_buffer\<lparr>buffer := replicate 8 0 @ [65, 13, 13, 10, 13, 10], writerIndex := 14\<rparr>) = Some 10
   \<and> buf_inv (empty_buffer\<lparr>buffer := replicate 8 0 @ [65, 13, 13, 10, 13, 10], writerIndex := 14\<rparr>)"
proof -
  let ?b = "empty_buffer\<lparr>buffer := replicate 8 0 @ [65, 13, 13, 10, 13, 10], writerIndex := 14\<rparr>"
  have b: "buf_inv ?b" "content ?b = [65, 13, 13, 10, 13, 10]"
    by (simp_all add: empty_buffer_def buf_inv_def content_def kCheapPrepend_def)
  have "findCRLF (13, 10) ?b = Some 10"
    by (simp add: findCRLF_def written_from_content [OF b(1)] b(2)) (simp add: empty_buffer_def peek_def)
  then show ?thesis
    using findCRLF_first [OF b(1), of "(13, 10)"] b(1) by blast
qed

text \<open>
  \<open>shrink\<close> keeps the content: it copies the readable bytes into a buffer of the initial size,
  enlarged if needed, with room for \<open>reserve\<close> more bytes. The length goes through an \<open>int\<close>, so this
  needs fewer than \<open>2^31\<close> bytes.
\<close>

theorem shrink_keeps_content:
  assumes "buf_inv b" "length (content b) < 2 ^ 31" "reserve < 2 ^ 62"
  shows "\<exists>b'. shrink b reserve = Some b' \<and> buf_inv b' \<and> content b' = content b"
  by (rule shrink_ok [OF assms])

lemma shrink_keeps_content_witness:
  "\<exists>b'. shrink empty_buffer 100 = Some b' \<and> buf_inv b' \<and> content b' = []"
  using shrink_keeps_content [OF empty_buffer_inv(1), of 100] empty_buffer_inv(2) by simp

end
