(* ===== verification/Packet.thy ===== *)
theory Packet
  imports Bytes
begin

text \<open>
  The packet of the wire protocol, src/src/data/Packet/Packet.h and Packet.cpp: class \<open>CPacket\<close>
  as a record, its constructors and assignment, the serialiser \<open>Data\<close>, the search for a packet
  head and the parser \<open>ConstructData\<close>. A pointer argument is the memory that may be read through
  it (which can be longer than the size passed with it); \<open>None\<close> is an access outside that
  memory, or outside the packet's own arrays. Log and console output is left out.
\<close>

section \<open>The class\<close>

record cpacket =
  m_sHead :: "16 word"
  m_cmdType :: "16 word"
  m_itemType :: "16 word"
  m_msgVersion :: "16 word"
  m_cypherModel :: byte
  m_veryfyModel :: byte
  m_saveCmd :: "32 word"
  m_DataLength :: "32 word"
  m_strData :: "byte list"
  m_veryfyData :: "byte list"
  m_strOut :: "byte list"
  m_headSize :: "32 word"

text \<open>The array \<open>m_veryfyData\<close> has 16 elements.\<close>

definition packet_ok :: "cpacket \<Rightarrow> bool" where
  "packet_ok p \<longleftrightarrow> length (m_veryfyData p) = 16"

text \<open>
  The default constructor leaves the integers and the array indeterminate: they are those of the
  argument. The strings start empty and \<open>m_headSize\<close> has an initialiser.
\<close>

definition CPacket_default :: "cpacket \<Rightarrow> cpacket" where
  "CPacket_default junk = junk\<lparr>m_strData := [], m_strOut := [], m_headSize := 34\<rparr>"

definition CPacket_string :: "byte list \<Rightarrow> cpacket" where
  "CPacket_string str =
    \<lparr>m_sHead = 0xEFEF, m_cmdType = 0, m_itemType = 0, m_msgVersion = 0, m_cypherModel = 0,
     m_veryfyModel = 0, m_saveCmd = 0, m_DataLength = word_of_nat (length str), m_strData = str,
     m_veryfyData = replicate 16 0, m_strOut = [], m_headSize = 34\<rparr>"

text \<open>The copy constructor does not copy \<open>m_strOut\<close> and \<open>m_headSize\<close>.\<close>

definition CPacket_copy :: "cpacket \<Rightarrow> cpacket" where
  "CPacket_copy packet =
    \<lparr>m_sHead = m_sHead packet, m_cmdType = m_cmdType packet, m_itemType = m_itemType packet,
     m_msgVersion = m_msgVersion packet, m_cypherModel = m_cypherModel packet,
     m_veryfyModel = m_veryfyModel packet, m_saveCmd = m_saveCmd packet,
     m_DataLength = m_DataLength packet, m_strData = m_strData packet,
     m_veryfyData = m_veryfyData packet, m_strOut = [], m_headSize = 34\<rparr>"

definition CPacket_assign :: "cpacket \<Rightarrow> cpacket \<Rightarrow> cpacket" where
  "CPacket_assign this packet =
    this\<lparr>m_sHead := m_sHead packet, m_cmdType := m_cmdType packet, m_itemType := m_itemType packet,
         m_msgVersion := m_msgVersion packet, m_cypherModel := m_cypherModel packet,
         m_veryfyModel := m_veryfyModel packet, m_saveCmd := m_saveCmd packet,
         m_DataLength := m_DataLength packet, m_strData := m_strData packet,
         m_veryfyData := m_veryfyData packet\<rparr>"

text \<open>
  The move constructor gives the new packet and the moved-from packet, whose strings are empty.
  Meaning to clear the array of the latter, it stores a zero to its element 16.
\<close>

definition CPacket_move :: "cpacket \<Rightarrow> (cpacket \<times> cpacket) option" where
  "CPacket_move other = do {
     veryfyData \<leftarrow> store_bytes (m_veryfyData other) 16 [0];
     Some
    (\<lparr>m_sHead = m_sHead other, m_cmdType = m_cmdType other, m_itemType = m_itemType other,
      m_msgVersion = m_msgVersion other, m_cypherModel = m_cypherModel other,
      m_veryfyModel = m_veryfyModel other, m_saveCmd = m_saveCmd other,
      m_DataLength = m_DataLength other, m_strData = m_strData other,
      m_veryfyData = m_veryfyData other, m_strOut = m_strOut other, m_headSize = m_headSize other\<rparr>,
     other\<lparr>m_strData := [], m_strOut := [],
           m_veryfyData := veryfyData, m_headSize := 0\<rparr>) }"

section \<open>Serialising\<close>

definition Size :: "cpacket \<Rightarrow> 32 word" where
  "Size p = m_DataLength p + 34"

text \<open>\<open>Data\<close> stores the fields one after the other into \<open>m_strOut\<close>, resized to \<open>m_DataLength + 34\<close>.\<close>

definition Data :: "cpacket \<Rightarrow> cpacket option" where
  "Data p = do {
     let n = unat (m_DataLength p + 34);
     let out = take n (m_strOut p) @ replicate (n - length (m_strOut p)) 0;
     let pData = 0;
     out \<leftarrow> store16 out pData (htons (m_sHead p));
     let pData = pData + 2;
     out \<leftarrow> store16 out pData (htons (m_cmdType p));
     let pData = pData + 2;
     out \<leftarrow> store16 out pData (htons (m_itemType p));
     let pData = pData + 2;
     out \<leftarrow> store16 out pData (htons (m_msgVersion p));
     let pData = pData + 2;
     out \<leftarrow> store_bytes out pData [m_cypherModel p];
     let pData = pData + 1;
     out \<leftarrow> store_bytes out pData [m_veryfyModel p];
     let pData = pData + 1;
     out \<leftarrow> store32 out pData (htonl (m_saveCmd p));
     let pData = pData + 4;
     out \<leftarrow> store32 out pData (htonl (m_DataLength p));
     let pData = pData + 4;
     out \<leftarrow> store_bytes out pData (m_strData p);
     let pData = pData + length (m_strData p);
     out \<leftarrow> store_bytes out pData (m_veryfyData p);
     Some (p\<lparr>m_strOut := out\<rparr>) }"

section \<open>Finding a head\<close>

text \<open>
  The search loop from index \<open>i\<close> with the current \<open>m_sHead\<close>: the last value stored to \<open>m_sHead\<close>
  and the index of the head, if one is found before \<open>sz\<close>.
\<close>

function FindHead_loop :: "mem \<Rightarrow> nat \<Rightarrow> nat \<Rightarrow> 16 word \<Rightarrow> (16 word \<times> nat option) option" where
  "FindHead_loop pData sz i sHead =
    (if i < sz
     then case get16 pData i of
            None \<Rightarrow> None
          | Some h \<Rightarrow> if h = 0xEFEF then Some (h, Some i) else FindHead_loop pData sz (i + 1) h
     else Some (sHead, None))"
  by pat_completeness auto
termination
  by (relation "measure (\<lambda>(pData, sz, i, sHead). sz - i)") auto

declare FindHead_loop.simps [simp del]

text \<open>Return value, new \<open>nSize\<close> and packet. (The code's final \<open>return -2\<close> is not reachable.)\<close>

definition FindHeadStart :: "mem \<Rightarrow> nat \<Rightarrow> cpacket \<Rightarrow> (int \<times> nat \<times> cpacket) option" where
  "FindHeadStart pData nSize p =
    (case FindHead_loop pData nSize 0 (m_sHead p) of
       None \<Rightarrow> None
     | Some (h, Some i) \<Rightarrow> Some (0, i, p\<lparr>m_sHead := h\<rparr>)
     | Some (h, None) \<Rightarrow> Some (-1, nSize, p\<lparr>m_sHead := h\<rparr>))"

section \<open>Parsing\<close>

text \<open>
  \<open>i < m_headSize\<close> compares a \<open>size_t\<close> with an \<open>int\<close>, which is converted; the two subtractions of
  the length check wrap.
\<close>

definition ConstructData :: "mem \<Rightarrow> nat \<Rightarrow> cpacket \<Rightarrow> (int \<times> nat \<times> cpacket) option" where
  "ConstructData pData nSize p =
    (if nSize < unat (scast (m_headSize p) :: 64 word) then Some (-1, nSize, p)
     else do {
       (ret, i, p) \<leftarrow> FindHeadStart pData nSize p;
       if ret \<noteq> 0 then Some (-2, nSize, p)
       else do {
         let i = i + 2;
         cmd \<leftarrow> get16 pData i;
         let i = i + 2;
         item \<leftarrow> get16 pData i;
         let i = i + 2;
         version \<leftarrow> get16 pData i;
         let i = i + 2;
         cypher \<leftarrow> load8 pData i;
         let i = i + 1;
         veryfy \<leftarrow> load8 pData i;
         let i = i + 1;
         save \<leftarrow> get32 pData i;
         let i = i + 4;
         len \<leftarrow> get32 pData i;
         let i = i + 4;
         let p = p\<lparr>m_cmdType := cmd, m_itemType := item, m_msgVersion := version,
                   m_cypherModel := cypher, m_veryfyModel := veryfy, m_saveCmd := save,
                   m_DataLength := len\<rparr>;
         if size_sub (size_sub nSize i) 16 < unat len then Some (-3, i, p)
         else do {
           str \<leftarrow> load_bytes pData i (unat len);
           let i = i + unat len;
           ver \<leftarrow> load_bytes pData i 16;
           let i = i + 16;
           Some (0, i, p\<lparr>m_strData := str, m_veryfyData := ver\<rparr>) }}})"

text \<open>
  The constructor from a stream. Its search looks for the value 1; the first component of the loop's
  result is \<open>m_sHead\<close>, the second the index after the loop.
\<close>

function FindOne_loop :: "mem \<Rightarrow> nat \<Rightarrow> nat \<Rightarrow> 16 word \<Rightarrow> (16 word \<times> nat) option" where
  "FindOne_loop pData nSize i sHead =
    (if i < nSize
     then case get16 pData i of
            None \<Rightarrow> None
          | Some h \<Rightarrow> if h = 0x0001 then Some (h, i + 2) else FindOne_loop pData nSize (i + 1) h
     else Some (sHead, i))"
  by pat_completeness auto
termination
  by (relation "measure (\<lambda>(pData, nSize, i, sHead). nSize - i)") auto

declare FindOne_loop.simps [simp del]

text \<open>
  \<open>m_cypherModel\<close> receives the low byte of a 16 bit value in network order; the two byte \<open>memcpy\<close>
  into \<open>m_veryfyModel\<close> also overwrites the first byte of \<open>m_saveCmd\<close>, the next member of the packed
  class.
\<close>

definition CPacket_stream :: "cpacket \<Rightarrow> mem \<Rightarrow> nat \<Rightarrow> (cpacket \<times> nat) option" where
  "CPacket_stream junk pData nSize = do {
     let p = CPacket_default junk;
     (h, i) \<leftarrow> FindOne_loop pData nSize 0 (m_sHead p);
     cmd \<leftarrow> get16 pData i;
     let i = i + 2;
     item \<leftarrow> get16 pData i;
     let i = i + 2;
     version \<leftarrow> get16 pData i;
     let i = i + 2;
     cypher \<leftarrow> get16 pData i;
     let i = i + 1;
     two \<leftarrow> load_bytes pData i 2;
     let p = p\<lparr>m_sHead := h, m_cmdType := cmd, m_itemType := item, m_msgVersion := version,
               m_cypherModel := ucast cypher, m_veryfyModel := two ! 0,
               m_saveCmd := word_cat (ucast (drop_bit 8 (m_saveCmd p)) :: 24 word) (two ! 1)\<rparr>;
     let i = i + 1;
     save \<leftarrow> get32 pData i;
     let i = i + 4;
     len \<leftarrow> get32 pData i;
     let i = i + 4;
     let p = p\<lparr>m_saveCmd := save, m_DataLength := len\<rparr>;
     if nSize < unat len then Some (p, 0)
     else do {
       str \<leftarrow> load_bytes pData i (unat len);
       let i = i + unat len;
       ver \<leftarrow> load_bytes pData i 16;
       let i = i + 16;
       p \<leftarrow> Data (p\<lparr>m_strData := str, m_veryfyData := ver\<rparr>);
       Some (p, i) }}"

section \<open>The wire format\<close>

definition wire :: "cpacket \<Rightarrow> byte list" where
  "wire p = put16 (m_sHead p) @ put16 (m_cmdType p) @ put16 (m_itemType p) @ put16 (m_msgVersion p)
     @ put8 (m_cypherModel p) @ put8 (m_veryfyModel p) @ put32 (m_saveCmd p)
     @ put32 (m_DataLength p) @ m_strData p @ m_veryfyData p"

text \<open>A packet whose length field tells the length of its data, short enough for \<open>Size\<close>.\<close>

definition packet_wf :: "cpacket \<Rightarrow> bool" where
  "packet_wf p \<longleftrightarrow> packet_ok p \<and> m_sHead p = 0xEFEF
     \<and> unat (m_DataLength p) = length (m_strData p) \<and> length (m_strData p) + 34 < 2 ^ 32"

lemma length_wire: "packet_ok p \<Longrightarrow> length (wire p) = length (m_strData p) + 34"
  by (simp add: wire_def packet_ok_def)

lemma Size_wire: "packet_wf p \<Longrightarrow> unat (Size p) = length (wire p)"
  by (simp add: Size_def packet_wf_def length_wire unat_word_ariths)

text \<open>A run of stores at consecutive positions.\<close>

primrec store_all :: "mem \<Rightarrow> nat \<Rightarrow> byte list list \<Rightarrow> mem option" where
  "store_all m i [] = Some m"
| "store_all m i (b # bs) = do { m \<leftarrow> store_bytes m i b; store_all m (i + length b) bs }"

lemma store_all_eq:
  "i + length (concat bs) \<le> length m \<Longrightarrow>
    store_all m i bs = Some (take i m @ concat bs @ drop (i + length (concat bs)) m)"
proof (induction bs arbitrary: m i)
  case (Cons b bs)
  let ?m = "take i m @ b @ drop (i + length b) m"
  have "store_bytes m i b = Some ?m" and "length ?m = length m"
    using Cons.prems by (auto simp: store_bytes_def)
  moreover have "store_all ?m (i + length b) bs = Some (take (i + length b) ?m @ concat bs
      @ drop (i + length b + length (concat bs)) ?m)"
    using Cons.prems calculation(2) by (intro Cons.IH) simp
  moreover have "take (i + length b) ?m = take i m @ b"
    and "drop (i + length b + length (concat bs)) ?m = drop (i + length b + length (concat bs)) m"
    using Cons.prems by (simp_all add: add_ac)
  ultimately show ?case
    by (simp add: add_ac)
qed simp

lemma store_all_None:
  "i \<le> length m \<Longrightarrow> length m < i + length (concat bs) \<Longrightarrow> store_all m i bs = None"
proof (induction bs arbitrary: m i)
  case (Cons b bs)
  show ?case
  proof (cases "store_bytes m i b")
    case (Some m')
    then have "length m' = length m" "i + length b \<le> length m"
      by (auto simp: length_store_bytes) (auto simp: store_bytes_def split: if_splits)
    then show ?thesis
      using Cons Some by (simp add: add_ac)
  qed simp
qed simp

definition fields :: "cpacket \<Rightarrow> byte list list" where
  "fields p = [put16 (m_sHead p), put16 (m_cmdType p), put16 (m_itemType p), put16 (m_msgVersion p),
     put8 (m_cypherModel p), put8 (m_veryfyModel p), put32 (m_saveCmd p), put32 (m_DataLength p),
     m_strData p, m_veryfyData p]"

lemma concat_fields: "concat (fields p) = wire p"
  by (simp add: fields_def wire_def)

lemma Data_store_all:
  "Data p = do { out \<leftarrow> store_all (take (unat (Size p)) (m_strOut p)
                                   @ replicate (unat (Size p) - length (m_strOut p)) 0) 0 (fields p);
                 Some (p\<lparr>m_strOut := out\<rparr>) }"
  by (simp add: Data_def fields_def Size_def store16_def store32_def put16_def put32_def put8_def
      Let_def add.assoc cong: option.case_cong)

lemma Data_ok:
  assumes "packet_ok p" "unat (Size p) = length (wire p)"
  shows "Data p = Some (p\<lparr>m_strOut := wire p\<rparr>)"
proof -
  let ?m = "take (unat (Size p)) (m_strOut p) @ replicate (unat (Size p) - length (m_strOut p)) 0"
  have "length ?m = length (wire p)"
    using assms(2) by simp
  then have "store_all ?m 0 (fields p) = Some (wire p)"
    using store_all_eq [of 0 "fields p" ?m] by (simp only: concat_fields) simp
  then show ?thesis
    by (simp add: Data_store_all)
qed

lemma Data_overflow:
  assumes "unat (Size p) < length (wire p)"
  shows "Data p = None"
proof -
  let ?m = "take (unat (Size p)) (m_strOut p) @ replicate (unat (Size p) - length (m_strOut p)) 0"
  have "store_all ?m 0 (fields p) = None"
    using assms by (intro store_all_None) (simp_all only: concat_fields, simp)
  then show ?thesis
    by (simp add: Data_store_all)
qed

section \<open>Heads in memory\<close>

definition head_at :: "mem \<Rightarrow> nat \<Rightarrow> bool" where
  "head_at m i \<longleftrightarrow> i + 1 < length m \<and> m ! i = 0xEF \<and> m ! (i + 1) = 0xEF"

lemma word_cat_bytes_eq:
  "(word_cat (a :: byte) (b :: byte) :: 16 word) = word_cat c d \<longleftrightarrow> a = c \<and> b = d"
  using split_cat16 by metis

lemma get16_head: "get16 m i = Some 0xEFEF \<longleftrightarrow> head_at m i"
proof -
  have eq: "(0xEFEF :: 16 word) = word_cat (0xEF :: byte) (0xEF :: byte)"
    by (simp add: word_cat_eq)
  show ?thesis
    unfolding head_at_def get16_eq eq by (auto simp: word_cat_bytes_eq)
qed

lemma get16_no_head: "i + 1 < length m \<Longrightarrow> \<not> head_at m i \<Longrightarrow> \<exists>h. get16 m i = Some h \<and> h \<noteq> 0xEFEF"
  using get16_head [of m i] by (auto simp: get16_eq)

lemma FindHead_found:
  assumes "head_at m k" "i \<le> k" "k < sz" "\<And>j. i \<le> j \<Longrightarrow> j < k \<Longrightarrow> \<not> head_at m j"
  shows "FindHead_loop m sz i h = Some (0xEFEF, Some k)"
  using assms
proof (induction m sz i h rule: FindHead_loop.induct)
  case (1 m sz i h)
  show ?case
  proof (cases "i = k")
    case True
    moreover have "get16 m k = Some 0xEFEF"
      using 1(2) by (simp add: get16_head)
    ultimately show ?thesis
      using 1(4) by (simp add: FindHead_loop.simps [of m sz k])
  next
    case False
    then have "i < k" "\<not> head_at m i"
      using 1(3,5) by simp_all
    then obtain h' where h': "get16 m i = Some h'" "h' \<noteq> 0xEFEF"
      using 1(2) get16_no_head [of i m] by (auto simp: head_at_def)
    moreover have "FindHead_loop m sz (i + 1) h' = Some (0xEFEF, Some k)"
      using 1(1) [OF _ h'] 1(2,4,5) \<open>i < k\<close> by simp
    ultimately show ?thesis
      using 1(4) \<open>i < k\<close> by (simp add: FindHead_loop.simps [of m sz i])
  qed
qed

lemma FindHead_none:
  assumes "sz < length m" "\<And>j. i \<le> j \<Longrightarrow> j < sz \<Longrightarrow> \<not> head_at m j"
  shows "\<exists>h'. FindHead_loop m sz i h = Some (h', None)"
  using assms
proof (induction m sz i h rule: FindHead_loop.induct)
  case (1 m sz i h)
  show ?case
  proof (cases "i < sz")
    case True
    then obtain h' where h': "get16 m i = Some h'" "h' \<noteq> 0xEFEF"
      using 1(2,3) get16_no_head [of i m] by auto
    then show ?thesis
      using 1(1) [OF True h'] 1(2,3) True by (simp add: FindHead_loop.simps [of m sz i])
  qed (simp add: FindHead_loop.simps)
qed

text \<open>Without a head, the last step of the loop reads the byte after the data.\<close>

lemma FindHead_overread:
  assumes "length m \<le> sz" "i < sz" "\<And>j. i \<le> j \<Longrightarrow> j < length m \<Longrightarrow> \<not> head_at m j"
  shows "FindHead_loop m sz i h = None"
  using assms
proof (induction m sz i h rule: FindHead_loop.induct)
  case (1 m sz i h)
  show ?case
  proof (cases "i + 1 < length m")
    case True
    then obtain h' where h': "get16 m i = Some h'" "h' \<noteq> 0xEFEF"
      using 1(4) get16_no_head [of i m] by auto
    then show ?thesis
      using 1(1) [OF 1(3) h'] 1(2,3,4) True by (simp add: FindHead_loop.simps [of m sz i])
  next
    case False
    then have "get16 m i = None"
      by (simp add: get16_eq)
    then show ?thesis
      using 1(3) by (simp add: FindHead_loop.simps [of m sz i])
  qed
qed

lemma FindHeadStart_found:
  assumes "head_at m k" "k < n" "\<And>j. j < k \<Longrightarrow> \<not> head_at m j"
  shows "FindHeadStart m n p = Some (0, k, p\<lparr>m_sHead := 0xEFEF\<rparr>)"
  using FindHead_found [OF assms(1) _ assms(2), of 0] assms(3) by (simp add: FindHeadStart_def)

lemma FindHeadStart_none:
  assumes "n < length m" "\<And>j. j < n \<Longrightarrow> \<not> head_at m j"
  shows "\<exists>h. FindHeadStart m n p = Some (-1, n, p\<lparr>m_sHead := h\<rparr>)"
  using FindHead_none [OF assms(1), of 0 "m_sHead p"] assms(2) by (auto simp: FindHeadStart_def)

section \<open>Parsing at a head\<close>

text \<open>The fields before the data, as the parser reads them from a head at \<open>k\<close>.\<close>

definition parse_header :: "mem \<Rightarrow> nat \<Rightarrow> cpacket \<Rightarrow> cpacket" where
  "parse_header m k p =
    p\<lparr>m_sHead := 0xEFEF, m_cmdType := the (get16 m (k + 2)), m_itemType := the (get16 m (k + 4)),
      m_msgVersion := the (get16 m (k + 6)), m_cypherModel := the (load8 m (k + 8)),
      m_veryfyModel := the (load8 m (k + 9)), m_saveCmd := the (get32 m (k + 10)),
      m_DataLength := the (get32 m (k + 14))\<rparr>"

lemma header_loads:
  assumes "k + 18 \<le> length m"
  shows "\<exists>x. get16 m (k + 2) = Some x" "\<exists>x. get16 m (k + 4) = Some x" "\<exists>x. get16 m (k + 6) = Some x"
    "\<exists>x. load8 m (k + 8) = Some x" "\<exists>x. load8 m (k + 9) = Some x"
    "\<exists>x. get32 m (k + 10) = Some x" "\<exists>x. get32 m (k + 14) = Some x"
  using assms by (auto intro!: u16.dec_Some u32.dec_Some u8.dec_Some)

definition parse_body :: "mem \<Rightarrow> nat \<Rightarrow> nat \<Rightarrow> cpacket \<Rightarrow> (int \<times> nat \<times> cpacket) option" where
  "parse_body m n i q =
    (if size_sub (size_sub n i) 16 < unat (m_DataLength q) then Some (-3, i, q)
     else do {
       str \<leftarrow> load_bytes m i (unat (m_DataLength q));
       ver \<leftarrow> load_bytes m (i + unat (m_DataLength q)) 16;
       Some (0, i + unat (m_DataLength q) + 16, q\<lparr>m_strData := str, m_veryfyData := ver\<rparr>) })"

lemma ConstructData_at:
  assumes "m_headSize p = 34" "34 \<le> n" "head_at m k" "k < n" "\<And>j. j < k \<Longrightarrow> \<not> head_at m j"
    "k + 18 \<le> length m"
  shows "ConstructData m n p = parse_body m n (k + 18) (parse_header m k p)"
proof -
  have "FindHeadStart m n p = Some (0, k, p\<lparr>m_sHead := 0xEFEF\<rparr>)"
    using assms(3-5) by (rule FindHeadStart_found)
  moreover obtain a b c d e f g where
    "get16 m (k + 2) = Some a" "get16 m (k + 4) = Some b" "get16 m (k + 6) = Some c"
    "load8 m (k + 8) = Some d" "load8 m (k + 9) = Some e" "get32 m (k + 10) = Some f"
    "get32 m (k + 14) = Some g"
    using header_loads [OF assms(6)] by blast
  ultimately show ?thesis
    using assms(1,2)
    by (simp add: ConstructData_def parse_body_def parse_header_def Let_def add.assoc
        del: add_2_eq_Suc add_2_eq_Suc' One_nat_def)
qed

text \<open>Too short for a header, or no head: the error results.\<close>

lemma ConstructData_short:
  "m_headSize p = 34 \<Longrightarrow> n < 34 \<Longrightarrow> ConstructData m n p = Some (-1, n, p)"
  by (simp add: ConstructData_def)

lemma ConstructData_no_head:
  assumes "m_headSize p = 34" "34 \<le> n" "n < length m" "\<And>j. j < n \<Longrightarrow> \<not> head_at m j"
  shows "\<exists>h. ConstructData m n p = Some (-2, n, p\<lparr>m_sHead := h\<rparr>)"
  using FindHeadStart_none [OF assms(3,4), of p] assms(1,2) by (auto simp: ConstructData_def)

lemma length_check: "i + 16 \<le> n \<Longrightarrow> n < 2 ^ 64 \<Longrightarrow> size_sub (size_sub n i) 16 = n - i - 16"
  by (simp add: size_sub_ge)

lemma length_check_wraps:
  assumes "n < i + 16" "i \<le> n" "n < 2 ^ 63"
  shows "2 ^ 63 < size_sub (size_sub n i) 16"
proof -
  have "size_sub n i = n - i"
    using assms by (simp add: size_sub_ge)
  moreover have "size_sub (n - i) 16 = 2 ^ 64 - (16 - (n - i))"
    using assms by (intro size_sub_wrap) auto
  ultimately show ?thesis
    using assms by simp
qed

lemma length_check_wraps2:
  assumes "n < i" "i < 2 ^ 62"
  shows "2 ^ 62 < size_sub (size_sub n i) 16"
proof -
  have "size_sub n i = 2 ^ 64 - (i - n)"
    using assms by (intro size_sub_wrap) auto
  then show ?thesis
    using assms by (simp add: size_sub_ge)
qed

section \<open>A serialised packet is parsed back\<close>

definition header :: "cpacket \<Rightarrow> byte list" where
  "header p = put16 (m_sHead p) @ put16 (m_cmdType p) @ put16 (m_itemType p) @ put16 (m_msgVersion p)
     @ put8 (m_cypherModel p) @ put8 (m_veryfyModel p) @ put32 (m_saveCmd p) @ put32 (m_DataLength p)"

lemma length_header [simp]: "length (header p) = 18"
  by (simp add: header_def)

lemma wire_header: "wire p = header p @ m_strData p @ m_veryfyData p"
  by (simp add: wire_def header_def)

lemma header_drop:
  assumes "drop k m = header q @ t" "k \<le> length m"
  shows "get16 m k = Some (m_sHead q)" "get16 m (k + 2) = Some (m_cmdType q)"
    "get16 m (k + 4) = Some (m_itemType q)" "get16 m (k + 6) = Some (m_msgVersion q)"
    "load8 m (k + 8) = Some (m_cypherModel q)" "load8 m (k + 9) = Some (m_veryfyModel q)"
    "get32 m (k + 10) = Some (m_saveCmd q)" "get32 m (k + 14) = Some (m_DataLength q)"
proof -
  have d: "drop (k + i) m = drop i (header q @ t)" for i
    using assms(1) by (metis add.commute drop_drop)
  have len: "k + 18 \<le> length m"
    using arg_cong [OF assms(1), of length] assms(2) by simp
  note at = u16.dec_at u32.dec_at u8.dec_at
  show "get16 m k = Some (m_sHead q)"
    using d [of 0] len by (intro at) (simp_all add: header_def)
  show "get16 m (k + 2) = Some (m_cmdType q)"
    using d [of 2] len by (intro at) (simp_all add: header_def)
  show "get16 m (k + 4) = Some (m_itemType q)"
    using d [of 4] len by (intro at) (simp_all add: header_def)
  show "get16 m (k + 6) = Some (m_msgVersion q)"
    using d [of 6] len by (intro at) (simp_all add: header_def)
  show "load8 m (k + 8) = Some (m_cypherModel q)"
    using d [of 8] len by (intro at) (simp_all add: header_def)
  show "load8 m (k + 9) = Some (m_veryfyModel q)"
    using d [of 9] len by (intro at) (simp_all add: header_def)
  show "get32 m (k + 10) = Some (m_saveCmd q)"
    using d [of 10] len by (intro at) (simp_all add: header_def)
  show "get32 m (k + 14) = Some (m_DataLength q)"
    using d [of 14] len by (intro at) (simp_all add: header_def)
qed

text \<open>What parsing the bytes of \<open>q\<close> leaves in the packet \<open>p\<close>.\<close>

definition with_fields :: "cpacket \<Rightarrow> cpacket \<Rightarrow> cpacket" where
  "with_fields p q =
    p\<lparr>m_sHead := m_sHead q, m_cmdType := m_cmdType q, m_itemType := m_itemType q,
      m_msgVersion := m_msgVersion q, m_cypherModel := m_cypherModel q,
      m_veryfyModel := m_veryfyModel q, m_saveCmd := m_saveCmd q, m_DataLength := m_DataLength q\<rparr>"

lemma parse_header_wire:
  assumes "drop k m = header q @ t" "k \<le> length m" "m_sHead q = 0xEFEF"
  shows "parse_header m k p = with_fields p q" "head_at m k"
  using header_drop [OF assms(1,2)] assms(3)
  by (simp_all add: parse_header_def with_fields_def flip: get16_head)

lemma parse_body_wire:
  assumes "drop k m = header q @ m_strData q @ m_veryfyData q @ t" "k \<le> length m"
    "packet_ok q" "unat (m_DataLength q) = length (m_strData q)"
  shows "parse_body m n (k + 18) (with_fields p q) =
    (if size_sub (size_sub n (k + 18)) 16 < length (m_strData q) then Some (-3, k + 18, with_fields p q)
     else Some (0, k + length (wire q),
                (with_fields p q)\<lparr>m_strData := m_strData q, m_veryfyData := m_veryfyData q\<rparr>))"
proof -
  let ?l = "length (m_strData q)"
  have d: "drop (k + i) m = drop i (header q @ m_strData q @ m_veryfyData q @ t)" for i
    using assms(1) by (metis add.commute drop_drop)
  have len: "k + 18 + ?l + 16 \<le> length m"
    using arg_cong [OF assms(1), of length] assms(2,3) by (simp add: packet_ok_def)
  have "load_bytes m (k + 18) ?l = Some (m_strData q)"
    using len d [of 18] by (simp add: load_bytes_def)
  moreover have "load_bytes m (k + 18 + ?l) 16 = Some (m_veryfyData q)"
    using len d [of "18 + ?l"] assms(3) by (simp add: load_bytes_def packet_ok_def add.assoc)
  ultimately show ?thesis
    using assms(3,4) by (simp add: parse_body_def with_fields_def length_wire packet_ok_def)
qed

section \<open>Loads inside a prefix\<close>

lemma load8_prefix: "i < n \<Longrightarrow> take n m = take n m' \<Longrightarrow> n \<le> length m \<Longrightarrow> n \<le> length m' \<Longrightarrow> load8 m i = load8 m' i"
  by (simp add: load8_def) (metis nth_take)

lemma get16_prefix:
  "i + 1 < n \<Longrightarrow> take n m = take n m' \<Longrightarrow> n \<le> length m \<Longrightarrow> n \<le> length m' \<Longrightarrow> get16 m i = get16 m' i"
  by (simp add: get16_def load16_def load8_prefix [of i n m m'] load8_prefix [of "Suc i" n m m'])

lemma get32_prefix:
  assumes "i + 3 < n" "take n m = take n m'" "n \<le> length m" "n \<le> length m'"
  shows "get32 m i = get32 m' i"
proof -
  have "load8 m (i + j) = load8 m' (i + j)" if "j < 4" for j
    using that assms by (intro load8_prefix [of _ n]) auto
  from this [of 0] this [of 1] this [of 2] this [of 3] show ?thesis
    by (simp add: get32_def load32_def load16_def numeral_3_eq_3)
qed

lemma load_bytes_prefix:
  assumes "i + l \<le> n" "take n m = take n m'" "n \<le> length m" "n \<le> length m'"
  shows "load_bytes m i l = load_bytes m' i l"
proof -
  have "take l (drop i m) = take l (drop i (take n m))" "take l (drop i m') = take l (drop i (take n m'))"
    using assms(1) by (simp_all add: drop_take min_absorb1)
  then show ?thesis
    using assms by (simp add: load_bytes_def)
qed

lemma parse_header_prefix:
  assumes "18 \<le> n" "take n m = take n m'" "n \<le> length m" "n \<le> length m'"
  shows "parse_header m 0 p = parse_header m' 0 p"
  using assms(1) get16_prefix [OF _ assms(2-4)] load8_prefix [OF _ assms(2-4)] get32_prefix [OF _ assms(2-4)]
  by (simp add: parse_header_def)

lemma parse_body_prefix:
  assumes "34 \<le> n" "n < 2 ^ 64" "take n m = take n m'" "n \<le> length m" "n \<le> length m'"
  shows "parse_body m n 18 q = parse_body m' n 18 q"
proof (cases "size_sub (size_sub n 18) 16 < unat (m_DataLength q)")
  case False
  then have "18 + unat (m_DataLength q) + 16 \<le> n"
    using assms(1,2) by (simp add: length_check)
  then show ?thesis
    using load_bytes_prefix [OF _ assms(3-5)] by (simp add: parse_body_def)
qed (simp add: parse_body_def)

section \<open>Properties\<close>

text \<open>
  C2: A serialised packet is parsed back. For a packet whose length field is the length of its data,
  \<open>Data\<close> writes exactly \<open>Size\<close> bytes, and \<open>ConstructData\<close> on these bytes, whatever follows them in the
  stream, succeeds, consumes exactly them, and gives a packet with the same fields (copies of the two
  packets are equal; the object the parser fills may have held anything).
\<close>

theorem Data_ConstructData:
  assumes "packet_wf p" "m_headSize old = 34" "length rest < 2 ^ 62"
  shows "\<exists>p' q. Data p = Some p' \<and> length (m_strOut p') = unat (Size p)
    \<and> ConstructData (m_strOut p' @ rest) (length (m_strOut p' @ rest)) old = Some (0, length (m_strOut p'), q)
    \<and> CPacket_copy q = CPacket_copy p"
proof -
  let ?m = "wire p @ rest" and ?q = "(with_fields old p)\<lparr>m_strData := m_strData p, m_veryfyData := m_veryfyData p\<rparr>"
  have p: "packet_ok p" "m_sHead p = 0xEFEF" "unat (m_DataLength p) = length (m_strData p)"
    "length (m_strData p) < 2 ^ 32"
    using assms(1) by (simp_all add: packet_wf_def)
  have d: "drop 0 ?m = header p @ m_strData p @ m_veryfyData p @ rest"
    by (simp add: wire_header)
  have len: "length ?m = length (m_strData p) + 34 + length rest"
    using p(1) by (simp add: length_wire)
  then have "wire p \<noteq> []"
    using p(1) by (auto simp flip: length_0_conv simp: length_wire)
  then have "ConstructData ?m (length ?m) old = parse_body ?m (length ?m) 18 (with_fields old p)"
    using ConstructData_at [of old "length ?m" ?m 0] parse_header_wire [OF d _ p(2)] assms(2) len by simp
  also have "\<dots> = Some (0, length (wire p), ?q)"
    using parse_body_wire [OF d _ p(1,3), of "length ?m" old] len p(4) assms(3) by (simp add: length_check)
  finally have "ConstructData ?m (length ?m) old = Some (0, length (wire p), ?q)" .
  moreover have "Data p = Some (p\<lparr>m_strOut := wire p\<rparr>)"
    using p(1) Size_wire [OF assms(1)] by (rule Data_ok)
  ultimately show ?thesis
    using Size_wire [OF assms(1)] by (simp add: CPacket_copy_def with_fields_def)
qed

definition sample_packet :: cpacket where
  "sample_packet = (CPacket_string [0x7B, 0x7D])\<lparr>m_msgVersion := 0x4120, m_saveCmd := 7\<rparr>"

lemma sample_packet_wf: "packet_wf sample_packet"
  by (simp add: sample_packet_def CPacket_string_def packet_wf_def packet_ok_def)

theorem Data_ConstructData_witness:
  "\<exists>p' q. Data sample_packet = Some p' \<and> length (m_strOut p') = unat (Size sample_packet)
    \<and> ConstructData (m_strOut p' @ [1]) (length (m_strOut p' @ [1])) (CPacket_string [])
        = Some (0, length (m_strOut p'), q)
    \<and> CPacket_copy q = CPacket_copy sample_packet"
  using Data_ConstructData [OF sample_packet_wf, of "CPacket_string []" "[1]"]
  by (simp add: CPacket_string_def)

text \<open>
  C28: The serialiser writes past the end of \<open>m_strOut\<close> exactly when \<open>m_DataLength + 34\<close>, computed in
  32 bits, is smaller than the 34 bytes of the fixed fields and the data; nothing makes the two
  members agree. Otherwise the packet's bytes come first, and what is left of the resized string stays.
\<close>

theorem Data_bounds:
  assumes "packet_ok p"
  shows "(Data p = None \<longleftrightarrow> unat (m_DataLength p + 34) < length (m_strData p) + 34)
    \<and> (\<forall>p'. Data p = Some p' \<longrightarrow> take (length (wire p)) (m_strOut p') = wire p
          \<and> length (m_strOut p') = unat (Size p) \<and> p'\<lparr>m_strOut := m_strOut p\<rparr> = p)"
proof -
  let ?n = "unat (Size p)"
  let ?m = "take ?n (m_strOut p) @ replicate (?n - length (m_strOut p)) 0"
  have len: "length (wire p) = length (m_strData p) + 34"
    using assms by (rule length_wire)
  show ?thesis
  proof (cases "?n < length (wire p)")
    case True
    then show ?thesis
      using Data_overflow [OF True] len by (simp add: Size_def)
  next
    case False
    then have "store_all ?m 0 (fields p) = Some (wire p @ drop (length (wire p)) ?m)"
      using store_all_eq [of 0 "fields p" ?m] by (simp only: concat_fields) simp
    then have "Data p = Some (p\<lparr>m_strOut := wire p @ drop (length (wire p)) ?m\<rparr>)"
      by (simp add: Data_store_all)
    then show ?thesis
      using False len by (simp add: Size_def del: drop_append)
  qed
qed

theorem Data_bounds_witness:
  "packet_ok sample_packet \<and> Data (sample_packet\<lparr>m_DataLength := 1\<rparr>) = None \<and> Data sample_packet \<noteq> None"
  using Data_bounds [of sample_packet] Data_bounds [of "sample_packet\<lparr>m_DataLength := 1\<rparr>"]
  by (simp add: sample_packet_def CPacket_string_def packet_ok_def)

text \<open>
  C26: On a stream that starts with a head, as \<open>onMessage\<close> calls it, the parser reads nothing beyond
  the \<open>nSize\<close> bytes it was given, whatever the length field says: two memories that agree on these
  bytes give the same result, it is never an access outside the memory, and a reported packet
  lies within the \<open>nSize\<close> bytes.
\<close>

theorem ConstructData_in_bounds:
  assumes "m_headSize p = 34" "n < 2 ^ 63" "n \<le> length m" "n \<le> length m'" "take n m = take n m'"
    "head_at m 0" "2 \<le> n"
  shows "ConstructData m n p = ConstructData m' n p \<and> ConstructData m n p \<noteq> None
    \<and> (\<forall>l q. ConstructData m n p = Some (0, l, q) \<longrightarrow> 34 \<le> l \<and> l \<le> n
         \<and> l = unat (m_DataLength q) + 34)"
proof (cases "n < 34")
  case True
  then show ?thesis
    using ConstructData_short [OF assms(1)] by simp
next
  case False
  let ?q = "parse_header m 0 p"
  have "head_at m' 0"
    using assms get16_prefix [of 0 n m m'] by (simp flip: get16_head)
  then have eq: "ConstructData m n p = parse_body m n 18 ?q" "ConstructData m' n p = parse_body m' n 18 ?q"
    using ConstructData_at [OF assms(1), of n m 0] ConstructData_at [OF assms(1), of n m' 0]
      parse_header_prefix [OF _ assms(5,3,4), of p] False assms by simp_all
  moreover have "parse_body m n 18 ?q = parse_body m' n 18 ?q"
    using False assms by (intro parse_body_prefix) auto
  moreover have "parse_body m n 18 ?q \<noteq> None \<and> (\<forall>l q. parse_body m n 18 ?q = Some (0, l, q) \<longrightarrow>
      34 \<le> l \<and> l \<le> n \<and> l = unat (m_DataLength q) + 34)"
    using False assms(2,3) by (auto simp: parse_body_def length_check load_bytes_def)
  ultimately show ?thesis
    by simp
qed

theorem ConstructData_in_bounds_witness:
  "head_at (wire sample_packet @ [1]) 0
   \<and> ConstructData (wire sample_packet @ [1]) 36 (CPacket_string [])
      = ConstructData (wire sample_packet @ [2]) 36 (CPacket_string [])"
proof -
  have w: "length (wire sample_packet) = 36" "wire sample_packet = header sample_packet @ [0x7B, 0x7D] @ replicate 16 0"
    using sample_packet_wf
    by (simp_all add: length_wire packet_wf_def) (simp_all add: sample_packet_def CPacket_string_def wire_header)
  have "head_at (wire sample_packet @ [1]) 0"
    using parse_header_wire(2) [of 0 "wire sample_packet @ [1]" sample_packet "[0x7B, 0x7D] @ replicate 16 0 @ [1]"]
      sample_packet_wf by (simp add: w(2) packet_wf_def)
  moreover note ConstructData_in_bounds [of "CPacket_string []" 36 "wire sample_packet @ [1]" "wire sample_packet @ [2]"]
  ultimately show ?thesis
    using w(1) by (simp add: CPacket_string_def)
qed

text \<open>
  C27: The length check wraps. When the first head lies in the last 33 of the \<open>nSize\<close> bytes, the check
  \<open>m_DataLength > nSize - i - 16\<close> compares with a number near \<open>2 ^ 64\<close>: the parser reports a complete
  packet that extends beyond the bytes it was given (here: bytes that happen to follow in memory).
\<close>

theorem ConstructData_wraps:
  assumes "m_headSize p = 34" "34 \<le> n" "n < k + 34" "k < n" "n < 2 ^ 61"
    "\<forall>j < k. \<not> head_at m j" "drop k m = wire q @ t" "packet_wf q"
  shows "\<exists>l r. ConstructData m n p = Some (0, l, r) \<and> n < l \<and> CPacket_copy r = CPacket_copy q"
proof -
  let ?q = "(with_fields p q)\<lparr>m_strData := m_strData q, m_veryfyData := m_veryfyData q\<rparr>"
  have q: "packet_ok q" "m_sHead q = 0xEFEF" "unat (m_DataLength q) = length (m_strData q)"
    "length (m_strData q) < 2 ^ 32"
    using assms(8) by (simp_all add: packet_wf_def)
  have w: "length (wire q) = length (m_strData q) + 34"
    using q(1) by (rule length_wire)
  have "length (drop k m) \<noteq> 0"
    unfolding assms(7) using w by simp
  then have k: "k \<le> length m"
    by simp
  have len: "k + 18 \<le> length m"
    using arg_cong [OF assms(7), of length] k w by simp
  have d: "drop k m = header q @ m_strData q @ m_veryfyData q @ t"
    using assms(7) by (simp add: wire_header)
  have check: "\<not> size_sub (size_sub n (k + 18)) 16 < length (m_strData q)"
  proof (cases "k + 18 \<le> n")
    case True
    then show ?thesis
      using length_check_wraps [of n "k + 18"] assms(3,5) q(4) by simp
  next
    case False
    then show ?thesis
      using length_check_wraps2 [of n "k + 18"] assms(4,5) q(4) by simp
  qed
  have "ConstructData m n p = parse_body m n (k + 18) (with_fields p q)"
    using ConstructData_at [OF assms(1,2) _ assms(4) _ len] parse_header_wire [OF d k q(2)] assms(6) by simp
  also have "\<dots> = Some (0, k + length (wire q), ?q)"
    using parse_body_wire [OF d k q(1,3), of n p] check by simp
  finally show ?thesis
    using w assms(3) by (auto simp: CPacket_copy_def with_fields_def)
qed

theorem ConstructData_wraps_witness:
  "\<exists>l r. ConstructData (replicate 33 0 @ wire sample_packet) 35 (CPacket_string []) = Some (0, l, r)
     \<and> 35 < l \<and> CPacket_copy r = CPacket_copy sample_packet"
proof -
  have "\<not> head_at (replicate 33 0 @ wire sample_packet) j" if "j < 33" for j
    using that by (auto simp: head_at_def nth_append)
  then show ?thesis
    using ConstructData_wraps [of "CPacket_string []" 35 33 "replicate 33 0 @ wire sample_packet" sample_packet "[]"]
      sample_packet_wf by (simp add: CPacket_string_def)
qed

text \<open>
  \<open>FindHeadStart\<close> returns the first position with the bytes EF EF, but its last step loads the byte
  after the \<open>nSize\<close> bytes: without a head, the call is an access outside the memory when the
  memory ends with the data.
\<close>

theorem FindHeadStart_exact:
  "(\<forall>i q. FindHeadStart m n p = Some (0, i, q) \<longrightarrow>
      i < n \<and> head_at m i \<and> (\<forall>j < i. \<not> head_at m j) \<and> q = p\<lparr>m_sHead := 0xEFEF\<rparr>)
   \<and> (FindHeadStart m n p = None \<longleftrightarrow> 0 < n \<and> length m \<le> n \<and> (\<forall>j < n. \<not> head_at m j))
   \<and> (n < length m \<longrightarrow> (\<forall>j < n. \<not> head_at m j) \<longrightarrow> (\<exists>q. FindHeadStart m n p = Some (-1, n, q)))"
proof (cases "\<exists>k < n. head_at m k")
  case True
  then obtain k where k: "k < n" "head_at m k"
    by blast
  define f where "f = (LEAST k. head_at m k)"
  have f: "head_at m f" "f < n" "\<And>j. j < f \<Longrightarrow> \<not> head_at m j"
    unfolding f_def using k by (auto intro: LeastI Least_le [THEN le_less_trans] dest: not_less_Least)
  then have "FindHeadStart m n p = Some (0, f, p\<lparr>m_sHead := 0xEFEF\<rparr>)"
    by (intro FindHeadStart_found)
  then show ?thesis
    using f by auto
next
  case False
  then show ?thesis
  proof (cases "n < length m \<or> n = 0")
    case True
    then have "\<exists>q. FindHeadStart m n p = Some (-1, n, q)"
      using FindHeadStart_none [of n m p] False by (auto simp: FindHeadStart_def FindHead_loop.simps)
    then show ?thesis
      using True by auto
  next
    case full: False
    then have "FindHeadStart m n p = None"
      using FindHead_overread [of m n 0 "m_sHead p"] False
      by (auto simp: FindHeadStart_def head_at_def)
    moreover have "0 < n" "length m \<le> n"
      using full by simp_all
    ultimately show ?thesis
      using False by simp
  qed
qed

theorem FindHeadStart_exact_witness:
  "FindHeadStart [1, 2] 2 sample_packet = None \<and> (\<exists>q. FindHeadStart [1, 2, 3] 2 sample_packet = Some (-1, 2, q))"
proof -
  have "\<not> head_at [1, 2] j" "\<not> head_at [1, 2, 3] j" if "j < 2" for j
    using that by (auto simp: head_at_def less_2_cases_iff)
  then show ?thesis
    using FindHeadStart_exact [of "[1, 2]" 2 sample_packet] FindHeadStart_exact [of "[1, 2, 3]" 2 sample_packet]
    by auto
qed

text \<open>
  Moving a packet stores a byte to the element one past the end of the old packet's \<open>m_veryfyData\<close>,
  so that no packet can be moved. Copying keeps every field of
  the packet but \<open>m_strOut\<close>, and assigning keeps the target's \<open>m_strOut\<close> and header size.
\<close>

theorem CPacket_move_copy:
  assumes "packet_ok p"
  shows "CPacket_move p = None
    \<and> wire (CPacket_copy p) = wire p \<and> wire (CPacket_assign q p) = wire p
    \<and> m_strOut (CPacket_assign q p) = m_strOut q \<and> CPacket_assign p p = p"
  using assms
  by (simp add: CPacket_move_def store_bytes_def CPacket_copy_def CPacket_assign_def packet_ok_def wire_def)

theorem CPacket_move_copy_witness:
  "packet_ok sample_packet \<and> CPacket_move sample_packet = None"
  using CPacket_move_copy [of sample_packet] sample_packet_wf by (simp add: packet_wf_def)

lemma Data_frame: "Data p = Some p' \<Longrightarrow> \<exists>out. p' = p\<lparr>m_strOut := out\<rparr>"
  by (auto simp: Data_store_all bind_eq_Some_conv)

text \<open>
  The constructor from a stream loses the encryption mode: whatever packet it returns, its
  \<open>m_cypherModel\<close> is the byte of \<open>m_veryfyModel\<close>, because it keeps the low byte of a 16 bit value.
\<close>

theorem CPacket_stream_cypher:
  assumes "CPacket_stream junk m n = Some (p, l)"
  shows "m_cypherModel p = m_veryfyModel p"
proof -
  obtain i cy two where "get16 m i = Some cy" "load_bytes m (i + 1) 2 = Some two"
    "m_cypherModel p = ucast cy" "m_veryfyModel p = two ! 0"
    using assms
    by (auto simp: CPacket_stream_def bind_eq_Some_conv Let_def split: if_splits dest!: Data_frame)
  moreover from this have "cy = word_cat (m ! i) (m ! (i + 1))" "two ! 0 = m ! (i + 1)"
    by (auto simp: get16_eq load_bytes_def split: if_splits)
  ultimately show ?thesis
    by simp
qed

theorem CPacket_stream_cypher_witness:
  "\<exists>p l. CPacket_stream sample_packet ([0, 1] @ replicate 6 0 @ [4, 5] @ replicate 7 0 @ [3]) 2 = Some (p, l)
     \<and> m_cypherModel p = m_veryfyModel p"
proof -
  have "CPacket_stream sample_packet ([0, 1] @ replicate 6 0 @ [4, 5] @ replicate 7 0 @ [3]) 2 \<noteq> None"
    by code_simp
  then show ?thesis
    using CPacket_stream_cypher by fastforce
qed

end
