(* ===== verification/Sql_Text.thy ===== *)
theory Sql_Text
  imports Prelude
begin

text \<open>
  The text of SQL statements as a database reads it, the specification against which the generated
  statements are checked: a lexer (words, double-quoted names, single-quoted strings with a
  doubled quote standing for one, punctuation, white space) and the tokens of an INSERT statement.
  \<open>lexes s ts\<close> says that the text \<open>s\<close>, followed by anything, is read as the tokens \<open>ts\<close>; it is
  closed under concatenation, which is how the statements are built.
\<close>

section \<open>Lexing\<close>

abbreviation sq :: char where
  "sq \<equiv> CHR 0x27"

abbreviation dq :: char where
  "dq \<equiv> CHR 0x22"

datatype sql_tok = TWord string | TName string | TText string | TPunct char

definition is_punct :: "char \<Rightarrow> bool" where
  "is_punct c \<longleftrightarrow> c = CHR ''('' \<or> c = CHR '')'' \<or> c = CHR '','' \<or> c = CHR ''.'' \<or> c = CHR '';''"

definition is_word :: "char \<Rightarrow> bool" where
  "is_word c \<longleftrightarrow> \<not> is_space c \<and> \<not> is_punct c \<and> c \<noteq> sq \<and> c \<noteq> dq"

text \<open>The rest of a string after its opening quote \<open>q\<close>: the characters and what follows.\<close>

fun lex_quoted :: "char \<Rightarrow> string \<Rightarrow> (string \<times> string) option" where
  "lex_quoted q [] = None"
| "lex_quoted q (c # cs) =
    (if c \<noteq> q then map_option (\<lambda>(t, r). (c # t, r)) (lex_quoted q cs)
     else case cs of
            [] \<Rightarrow> Some ([], [])
          | d # ds \<Rightarrow> if d = q then map_option (\<lambda>(t, r). (q # t, r)) (lex_quoted q ds) else Some ([], cs))"

lemma lex_quoted_shorter: "lex_quoted q s = Some (t, r) \<Longrightarrow> length r < length s"
proof (induction q s arbitrary: t rule: lex_quoted.induct)
  case (2 q c cs)
  then show ?case
    by (fastforce split: if_splits list.splits)
qed simp

function sql_lex :: "string \<Rightarrow> sql_tok list option" where
  "sql_lex [] = Some []"
| "sql_lex (c # cs) =
    (if is_space c then sql_lex cs
     else if is_punct c then map_option ((#) (TPunct c)) (sql_lex cs)
     else if c = sq then
       (case lex_quoted c cs of None \<Rightarrow> None | Some (t, r) \<Rightarrow> map_option ((#) (TText t)) (sql_lex r))
     else if c = dq then
       (case lex_quoted c cs of None \<Rightarrow> None | Some (t, r) \<Rightarrow> map_option ((#) (TName t)) (sql_lex r))
     else map_option ((#) (TWord (c # takeWhile is_word cs))) (sql_lex (dropWhile is_word cs)))"
  by pat_completeness auto
termination
  by (relation "measure length") (auto dest!: lex_quoted_shorter simp: less_Suc_eq_le length_dropWhile_le)

declare sql_lex.simps(2) [simp del]

lemmas sql_lex_Cons = sql_lex.simps(2)

section \<open>Composing\<close>

definition lexes :: "string \<Rightarrow> sql_tok list \<Rightarrow> bool" where
  "lexes s ts \<longleftrightarrow> (\<forall>r. sql_lex (s @ r) = map_option ((@) ts) (sql_lex r))"

lemma append_functions:
  "(@) [] = (\<lambda>x. x)" "(@) (t # ts) = (\<lambda>x. t # ts @ x)" "(@) (ts @ us) = (\<lambda>x. ts @ us @ x)"
  by (simp_all add: fun_eq_iff)

lemmas lexes_simps = lexes_def append_functions option.map_comp o_def option.map_ident

lemma lexes_result: "lexes s ts \<Longrightarrow> sql_lex s = Some ts"
  by (simp add: lexes_def) (metis append_Nil2 option.simps(9) sql_lex.simps(1))

lemma lexes_Nil: "lexes [] []"
  by (simp add: lexes_simps)

lemma lexes_append: "lexes s ts \<Longrightarrow> lexes s' ts' \<Longrightarrow> lexes (s @ s') (ts @ ts')"
  by (simp add: lexes_simps sql_lex_Cons)

lemma lexes_space: "is_space c \<Longrightarrow> lexes s ts \<Longrightarrow> lexes (c # s) ts"
  by (simp add: lexes_simps sql_lex_Cons)

lemma lexes_punct: "is_punct c \<Longrightarrow> \<not> is_space c \<Longrightarrow> lexes s ts \<Longrightarrow> lexes (c # s) (TPunct c # ts)"
  by (simp add: lexes_simps sql_lex_Cons)

lemma takeWhile_word:
  "\<forall>c \<in> set w. P c \<Longrightarrow> \<not> P d \<Longrightarrow> takeWhile P (w @ d # r) = w"
  "\<forall>c \<in> set w. P c \<Longrightarrow> \<not> P d \<Longrightarrow> dropWhile P (w @ d # r) = d # r"
  by (induction w) auto

text \<open>A word ends at the first character that is no word character.\<close>

lemma lexes_word:
  assumes "w \<noteq> []" "\<forall>c \<in> set w. is_word c" "\<not> is_word d" "lexes (d # s) ts"
  shows "lexes (w @ d # s) (TWord w # ts)"
proof -
  obtain c cs where w: "w = c # cs"
    using assms(1) by (cases w) auto
  then have "\<not> is_space c" "\<not> is_punct c" "c \<noteq> sq" "c \<noteq> dq" "\<forall>c \<in> set cs. is_word c"
    using assms(2) by (auto simp: is_word_def)
  then have "sql_lex (w @ d # s @ r) = map_option ((#) (TWord w)) (sql_lex (d # s @ r))" for r
    using assms(3) w takeWhile_word [of cs is_word d] by (simp add: sql_lex_Cons)
  then show ?thesis
    using assms(4) by (simp add: lexes_simps)
qed

lemma lex_quoted_plain:
  "q \<notin> set v \<Longrightarrow> d \<noteq> q \<Longrightarrow> lex_quoted q (v @ q # d # r) = Some (v, d # r)"
  by (induction v) auto

lemma lexes_text:
  assumes "sq \<notin> set v" "d \<noteq> sq" "lexes (d # s) ts"
  shows "lexes (sq # v @ sq # d # s) (TText v # ts)"
proof -
  have "\<not> is_space sq" "\<not> is_punct sq"
    by (simp_all add: is_space_def is_punct_def)
  then have "sql_lex (sq # v @ sq # d # s @ r) = map_option ((#) (TText v)) (sql_lex (d # s @ r))" for r
    using lex_quoted_plain [OF assms(1,2)] by (simp add: sql_lex_Cons)
  then show ?thesis
    using assms(3) by (simp add: lexes_simps)
qed

lemma lexes_name:
  assumes "dq \<notin> set v" "d \<noteq> dq" "lexes (d # s) ts"
  shows "lexes (dq # v @ dq # d # s) (TName v # ts)"
proof -
  have "\<not> is_space dq" "\<not> is_punct dq" "dq \<noteq> sq"
    by (simp_all add: is_space_def is_punct_def)
  then have "sql_lex (dq # v @ dq # d # s @ r) = map_option ((#) (TName v)) (sql_lex (d # s @ r))" for r
    using lex_quoted_plain [OF assms(1,2)] by (simp add: sql_lex_Cons)
  then show ?thesis
    using assms(3) by (simp add: lexes_simps)
qed

lemma is_digit_word: "is_digit c \<Longrightarrow> is_word c"
  by (auto simp: is_word_def is_digit_not_space is_punct_def is_digit_def)

lemma nat_str_word: "\<forall>c \<in> set (nat_str n). is_word c"
  using nat_str_digits is_digit_word by blast

lemma sq_nat_str [simp]: "sq \<notin> set (nat_str n)" "dq \<notin> set (nat_str n)"
  using nat_str_digits [of sq n] nat_str_digits [of dq n] by (auto simp: is_digit_def)

section \<open>The tokens of an INSERT statement\<close>

fun commas :: "sql_tok list \<Rightarrow> sql_tok list" where
  "commas [] = []"
| "commas [t] = [t]"
| "commas (t # ts) = t # TPunct (CHR '','') # commas ts"

definition insert_tokens :: "string \<Rightarrow> string \<Rightarrow> string list \<Rightarrow> sql_tok list \<Rightarrow> sql_tok list" where
  "insert_tokens schema table cols vals =
    [TWord ''INSERT'', TWord ''INTO'', TName schema, TPunct (CHR ''.''), TName table, TPunct (CHR ''('')]
    @ commas (map TWord cols)
    @ [TPunct (CHR '')''), TWord ''VALUES'', TPunct (CHR ''('')]
    @ commas vals @ [TPunct (CHR '')''), TPunct (CHR '';'')]"

text \<open>The values list of a statement: the values with the separator the sources use.\<close>

datatype sql_val = Num nat | Str string | Raw string

fun val_text :: "sql_val \<Rightarrow> string" where
  "val_text (Num n) = nat_str n"
| "val_text (Str s) = sq # s @ [sq]"
| "val_text (Raw s) = s"

fun val_tok :: "sql_val \<Rightarrow> sql_tok" where
  "val_tok (Num n) = TWord (nat_str n)"
| "val_tok (Str s) = TText s"
| "val_tok (Raw s) = TWord s"

fun val_ok :: "sql_val \<Rightarrow> bool" where
  "val_ok (Num n) = True"
| "val_ok (Str s) = (sq \<notin> set s)"
| "val_ok (Raw s) = (s \<noteq> [] \<and> (\<forall>c \<in> set s. is_word c))"

lemma lexes_val:
  assumes "val_ok v" "d = CHR '','' \<or> d = CHR '')''" "lexes (d # s) ts"
  shows "lexes (val_text v @ d # s) (val_tok v # ts)"
proof (cases v)
  case (Num n)
  then show ?thesis
    using lexes_word [OF nat_str_nonempty nat_str_word _ assms(3)] assms(2)
    by (auto simp: is_word_def is_punct_def)
next
  case (Str t)
  then show ?thesis
    using lexes_text [OF _ _ assms(3)] assms(1,2) by auto
next
  case (Raw t)
  then show ?thesis
    using lexes_word [OF _ _ _ assms(3)] assms(1,2) by (auto simp: is_word_def is_punct_def)
qed

text \<open>All values, separated by a comma and a space, up to the closing bracket.\<close>

fun vals_text :: "sql_val list \<Rightarrow> string" where
  "vals_text [] = []"
| "vals_text [v] = val_text v"
| "vals_text (v # vs) = val_text v @ '', '' @ vals_text vs"

lemma lexes_vals_before:
  assumes "vs \<noteq> []" "\<forall>v \<in> set vs. val_ok v" "d = CHR '','' \<or> d = CHR '')''" "lexes (d # s) ts"
  shows "lexes (vals_text vs @ d # s) (commas (map val_tok vs) @ ts)"
  using assms
proof (induction vs rule: vals_text.induct)
  case (2 v)
  then show ?case
    using lexes_val [of v d] by simp
next
  case (3 v w vs)
  have "lexes (CHR '' '' # vals_text (w # vs) @ d # s) (commas (map val_tok (w # vs)) @ ts)"
    using 3 by (intro lexes_space) (simp_all add: is_space_def)
  then have "lexes (CHR '','' # CHR '' '' # vals_text (w # vs) @ d # s)
      (TPunct (CHR '','') # commas (map val_tok (w # vs)) @ ts)"
    by (intro lexes_punct) (simp_all add: is_punct_def is_space_def)
  then show ?case
    using 3(3) lexes_val [of v "CHR '',''"] by simp
qed simp

lemmas lexes_vals = lexes_vals_before [where d = "CHR '')''", simplified]

section \<open>Literal parts of a statement\<close>

text \<open>A text that is read completely and ends with a space or punctuation can be followed by anything.\<close>

lemma lex_quoted_extend:
  "lex_quoted q s = Some (t, r) \<Longrightarrow> r \<noteq> [] \<Longrightarrow> lex_quoted q (s @ u) = Some (t, r @ u)"
proof (induction q s arbitrary: t rule: lex_quoted.induct)
  case (2 q c cs)
  show ?case
  proof (cases "c = q")
    case False
    then show ?thesis
      using 2(1,3,4) by auto
  next
    case True
    then obtain d ds where cs: "cs = d # ds"
      using 2(3,4) by (cases cs) auto
    then show ?thesis
      using 2(2) [OF _ cs] 2(3,4) True by (auto split: if_splits)
  qed
qed simp

lemma lex_quoted_last:
  assumes "lex_quoted q s = Some (t, [])"
  shows "s \<noteq> [] \<and> last s = q"
  using assms
proof (induction q s arbitrary: t rule: lex_quoted.induct)
  case (2 q c cs)
  then show ?case
    by (fastforce split: if_splits list.splits)
qed simp

lemma lex_quoted_suffix: "lex_quoted q s = Some (t, r) \<Longrightarrow> \<exists>p. s = p @ r"
proof (induction q s arbitrary: t rule: lex_quoted.induct)
  case (2 q c cs)
  then show ?case
    by (fastforce split: if_splits list.splits simp: Cons_eq_append_conv)
qed simp

text \<open>The texts that can be followed by anything: the empty one, and those with such an end.\<close>

abbreviation closed_end :: "string \<Rightarrow> bool" where
  "closed_end s \<equiv> s = [] \<or> is_space (last s) \<or> is_punct (last s)"

lemma lexes_literal_quoted:
  assumes "lex_quoted c cs = Some (t, r)" "sql_lex r = Some us" "c = sq \<or> c = dq" "closed_end (c # cs)"
    "\<And>cs. sql_lex (c # cs) = (case lex_quoted c cs of None \<Rightarrow> None | Some (t, r) \<Rightarrow> map_option ((#) (K t)) (sql_lex r))"
    "closed_end r \<Longrightarrow> lexes r us"
  shows "lexes (c # cs) (K t # us)"
proof -
  have nq: "last (c # cs) \<noteq> sq" "last (c # cs) \<noteq> dq"
    using assms(4) by (auto simp: is_space_def is_punct_def)
  have r: "r \<noteq> []"
    using lex_quoted_last [of c cs t] assms(1,3) nq by (auto split: if_splits)
  then have "last r = last (c # cs)"
    using lex_quoted_suffix [OF assms(1)] by auto
  then have "lexes r us"
    using assms(4,6) r by simp
  then show ?thesis
    using lex_quoted_extend [OF assms(1) r] by (simp add: lexes_simps assms(5))
qed

lemma lexes_literal_word:
  assumes "is_word c" "sql_lex (dropWhile is_word cs) = Some us" "closed_end (c # cs)"
    "closed_end (dropWhile is_word cs) \<Longrightarrow> lexes (dropWhile is_word cs) us"
  shows "lexes (c # cs) (TWord (c # takeWhile is_word cs) # us)"
proof -
  let ?w = "c # takeWhile is_word cs" and ?r = "dropWhile is_word cs"
  have "\<not> is_word (last (c # cs))"
    using assms(3) by (auto simp: is_word_def)
  then have "\<exists>x \<in> set cs. \<not> is_word x"
    using assms(1) by (cases cs rule: rev_cases) auto
  then obtain d s where d: "?r = d # s" "\<not> is_word d"
    by (metis dropWhile_eq_Nil_conv hd_dropWhile list.exhaust list.sel(1))
  have "last ?r = last (c # cs)"
    using d(1) by (metis append_is_Nil_conv last_ConsR last_appendR list.distinct(1) takeWhile_dropWhile_id)
  then have r: "lexes (d # s) us"
    using assms(3,4) d(1) by auto
  have w: "\<forall>x \<in> set ?w. is_word x"
    using assms(1) by (auto dest: set_takeWhileD)
  have "lexes (?w @ d # s) (TWord ?w # us)"
    by (rule lexes_word [OF _ w d(2) r]) simp
  then show ?thesis
    using d(1) by (metis append_Cons takeWhile_dropWhile_id)
qed

lemma lexes_literal:
  assumes "sql_lex s = Some ts" "closed_end s"
  shows "lexes s ts"
  using assms
proof (induction s arbitrary: ts rule: sql_lex.induct)
  case 1
  then show ?case by (simp add: lexes_Nil)
next
  case (2 c cs)
  have tail: "closed_end cs"
    using 2(7) by (auto split: if_splits)
  consider "is_space c" | "\<not> is_space c" "is_punct c" | "\<not> is_space c" "\<not> is_punct c" "c = sq"
    | "\<not> is_space c" "\<not> is_punct c" "c \<noteq> sq" "c = dq" | "is_word c"
    by (auto simp: is_word_def)
  then show ?case
  proof cases
    case 1
    then show ?thesis
      using 2(1) [OF 1] 2(6) tail by (intro lexes_space) (simp_all add: sql_lex_Cons)
  next
    case p: 2
    then obtain us where "sql_lex cs = Some us" "ts = TPunct c # us"
      using 2(6) by (auto simp: sql_lex_Cons)
    then show ?thesis
      using 2(2) [OF p] tail p by (auto intro!: lexes_punct)
  next
    case p: 3
    then obtain t r us where "lex_quoted c cs = Some (t, r)" "sql_lex r = Some us" "ts = TText t # us"
      using 2(6) by (auto simp: sql_lex_Cons split: option.splits)
    then show ?thesis
      using lexes_literal_quoted [of c cs t r us TText] 2(3) [OF p] 2(7) p by (simp add: sql_lex_Cons)
  next
    case p: 4
    then obtain t r us where "lex_quoted c cs = Some (t, r)" "sql_lex r = Some us" "ts = TName t # us"
      using 2(6) by (auto simp: sql_lex_Cons split: option.splits)
    then show ?thesis
      using lexes_literal_quoted [of c cs t r us TName] 2(4) [OF p] 2(7) p by (simp add: sql_lex_Cons)
  next
    case 5
    then have c: "\<not> is_space c" "\<not> is_punct c" "c \<noteq> sq" "c \<noteq> dq"
      by (auto simp: is_word_def)
    then obtain us where us: "sql_lex (dropWhile is_word cs) = Some us" "ts = TWord (c # takeWhile is_word cs) # us"
      using 2(6) by (auto simp: sql_lex_Cons)
    show ?thesis
      unfolding us(2) by (rule lexes_literal_word [OF 5 us(1) 2(7) 2(5) [OF c us(1)]])
  qed
qed

section \<open>Statements that cannot be read\<close>

text \<open>In a text without double quotes the single quotes of a readable statement come in pairs.\<close>

lemma lex_quoted_count:
  "lex_quoted q s = Some (t, r) \<Longrightarrow> even (count_list s q + count_list r q + 1)"
proof (induction q s arbitrary: t rule: lex_quoted.induct)
  case (2 q c cs)
  then show ?case
    by (fastforce split: if_splits list.splits)
qed simp

lemma count_list_dropWhile:
  "\<forall>c \<in> set (takeWhile P cs). c \<noteq> q \<Longrightarrow> count_list (dropWhile P cs) q = count_list cs q"
  by (induction cs) (auto split: if_splits)

lemma quotes_in_pairs:
  assumes "sql_lex s = Some ts" "dq \<notin> set s"
  shows "even (count_list s sq)"
  using assms
proof (induction s arbitrary: ts rule: sql_lex.induct)
  case (2 c cs)
  have c: "c \<noteq> dq" "dq \<notin> set cs"
    using 2(7) by auto
  consider "is_space c" | "\<not> is_space c" "is_punct c" | "\<not> is_space c" "\<not> is_punct c" "c = sq" | "is_word c"
    using c by (auto simp: is_word_def)
  then show ?case
  proof cases
    case 1
    then show ?thesis
      using 2(1) [OF 1] 2(6) c by (auto simp: sql_lex_Cons is_space_def)
  next
    case p: 2
    then show ?thesis
      using 2(2) [OF p] 2(6) c by (auto simp: sql_lex_Cons is_punct_def)
  next
    case p: 3
    then obtain t r us where r: "lex_quoted sq cs = Some (t, r)" "sql_lex r = Some us"
      using 2(6) by (auto simp: sql_lex_Cons split: option.splits)
    moreover have "dq \<notin> set r"
      using lex_quoted_suffix [OF r(1)] c by auto
    ultimately have "even (count_list r sq)"
      using 2(3) [OF p, of "(t, r)" t r us] p by simp
    then show ?thesis
      using lex_quoted_count [OF r(1)] p by simp
  next
    case 4
    have w: "\<not> is_space c" "\<not> is_punct c" "c \<noteq> sq" "c \<noteq> dq"
      using 4 by (auto simp: is_word_def)
    then obtain us where us: "sql_lex (dropWhile is_word cs) = Some us"
      using 2(6) by (auto simp: sql_lex_Cons)
    have "dq \<notin> set (dropWhile is_word cs)"
      using c set_dropWhileD by fastforce
    then have "even (count_list (dropWhile is_word cs) sq)"
      using 2(5) [OF w us] by simp
    moreover have "count_list (dropWhile is_word cs) sq = count_list cs sq"
      by (intro count_list_dropWhile) (auto dest!: set_takeWhileD simp: is_word_def)
    ultimately show ?thesis
      using w by simp
  qed
qed simp

lemma lexes_stuck:
  assumes "lexes s ts" "dq \<notin> set r" "odd (count_list r sq)"
  shows "sql_lex (s @ r) = None"
  using assms quotes_in_pairs [of r] by (cases "sql_lex r") (auto simp: lexes_def)

section \<open>The statement builders share one shape\<close>

text \<open>
  Every report class writes a fixed text \<open>pre\<close>, the schema and table names, a fixed text \<open>mid\<close> with
  the columns, the values, and the closing bracket. A class fixes the two texts and its columns;
  what the statement says to the database follows.
\<close>

locale insert_header =
  fixes pre :: string and mid :: string and cols :: "string list"
  assumes pre_lex: "sql_lex pre = Some [TWord ''INSERT'', TWord ''INTO'']"
    and pre_last: "is_space (last pre)"
    and mid_lex: "sql_lex mid = Some ([TPunct (CHR ''('')] @ commas (map TWord cols)
                     @ [TPunct (CHR '')''), TWord ''VALUES'', TPunct (CHR ''('')])"
    and mid_ends: "mid \<noteq> []" "hd mid \<noteq> dq" "is_punct (last mid)"
begin

lemma statement_lex:
  assumes "dq \<notin> set schema" "dq \<notin> set table" "vals \<noteq> []" "\<forall>v \<in> set vals. val_ok v"
  shows "sql_lex (pre @ dq # schema @ dq # CHR ''.'' # dq # table @ dq # mid @ vals_text vals @ '');'')
    = Some (insert_tokens schema table cols (map val_tok vals))"
proof -
  obtain d s where mid: "mid = d # s" "d \<noteq> dq"
    using mid_ends by (cases mid) auto
  have "lexes '');'' [TPunct (CHR '')''), TPunct (CHR '';'')]"
    by (intro lexes_punct lexes_Nil) (simp_all add: is_punct_def is_space_def)
  then have "lexes (vals_text vals @ '');'') (commas (map val_tok vals) @ [TPunct (CHR '')''), TPunct (CHR '';'')])"
    using assms(3,4) by (intro lexes_vals)
  moreover have "lexes mid ([TPunct (CHR ''('')] @ commas (map TWord cols)
                     @ [TPunct (CHR '')''), TWord ''VALUES'', TPunct (CHR ''('')])"
    using mid_lex mid_ends by (intro lexes_literal) auto
  ultimately have "lexes (d # s @ vals_text vals @ '');'') (([TPunct (CHR ''('')] @ commas (map TWord cols)
       @ [TPunct (CHR '')''), TWord ''VALUES'', TPunct (CHR ''('')]) @ commas (map val_tok vals)
       @ [TPunct (CHR '')''), TPunct (CHR '';'')])"
    using lexes_append mid(1) by (metis append_Cons)
  then have "lexes (dq # table @ dq # d # s @ vals_text vals @ '');'') (TName table # ([TPunct (CHR ''('')] @ commas (map TWord cols)
       @ [TPunct (CHR '')''), TWord ''VALUES'', TPunct (CHR ''('')]) @ commas (map val_tok vals)
       @ [TPunct (CHR '')''), TPunct (CHR '';'')])"
    using assms(2) mid(2) by (intro lexes_name)
  then have "lexes (CHR ''.'' # dq # table @ dq # d # s @ vals_text vals @ '');'')
      (TPunct (CHR ''.'') # TName table # ([TPunct (CHR ''('')] @ commas (map TWord cols)
       @ [TPunct (CHR '')''), TWord ''VALUES'', TPunct (CHR ''('')]) @ commas (map val_tok vals)
       @ [TPunct (CHR '')''), TPunct (CHR '';'')])"
    by (intro lexes_punct) (simp_all add: is_punct_def is_space_def)
  then have "lexes (dq # schema @ dq # CHR ''.'' # dq # table @ dq # d # s @ vals_text vals @ '');'')
      (TName schema # TPunct (CHR ''.'') # TName table # ([TPunct (CHR ''('')] @ commas (map TWord cols)
       @ [TPunct (CHR '')''), TWord ''VALUES'', TPunct (CHR ''('')]) @ commas (map val_tok vals)
       @ [TPunct (CHR '')''), TPunct (CHR '';'')])"
    using assms(1) by (intro lexes_name) simp_all
  moreover have "lexes pre [TWord ''INSERT'', TWord ''INTO'']"
    using pre_lex pre_last by (intro lexes_literal) auto
  ultimately show ?thesis
    unfolding mid(1) insert_tokens_def by (intro lexes_result) (auto dest: lexes_append)
qed

text \<open>The part of a statement up to and including some of its values.\<close>

lemma statement_prefix:
  assumes "dq \<notin> set schema" "dq \<notin> set table" "vals \<noteq> []" "\<forall>v \<in> set vals. val_ok v"
  shows "\<exists>ts. lexes (pre @ dq # schema @ dq # CHR ''.'' # dq # table @ dq # mid @ vals_text vals @ '', '') ts"
proof -
  let ?s = "pre @ dq # schema @ dq # CHR ''.'' # dq # table @ dq # mid @ vals_text vals @ '', ''"
  obtain d s where mid: "mid = d # s" "d \<noteq> dq"
    using mid_ends by (cases mid) auto
  have "lexes '', '' [TPunct (CHR '','')]"
    by (intro lexes_punct lexes_space lexes_Nil) (simp_all add: is_punct_def is_space_def)
  then have "lexes (vals_text vals @ '', '') (commas (map val_tok vals) @ [TPunct (CHR '','')])"
    using assms(3,4) by (intro lexes_vals_before) simp_all
  then obtain ts where "lexes (d # s @ vals_text vals @ '', '') ts"
    using lexes_append [OF lexes_literal [OF mid_lex]] mid mid_ends by fastforce
  then have "lexes (dq # table @ dq # d # s @ vals_text vals @ '', '') (TName table # ts)"
    using assms(2) mid(2) by (intro lexes_name)
  then have "lexes (CHR ''.'' # dq # table @ dq # d # s @ vals_text vals @ '', '')
      (TPunct (CHR ''.'') # TName table # ts)"
    by (intro lexes_punct) (simp_all add: is_punct_def is_space_def)
  then have "lexes (dq # schema @ dq # CHR ''.'' # dq # table @ dq # d # s @ vals_text vals @ '', '')
      (TName schema # TPunct (CHR ''.'') # TName table # ts)"
    using assms(1) by (intro lexes_name) simp_all
  moreover have "lexes pre [TWord ''INSERT'', TWord ''INTO'']"
    using pre_lex pre_last by (intro lexes_literal) auto
  ultimately show ?thesis
    unfolding mid(1) by (auto dest: lexes_append)
qed

end

lemma length_commas: "length (commas ts) = 2 * length ts - 1"
  by (induction ts rule: commas.induct) auto

end
