(* ===== verification/Data_Info.thy ===== *)
theory Data_Info
  imports Sql_Text
begin

text \<open>
  The report base class, src/src/data/dataBase/DataInfoBase.h and DataInfoBase.cpp: a JSON text
  becomes the fields every report has, and the fields become an INSERT statement.

  jsoncpp is not part of the program's own code: its values are a type parameter \<open>'v\<close> and the
  operations the class calls are the fields of \<open>json_lib\<close>. \<open>json_contract\<close> states the documented
  behaviour the properties rely on; \<open>sample_json\<close> is an instance of it.
\<close>

section \<open>The JSON library\<close>

record 'v json_lib =
  parseFromStream :: "string \<Rightarrow> 'v option"                 \<comment> \<open>the root, unless the text is no document\<close>
  json_get :: "'v \<Rightarrow> string \<Rightarrow> 'v \<Rightarrow> fault + 'v"          \<comment> \<open>\<open>Value::get(key, default)\<close>\<close>
  of_int_value :: "int \<Rightarrow> 'v"                              \<comment> \<open>\<open>Value(int)\<close>\<close>
  of_string_value :: "string \<Rightarrow> 'v"                        \<comment> \<open>\<open>Value(const char *)\<close>\<close>
  asInt :: "'v \<Rightarrow> fault + int"
  asString :: "'v \<Rightarrow> fault + string"

text \<open>
  Documented behaviour: a value made of an int or of a string gives it back; \<open>asInt\<close> returns a
  32 bit int or throws; the empty text is not a document.
\<close>

definition json_contract :: "('v, 'z) json_lib_scheme \<Rightarrow> bool" where
  "json_contract J \<longleftrightarrow>
    (\<forall>i. - (2 ^ 31) \<le> i \<and> i < 2 ^ 31 \<longrightarrow> asInt J (of_int_value J i) = Inr i)
    \<and> (\<forall>s. asString J (of_string_value J s) = Inr s)
    \<and> (\<forall>v i. asInt J v = Inr i \<longrightarrow> - (2 ^ 31) \<le> i \<and> i < 2 ^ 31)
    \<and> parseFromStream J '''' = None"

section \<open>The fields\<close>

record DataInfoBase =
  systemID :: "32 word"
  systemIP :: string
  mainCMD :: "16 word"
  subCMD :: "16 word"
  evidenceID :: string
  msgVersion :: "16 word"
  submittime :: string
  dataHash :: string
  datasign :: string
  randomidentification :: string
  data :: string

text \<open>\<open>root.get(key, i).asInt()\<close> and \<open>root.get(key, s).asString()\<close>.\<close>

definition get_int :: "('v, 'z) json_lib_scheme \<Rightarrow> 'v \<Rightarrow> string \<Rightarrow> int \<Rightarrow> fault + int" where
  "get_int J root key i = bindE (json_get J root key (of_int_value J i)) (asInt J)"

definition get_string :: "('v, 'z) json_lib_scheme \<Rightarrow> 'v \<Rightarrow> string \<Rightarrow> string \<Rightarrow> fault + string" where
  "get_string J root key s = bindE (json_get J root key (of_string_value J s)) (asString J)"

text \<open>The assignments convert the signed int to the unsigned width of the member.\<close>

definition SetCommonData :: "('v, 'z) json_lib_scheme \<Rightarrow> 'v \<Rightarrow> fault + DataInfoBase" where
  "SetCommonData J root =
    bindE (get_int J root ''systemID'' 0) (\<lambda>v_systemID.
    bindE (get_string J root ''systemIP'' ''NULL'') (\<lambda>v_systemIP.
    bindE (get_int J root ''mainCMD'' 0) (\<lambda>v_mainCMD.
    bindE (get_int J root ''subCMD'' 0) (\<lambda>v_subCMD.
    bindE (get_string J root ''evidenceID'' ''NULL'') (\<lambda>v_evidenceID.
    bindE (get_int J root ''msgVersion'' 0) (\<lambda>v_msgVersion.
    bindE (get_string J root ''submittime'' ''NULL'') (\<lambda>v_submittime.
    bindE (get_string J root ''dataHash'' ''NULL'') (\<lambda>v_dataHash.
    bindE (get_string J root ''datasign'' ''NULL'') (\<lambda>v_datasign.
    bindE (get_string J root ''randomidentification'' ''NULL'') (\<lambda>v_randomidentification.
    bindE (get_string J root ''data'' ''NULL'') (\<lambda>v_data.
    Inr \<lparr>systemID = word_of_int v_systemID, systemIP = v_systemIP,
         mainCMD = word_of_int v_mainCMD, subCMD = word_of_int v_subCMD,
         evidenceID = v_evidenceID, msgVersion = word_of_int v_msgVersion,
         submittime = v_submittime, dataHash = v_dataHash, datasign = v_datasign,
         randomidentification = v_randomidentification, data = v_data\<rparr>)))))))))))"

definition InitJsonReader :: "('v, 'z) json_lib_scheme \<Rightarrow> string \<Rightarrow> 'v option" where
  "InitJsonReader J jsonString = parseFromStream J jsonString"

text \<open>A text that does not parse ends the process.\<close>

definition DataInfoBase_ctor :: "('v, 'z) json_lib_scheme \<Rightarrow> string \<Rightarrow> fault + DataInfoBase" where
  "DataInfoBase_ctor J jsonStr =
    (case InitJsonReader J jsonStr of
       None \<Rightarrow> Inl (ProcessExit (-1))
     | Some root \<Rightarrow> SetCommonData J root)"

section \<open>The INSERT statement\<close>

text \<open>\<open>data\<close> is the one text that is written without quotes.\<close>

definition GetInserDataInOrder :: "DataInfoBase \<Rightarrow> string \<Rightarrow> string \<Rightarrow> string" where
  "GetInserDataInOrder d modelName tableName =
    ''INSERT INTO '' @ [dq] @ modelName @ [dq] @ ''.'' @ [dq] @ tableName @ [dq] @ '' (''
    @ ''systemID, systemIP, mainCMD, subCMD, evidenceID, msgVersion, submittime, ''
    @ ''data,''
    @ ''dataHash, datasign, randomidentification) VALUES (''
    @ nat_str (unat (systemID d)) @ '', ''
    @ [sq] @ systemIP d @ [sq] @ '', ''
    @ nat_str (unat (mainCMD d)) @ '', ''
    @ nat_str (unat (subCMD d)) @ '', ''
    @ [sq] @ evidenceID d @ [sq] @ '', ''
    @ nat_str (unat (msgVersion d)) @ '', ''
    @ [sq] @ submittime d @ [sq] @ '', ''
    @ data d @ '', ''
    @ [sq] @ dataHash d @ [sq] @ '', ''
    @ [sq] @ datasign d @ [sq] @ '', ''
    @ [sq] @ randomidentification d @ [sq] @ '');''"

section \<open>What the statement says\<close>

text \<open>The columns, and the value each one should get.\<close>

definition common_columns :: "string list" where
  "common_columns = [''systemID'', ''systemIP'', ''mainCMD'', ''subCMD'', ''evidenceID'', ''msgVersion'',
     ''submittime'', ''data'', ''dataHash'', ''datasign'', ''randomidentification'']"

definition common_vals :: "DataInfoBase \<Rightarrow> sql_val list" where
  "common_vals d = [Num (unat (systemID d)), Str (systemIP d), Num (unat (mainCMD d)),
     Num (unat (subCMD d)), Str (evidenceID d), Num (unat (msgVersion d)), Str (submittime d),
     Raw (data d), Str (dataHash d), Str (datasign d), Str (randomidentification d)]"

abbreviation common_mid :: string where
  "common_mid \<equiv> '' (systemID, systemIP, mainCMD, subCMD, evidenceID, msgVersion, submittime, data,dataHash, datasign, randomidentification) VALUES (''"

text \<open>Texts that cannot end their SQL literal early.\<close>

definition report_ok :: "DataInfoBase \<Rightarrow> bool" where
  "report_ok d \<longleftrightarrow> (\<forall>v \<in> set (common_vals d). val_ok v)"

lemma GetInserDataInOrder_shape:
  "GetInserDataInOrder d modelName tableName =
    ''INSERT INTO '' @ dq # modelName @ dq # CHR ''.'' # dq # tableName @ dq # common_mid
    @ vals_text (common_vals d) @ '');''"
  by (simp add: GetInserDataInOrder_def common_vals_def)

interpretation common: insert_header "''INSERT INTO ''" common_mid common_columns
proof unfold_locales
  show "sql_lex ''INSERT INTO '' = Some [TWord ''INSERT'', TWord ''INTO'']"
    by code_simp
  show "is_space (last ''INSERT INTO '')"
    by code_simp
  show "sql_lex common_mid = Some ([TPunct CHR ''(''] @ commas (map TWord common_columns)
          @ [TPunct CHR '')'', TWord ''VALUES'', TPunct CHR ''(''])"
    by code_simp
  show "common_mid \<noteq> []" "hd common_mid \<noteq> dq" "is_punct (last common_mid)"
    by (simp_all add: is_punct_def)
qed

section \<open>Lemmas\<close>

lemma vals_text_append:
  "us \<noteq> [] \<Longrightarrow> ws \<noteq> [] \<Longrightarrow> vals_text (us @ ws) = vals_text us @ '', '' @ vals_text ws"
proof (induction us rule: vals_text.induct)
  case (2 v)
  then show ?case by (cases ws) auto
qed auto

text \<open>A text spliced in without quotes can be several values.\<close>

lemma vals_text_splice:
  assumes "us \<noteq> []" "xs \<noteq> []" "ws \<noteq> []"
  shows "vals_text (us @ Raw (vals_text xs) # ws) = vals_text (us @ xs @ ws)"
proof -
  have "vals_text (us @ Raw (vals_text xs) # ws) = vals_text us @ '', '' @ vals_text (Raw (vals_text xs) # ws)"
    using assms by (intro vals_text_append) auto
  also have "vals_text (Raw (vals_text xs) # ws) = vals_text xs @ '', '' @ vals_text ws"
    using assms(3) by (cases ws) auto
  finally show ?thesis
    using assms by (simp add: vals_text_append)
qed

lemma common_vals_nonempty [simp]: "common_vals d \<noteq> []"
  by (simp add: common_vals_def)

lemma statement_tokens:
  assumes "report_ok d" "dq \<notin> set modelName" "dq \<notin> set tableName"
  shows "sql_lex (GetInserDataInOrder d modelName tableName)
    = Some (insert_tokens modelName tableName common_columns (map val_tok (common_vals d)))"
  using common.statement_lex [OF assms(2,3) common_vals_nonempty, of d] assms(1)
  unfolding GetInserDataInOrder_shape report_ok_def by blast

lemma statement_lexes:
  assumes "report_ok d" "dq \<notin> set modelName" "dq \<notin> set tableName"
  shows "lexes (GetInserDataInOrder d modelName tableName)
    (insert_tokens modelName tableName common_columns (map val_tok (common_vals d)))"
  using statement_tokens [OF assms] by (rule lexes_literal) (simp add: GetInserDataInOrder_def is_punct_def)

text \<open>What a field is read from.\<close>

lemma SetCommonData_Inr:
  assumes "SetCommonData J root = Inr d"
  shows "\<exists>i. get_int J root ''systemID'' 0 = Inr i \<and> systemID d = word_of_int i"
    "\<exists>i. get_int J root ''mainCMD'' 0 = Inr i \<and> mainCMD d = word_of_int i"
    "\<exists>i. get_int J root ''subCMD'' 0 = Inr i \<and> subCMD d = word_of_int i"
    "\<exists>i. get_int J root ''msgVersion'' 0 = Inr i \<and> msgVersion d = word_of_int i"
    "get_string J root ''systemIP'' ''NULL'' = Inr (systemIP d)"
    "get_string J root ''evidenceID'' ''NULL'' = Inr (evidenceID d)"
    "get_string J root ''submittime'' ''NULL'' = Inr (submittime d)"
    "get_string J root ''data'' ''NULL'' = Inr (data d)"
    "get_string J root ''dataHash'' ''NULL'' = Inr (dataHash d)"
    "get_string J root ''datasign'' ''NULL'' = Inr (datasign d)"
    "get_string J root ''randomidentification'' ''NULL'' = Inr (randomidentification d)"
  using assms by (auto simp: SetCommonData_def bindE_Inr)

lemma unat_word16: "unat (word_of_int i :: 16 word) = nat (i mod 2 ^ 16)"
  by (simp add: unat_eq_nat_uint uint_word_of_int)

lemma unat_word32: "unat (word_of_int i :: 32 word) = nat (i mod 2 ^ 32)"
  by (simp add: unat_eq_nat_uint uint_word_of_int)

section \<open>An instance of the JSON library\<close>

datatype json = JNull | JInt int | JString string | JObject "(string \<times> json) list"

fun sample_get :: "json \<Rightarrow> string \<Rightarrow> json \<Rightarrow> fault + json" where
  "sample_get (JObject ms) k x = Inr (case map_of ms k of None \<Rightarrow> x | Some v \<Rightarrow> v)"
| "sample_get JNull k x = Inr x"
| "sample_get v k x = Inl JsonError"

fun sample_asInt :: "json \<Rightarrow> fault + int" where
  "sample_asInt (JInt i) = (if - (2 ^ 31) \<le> i \<and> i < 2 ^ 31 then Inr i else Inl JsonError)"
| "sample_asInt JNull = Inr 0"
| "sample_asInt v = Inl JsonError"

fun sample_asString :: "json \<Rightarrow> fault + string" where
  "sample_asString (JString s) = Inr s"
| "sample_asString (JInt i) = Inr (int_str i)"
| "sample_asString JNull = Inr ''''"
| "sample_asString v = Inl JsonError"

text \<open>Every text but the empty one is read as the given document.\<close>

definition sample_json :: "json \<Rightarrow> json json_lib" where
  "sample_json doc = \<lparr>parseFromStream = (\<lambda>s. if s = '''' then None else Some doc),
     json_get = sample_get, of_int_value = JInt, of_string_value = JString,
     asInt = sample_asInt, asString = sample_asString\<rparr>"

lemma sample_json_contract: "json_contract (sample_json doc)"
proof -
  have "- (2 ^ 31) \<le> i \<and> i < 2 ^ 31" if "sample_asInt v = Inr i" for v i
    using that by (cases v) (auto split: if_splits)
  then show ?thesis
    by (simp add: json_contract_def sample_json_def)
qed

definition sample_document :: json where
  "sample_document = JObject [(''systemID'', JInt 7), (''systemIP'', JString ''10.0.0.1''),
     (''mainCMD'', JInt 3), (''subCMD'', JInt 4), (''evidenceID'', JString ''e1''),
     (''msgVersion'', JInt 0x14120), (''submittime'', JString ''2024-01-02''),
     (''data'', JString ''5''), (''dataHash'', JString ''h''), (''datasign'', JString ''s''),
     (''randomidentification'', JString ''r'')]"

definition sample_report :: DataInfoBase where
  "sample_report = \<lparr>systemID = 7, systemIP = ''10.0.0.1'', mainCMD = 3, subCMD = 4,
     evidenceID = ''e1'', msgVersion = 0x4120, submittime = ''2024-01-02'', dataHash = ''h'',
     datasign = ''s'', randomidentification = ''r'', data = ''5''\<rparr>"

lemma sample_document_report: "SetCommonData (sample_json sample_document) sample_document = Inr sample_report"
  by (simp add: SetCommonData_def get_int_def get_string_def sample_json_def sample_document_def sample_report_def)

lemma sample_report_ok: "report_ok sample_report"
  by (simp add: report_ok_def common_vals_def sample_report_def is_word_def is_space_def is_punct_def)

section \<open>Properties\<close>

text \<open>
  C10: the statement a report is stored with is read by the database as one INSERT into the
  report's table that gives each of the eleven columns, in order, its value: numbers as decimal
  words, texts as string literals, \<open>data\<close> as a bare word. Needed: no text contains a single quote,
  \<open>data\<close> is one non-empty word, the schema and table names contain no double quote.
\<close>

theorem report_statement:
  assumes "report_ok d" "dq \<notin> set modelName" "dq \<notin> set tableName"
  shows "sql_lex (GetInserDataInOrder d modelName tableName) = Some (insert_tokens modelName tableName
      [''systemID'', ''systemIP'', ''mainCMD'', ''subCMD'', ''evidenceID'', ''msgVersion'',
       ''submittime'', ''data'', ''dataHash'', ''datasign'', ''randomidentification'']
      [TWord (nat_str (unat (systemID d))), TText (systemIP d), TWord (nat_str (unat (mainCMD d))),
       TWord (nat_str (unat (subCMD d))), TText (evidenceID d), TWord (nat_str (unat (msgVersion d))),
       TText (submittime d), TWord (data d), TText (dataHash d), TText (datasign d),
       TText (randomidentification d)])"
  using statement_tokens [OF assms] by (simp add: common_columns_def common_vals_def)

lemma report_statement_witness:
  "report_ok sample_report \<and>
   sql_lex (GetInserDataInOrder sample_report ''TEST_EXCEPTION'' ''delete_UnOrder'') \<noteq> None"
  using report_statement [OF sample_report_ok, of "''TEST_EXCEPTION''" "''delete_UnOrder''"] sample_report_ok
  by simp

text \<open>
  \<open>data\<close> is spliced into the statement without quotes: when the JSON text of \<open>data\<close> reads as a
  list of values, each of them becomes a value of its own, so the statement has \<open>10 + n\<close> values
  for its eleven columns.
\<close>

theorem data_unquoted:
  assumes "data d = vals_text xs" "xs \<noteq> []" "\<forall>v \<in> set xs. val_ok v" "report_ok (d\<lparr>data := ''0''\<rparr>)"
    "dq \<notin> set modelName" "dq \<notin> set tableName"
  shows "\<exists>vals. length vals = 10 + length xs \<and> take (length xs) (drop 7 vals) = map val_tok xs \<and>
    sql_lex (GetInserDataInOrder d modelName tableName)
      = Some (insert_tokens modelName tableName common_columns vals)"
proof -
  let ?us = "take 7 (common_vals d)" and ?ws = "drop 8 (common_vals d)"
  let ?vs = "?us @ xs @ ?ws"
  have split: "common_vals d = ?us @ Raw (vals_text xs) # ?ws" "?us \<noteq> []" "?ws \<noteq> []"
    using assms(1) by (simp_all add: common_vals_def)
  have "\<forall>v \<in> set ?vs. val_ok v"
    using assms(3,4) by (simp add: report_ok_def common_vals_def)
  then have "sql_lex (''INSERT INTO '' @ dq # modelName @ dq # CHR ''.'' # dq # tableName @ dq # common_mid
      @ vals_text ?vs @ '');'') = Some (insert_tokens modelName tableName common_columns (map val_tok ?vs))"
    using assms(2,5,6) by (intro common.statement_lex) simp_all
  moreover have "vals_text (common_vals d) = vals_text ?vs"
    using split assms(2) vals_text_splice by metis
  ultimately have "sql_lex (GetInserDataInOrder d modelName tableName)
      = Some (insert_tokens modelName tableName common_columns (map val_tok ?vs))"
    by (simp only: GetInserDataInOrder_shape)
  moreover have "length ?vs = 10 + length xs" "length ?us = 7"
    by (simp_all add: common_vals_def)
  ultimately show ?thesis
    by (intro exI [of _ "map val_tok ?vs"]) simp
qed

lemma data_unquoted_witness:
  "\<exists>vals. length vals = 12 \<and>
    sql_lex (GetInserDataInOrder (sample_report\<lparr>data := ''1, 2''\<rparr>) ''S'' ''T'')
      = Some (insert_tokens ''S'' ''T'' common_columns vals)"
  using data_unquoted [of "sample_report\<lparr>data := ''1, 2''\<rparr>" "[Raw ''1'', Raw ''2'']" "''S''" "''T''"]
  by (auto simp: report_ok_def common_vals_def sample_report_def is_word_def is_space_def is_punct_def)

text \<open>
  C33: a text field is not escaped. A \<open>randomidentification\<close> of the form \<open>v'); q\<close> ends the INSERT
  after \<open>v\<close>, and \<open>q\<close> is read as further statements: whoever writes the report chooses them.
\<close>

theorem report_injection:
  assumes "randomidentification d = v @ sq # '');'' @ q" "report_ok (d\<lparr>randomidentification := v\<rparr>)"
    "dq \<notin> set modelName" "dq \<notin> set tableName" "sql_lex (q @ sq # '');'') = Some ts"
  shows "sql_lex (GetInserDataInOrder d modelName tableName)
    = Some (insert_tokens modelName tableName common_columns
        (map val_tok (common_vals (d\<lparr>randomidentification := v\<rparr>))) @ ts)"
proof -
  have "GetInserDataInOrder d modelName tableName
      = GetInserDataInOrder (d\<lparr>randomidentification := v\<rparr>) modelName tableName @ q @ sq # '');''"
    by (simp add: GetInserDataInOrder_def assms(1))
  then show ?thesis
    using statement_lexes [OF assms(2-4)] assms(5) by (simp add: lexes_def)
qed

lemma report_injection_witness:
  "\<exists>vals. sql_lex (GetInserDataInOrder
      (sample_report\<lparr>randomidentification := ''r'' @ sq # '');DROP TABLE t;SELECT ('' @ [sq]\<rparr>) ''S'' ''T'')
    = Some (insert_tokens ''S'' ''T'' common_columns vals @
        [TWord ''DROP'', TWord ''TABLE'', TWord ''t'', TPunct (CHR '';''),
         TWord ''SELECT'', TPunct (CHR ''(''), TText '''', TPunct (CHR '')''), TPunct (CHR '';'')])"
proof -
  have "sql_lex ((''DROP TABLE t;SELECT ('' @ [sq]) @ sq # '');'') =
      Some [TWord ''DROP'', TWord ''TABLE'', TWord ''t'', TPunct (CHR '';''),
         TWord ''SELECT'', TPunct (CHR ''(''), TText '''', TPunct (CHR '')''), TPunct (CHR '';'')]"
    by code_simp
  moreover have "report_ok (sample_report\<lparr>randomidentification := ''r''\<rparr>)"
    using sample_report_ok by (simp add: report_ok_def common_vals_def sample_report_def)
  ultimately show ?thesis
    using report_injection [of "sample_report\<lparr>randomidentification := ''r'' @ sq # '');DROP TABLE t;SELECT ('' @ [sq]\<rparr>"
      "''r''" "''DROP TABLE t;SELECT ('' @ [sq]" "''S''" "''T''"]
    by fastforce
qed

text \<open>
  Reading a report. The numbers of the JSON document are reduced to the width of their
  member (a \<open>msgVersion\<close> of \<open>0x14120\<close> becomes \<open>0x4120\<close>, a negative \<open>systemID\<close> wraps), the texts
  are taken as they are, and a document without any of the members gives 0 and the text \<open>NULL\<close>.
\<close>

theorem report_fields:
  assumes "json_contract J" "parseFromStream J s = Some root" "DataInfoBase_ctor J s = Inr d"
  shows "(\<exists>i. get_int J root ''systemID'' 0 = Inr i \<and> unat (systemID d) = nat (i mod 2 ^ 32))
    \<and> (\<exists>i. get_int J root ''mainCMD'' 0 = Inr i \<and> unat (mainCMD d) = nat (i mod 2 ^ 16))
    \<and> (\<exists>i. get_int J root ''subCMD'' 0 = Inr i \<and> unat (subCMD d) = nat (i mod 2 ^ 16))
    \<and> (\<exists>i. get_int J root ''msgVersion'' 0 = Inr i \<and> unat (msgVersion d) = nat (i mod 2 ^ 16))
    \<and> get_string J root ''systemIP'' ''NULL'' = Inr (systemIP d)
    \<and> get_string J root ''data'' ''NULL'' = Inr (data d)
    \<and> ((\<forall>k x. json_get J root k x = Inr x) \<longrightarrow>
        d = \<lparr>systemID = 0, systemIP = ''NULL'', mainCMD = 0, subCMD = 0, evidenceID = ''NULL'',
             msgVersion = 0, submittime = ''NULL'', dataHash = ''NULL'', datasign = ''NULL'',
             randomidentification = ''NULL'', data = ''NULL''\<rparr>)"
proof -
  have d: "SetCommonData J root = Inr d"
    using assms(2,3) by (simp add: DataInfoBase_ctor_def InitJsonReader_def)
  have "asInt J (of_int_value J 0) = Inr 0" "\<And>t. asString J (of_string_value J t) = Inr t"
    using assms(1) by (simp_all add: json_contract_def)
  then have "d = \<lparr>systemID = 0, systemIP = ''NULL'', mainCMD = 0, subCMD = 0, evidenceID = ''NULL'',
             msgVersion = 0, submittime = ''NULL'', dataHash = ''NULL'', datasign = ''NULL'',
             randomidentification = ''NULL'', data = ''NULL''\<rparr>" if "\<forall>k x. json_get J root k x = Inr x"
    using d that by (simp add: SetCommonData_def get_int_def get_string_def)
  then show ?thesis
    using SetCommonData_Inr [OF d] by (auto simp: unat_word16 unat_word32)
qed

lemma report_fields_witness:
  "unat (msgVersion sample_report) = nat (0x14120 mod 2 ^ 16) \<and> systemIP sample_report = ''10.0.0.1''"
proof -
  have "DataInfoBase_ctor (sample_json sample_document) ''{}'' = Inr sample_report"
    using sample_document_report by (simp add: DataInfoBase_ctor_def InitJsonReader_def sample_json_def)
  moreover have "parseFromStream (sample_json sample_document) ''{}'' = Some sample_document"
    by (simp add: sample_json_def)
  moreover have "get_int (sample_json sample_document) sample_document ''msgVersion'' 0 = Inr 0x14120"
    "get_string (sample_json sample_document) sample_document ''systemIP'' ''NULL'' = Inr ''10.0.0.1''"
    by (simp_all add: get_int_def get_string_def sample_json_def sample_document_def)
  ultimately show ?thesis
    using report_fields [OF sample_json_contract [of sample_document], of "''{}''" sample_document sample_report]
    by auto
qed

end
