(* ===== verification/Sql_Operate.thy ===== *)
theory Sql_Operate
  imports Prelude "HOL-Library.Sublist"
begin

text \<open>
  The database module, src/src/dm/sqlGradoperate.h and sqlgradoperate.cpp: the object
  \<open>CSqlGradOperate\<close>, the connection, the execution of one statement, and the row counts. The
  structures of cmdresult.h describe the configured tables.

  The DM client library is not part of the repository's sources: its state is a type parameter
  \<open>'w\<close>, a statement handle a type parameter \<open>'h\<close>, and its functions are the fields of \<open>dm_api\<close>.
  \<open>events\<close> is not in the code: it records the calls made to the library and their results, so
  that what the database was asked to do can be stated.
\<close>

section \<open>The configured tables\<close>

record Data_Map =
  usType :: "16 word"
  usTag :: "16 word"
  aucColumnName :: string
  aucType :: string

text \<open>\<open>usSize\<close> of a table and of the table map are both counts; the arrays are lists.\<close>

record DataTable =
  aucTableName :: string
  usColumns :: "16 word"
  astMap :: "Data_Map list"

record TableMap =
  aucSchema :: string
  aucAuthorization :: string
  usTables :: "16 word"
  pstTable :: "DataTable list"

section \<open>The database library\<close>

datatype dm_event =
    EvConnect int
  | EvAlloc int
  | EvPrepare string int
  | EvExec string int
  | EvBind nat int
  | EvFetch int
  | EvFree int

text \<open>A value the library stores into a bound buffer.\<close>
datatype db_cell = CInt "32 word" | CText string

text \<open>
  Each call returns the library's code; \<open>dm_connect\<close> also sets the connection flag, the calls on a
  statement may replace the handle, and a fetch stores the columns that have a cell into the
  buffers bound to them.
\<close>

record ('h, 'w) dm_api =
  dm_connect :: "string \<Rightarrow> string \<Rightarrow> string \<Rightarrow> int \<Rightarrow> 'w \<Rightarrow> int \<times> byte \<times> 'w"
  dm_alloc_stmt :: "'h \<Rightarrow> 'w \<Rightarrow> int \<times> 'h \<times> 'w"
  dm_free_stmt :: "'h \<Rightarrow> 'w \<Rightarrow> int \<times> 'h \<times> 'w"
  databasePrepare :: "'h \<Rightarrow> string \<Rightarrow> 'w \<Rightarrow> int \<times> 'w"
  databaseExecuteDirect :: "'h \<Rightarrow> string \<Rightarrow> 'w \<Rightarrow> int \<times> 'w"
  databaseBindColumn :: "'h \<Rightarrow> nat \<Rightarrow> nat \<Rightarrow> 'w \<Rightarrow> int \<times> 'w"
  databaseFetch :: "'h \<Rightarrow> 'w \<Rightarrow> int \<times> (nat \<Rightarrow> db_cell option) \<times> 'w"
  dpi_fetch :: "'h \<Rightarrow> 'w \<Rightarrow> int \<times> (nat \<Rightarrow> db_cell option) \<times> 'w"
  zero_stmt :: 'h                                          \<comment> \<open>\<open>DMStmt s = {0}\<close>\<close>

definition DSQL_NO_DATA :: int where
  "DSQL_NO_DATA = 100"

definition SH_SQL_GETHANDLE_ERROR :: int where
  "SH_SQL_GETHANDLE_ERROR = 1"

definition SH_SQL_BINDCLOMN_ERROR :: int where
  "SH_SQL_BINDCLOMN_ERROR = 4"

section \<open>The object\<close>

record 'w sqlop =
  world :: 'w
  conFlag :: byte
  m_simpleIni :: ini
  m_pstIniHead :: "unit pointer"
  m_pstTableMap :: "TableMap pointer"
  m_path :: string
  events :: "dm_event list"

type_synonym ('w, 'a) db = "('w sqlop, 'a) call"

text \<open>The constructor sets the path only; \<open>flag\<close> is the indeterminate connection flag.\<close>

definition CSqlGradOperate_ctor :: "ini \<Rightarrow> byte \<Rightarrow> 'w \<Rightarrow> 'w sqlop" where
  "CSqlGradOperate_ctor GetValue flag w =
    \<lparr>world = w, conFlag = flag, m_simpleIni = GetValue, m_pstIniHead = Indeterminate,
     m_pstTableMap = Indeterminate, m_path = GetValue ''ftp'' ''CSV_PATH'' ''/dm8/test'', events = []\<rparr>"

section \<open>Calls to the library\<close>

definition dm_connect_call :: "('h, 'w) dm_api \<Rightarrow> string \<Rightarrow> string \<Rightarrow> string \<Rightarrow> int \<Rightarrow> ('w, int) db" where
  "dm_connect_call A host user password port = (\<lambda>s.
    let (r, flag, w) = dm_connect A host user password port (world s)
    in (Inr r, s\<lparr>world := w, conFlag := flag, events := events s @ [EvConnect r]\<rparr>))"

definition dm_alloc_call :: "('h, 'w) dm_api \<Rightarrow> 'h \<Rightarrow> ('w, int \<times> 'h) db" where
  "dm_alloc_call A h = (\<lambda>s.
    let (r, h', w) = dm_alloc_stmt A h (world s)
    in (Inr (r, h'), s\<lparr>world := w, events := events s @ [EvAlloc r]\<rparr>))"

definition dm_free_call :: "('h, 'w) dm_api \<Rightarrow> 'h \<Rightarrow> ('w, int \<times> 'h) db" where
  "dm_free_call A h = (\<lambda>s.
    let (r, h', w) = dm_free_stmt A h (world s)
    in (Inr (r, h'), s\<lparr>world := w, events := events s @ [EvFree r]\<rparr>))"

definition prepare_call :: "('h, 'w) dm_api \<Rightarrow> 'h \<Rightarrow> string \<Rightarrow> ('w, int) db" where
  "prepare_call A h sql = (\<lambda>s.
    let (r, w) = databasePrepare A h sql (world s)
    in (Inr r, s\<lparr>world := w, events := events s @ [EvPrepare sql r]\<rparr>))"

definition execute_call :: "('h, 'w) dm_api \<Rightarrow> 'h \<Rightarrow> string \<Rightarrow> ('w, int) db" where
  "execute_call A h sql = (\<lambda>s.
    let (r, w) = databaseExecuteDirect A h sql (world s)
    in (Inr r, s\<lparr>world := w, events := events s @ [EvExec sql r]\<rparr>))"

definition bind_call :: "('h, 'w) dm_api \<Rightarrow> 'h \<Rightarrow> nat \<Rightarrow> nat \<Rightarrow> ('w, int) db" where
  "bind_call A h column len = (\<lambda>s.
    let (r, w) = databaseBindColumn A h column len (world s)
    in (Inr r, s\<lparr>world := w, events := events s @ [EvBind column r]\<rparr>))"

definition fetch_call :: "('h, 'w) dm_api \<Rightarrow> 'h \<Rightarrow> ('w, int \<times> (nat \<Rightarrow> db_cell option)) db" where
  "fetch_call A h = (\<lambda>s.
    let (r, row, w) = databaseFetch A h (world s)
    in (Inr (r, row), s\<lparr>world := w, events := events s @ [EvFetch r]\<rparr>))"

definition dpi_fetch_call :: "('h, 'w) dm_api \<Rightarrow> 'h \<Rightarrow> ('w, int \<times> (nat \<Rightarrow> db_cell option)) db" where
  "dpi_fetch_call A h = (\<lambda>s.
    let (r, row, w) = dpi_fetch A h (world s)
    in (Inr (r, row), s\<lparr>world := w, events := events s @ [EvFetch r]\<rparr>))"

lemmas library_calls = dm_connect_call_def dm_alloc_call_def dm_free_call_def prepare_call_def
  execute_call_def bind_call_def fetch_call_def dpi_fetch_call_def

section \<open>Connecting and executing\<close>

definition ConnectToDM :: "('h, 'w) dm_api \<Rightarrow> ('w, int) db" where
  "ConnectToDM A = (\<lambda>s.
    (let GetValue = m_simpleIni s;
         strID = GetValue ''dbInfo'' ''LOGIN_NAME'' ''SYSDBA'';
         strPassword = GetValue ''dbInfo'' ''LOGIN_PASSWORD'' ''SYSDBA'';
         strIP = GetValue ''dbInfo'' ''IP'' ''127.0.0.1''
     in andThen (lift_result (stoi (GetValue ''dbInfo'' ''PORT'' ''5236'')))
          (\<lambda>Port. dm_connect_call A strIP strID strPassword Port)) s)"

text \<open>Both executing functions first connect when there is no connection; \<open>True\<close> if there is one.\<close>

definition ensure_connected :: "('h, 'w) dm_api \<Rightarrow> ('w, bool) db" where
  "ensure_connected A = (\<lambda>s.
    if conFlag s \<noteq> 1 then andThen (ConnectToDM A) (\<lambda>iRet. ret (iRet = 0)) s else (Inr True, s))"

definition BindSql2Exe :: "('h, 'w) dm_api \<Rightarrow> 'h \<Rightarrow> string \<Rightarrow> ('w, int \<times> 'h) db" where
  "BindSql2Exe A stDmStmt sql =
    andThen (ensure_connected A) (\<lambda>connected.
    if \<not> connected then ret (-1, stDmStmt)
    else andThen (dm_alloc_call A stDmStmt) (\<lambda>(r, stDmStmt).
    if r < 0 then andThen (dm_free_call A stDmStmt) (\<lambda>(_, stDmStmt). ret (SH_SQL_GETHANDLE_ERROR, stDmStmt))
    else andThen (prepare_call A stDmStmt sql) (\<lambda>r.
    if r < 0 then andThen (dm_free_call A stDmStmt) (\<lambda>(_, stDmStmt). ret (r, stDmStmt))
    else andThen (execute_call A stDmStmt sql) (\<lambda>r.
    if r < 0 then andThen (dm_free_call A stDmStmt) (\<lambda>(_, stDmStmt). ret (r, stDmStmt))
    else ret (0, stDmStmt)))))"

text \<open>Without preparing, and without freeing the handle when the statement fails.\<close>

definition BindSql2ExeEx :: "('h, 'w) dm_api \<Rightarrow> 'h \<Rightarrow> string \<Rightarrow> ('w, int \<times> 'h) db" where
  "BindSql2ExeEx A stDmStmt sql =
    andThen (ensure_connected A) (\<lambda>connected.
    if \<not> connected then ret (-1, stDmStmt)
    else andThen (dm_alloc_call A stDmStmt) (\<lambda>(r, stDmStmt).
    if r < 0 then andThen (dm_free_call A stDmStmt) (\<lambda>(_, stDmStmt). ret (SH_SQL_GETHANDLE_ERROR, stDmStmt))
    else andThen (execute_call A stDmStmt sql) (\<lambda>r.
    if r < 0 then ret (r, stDmStmt) else ret (0, stDmStmt))))"

definition DataInsert :: "('h, 'w) dm_api \<Rightarrow> string \<Rightarrow> ('w, int) db" where
  "DataInsert A pcQuery = andThen (BindSql2Exe A (zero_stmt A) pcQuery) (\<lambda>(r, _). ret r)"

section \<open>The names of the configuration\<close>

definition GetTableMap :: "('w, TableMap pointer) db" where
  "GetTableMap = (\<lambda>s. case m_pstTableMap s of
     Indeterminate \<Rightarrow> (Inl Uninitialised, s)
   | Null \<Rightarrow> (Inr Null, s)
   | Object m \<Rightarrow> (Inr (Object m), s))"

text \<open>\<open>modelName\<close> is the reference argument; it keeps its value when there is no configuration.\<close>

definition GetModelName :: "string \<Rightarrow> ('w, int \<times> string) db" where
  "GetModelName modelName = (\<lambda>s. case m_pstIniHead s of
     Indeterminate \<Rightarrow> (Inl Uninitialised, s)
   | Null \<Rightarrow> (Inr (0, modelName), s)
   | Object _ \<Rightarrow> andThen (lift_result (deref (m_pstTableMap s))) (\<lambda>m. ret (0, aucSchema m)) s)"

section \<open>Row counts\<close>

text \<open>
  The part the three counting functions share: execute, bind one int, fetch, close. The result is
  the function's code and the value stored to the reference argument, if any. The codes are
  returned as unsigned ints.
\<close>

definition count_rows :: "('h, 'w) dm_api \<Rightarrow> string \<Rightarrow> ('w, 32 word \<times> 32 word option) db" where
  "count_rows A acQuery =
    andThen (BindSql2Exe A (zero_stmt A) acQuery) (\<lambda>(iRet, stDmStmt).
    if iRet \<noteq> 0 then ret (word_of_int iRet, None)
    else andThen (bind_call A stDmStmt 1 4) (\<lambda>r.
    if r < 0 then andThen (dm_free_call A stDmStmt) (\<lambda>_. ret (word_of_int SH_SQL_BINDCLOMN_ERROR, None))
    else andThen (fetch_call A stDmStmt) (\<lambda>(r, row).
    if r = DSQL_NO_DATA then andThen (dm_free_call A stDmStmt) (\<lambda>_. ret (word_of_int SH_SQL_BINDCLOMN_ERROR, None))
    else let iRowNumber = (case row 1 of Some (CInt i) \<Rightarrow> i | _ \<Rightarrow> 0)
      in andThen (dm_free_call A stDmStmt) (\<lambda>(r, stDmStmt).
         if r \<noteq> 0 then andThen (dm_free_call A stDmStmt) (\<lambda>_. ret (word_of_int SH_SQL_BINDCLOMN_ERROR, Some iRowNumber))
         else ret (0, Some iRowNumber)))))"

text \<open>
  The reference arguments: an \<open>unsigned short\<close> twice, a \<open>long\<close> that the caller may not have
  initialised (\<open>None\<close>).
\<close>

definition GetPageLines :: "('h, 'w) dm_api \<Rightarrow> string \<Rightarrow> 16 word \<Rightarrow> ('w, 32 word \<times> 16 word) db" where
  "GetPageLines A pageName RowNumber = (\<lambda>s.
    andThen (lift_result (deref (m_pstTableMap s))) (\<lambda>m.
    andThen (count_rows A (''select count(*) from '' @ aucSchema m @ ''.'' @ [CHR 0x22] @ pageName @ [CHR 0x22]))
      (\<lambda>(r, n). ret (r, case n of None \<Rightarrow> RowNumber | Some i \<Rightarrow> ucast i))) s)"

definition GetPageLinesLimitId ::
  "('h, 'w) dm_api \<Rightarrow> string \<Rightarrow> string \<Rightarrow> string \<Rightarrow> 16 word \<Rightarrow> ('w, 32 word \<times> 16 word) db" where
  "GetPageLinesLimitId A PageName key val RowNumber = (\<lambda>s.
    andThen (lift_result (deref (m_pstTableMap s))) (\<lambda>m.
    andThen (count_rows A (''select count(*) from '' @ aucSchema m @ ''.'' @ [CHR 0x22] @ PageName @ [CHR 0x22]
        @ '' where '' @ key @ ''= '' @ val))
      (\<lambda>(r, n). ret (r, case n of None \<Rightarrow> RowNumber | Some i \<Rightarrow> ucast i))) s)"

definition GetCommitTimeLines ::
  "('h, 'w) dm_api \<Rightarrow> string \<Rightarrow> string \<Rightarrow> string \<Rightarrow> 64 word option \<Rightarrow> ('w, 32 word \<times> 64 word option) db" where
  "GetCommitTimeLines A Start End tableName RowNumber = (\<lambda>s.
    andThen (lift_result (deref (m_pstTableMap s))) (\<lambda>m.
    andThen (count_rows A (''SELECT count(*) FROM '' @ aucSchema m @ ''.'' @ [CHR 0x22] @ tableName @ [CHR 0x22]
        @ '' WHERE SUBMITTIME BETWEEN '' @ [CHR 0x27] @ Start @ [CHR 0x27] @ '' AND '' @ [CHR 0x27] @ End @ [CHR 0x27] @ '';''))
      (\<lambda>(r, n). ret (r, case n of None \<Rightarrow> RowNumber | Some i \<Rightarrow> Some (scast i)))) s)"

section \<open>What a call left in the record of events\<close>

text \<open>The statements the database accepted, in order.\<close>

fun executed :: "dm_event list \<Rightarrow> string list" where
  "executed [] = []"
| "executed (EvExec sql r # es) = (if r < 0 then executed es else sql # executed es)"
| "executed (e # es) = executed es"

text \<open>Handles allocated and not given back to \<open>dm_free_stmt\<close>.\<close>

fun open_handles :: "dm_event list \<Rightarrow> int" where
  "open_handles [] = 0"
| "open_handles (EvAlloc r # es) = (if r < 0 then 0 else 1) + open_handles es"
| "open_handles (EvFree r # es) = open_handles es - 1"
| "open_handles (e # es) = open_handles es"

lemma executed_append [simp]: "executed (es @ fs) = executed es @ executed fs"
  by (induction es rule: executed.induct) auto

lemma open_handles_append [simp]: "open_handles (es @ fs) = open_handles es + open_handles fs"
  by (induction es rule: open_handles.induct) auto

text \<open>The configuration, which no call changes.\<close>

definition same_config :: "'w sqlop \<Rightarrow> 'w sqlop \<Rightarrow> bool" where
  "same_config s t \<longleftrightarrow> m_simpleIni t = m_simpleIni s \<and> m_pstIniHead t = m_pstIniHead s
     \<and> m_pstTableMap t = m_pstTableMap s \<and> m_path t = m_path s"

lemma same_config_refl [simp]: "same_config s s"
  by (simp add: same_config_def)

lemma same_config_trans: "same_config s t \<Longrightarrow> same_config t u \<Longrightarrow> same_config s u"
  by (simp add: same_config_def)

definition port_ok :: "'w sqlop \<Rightarrow> bool" where
  "port_ok s \<longleftrightarrow> (\<exists>p. stoi (m_simpleIni s ''dbInfo'' ''PORT'' ''5236'') = Inr p)"

lemma port_ok_config: "same_config s t \<Longrightarrow> port_ok t = port_ok s"
  by (simp add: port_ok_def same_config_def)

text \<open>Connecting: nothing when there is a connection, else one attempt.\<close>

lemma ensure_connected_result:
  assumes "port_ok s"
  shows "(conFlag s = 1 \<and> ensure_connected A s = (Inr True, s)) \<or>
    (\<exists>c t. conFlag s \<noteq> 1 \<and> ensure_connected A s = (Inr (c = 0), t)
       \<and> events t = events s @ [EvConnect c] \<and> same_config s t)"
proof (cases "conFlag s = 1")
  case False
  obtain p where p: "stoi (m_simpleIni s ''dbInfo'' ''PORT'' ''5236'') = Inr p"
    using assms by (auto simp: port_ok_def)
  obtain c flag w where c: "dm_connect A (m_simpleIni s ''dbInfo'' ''IP'' ''127.0.0.1'')
      (m_simpleIni s ''dbInfo'' ''LOGIN_NAME'' ''SYSDBA'')
      (m_simpleIni s ''dbInfo'' ''LOGIN_PASSWORD'' ''SYSDBA'') p (world s) = (c, flag, w)"
    by (metis prod_cases3)
  show ?thesis
    using False p c by (auto simp: ensure_connected_def ConnectToDM_def andThen_def lift_result_def
        dm_connect_call_def ret_def same_config_def Let_def)
qed (simp add: ensure_connected_def)

text \<open>The calls of one execution, by how far it got.\<close>

inductive exec_events :: "bool \<Rightarrow> string \<Rightarrow> int \<Rightarrow> dm_event list \<Rightarrow> bool" where
  no_handle: "a < 0 \<Longrightarrow> exec_events prep sql SH_SQL_GETHANDLE_ERROR [EvAlloc a, EvFree f]"
| not_prepared: "0 \<le> a \<Longrightarrow> p < 0 \<Longrightarrow> exec_events True sql p [EvAlloc a, EvPrepare sql p, EvFree f]"
| refused: "0 \<le> a \<Longrightarrow> 0 \<le> p \<Longrightarrow> e < 0 \<Longrightarrow>
    exec_events True sql e [EvAlloc a, EvPrepare sql p, EvExec sql e, EvFree f]"
| accepted: "0 \<le> a \<Longrightarrow> 0 \<le> p \<Longrightarrow> 0 \<le> e \<Longrightarrow>
    exec_events True sql 0 [EvAlloc a, EvPrepare sql p, EvExec sql e]"
| direct_refused: "0 \<le> a \<Longrightarrow> e < 0 \<Longrightarrow> exec_events False sql e [EvAlloc a, EvExec sql e]"
| direct_accepted: "0 \<le> a \<Longrightarrow> 0 \<le> e \<Longrightarrow> exec_events False sql 0 [EvAlloc a, EvExec sql e]"

inductive_cases exec_events_zero: "exec_events prep sql 0 es"

lemma exec_events_executed: "exec_events prep sql r es \<Longrightarrow> executed es = (if r = 0 then [sql] else [])"
  by (induction rule: exec_events.induct) (auto simp: SH_SQL_GETHANDLE_ERROR_def)

lemma exec_events_open:
  "exec_events prep sql r es \<Longrightarrow>
    open_handles es = (if r = 0 then 1 else if r = 1 then - 1 else if prep then 0 else 1)"
  by (induction rule: exec_events.induct) (auto simp: SH_SQL_GETHANDLE_ERROR_def)

text \<open>Either there is no connection and nothing was sent, or the calls are as above.\<close>

definition exec_run :: "bool \<Rightarrow> string \<Rightarrow> 'w sqlop \<Rightarrow> int \<Rightarrow> 'w sqlop \<Rightarrow> bool" where
  "exec_run prep sql s r t \<longleftrightarrow> same_config s t \<and>
    ((\<exists>c. c \<noteq> 0 \<and> conFlag s \<noteq> 1 \<and> r = - 1 \<and> events t = events s @ [EvConnect c]) \<or>
     (\<exists>cs es. events t = events s @ cs @ es \<and> (cs = [] \<or> cs = [EvConnect 0]) \<and> exec_events prep sql r es))"

lemma exec_run_config: "exec_run prep sql s r t \<Longrightarrow> same_config s t"
  by (simp add: exec_run_def)

lemma exec_run_executed:
  "exec_run prep sql s r t \<Longrightarrow> executed (events t) = executed (events s) @ (if r = 0 then [sql] else [])"
  by (auto simp: exec_run_def exec_events_executed)

lemma exec_run_open:
  assumes "exec_run prep sql s 0 t"
  shows "open_handles (events t) = open_handles (events s) + 1"
  using assms by (auto simp: exec_run_def dest!: exec_events_open)

text \<open>Both executing functions connect and then run their calls.\<close>

lemma run_after_connect:
  assumes "port_ok s"
    and body: "\<And>u. \<exists>r h' t es. body u = (Inr (r, h'), t) \<and> events t = events u @ es
      \<and> exec_events prep sql r es \<and> same_config u t"
  shows "\<exists>r h' t. andThen (ensure_connected A) (\<lambda>connected. if \<not> connected then ret (- 1, h) else body) s
      = (Inr (r, h'), t) \<and> exec_run prep sql s r t"
proof -
  obtain b u where con: "ensure_connected A s = (Inr b, u)" "same_config s u"
    "(b \<and> events u = events s) \<or> (b \<and> events u = events s @ [EvConnect 0]) \<or>
      (\<not> b \<and> conFlag s \<noteq> 1 \<and> (\<exists>c. c \<noteq> 0 \<and> events u = events s @ [EvConnect c]))"
    using ensure_connected_result [OF assms(1), of A] by (metis same_config_refl)
  show ?thesis
  proof (cases b)
    case False
    then show ?thesis
      using con by (auto simp: call_simps exec_run_def)
  next
    case True
    obtain r h' t es where t: "body u = (Inr (r, h'), t)" "events t = events u @ es"
      "exec_events prep sql r es" "same_config u t"
      using body by blast
    obtain cs where "events u = events s @ cs" "cs = [] \<or> cs = [EvConnect 0]"
      using con(3) True by auto
    then have "exec_run prep sql s r t"
      using t(2,3) same_config_trans [OF con(2) t(4)] by (metis append_assoc exec_run_def)
    then show ?thesis
      using con(1) True t(1) by (simp add: call_simps)
  qed
qed

lemma BindSql2Exe_run:
  assumes "port_ok s"
  shows "\<exists>r h' t. BindSql2Exe A h sql s = (Inr (r, h'), t) \<and> exec_run True sql s r t"
  unfolding BindSql2Exe_def
proof (rule run_after_connect [OF assms], goal_cases)
  case (1 u)
  obtain a h1 w1 where a: "dm_alloc_stmt A h (world u) = (a, h1, w1)" by (metis prod_cases3)
  obtain f1 h2 w2 where f1: "dm_free_stmt A h1 w1 = (f1, h2, w2)" by (metis prod_cases3)
  obtain p w3 where p: "databasePrepare A h1 sql w1 = (p, w3)" by (metis surj_pair)
  obtain f2 h3 w4 where f2: "dm_free_stmt A h1 w3 = (f2, h3, w4)" by (metis prod_cases3)
  obtain e w5 where e: "databaseExecuteDirect A h1 sql w3 = (e, w5)" by (metis surj_pair)
  obtain f3 h4 w6 where f3: "dm_free_stmt A h1 w5 = (f3, h4, w6)" by (metis prod_cases3)
  note defs = andThen_def library_calls a p e f1 f2 f3 ret_def same_config_def
  consider "a < 0" | "0 \<le> a" "p < 0" | "0 \<le> a" "0 \<le> p" "e < 0" | "0 \<le> a" "0 \<le> p" "0 \<le> e"
    by linarith
  then show ?case
    using no_handle [of a True sql f1] not_prepared [of a p sql f2] refused [of a p e sql f3]
      accepted [of a p e sql]
    by cases (simp_all add: defs)
qed

lemma BindSql2ExeEx_run:
  assumes "port_ok s"
  shows "\<exists>r h' t. BindSql2ExeEx A h sql s = (Inr (r, h'), t) \<and> exec_run False sql s r t"
  unfolding BindSql2ExeEx_def
proof (rule run_after_connect [OF assms], goal_cases)
  case (1 u)
  obtain a h1 w1 where a: "dm_alloc_stmt A h (world u) = (a, h1, w1)" by (metis prod_cases3)
  obtain f1 h2 w2 where f1: "dm_free_stmt A h1 w1 = (f1, h2, w2)" by (metis prod_cases3)
  obtain e w3 where e: "databaseExecuteDirect A h1 sql w1 = (e, w3)" by (metis surj_pair)
  note defs = andThen_def library_calls a e f1 ret_def same_config_def
  consider "a < 0" | "0 \<le> a" "e < 0" | "0 \<le> a" "0 \<le> e"
    by linarith
  then show ?case
    using no_handle [of a False sql f1] direct_refused [of a e sql] direct_accepted [of a e sql]
    by cases (simp_all add: defs)
qed

section \<open>The contract of an executing function\<close>

text \<open>Statements one after the other, on one handle, until one fails.\<close>

fun run_script :: "('h \<Rightarrow> string \<Rightarrow> ('w, int \<times> 'h) db) \<Rightarrow> 'h \<Rightarrow> string list \<Rightarrow> ('w, int \<times> 'h) db" where
  "run_script exec h [] = ret (0, h)"
| "run_script exec h (sql # sqls) = andThen (exec h sql) (\<lambda>(r, h).
     if r < 0 then ret (r, h) else run_script exec h sqls)"

text \<open>Every allocation among the events succeeded.\<close>

definition allocs_ok :: "dm_event list \<Rightarrow> bool" where
  "allocs_ok es \<longleftrightarrow> (\<forall>a. EvAlloc a \<in> set es \<longrightarrow> 0 \<le> a)"

lemma exec_events_alloc: "exec_events prep sql r es \<Longrightarrow> allocs_ok es \<Longrightarrow> r \<le> 0"
  by (induction rule: exec_events.induct) (auto simp: allocs_ok_def)

lemma exec_run_events:
  assumes "exec_run prep sql s r t"
  shows "\<exists>fs. events t = events s @ fs \<and> executed fs = (if r = 0 then [sql] else [])
    \<and> (r = 0 \<longrightarrow> open_handles fs = 1) \<and> (allocs_ok fs \<longrightarrow> r \<le> 0)"
proof -
  consider c where "c \<noteq> 0" "r = - 1" "events t = events s @ [EvConnect c]"
    | cs es where "events t = events s @ cs @ es" "cs = [] \<or> cs = [EvConnect 0]" "exec_events prep sql r es"
    using assms by (auto simp: exec_run_def)
  then show ?thesis
  proof cases
    case 2
    then have "allocs_ok (cs @ es) \<longrightarrow> r \<le> 0"
      using exec_events_alloc by (auto simp: allocs_ok_def)
    then show ?thesis
      using 2 exec_events_executed [OF 2(3)] exec_events_open [OF 2(3)]
      by (intro exI [of _ "cs @ es"]) auto
  qed auto
qed

locale executor =
  fixes exec :: "'h \<Rightarrow> string \<Rightarrow> ('w, int \<times> 'h) db" and prep :: bool
  assumes exec_runs: "port_ok s \<Longrightarrow> \<exists>r h' t. exec h sql s = (Inr (r, h'), t) \<and> exec_run prep sql s r t"
begin

lemma exec_code:
  assumes "port_ok s" "exec h sql s = (Inr (r, h'), t)"
  shows "exec_run prep sql s r t"
  using exec_runs [OF assms(1), of h sql] assms(2) by auto

text \<open>
  A script whose result is 0 db_ran each of its statements for which a handle was allocated; one that
  stopped ran some of them.
\<close>

lemma script_runs:
  assumes "port_ok s"
  shows "\<exists>r h' t es. run_script exec h sqls s = (Inr (r, h'), t) \<and> same_config s t \<and> r \<le> 0
    \<and> events t = events s @ es \<and> subseq (executed es) sqls
    \<and> (r = 0 \<and> allocs_ok es \<longrightarrow> executed es = sqls \<and> open_handles es = int (length sqls))"
  using assms
proof (induction sqls arbitrary: h s)
  case Nil
  have "run_script exec h [] s = (Inr (0, h), s)"
    by (simp add: ret_def)
  then show ?case by fastforce
next
  case (Cons q qs)
  obtain r h1 u where q: "exec h q s = (Inr (r, h1), u)" "exec_run prep q s r u"
    using exec_runs [OF Cons.prems] by blast
  then obtain fs where fs: "events u = events s @ fs" "executed fs = (if r = 0 then [q] else [])"
    "r = 0 \<longrightarrow> open_handles fs = 1" "allocs_ok fs \<longrightarrow> r \<le> 0"
    using exec_run_events [OF q(2)] by blast
  show ?case
  proof (cases "r < 0")
    case True
    then show ?thesis
      using q fs by (auto simp: call_simps dest: exec_run_config)
  next
    case False
    have cfg: "same_config s u"
      using q(2) by (rule exec_run_config)
    obtain r' h' t es where t: "run_script exec h1 qs u = (Inr (r', h'), t)" "same_config u t" "r' \<le> 0"
      "events t = events u @ es" "subseq (executed es) qs"
      "r' = 0 \<and> allocs_ok es \<longrightarrow> executed es = qs \<and> open_handles es = int (length qs)"
      using Cons.IH [of u h1] Cons.prems port_ok_config [OF cfg] by auto
    have "run_script exec h (q # qs) s = (Inr (r', h'), t)"
      using q(1) False t(1) by (simp add: call_simps)
    moreover have "subseq (executed (fs @ es)) (q # qs)"
      using t(5) fs(2) by auto
    moreover have "r' = 0 \<and> allocs_ok (fs @ es) \<longrightarrow>
        executed (fs @ es) = q # qs \<and> open_handles (fs @ es) = int (length (q # qs))"
      using t(6) fs False by (auto simp: allocs_ok_def)
    ultimately show ?thesis
      using t(3,4) fs(1) same_config_trans [OF cfg t(2)] by (metis append_assoc)
  qed
qed

end

interpretation prepared: executor "BindSql2Exe A" True
  by unfold_locales (rule BindSql2Exe_run)

interpretation direct: executor "BindSql2ExeEx A" False
  by unfold_locales (rule BindSql2ExeEx_run)

section \<open>Libraries to run the code on\<close>

text \<open>Every call on a statement succeeds; a fetch returns code \<open>f\<close> and the cells \<open>row\<close>.\<close>

definition dm_answers :: "('h, 'w) dm_api \<Rightarrow> int \<Rightarrow> (nat \<Rightarrow> db_cell option) \<Rightarrow> bool" where
  "dm_answers A f row \<longleftrightarrow> (\<forall>h w. fst (dm_alloc_stmt A h w) = 0 \<and> fst (dm_free_stmt A h w) = 0
    \<and> (\<forall>sql. fst (databasePrepare A h sql w) = 0 \<and> fst (databaseExecuteDirect A h sql w) = 0)
    \<and> (\<forall>c n. fst (databaseBindColumn A h c n w) = 0)
    \<and> fst (databaseFetch A h w) = f \<and> fst (snd (databaseFetch A h w)) = row
    \<and> fst (dpi_fetch A h w) = f \<and> fst (snd (dpi_fetch A h w)) = row)"

text \<open>The world is the list of codes the next calls return, 0 when it has run out.\<close>

fun next_code :: "int list \<Rightarrow> int \<times> int list" where
  "next_code [] = (0, [])"
| "next_code (c # cs) = (c, cs)"

definition scripted :: "(nat \<Rightarrow> db_cell option) \<Rightarrow> (nat, int list) dm_api" where
  "scripted row = \<lparr>
     dm_connect = (\<lambda>host user password port w. let (c, w) = next_code w in (c, if c = 0 then 1 else 0, w)),
     dm_alloc_stmt = (\<lambda>h w. let (c, w) = next_code w in (c, Suc h, w)),
     dm_free_stmt = (\<lambda>h w. let (c, w) = next_code w in (c, 0, w)),
     databasePrepare = (\<lambda>h sql w. next_code w),
     databaseExecuteDirect = (\<lambda>h sql w. next_code w),
     databaseBindColumn = (\<lambda>h c n w. next_code w),
     databaseFetch = (\<lambda>h w. let (c, w) = next_code w in (c, row, w)),
     dpi_fetch = (\<lambda>h w. let (c, w) = next_code w in (c, row, w)),
     zero_stmt = 0\<rparr>"

definition default_ini :: ini where
  "default_ini section key d = d"

definition sample_table_map :: TableMap where
  "sample_table_map = \<lparr>aucSchema = ''TEST_EXCEPTION'', aucAuthorization = ''SYSDBA'', usTables = 1,
     pstTable = [\<lparr>aucTableName = ''delete_UnOrder'', usColumns = 2,
       astMap = [\<lparr>usType = 2, usTag = 0, aucColumnName = ''systemID'', aucType = ''INT''\<rparr>,
                 \<lparr>usType = 4, usTag = 0, aucColumnName = ''data'', aucType = ''VARCHAR(64)''\<rparr>]\<rparr>]\<rparr>"

definition sample_sqlop :: "int list \<Rightarrow> int list sqlop" where
  "sample_sqlop codes = (CSqlGradOperate_ctor default_ini 1 codes)
     \<lparr>m_pstIniHead := Object (), m_pstTableMap := Object sample_table_map\<rparr>"

lemma sample_port_ok: "port_ok (sample_sqlop codes)"
proof -
  have "stoi ''5236'' = Inr 5236"
    by code_simp
  then show ?thesis
    by (simp add: port_ok_def sample_sqlop_def CSqlGradOperate_ctor_def default_ini_def)
qed

section \<open>Lemmas on inserting and counting\<close>

text \<open>Statements inserted one after the other, as the tasks do.\<close>

fun insert_all :: "('h, 'w) dm_api \<Rightarrow> string list \<Rightarrow> ('w, int list) db" where
  "insert_all A [] = ret []"
| "insert_all A (sql # sqls) =
    andThen (DataInsert A sql) (\<lambda>r. andThen (insert_all A sqls) (\<lambda>rs. ret (r # rs)))"

lemma DataInsert_run:
  assumes "port_ok s"
  shows "\<exists>r t. DataInsert A sql s = (Inr r, t) \<and> exec_run True sql s r t"
  using BindSql2Exe_run [OF assms, of A "zero_stmt A" sql] by (auto simp: DataInsert_def call_simps)

lemma dm_answersD:
  assumes "dm_answers A f row"
  shows "\<exists>h' w'. dm_alloc_stmt A h w = (0, h', w')" "\<exists>h' w'. dm_free_stmt A h w = (0, h', w')"
    "\<exists>w'. databasePrepare A h sql w = (0, w')" "\<exists>w'. databaseExecuteDirect A h sql w = (0, w')"
    "\<exists>w'. databaseBindColumn A h c n w = (0, w')" "\<exists>w'. databaseFetch A h w = (f, row, w')"
    "\<exists>w'. dpi_fetch A h w = (f, row, w')"
  using assms by (simp_all add: dm_answers_def prod_eq_iff)

text \<open>
  From \<open>s\<close> to \<open>t\<close> on a database that answers: it accepted the statements \<open>sqls\<close>, and \<open>n\<close> handles
  more are open.
\<close>

definition db_ran :: "'w sqlop \<Rightarrow> string list \<Rightarrow> int \<Rightarrow> 'w sqlop \<Rightarrow> bool" where
  "db_ran s sqls n t \<longleftrightarrow> same_config s t \<and> conFlag t = conFlag s
     \<and> executed (events t) = executed (events s) @ sqls
     \<and> open_handles (events t) = open_handles (events s) + n"

lemma db_ran_refl [simp]: "db_ran s [] 0 s"
  by (simp add: db_ran_def)

lemma db_ran_trans: "db_ran s q1 n1 t \<Longrightarrow> db_ran t q2 n2 u \<Longrightarrow> db_ran s (q1 @ q2) (n1 + n2) u"
  by (auto simp: db_ran_def same_config_def)


lemma free_ran:
  assumes answers: "dm_answers A f row"
  shows "\<exists>h' t. dm_free_call A h s = (Inr (0, h'), t) \<and> db_ran s [] (- 1) t"
  using dm_answersD(2) [OF answers, of h "world s"]
  by (auto simp: dm_free_call_def db_ran_def same_config_def)

lemma bind_ran:
  assumes answers: "dm_answers A f row"
  shows "\<exists>t. bind_call A h c n s = (Inr 0, t) \<and> db_ran s [] 0 t"
  using dm_answersD(5) [OF answers, of h c n "world s"]
  by (auto simp: bind_call_def db_ran_def same_config_def)

lemma fetch_ran:
  assumes answers: "dm_answers A f row"
  shows "\<exists>t. fetch_call A h s = (Inr (f, row), t) \<and> db_ran s [] 0 t"
  using dm_answersD(6) [OF answers, of h "world s"]
  by (auto simp: fetch_call_def db_ran_def same_config_def)

lemma dpi_fetch_ran:
  assumes answers: "dm_answers A f row"
  shows "\<exists>t. dpi_fetch_call A h s = (Inr (f, row), t) \<and> db_ran s [] 0 t"
  using dm_answersD(7) [OF answers, of h "world s"]
  by (auto simp: dpi_fetch_call_def db_ran_def same_config_def)

lemma BindSql2Exe_ran:
  assumes answers: "dm_answers A f row" and con: "conFlag s = 1"
  shows "\<exists>h' t. BindSql2Exe A h sql s = (Inr (0, h'), t) \<and> db_ran s [sql] 1 t"
proof -
  note D = dm_answersD [OF answers]
  obtain h1 w1 where 1: "dm_alloc_stmt A h (world s) = (0, h1, w1)"
    using D(1) by blast
  obtain w2 where 2: "databasePrepare A h1 sql w1 = (0, w2)"
    using D(3) by blast
  obtain w3 where 3: "databaseExecuteDirect A h1 sql w2 = (0, w3)"
    using D(4) by blast
  show ?thesis
    using con by (simp add: BindSql2Exe_def ensure_connected_def andThen_def ret_def
        library_calls 1 2 3 db_ran_def same_config_def)
qed

lemma count_rows_answers:
  assumes answers: "dm_answers A f row" and con: "conFlag s = 1"
  shows "\<exists>t. count_rows A q s = (Inr (if f = 100 then (4, None)
      else (0, Some (case row 1 of Some (CInt i) \<Rightarrow> i | _ \<Rightarrow> 0))), t) \<and> db_ran s [q] 0 t"
proof -
  obtain h1 t1 where 1: "BindSql2Exe A (zero_stmt A) q s = (Inr (0, h1), t1)" "db_ran s [q] 1 t1"
    using BindSql2Exe_ran [OF answers con] by blast
  obtain t2 where 2: "bind_call A h1 1 4 t1 = (Inr 0, t2)" "db_ran t1 [] 0 t2"
    using bind_ran [OF answers] by blast
  obtain t3 where 3: "fetch_call A h1 t2 = (Inr (f, row), t3)" "db_ran t2 [] 0 t3"
    using fetch_ran [OF answers] by blast
  obtain h2 t4 where 4: "dm_free_call A h1 t3 = (Inr (0, h2), t4)" "db_ran t3 [] (- 1) t4"
    using free_ran [OF answers] by blast
  have "db_ran s [q] 0 t4"
    using db_ran_trans [OF db_ran_trans [OF db_ran_trans [OF 1(2) 2(2)] 3(2)] 4(2)] by simp
  then show ?thesis
    by (simp add: count_rows_def andThen_def ret_def Let_def 1(1) 2(1) [unfolded One_nat_def] 3(1) 4(1)
        DSQL_NO_DATA_def SH_SQL_BINDCLOMN_ERROR_def)
qed

section \<open>Properties\<close>

text \<open>
  C16: executing one statement. The call returns (the configured port being a number); its code is
  0 exactly when the database accepted the statement, which is then the only one it accepted, and
  one handle is left open for the caller; with any other code nothing was accepted and no handle
  stays open. When no handle could be allocated (code 1) the code frees one all the same.
\<close>

theorem BindSql2Exe_result:
  assumes "port_ok s"
  shows "\<exists>r h' t. BindSql2Exe A h sql s = (Inr (r, h'), t)
    \<and> executed (events t) = executed (events s) @ (if r = 0 then [sql] else [])
    \<and> open_handles (events t) = open_handles (events s) + (if r = 0 then 1 else if r = 1 then - 1 else 0)
    \<and> same_config s t"
proof -
  obtain r h' t where t: "BindSql2Exe A h sql s = (Inr (r, h'), t)" "exec_run True sql s r t"
    using BindSql2Exe_run [OF assms, of A h sql] by blast
  have "open_handles (events t) = open_handles (events s) + (if r = 0 then 1 else if r = 1 then - 1 else 0)"
    using t(2) by (auto simp: exec_run_def exec_events_open)
  then show ?thesis
    using t exec_run_executed [OF t(2)] exec_run_config [OF t(2)] by blast
qed

lemma BindSql2Exe_result_witness:
  "port_ok (sample_sqlop [0, - 3]) \<and>
   (\<exists>r t. BindSql2Exe (scripted Map.empty) 0 ''x'' (sample_sqlop [0, - 3]) = (Inr r, t)
     \<and> open_handles (events t) = 0)"
proof -
  have "BindSql2Exe (scripted Map.empty) 0 ''x'' (sample_sqlop [0, - 3]) = (Inr (- 3, 0),
      (sample_sqlop [])\<lparr>events := [EvAlloc 0, EvPrepare ''x'' (- 3), EvFree 0]\<rparr>)"
    by (simp add: BindSql2Exe_def ensure_connected_def andThen_def ret_def library_calls scripted_def
        sample_sqlop_def CSqlGradOperate_ctor_def)
  then show ?thesis
    using BindSql2Exe_result [OF sample_port_ok [of "[0, - 3]"], of "scripted Map.empty" 0 "''x''"]
      sample_port_ok [of "[0, - 3]"] by (fastforce simp: sample_sqlop_def CSqlGradOperate_ctor_def)
qed

text \<open>
  C34: storing reports. Inserting statements one after the other returns a code for each; the
  database accepted exactly those with code 0, in their order, and every one of them leaves a
  statement handle that is never freed.
\<close>

theorem DataInsert_leaks:
  assumes "port_ok s"
  shows "\<exists>rs t. insert_all A sqls s = (Inr rs, t) \<and> length rs = length sqls
    \<and> executed (events t) = executed (events s) @ map fst (filter (\<lambda>(sql, r). r = 0) (zip sqls rs))
    \<and> open_handles (events t) = open_handles (events s) + int (count_list rs 0) - int (count_list rs 1)"
  using assms
proof (induction sqls arbitrary: s)
  case Nil
  then show ?case by (simp add: ret_def)
next
  case (Cons q qs)
  obtain r u where q: "DataInsert A q s = (Inr r, u)" "exec_run True q s r u"
    using DataInsert_run [OF Cons.prems] by blast
  have "port_ok u"
    using Cons.prems port_ok_config [OF exec_run_config [OF q(2)]] by simp
  then obtain rs t where t: "insert_all A qs u = (Inr rs, t)" "length rs = length qs"
    "executed (events t) = executed (events u) @ map fst (filter (\<lambda>(sql, r). r = 0) (zip qs rs))"
    "open_handles (events t) = open_handles (events u) + int (count_list rs 0) - int (count_list rs 1)"
    using Cons.IH by blast
  have "insert_all A (q # qs) s = (Inr (r # rs), t)"
    using q(1) t(1) by (simp add: call_simps)
  moreover have "open_handles (events u) = open_handles (events s) + (if r = 0 then 1 else if r = 1 then - 1 else 0)"
    using q(2) by (auto simp: exec_run_def exec_events_open)
  ultimately show ?case
    using t exec_run_executed [OF q(2)] by (intro exI [of _ "r # rs"] exI [of _ t]) auto
qed

lemma DataInsert_leaks_witness:
  "\<exists>t. insert_all (scripted Map.empty) [''a'', ''b''] (sample_sqlop []) = (Inr [0, 0], t)
    \<and> executed (events t) = [''a'', ''b''] \<and> open_handles (events t) = 2"
proof -
  have "fst (insert_all (scripted Map.empty) [''a'', ''b''] (sample_sqlop [])) = Inr [0, 0]"
    by (simp add: DataInsert_def BindSql2Exe_def ensure_connected_def andThen_def ret_def library_calls
        scripted_def sample_sqlop_def CSqlGradOperate_ctor_def)
  then show ?thesis
    using DataInsert_leaks [OF sample_port_ok, of "scripted Map.empty" "[''a'', ''b'']" "[]"]
    by (auto simp: sample_sqlop_def CSqlGradOperate_ctor_def)
qed

text \<open>
  The number of rows of a table, from a database that answers. A row with the count \<open>n\<close>
  gives code 0 and \<open>n mod 65536\<close>: the count is stored to an unsigned short. No row gives
  code 4 and leaves the argument alone. A fetch that fails with any other code than "no data" is
  taken for a row: code 0, and 0 rows.
\<close>

theorem GetPageLines_count:
  assumes "dm_answers A f row" "conFlag s = 1" "m_pstTableMap s = Object m"
    "row 1 = (if f = 0 then Some (CInt n) else None)"
  shows "\<exists>t res. GetPageLines A pageName RowNumber s = (Inr res, t)
    \<and> (f = 0 \<longrightarrow> fst res = 0 \<and> unat (snd res) = unat n mod 65536)
    \<and> (f = 100 \<longrightarrow> res = (4, RowNumber))
    \<and> (f \<noteq> 0 \<and> f \<noteq> 100 \<longrightarrow> res = (0, 0))
    \<and> executed (events t) = executed (events s)
        @ [''select count(*) from '' @ aucSchema m @ ''.'' @ [CHR 0x22] @ pageName @ [CHR 0x22]]
    \<and> open_handles (events t) = open_handles (events s)"
proof -
  let ?q = "''select count(*) from '' @ aucSchema m @ ''.'' @ [CHR 0x22] @ pageName @ [CHR 0x22]"
  obtain t where t: "count_rows A ?q s = (Inr (if f = 100 then (4, None)
      else (0, Some (case row 1 of Some (CInt i) \<Rightarrow> i | _ \<Rightarrow> 0))), t)"
    "executed (events t) = executed (events s) @ [?q]" "open_handles (events t) = open_handles (events s)"
    using count_rows_answers [OF assms(1,2), of ?q] by (auto simp: db_ran_def)
  have "unat (ucast n :: 16 word) = unat n mod 65536"
    by (simp add: unsigned_ucast_eq take_bit_eq_mod)
  then show ?thesis
    using t assms(3,4) by (simp add: GetPageLines_def andThen_def lift_result_def ret_def)
qed

text \<open>A library that always answers.\<close>

definition answering :: "int \<Rightarrow> (nat \<Rightarrow> db_cell option) \<Rightarrow> (nat, unit) dm_api" where
  "answering f row = \<lparr>dm_connect = (\<lambda>host user password port w. (0, 1, w)),
     dm_alloc_stmt = (\<lambda>h w. (0, Suc h, w)), dm_free_stmt = (\<lambda>h w. (0, 0, w)),
     databasePrepare = (\<lambda>h sql w. (0, w)), databaseExecuteDirect = (\<lambda>h sql w. (0, w)),
     databaseBindColumn = (\<lambda>h c n w. (0, w)), databaseFetch = (\<lambda>h w. (f, row, w)),
     dpi_fetch = (\<lambda>h w. (f, row, w)), zero_stmt = 0\<rparr>"

lemma answering_answers: "dm_answers (answering f row) f row"
  by (simp add: dm_answers_def answering_def)

definition sample_unit_sqlop :: "unit sqlop" where
  "sample_unit_sqlop = (CSqlGradOperate_ctor default_ini 1 ())
     \<lparr>m_pstIniHead := Object (), m_pstTableMap := Object sample_table_map\<rparr>"

lemma sample_unit_port_ok: "port_ok sample_unit_sqlop"
  using sample_port_ok [of "[]"]
  by (simp add: port_ok_def sample_sqlop_def sample_unit_sqlop_def CSqlGradOperate_ctor_def)

lemma GetPageLines_count_witness:
  "\<exists>t n. GetPageLines (answering 0 [1 \<mapsto> CInt 70000]) ''delete_UnOrder'' 0 sample_unit_sqlop = (Inr (0, n), t)
     \<and> unat n = 4464"
  using GetPageLines_count [OF answering_answers [of 0 "[1 \<mapsto> CInt 70000]"], of sample_unit_sqlop sample_table_map 70000]
  by (fastforce simp: sample_unit_sqlop_def CSqlGradOperate_ctor_def)

end
