(* ===== verification/Task_Deal.thy ===== *)
theory Task_Deal
  imports Packet Data_Info Sql_Operate
begin

text \<open>
  The task module, src/src/dealTask/TaskDeal.h and TaskDeal.cpp: class \<open>CTaskDeal\<close>. The thread
  pool is muduo's, of which only the header is in the repository: it is a type parameter \<open>'pool\<close>
  and the operations on it are arguments. A task is always \<open>ExcuteTask\<close> bound to a packet, so it
  is given by the packet.
\<close>

section \<open>State\<close>

record 'pool CTaskDeal =
  m_threadPool :: 'pool
  m_threadNum :: int
  m_pdbCtl :: "unit pointer"
  m_pftpCtl :: "unit pointer"
  m_mapTableName :: "16 word \<rightharpoonup> string"

definition InitVerTableName :: "'pool CTaskDeal \<Rightarrow> 'pool CTaskDeal" where
  "InitVerTableName t = t\<lparr>m_mapTableName := (m_mapTableName t)
     (0x4120 \<mapsto> ''delete_UnOrder'',
      0x4121 \<mapsto> ''delete_DupFail'',
      0x4020 \<mapsto> ''delete_NotificationConfirmationDiff'',
      0x4021 \<mapsto> ''delete_NotifyAckError'',
      0x4221 \<mapsto> ''delete_IntentiongRequestDiff'',
      0x4222 \<mapsto> ''delete_RequestTriggerDiff'',
      0x4223 \<mapsto> ''delete_NotificationConfirmationDiff'',
      0x4224 \<mapsto> ''delete_ConsistencyDiff'',
      0x4225 \<mapsto> ''delete_AlgStandardDiff'',
      0x4226 \<mapsto> ''delete_AlgStandardIrrecoverableDiff'',
      0x4227 \<mapsto> ''delete_AlgRetentionStatusDiff'',
      0x4228 \<mapsto> ''delete_DupCompletenessDiff'',
      0x4229 \<mapsto> ''delete_EffectEvaDomainSet'')\<rparr>"

text \<open>The constructor leaves both pointers indeterminate.\<close>

definition CTaskDeal_ctor :: "'pool \<Rightarrow> int \<Rightarrow> 'pool CTaskDeal" where
  "CTaskDeal_ctor pool threadNumer = InitVerTableName
     \<lparr>m_threadPool = pool, m_threadNum = threadNumer, m_pdbCtl = Indeterminate,
      m_pftpCtl = Indeterminate, m_mapTableName = Map.empty\<rparr>"

section \<open>Starting, and queueing a task\<close>

definition Start :: "(int \<Rightarrow> 'pool \<Rightarrow> 'pool) \<Rightarrow> 'pool CTaskDeal \<Rightarrow> int \<times> 'pool CTaskDeal" where
  "Start pool_start t = (0, t\<lparr>m_threadPool := pool_start (m_threadNum t) (m_threadPool t)\<rparr>)"

text \<open>
  \<open>std::bind\<close> moves the packet into the function object, which is moved again into the
  \<open>std::function\<close>; calling it passes the stored packet by value, a copy.
\<close>

definition bind_packet :: "cpacket \<Rightarrow> cpacket option" where
  "bind_packet packet = do {
     (bound, _) \<leftarrow> CPacket_move packet;
     (stored, _) \<leftarrow> CPacket_move bound;
     Some (CPacket_copy stored) }"

text \<open>\<open>None\<close> is the write outside the packet when it is moved.\<close>

definition SolveTask ::
  "(cpacket \<Rightarrow> 'pool \<Rightarrow> 'pool) \<Rightarrow> cpacket \<Rightarrow> 'pool CTaskDeal \<Rightarrow> (int \<times> 'pool CTaskDeal) option"
where
  "SolveTask pool_run packet t = do {
     task \<leftarrow> bind_packet packet;
     Some (0, t\<lparr>m_threadPool := pool_run task (m_threadPool t)\<rparr>) }"

section \<open>The modules a task uses\<close>

text \<open>The argument is whether the pointer passed is null. Comparing an indeterminate pointer is undefined.\<close>

definition SetSqlCtl :: "unit pointer \<Rightarrow> 'pool CTaskDeal \<Rightarrow> (int \<times> 'pool CTaskDeal) option" where
  "SetSqlCtl pdbCtl t =
    (if m_pdbCtl t = Indeterminate then None
     else if m_pdbCtl t = Null then Some (0, t\<lparr>m_pdbCtl := pdbCtl\<rparr>) else Some (-1, t))"

definition SetFtpCtl :: "unit pointer \<Rightarrow> 'pool CTaskDeal \<Rightarrow> (int \<times> 'pool CTaskDeal) option" where
  "SetFtpCtl pftpCtl t =
    (if m_pftpCtl t = Indeterminate then None
     else if m_pftpCtl t = Null then Some (0, t\<lparr>m_pftpCtl := pftpCtl\<rparr>) else Some (-1, t))"

section \<open>Executing a task\<close>

text \<open>
  A request, src/src/data/DataRequest: the constructor initialises the two texts only. \<open>None\<close> is an
  indeterminate number.
\<close>

record CDataRequest =
  getType :: "16 word option"
  tableVersion :: "16 word option"
  subtimeStart :: string
  subtimeEnd :: string
  timeSpan :: "64 word option"

definition CDataRequest_ctor :: CDataRequest where
  "CDataRequest_ctor = \<lparr>getType = None, tableVersion = None, subtimeStart = [], subtimeEnd = [], timeSpan = None\<rparr>"

text \<open>Decryption is not implemented: the output stays what it was.\<close>

definition DecSm4Data :: "byte list \<Rightarrow> string \<Rightarrow> int \<times> string" where
  "DecSm4Data dataIn dataOut = (0, dataOut)"

text \<open>\<open>operator[]\<close> of a \<open>std::map\<close>: a missing key gets the empty text.\<close>

definition map_index :: "('k \<rightharpoonup> string) \<Rightarrow> 'k \<Rightarrow> string" where
  "map_index m k = (case m k of None \<Rightarrow> '''' | Some s \<Rightarrow> s)"

definition c_str :: "string \<Rightarrow> string" where
  "c_str s = takeWhile (\<lambda>c. c \<noteq> CHR 0x00) s"

text \<open>
  The default branch once the version is known: \<open>text\<close> is the decrypted report. The task runs in a
  pool thread on the object the database pointer refers to, which is the state of the calls.
\<close>

definition SaveReport ::
  "'v json_lib \<Rightarrow> ('h, 'w) dm_api \<Rightarrow> string \<Rightarrow> 'pool CTaskDeal \<Rightarrow> ('w, unit) db" where
  "SaveReport J A strDataDec t =
    andThen (lift_result (DataInfoBase_ctor J (c_str strDataDec))) (\<lambda>jsonData.
    andThen (lift_result (deref (m_pdbCtl t))) (\<lambda>_.
    andThen (GetModelName '''') (\<lambda>(_, modelName).
    let strDataInsert = GetInserDataInOrder jsonData modelName (map_index (m_mapTableName t) 0x4120)
    in andThen (DataInsert A (c_str strDataInsert)) (\<lambda>_. ret ()))))"

text \<open>\<open>RetSetTimeSpan\<close> is a method of the FTP class, which is not in the repository.\<close>

definition ExcuteTask ::
  "'v json_lib \<Rightarrow> ('h, 'w) dm_api \<Rightarrow> (64 word \<Rightarrow> ('w, unit) db) \<Rightarrow> cpacket \<Rightarrow> 'pool CTaskDeal \<Rightarrow> ('w, unit) db"
where
  "ExcuteTask J A RetSetTimeSpan packet t =
    (let strDataDec = snd (DecSm4Data (m_strData packet) '''')
     in if m_msgVersion packet = 0x4300 then
          (case timeSpan CDataRequest_ctor of
             None \<Rightarrow> raise Uninitialised
           | Some span \<Rightarrow> andThen (lift_result (deref (m_pftpCtl t))) (\<lambda>_. RetSetTimeSpan span))
        else case m_mapTableName t (m_msgVersion packet) of
               None \<Rightarrow> ret ()
             | Some _ \<Rightarrow> SaveReport J A strDataDec t)"

text \<open>The tasks of the pool, one after the other; a fault ends the process.\<close>

fun run_tasks ::
  "'v json_lib \<Rightarrow> ('h, 'w) dm_api \<Rightarrow> (64 word \<Rightarrow> ('w, unit) db) \<Rightarrow> cpacket list \<Rightarrow> 'pool CTaskDeal \<Rightarrow> ('w, unit) db"
where
  "run_tasks J A span [] t = ret ()"
| "run_tasks J A span (p # ps) t = andThen (ExcuteTask J A span p t) (\<lambda>_. run_tasks J A span ps t)"

section \<open>Lemmas\<close>

lemma CPacket_move_None: "packet_ok p \<Longrightarrow> CPacket_move p = None"
  by (simp add: CPacket_move_def store_bytes_def packet_ok_def)

text \<open>The versions with a table.\<close>

definition table_versions :: "16 word set" where
  "table_versions = {0x4120, 0x4121, 0x4020, 0x4021, 0x4221, 0x4222, 0x4223, 0x4224, 0x4225,
     0x4226, 0x4227, 0x4228, 0x4229}"

lemma dom_ctor: "dom (m_mapTableName (CTaskDeal_ctor pool n)) = table_versions"
  by (auto simp: CTaskDeal_ctor_def InitVerTableName_def table_versions_def)

lemma ctor_table: "m_mapTableName (CTaskDeal_ctor pool n) v \<noteq> None \<longleftrightarrow> v \<in> table_versions"
  using dom_ctor [of pool n] by (auto simp: dom_def)

lemma ctor_table_0x4120: "map_index (m_mapTableName (CTaskDeal_ctor pool n)) 0x4120 = ''delete_UnOrder''"
  by (simp add: map_index_def CTaskDeal_ctor_def InitVerTableName_def)

lemma version_0x4300: "0x4300 \<notin> table_versions"
  by (simp add: table_versions_def)

lemma c_str_id: "CHR 0x00 \<notin> set s \<Longrightarrow> c_str s = s"
  by (auto simp: c_str_def takeWhile_eq_all_conv)

lemma ExcuteTask_faults:
  assumes "json_contract J"
  shows "ExcuteTask J A span p (CTaskDeal_ctor pool n) s =
    (if m_msgVersion p \<in> table_versions then Inl (ProcessExit (-1))
     else if m_msgVersion p = 0x4300 then Inl Uninitialised else Inr (), s)"
proof -
  have exit: "SaveReport J A '''' (CTaskDeal_ctor pool n) s = (Inl (ProcessExit (-1)), s)"
    using assms by (simp add: SaveReport_def c_str_def DataInfoBase_ctor_def InitJsonReader_def
        json_contract_def call_simps)
  show ?thesis
    using ctor_table [of pool n "m_msgVersion p"] version_0x4300 exit
    by (auto simp: ExcuteTask_def DecSm4Data_def CDataRequest_ctor_def call_simps)
qed

text \<open>A queue with one packet of a version that has a table.\<close>

lemma run_one_version:
  assumes "json_contract J" "m_msgVersion p \<in> table_versions"
  shows "run_tasks J A span [p] (CTaskDeal_ctor pool n) s = (Inl (ProcessExit (-1)), s)"
  using assms version_0x4300 by (auto simp: andThen_def ExcuteTask_faults [OF assms(1)])

section \<open>Properties\<close>

text \<open>
  C4: what a worker does with packets, from a task object as the server makes it. Decryption
  yields the empty text for every packet, so each packet of one of the thirteen report versions
  ends the process with code -1, a packet of version 0x4300 uses an indeterminate number, and
  all others are dropped. Whatever the packets are, the database is not called: of a queue, the
  leading packets of unknown versions are dropped and the first other one decides.
\<close>

theorem ExcuteTask_outcome:
  assumes "json_contract J"
  shows "run_tasks J A span ps (CTaskDeal_ctor pool n) s =
    (case dropWhile (\<lambda>p. m_msgVersion p \<notin> table_versions \<and> m_msgVersion p \<noteq> 0x4300) ps of
       [] \<Rightarrow> Inr ()
     | p # _ \<Rightarrow> if m_msgVersion p \<in> table_versions then Inl (ProcessExit (-1)) else Inl Uninitialised, s)"
proof (induction ps)
  case Nil
  then show ?case by (simp add: ret_def)
next
  case (Cons p ps)
  then show ?case
    using version_0x4300 by (auto simp: andThen_def ExcuteTask_faults [OF assms])
qed

lemma ExcuteTask_outcome_witness:
  "fst (run_tasks (sample_json JNull) (answering 0 Map.empty) (\<lambda>_. ret ())
     [sample_packet\<lparr>m_msgVersion := 1\<rparr>, sample_packet\<lparr>m_msgVersion := 0x4120\<rparr>] (CTaskDeal_ctor () 4) sample_unit_sqlop)
   = Inl (ProcessExit (-1))"
  using ExcuteTask_outcome [OF sample_json_contract, of JNull "answering 0 Map.empty" "\<lambda>_. ret ()"
      "[sample_packet\<lparr>m_msgVersion := 1\<rparr>, sample_packet\<lparr>m_msgVersion := 0x4120\<rparr>]" "()" 4 sample_unit_sqlop]
  by (simp add: table_versions_def)

text \<open>
  C32: storing a decrypted report. With both pointers set, the table map loaded and a document
  that yields the report \<open>d\<close>, the task returns and the only statement it can add is the INSERT of
  \<open>d\<close> into table \<open>delete_UnOrder\<close>: the packet's version does not choose the table. An insertion
  that the database refuses is not noticed.
\<close>

theorem SaveReport_inserts:
  assumes "DataInfoBase_ctor J txt = Inr d" "CHR 0x00 \<notin> set txt"
    "m_pdbCtl t = Object ()" "m_mapTableName t = m_mapTableName (CTaskDeal_ctor pool n)"
    "m_pstIniHead s = Object ()" "m_pstTableMap s = Object m" "port_ok s"
    "CHR 0x00 \<notin> set (GetInserDataInOrder d (aucSchema m) ''delete_UnOrder'')"
  shows "\<exists>u r. DataInsert A (GetInserDataInOrder d (aucSchema m) ''delete_UnOrder'') s = (Inr r, u)
    \<and> SaveReport J A txt t s = (Inr (), u)
    \<and> executed (events u) = executed (events s)
        @ (if r = 0 then [GetInserDataInOrder d (aucSchema m) ''delete_UnOrder''] else [])"
proof -
  let ?q = "GetInserDataInOrder d (aucSchema m) ''delete_UnOrder''"
  obtain r u where r: "DataInsert A ?q s = (Inr r, u)" "exec_run True ?q s r u"
    using DataInsert_run [OF assms(7), of A ?q] by blast
  have "SaveReport J A txt t s = (Inr (), u)"
    using assms r(1) by (simp add: SaveReport_def andThen_def lift_result_def ret_def GetModelName_def
        c_str_id ctor_table_0x4120)
  then show ?thesis
    using r(1) exec_run_executed [OF r(2)] by blast
qed

lemma SaveReport_inserts_witness:
  "\<exists>u. SaveReport (sample_json sample_document) (answering 0 Map.empty) ''{}''
       ((CTaskDeal_ctor () 4)\<lparr>m_pdbCtl := Object ()\<rparr>) sample_unit_sqlop = (Inr (), u)"
proof -
  have "DataInfoBase_ctor (sample_json sample_document) ''{}'' = Inr sample_report"
    using sample_document_report by (simp add: DataInfoBase_ctor_def InitJsonReader_def sample_json_def)
  moreover have "CHR 0x00 \<notin> set (GetInserDataInOrder sample_report (aucSchema sample_table_map) ''delete_UnOrder'')"
    by (simp add: GetInserDataInOrder_def sample_report_def sample_table_map_def)
  ultimately show ?thesis
    using sample_unit_port_ok SaveReport_inserts [of "sample_json sample_document" "''{}''" sample_report
        "(CTaskDeal_ctor () 4)\<lparr>m_pdbCtl := Object ()\<rparr>" "()" 4 sample_unit_sqlop sample_table_map
        "answering 0 Map.empty"]
    by (auto simp: sample_unit_sqlop_def CTaskDeal_ctor_def InitVerTableName_def)
qed

end
