(* ===== verification/Server.thy ===== *)
theory Server
  imports Muduo_Buffer Task_Deal
begin

text \<open>
  The server, src/src/server/MuduoNet.h and MuduoNet.cpp: the configuration \<open>CNetparam\<close>, the
  server object \<open>CMuduoServer\<close> and the handler \<open>onMessage\<close>, which cuts one packet out of the
  bytes a connection has received. The configuration file is read by a class that is not in the
  repository: its lookup is the argument \<open>GetValue\<close>. The network library calls \<open>onMessage\<close> with
  the connection's buffer each time it has appended received bytes to it.
\<close>

section \<open>Configuration\<close>

record CNetparam =
  port :: int
  ioThreadNum :: int
  workThreadNumber :: int

definition CNetparam_ctor :: "ini \<Rightarrow> fault + CNetparam" where
  "CNetparam_ctor GetValue =
    bindE (stoi (GetValue ''server'' ''port'' ''7824'')) (\<lambda>p.
    bindE (stoi (GetValue ''server'' ''IOthreadNum'' ''5'')) (\<lambda>io.
    bindE (stoi (GetValue ''server'' ''WorkthreadNum'' ''10'')) (\<lambda>work.
    Inr \<lparr>port = p, ioThreadNum = io, workThreadNumber = work\<rparr>)))"

section \<open>The server object\<close>

record 'pool CMuduoServer =
  m_param :: CNetparam
  m_numIoThreads :: int
  m_taskDeal :: "'pool CTaskDeal"

definition CMuduoServer_ctor :: "ini \<Rightarrow> 'pool \<Rightarrow> fault + 'pool CMuduoServer" where
  "CMuduoServer_ctor GetValue pool =
    bindE (CNetparam_ctor GetValue) (\<lambda>param.
    Inr \<lparr>m_param = param, m_numIoThreads = ioThreadNum param,
         m_taskDeal = CTaskDeal_ctor pool (workThreadNumber param)\<rparr>)"

definition Server_Start :: "(int \<Rightarrow> 'pool \<Rightarrow> 'pool) \<Rightarrow> 'pool CMuduoServer \<Rightarrow> int \<times> 'pool CMuduoServer" where
  "Server_Start pool_start s = (0, s\<lparr>m_taskDeal := snd (Start pool_start (m_taskDeal s))\<rparr>)"

section \<open>A message arrives\<close>

text \<open>
  \<open>cut_packet\<close> is the handler up to the call of \<open>SolveTask\<close>: the buffer it leaves, and the packet, if
  it has not returned before. \<open>junk\<close> supplies the indeterminate members of the local packet; \<open>None\<close> is
  an access outside the buffer or a failed assertion.
\<close>

definition cut_packet :: "cpacket \<Rightarrow> Buffer \<Rightarrow> (Buffer \<times> cpacket option) option" where
  "cut_packet junk buf = do {
     let packet = CPacket_default junk;
     let dataSize = readableBytes buf;
     (ret, dataSize, packet) \<leftarrow> FindHeadStart (peek_mem buf) dataSize packet;
     if ret \<noteq> 0 then Some (retrieveAll buf, None)
     else do {
       buf \<leftarrow> retrieve buf dataSize;
       let dataSize = readableBytes buf;
       (ret, dataSize, packet) \<leftarrow> ConstructData (peek_mem buf) dataSize packet;
       if ret \<noteq> 0 then Some (buf, None)
       else do {
         buf \<leftarrow> retrieve buf dataSize;
         Some (buf, Some packet) }}}"

text \<open>
  The argument of \<open>SolveTask\<close>, which takes its packet by value, is moved from the local packet. The
  result is the buffer and the server after the call; \<open>None\<close> also stands for a write outside the packet.
\<close>

definition onMessage ::
  "(cpacket \<Rightarrow> 'pool \<Rightarrow> 'pool) \<Rightarrow> cpacket \<Rightarrow> Buffer \<Rightarrow> 'pool CMuduoServer
     \<Rightarrow> (Buffer \<times> 'pool CMuduoServer) option" where
  "onMessage pool_run junk buf s = do {
     (buf, packet) \<leftarrow> cut_packet junk buf;
     case packet of
       None \<Rightarrow> Some (buf, s)
     | Some packet \<Rightarrow> do {
         (arg, _) \<leftarrow> CPacket_move packet;
         (_, t) \<leftarrow> SolveTask pool_run arg (m_taskDeal s);
         Some (buf, s\<lparr>m_taskDeal := t\<rparr>) }}"

lemma onMessage_cut:
  "cut_packet junk b = Some (b', None) \<Longrightarrow> onMessage pool_run junk b s = Some (b', s)"
  "cut_packet junk b = Some (b', Some p) \<Longrightarrow> packet_ok p \<Longrightarrow> onMessage pool_run junk b s = None"
  by (simp_all add: onMessage_def CPacket_move_None)

section \<open>Heads in a buffer\<close>

lemma head_at_append: "j + 1 < length xs \<Longrightarrow> head_at (xs @ ys) j \<longleftrightarrow> head_at xs j"
  by (auto simp: head_at_def nth_append)

lemma head_at_drop: "k + j < length m \<Longrightarrow> head_at (drop k m) j \<longleftrightarrow> head_at m (k + j)"
  by (auto simp: head_at_def)

lemma load8_drop: "load8 (drop k m) i = load8 m (k + i)"
  by (auto simp: load8_def)

lemma get32_drop: "get32 (drop k m) i = get32 m (k + i)"
  by (simp add: get32_def load32_def load16_def load8_drop add.assoc)

lemma head_at_shift: "head_at (xs @ ys) (length xs) \<longleftrightarrow> head_at ys 0"
  by (auto simp: head_at_def nth_append)

lemma length_peek_mem: "buf_inv b \<Longrightarrow> length (content b) \<le> length (peek_mem b)"
  by (simp add: peek_mem_content)

lemma content_small: "buf_inv b \<Longrightarrow> length (content b) < 2 ^ 63"
  by (auto simp: buf_inv_def content_def min_def)

lemma retrieve_partial:
  assumes "buf_inv b" "k < length (content b)" "retrieve b k = Some c"
  shows "buf_inv c" "content c = drop k (content b)" "peek_mem c = drop k (peek_mem b)"
    "writerIndex c = writerIndex b"
  using assms buf.consumeD [OF assms(1,3)]
  by (auto simp: retrieve_def length_content peek_mem_def peek_def add.commute split: if_splits)

text \<open>\<open>cut_packet\<close> once the head is found: the buffer now starts with it.\<close>

definition at_head :: "cpacket \<Rightarrow> Buffer \<Rightarrow> (Buffer \<times> cpacket option) option" where
  "at_head packet buf = do {
     (ret, dataSize, packet) \<leftarrow> ConstructData (peek_mem buf) (readableBytes buf) packet;
     if ret \<noteq> 0 then Some (buf, None)
     else do { buf \<leftarrow> retrieve buf dataSize; Some (buf, Some packet) }}"

lemma cut_at_head:
  assumes "buf_inv b" "head_at (peek_mem b) k" "k < length (content b)"
    "\<And>j. j < k \<Longrightarrow> \<not> head_at (peek_mem b) j" "retrieve b k = Some c"
  shows "cut_packet junk b = at_head ((CPacket_default junk)\<lparr>m_sHead := 0xEFEF\<rparr>) c"
proof -
  have "FindHeadStart (peek_mem b) (readableBytes b) (CPacket_default junk)
      = Some (0, k, (CPacket_default junk)\<lparr>m_sHead := 0xEFEF\<rparr>)"
    using assms by (intro FindHeadStart_found) (auto simp: length_content)
  then show ?thesis
    using assms(5) by (simp add: cut_packet_def at_head_def Let_def split_def cong: if_cong)
qed

lemma cut_no_head:
  assumes "buf_inv b" "length (content b) < length (peek_mem b)"
    "\<And>j. j < length (content b) \<Longrightarrow> \<not> head_at (peek_mem b) j"
  shows "cut_packet junk b = Some (retrieveAll b, None)"
  using FindHeadStart_none [of "readableBytes b" "peek_mem b" "CPacket_default junk"] assms
  by (auto simp: cut_packet_def length_content)

section \<open>At a head\<close>

lemma at_head_short:
  assumes "buf_inv c" "m_headSize p = 34" "length (content c) < 34"
  shows "at_head p c = Some (c, None)"
  using assms by (simp add: at_head_def ConstructData_short length_content)

lemma at_head_parse:
  assumes "buf_inv c" "m_headSize p = 34" "34 \<le> length (content c)" "head_at (peek_mem c) 0"
  shows "ConstructData (peek_mem c) (readableBytes c) p
    = parse_body (peek_mem c) (length (content c)) 18 (parse_header (peek_mem c) 0 p)"
proof -
  have "18 \<le> length (peek_mem c)"
    using length_peek_mem [OF assms(1)] assms(3) by simp
  then show ?thesis
    using ConstructData_at [of p "length (content c)" "peek_mem c" 0] assms
    by (simp add: length_content)
qed

text \<open>The packet at a head is complete: its 34 bytes of fields and the data they announce are there.\<close>

definition complete_at :: "mem \<Rightarrow> nat \<Rightarrow> nat \<Rightarrow> bool" where
  "complete_at m n k \<longleftrightarrow> 34 \<le> n - k \<and> unat (the (get32 m (k + 14))) \<le> n - k - 34"

lemma at_head_total:
  assumes "buf_inv c" "m_headSize p = 34" "head_at (peek_mem c) 0"
  shows "if complete_at (peek_mem c) (length (content c)) 0
    then \<exists>b' q n. at_head p c = Some (b', Some q) \<and> packet_ok q \<and> buf_inv b' \<and> content b' = drop n (content c)
    else at_head p c = Some (c, None)"
proof (cases "length (content c) < 34")
  case True
  then show ?thesis
    using at_head_short [OF assms(1,2)] by (simp add: complete_at_def)
next
  case False
  let ?m = "peek_mem c" and ?n = "length (content c)"
  let ?q = "parse_header ?m 0 p"
  let ?l = "unat (m_DataLength ?q)"
  have cd: "ConstructData ?m (readableBytes c) p = parse_body ?m ?n 18 ?q"
    using False assms by (intro at_head_parse) auto
  have n: "?n \<le> length ?m" "?n < 2 ^ 64"
    using length_peek_mem [OF assms(1)] content_small [OF assms(1)] by simp_all
  have complete: "complete_at ?m ?n 0 \<longleftrightarrow> ?l \<le> ?n - 34"
    using False by (simp add: complete_at_def parse_header_def)
  show ?thesis
  proof (cases "?n - 34 < ?l")
    case True
    then have "ConstructData ?m (readableBytes c) p = Some (-3, 18, ?q)"
      using False n(2) by (simp add: cd parse_body_def length_check)
    then show ?thesis
      using True complete by (simp add: at_head_def)
  next
    case fits: False
    then have le: "34 + ?l \<le> ?n"
      using False by simp
    then have "load_bytes ?m 18 ?l \<noteq> None" "load_bytes ?m (18 + ?l) 16 \<noteq> None"
      using False n(1) by simp_all
    then obtain str ver where loads: "load_bytes ?m 18 ?l = Some str" "load_bytes ?m (18 + ?l) 16 = Some ver"
      by blast
    then have "ConstructData ?m (readableBytes c) p
        = Some (0, 34 + ?l, ?q\<lparr>m_strData := str, m_veryfyData := ver\<rparr>)"
      using False fits n(2) by (simp add: cd parse_body_def length_check)
    moreover have "packet_ok (?q\<lparr>m_strData := str, m_veryfyData := ver\<rparr>)"
      using length_load_bytes [OF loads(2)] by (simp add: packet_ok_def)
    moreover obtain b' where "retrieve c (34 + ?l) = Some b'" "buf_inv b'"
      "content b' = drop (34 + ?l) (content c)"
      using buf.consume_some [OF assms(1) le] by blast
    ultimately show ?thesis
      using fits complete by (auto simp: at_head_def)
  qed
qed

lemma at_head_packet:
  assumes "buf_inv c" "content c = wire q @ rest" "packet_wf q" "m_headSize p = 34"
  shows "\<exists>b' p'. at_head p c = Some (b', Some p') \<and> packet_ok p' \<and> CPacket_copy p' = CPacket_copy q
    \<and> buf_inv b' \<and> content b' = rest"
proof -
  let ?m = "peek_mem c" and ?n = "length (content c)"
  let ?got = "(with_fields p q)\<lparr>m_strData := m_strData q, m_veryfyData := m_veryfyData q\<rparr>"
  have q: "packet_ok q" "m_sHead q = 0xEFEF" "unat (m_DataLength q) = length (m_strData q)"
    using assms(3) by (simp_all add: packet_wf_def)
  have len: "?n = length (m_strData q) + 34 + length rest" "?n < 2 ^ 64"
    using content_small [OF assms(1)] assms(2) q(1) by (simp_all add: length_wire)
  have d: "drop 0 ?m = header q @ m_strData q @ m_veryfyData q @ rest @ drop (writerIndex c) (buffer c)"
    using peek_mem_content [OF assms(1)] assms(2) by (simp add: wire_header)
  have "head_at ?m 0" and ph: "parse_header ?m 0 p = with_fields p q"
    using parse_header_wire [OF d _ q(2)] by simp_all
  then have "ConstructData ?m (readableBytes c) p = parse_body ?m ?n 18 (with_fields p q)"
    using at_head_parse [OF assms(1,4)] len by simp
  also have "\<dots> = Some (0, length (wire q), ?got)"
    using parse_body_wire [OF d _ q(1,3), of ?n p] len by (simp add: length_check)
  finally have cd: "ConstructData ?m (readableBytes c) p = Some (0, length (wire q), ?got)" .
  moreover have "CPacket_copy ?got = CPacket_copy q" "packet_ok ?got"
    using q(1) by (simp_all add: CPacket_copy_def with_fields_def packet_ok_def)
  moreover obtain b' where "retrieve c (length (wire q)) = Some b'" "buf_inv b'" "content b' = rest"
    using buf.consume_prefix [OF assms(1,2)] by blast
  ultimately show ?thesis
    by (simp add: at_head_def)
qed

lemma at_head_incomplete:
  assumes "buf_inv c" "content c @ missing = wire q" "missing \<noteq> []" "packet_wf q" "m_headSize p = 34"
  shows "at_head p c = Some (c, None)"
proof (cases "length (content c) < 34")
  case True
  then show ?thesis
    using at_head_short assms(1,5) by blast
next
  case False
  let ?m = "peek_mem c" and ?n = "length (content c)"
  have q: "packet_ok q" "m_sHead q = 0xEFEF" "unat (m_DataLength q) = length (m_strData q)"
    using assms(4) by (simp_all add: packet_wf_def)
  have len: "?n < length (m_strData q) + 34" "?n < 2 ^ 64"
    using arg_cong [OF assms(2), of length] assms(3) q(1) content_small [OF assms(1)]
    by (cases missing, auto simp: length_wire)+
  have "take 18 (content c) = header q"
    using arg_cong [OF assms(2), of "take 18"] False by (simp add: wire_header)
  then have d: "drop 0 ?m = header q @ drop 18 (content c) @ drop (writerIndex c) (buffer c)"
    using peek_mem_content [OF assms(1)] by (metis append.assoc append_take_drop_id drop0)
  have "head_at ?m 0" and ph: "parse_header ?m 0 p = with_fields p q"
    using parse_header_wire [OF d _ q(2)] by simp_all
  then have "ConstructData ?m (readableBytes c) p = parse_body ?m ?n 18 (with_fields p q)"
    using at_head_parse [OF assms(1,5)] False by simp
  also have "\<dots> = Some (-3, 18, with_fields p q)"
  proof -
    have "?n - 18 - 16 < unat (m_DataLength q)"
      using False len(1) q(3) by simp
    then show ?thesis
      using False len(2) by (simp add: parse_body_def length_check with_fields_def)
  qed
  finally show ?thesis
    by (simp add: at_head_def)
qed

section \<open>Receiving a stream in pieces\<close>

text \<open>
  What the network library does with the pieces of a stream: append each to the buffer of the
  connection, then call \<open>onMessage\<close>.
\<close>

primrec receive ::
  "(cpacket \<Rightarrow> 'pool \<Rightarrow> 'pool) \<Rightarrow> cpacket \<Rightarrow> byte list list \<Rightarrow> Buffer \<Rightarrow> 'pool CMuduoServer
     \<Rightarrow> (Buffer \<times> 'pool CMuduoServer) option" where
  "receive pool_run junk [] b s = Some (b, s)"
| "receive pool_run junk (d # ds) b s = do {
     b \<leftarrow> append_bytes b d;
     (b, s) \<leftarrow> onMessage pool_run junk b s;
     receive pool_run junk ds b s }"

lemma wire_head: "packet_wf q \<Longrightarrow> \<exists>t. wire q = 0xEF # 0xEF # t"
  by (simp add: wire_def packet_wf_def put16_big_endian)

lemma prefix_head:
  assumes "part @ missing = wire q" "2 \<le> length part" "packet_wf q"
  shows "head_at (part @ t) 0"
proof -
  obtain u where "wire q = 0xEF # 0xEF # u"
    using wire_head [OF assms(3)] by blast
  then have "take 2 part = [0xEF, 0xEF]"
    using arg_cong [OF assms(1), of "take 2"] assms(2) by simp
  then show ?thesis
    using assms(2) by (cases part; cases "tl part") (auto simp: head_at_def)
qed

lemma cut_skips:
  assumes "buf_inv b" "content b = noise @ part" "part @ missing = wire q" "2 \<le> length part"
    "packet_wf q" "\<And>j. j < length noise \<Longrightarrow> \<not> head_at (content b) j"
  shows "\<exists>c. buf_inv c \<and> content c = part \<and> writerIndex c = writerIndex b
    \<and> cut_packet junk b = at_head ((CPacket_default junk)\<lparr>m_sHead := 0xEFEF\<rparr>) c"
proof -
  let ?k = "length noise"
  have mem: "peek_mem b = content b @ drop (writerIndex b) (buffer b)"
    using assms(1) by (rule peek_mem_content)
  have k: "?k + 1 < length (content b)"
    using assms(2,4) by simp
  then have klt: "?k < length (content b)"
    by simp
  have "head_at (part @ drop (writerIndex b) (buffer b)) 0"
    using assms(3-5) by (rule prefix_head)
  then have "head_at (peek_mem b) ?k"
    using mem assms(2) by (simp add: head_at_shift)
  moreover have "\<not> head_at (peek_mem b) j" if "j < ?k" for j
    using that assms(6) [OF that] k mem head_at_append [of j "content b"] by simp
  moreover obtain c where c: "retrieve b ?k = Some c"
    using buf.consume_some [OF assms(1), of ?k] k by auto
  moreover have "buf_inv c" "content c = part" "writerIndex c = writerIndex b"
    using retrieve_partial [OF assms(1) klt c] assms(2) by simp_all
  ultimately show ?thesis
    using cut_at_head [OF assms(1), of ?k c junk] k by (intro exI [of _ c]) simp
qed

lemma cut_complete:
  assumes "buf_inv b" "content b = noise @ wire q @ rest" "packet_wf q"
    "\<And>j. j < length noise \<Longrightarrow> \<not> head_at (content b) j"
  shows "\<exists>b' p. cut_packet junk b = Some (b', Some p) \<and> packet_ok p \<and> CPacket_copy p = CPacket_copy q
    \<and> buf_inv b' \<and> content b' = rest"
proof -
  let ?k = "length noise" and ?m = "peek_mem b"
  have mem: "?m = content b @ drop (writerIndex b) (buffer b)"
    using assms(1) by (rule peek_mem_content)
  have k: "?k + 1 < length (content b)"
    using assms(2,3) by (simp add: length_wire packet_wf_def)
  then have klt: "?k < length (content b)"
    by simp
  obtain t where "wire q = 0xEF # 0xEF # t"
    using wire_head [OF assms(3)] by blast
  then have "head_at ?m ?k"
    using mem assms(2) by (simp add: head_at_shift) (simp add: head_at_def)
  moreover have "\<not> head_at ?m j" if "j < ?k" for j
    using that assms(4) [OF that] k mem head_at_append [of j "content b"] by simp
  moreover obtain c where c: "retrieve b ?k = Some c"
    using buf.consume_some [OF assms(1), of ?k] k by auto
  moreover have "buf_inv c" "content c = wire q @ rest"
    using retrieve_partial [OF assms(1) klt c] assms(2) by simp_all
  ultimately show ?thesis
    using cut_at_head [OF assms(1), of ?k c junk]
      at_head_packet [of c q rest "(CPacket_default junk)\<lparr>m_sHead := 0xEFEF\<rparr>"] assms(3) k
    by (simp add: CPacket_default_def)
qed

lemma onMessage_partial:
  assumes "buf_inv b" "content b = noise @ part" "part @ missing = wire q" "missing \<noteq> []"
    "2 \<le> length part" "packet_wf q" "\<And>j. j < length noise \<Longrightarrow> \<not> head_at (content b) j"
  shows "\<exists>b'. onMessage pool_run junk b s = Some (b', s) \<and> buf_inv b' \<and> content b' = part
    \<and> writerIndex b' = writerIndex b"
proof -
  obtain c where c: "buf_inv c" "content c = part" "writerIndex c = writerIndex b"
    "cut_packet junk b = at_head ((CPacket_default junk)\<lparr>m_sHead := 0xEFEF\<rparr>) c"
    using cut_skips [OF assms(1-3,5,6)] assms(7) by blast
  moreover have "at_head ((CPacket_default junk)\<lparr>m_sHead := 0xEFEF\<rparr>) c = Some (c, None)"
    using c(1,2) assms(3,4,6) by (intro at_head_incomplete) (auto simp: CPacket_default_def)
  ultimately show ?thesis
    by (simp add: onMessage_cut(1))
qed


section \<open>Properties\<close>

text \<open>The buffer of a new connection, and a server whose pool records the packets run on it.\<close>

definition fresh_buffer :: Buffer where
  "fresh_buffer = \<lparr>buffer = replicate 1032 0, readerIndex = 8, writerIndex = 8\<rparr>"

lemma Buffer_ctor_fresh: "Buffer_ctor kInitialSize = Some fresh_buffer"
  by (simp add: Buffer_ctor_def kInitialSize_def kCheapPrepend_def vector_resize_def fresh_buffer_def)

lemma fresh_buffer_inv: "buf_inv fresh_buffer" "content fresh_buffer = []" "writerIndex fresh_buffer = 8"
  by (simp_all add: fresh_buffer_def buf_inv_def content_def kCheapPrepend_def)

definition sample_server :: "cpacket list CMuduoServer" where
  "sample_server = \<lparr>m_param = \<lparr>port = 7824, ioThreadNum = 5, workThreadNumber = 10\<rparr>,
     m_numIoThreads = 5, m_taskDeal = CTaskDeal_ctor [] 10\<rparr>"

definition queue_run :: "cpacket \<Rightarrow> cpacket list \<Rightarrow> cpacket list" where
  "queue_run p ps = ps @ [p]"

lemma receive_append: "receive pool_run junk (ds @ es) b s =
    receive pool_run junk ds b s \<bind> (\<lambda>(b, s). receive pool_run junk es b s)"
  by (induction ds arbitrary: b s) (auto simp: split_beta cong: bind_option_cong split: bind_splits)

text \<open>The pieces before the last: the handler waits for more and keeps them.\<close>

lemma receive_waits:
  assumes "buf_inv b" "content b @ concat ds @ missing = wire q" "missing \<noteq> []" "packet_wf q"
    "ds \<noteq> [] \<Longrightarrow> 2 \<le> length (content b) + length (hd ds)"
    "max 8 (writerIndex b) + length (concat ds) < 2 ^ 63"
  shows "\<exists>b'. receive pool_run junk ds b s = Some (b', s) \<and> buf_inv b' \<and> content b' = content b @ concat ds
    \<and> max 8 (writerIndex b') \<le> max 8 (writerIndex b) + length (concat ds)"
  using assms
proof (induction ds arbitrary: b)
  case (Cons e ds)
  have "writerIndex b + length e < 2 ^ 63"
    using Cons.prems(6) by (simp add: max_def split: if_splits)
  then obtain b1 where b1: "append_bytes b e = Some b1" "buf_inv b1" "content b1 = content b @ e"
    "writerIndex b1 \<le> max 8 (writerIndex b) + length e"
    using append_mem_ok [OF Cons.prems(1), of "length e" e] by (auto simp: append_bytes_def)
  have "(content b @ e) @ (concat ds @ missing) = wire q" "concat ds @ missing \<noteq> []"
    "2 \<le> length (content b @ e)"
    using Cons.prems(2,3,5) by simp_all
  then obtain b2 where b2: "onMessage pool_run junk b1 s = Some (b2, s)" "buf_inv b2"
    "content b2 = content b @ e" "writerIndex b2 = writerIndex b1"
    using onMessage_partial [OF b1(2), of "[]" "content b @ e" "concat ds @ missing" q pool_run junk s] b1(3) Cons.prems(4)
    by auto
  obtain b' where "receive pool_run junk ds b2 s = Some (b', s)" "buf_inv b'" "content b' = content b2 @ concat ds"
    "max 8 (writerIndex b') \<le> max 8 (writerIndex b2) + length (concat ds)"
    using Cons.IH [OF b2(2)] b2(3,4) b1(4) Cons.prems(2-6) by fastforce
  then show ?case
    using b1(1,4) b2 by auto
qed auto

lemma receive_pieces:
  assumes "buf_inv b" "content b @ concat ds @ d = wire q @ rest" "length d > length rest"
    "packet_wf q" "2 \<le> length (content b) + length (hd (ds @ [d]))"
    "max 8 (writerIndex b) + length (concat ds @ d) < 2 ^ 63"
  shows "\<exists>b0 b1 b2 p. receive pool_run junk ds b s = Some (b0, s) \<and> content b0 = content b @ concat ds
    \<and> append_bytes b0 d = Some b1 \<and> cut_packet junk b1 = Some (b2, Some p)
    \<and> CPacket_copy p = CPacket_copy q \<and> buf_inv b2 \<and> content b2 = rest
    \<and> receive pool_run junk (ds @ [d]) b s = None"
proof -
  have "length (content b @ concat ds) < length (wire q)"
    using arg_cong [OF assms(2), of length] assms(3) by simp
  moreover have first: "2 \<le> length (content b) + length (hd ds)" if "ds \<noteq> []"
    using assms(5) that by (cases ds) auto
  ultimately obtain missing where missing: "(content b @ concat ds) @ missing = wire q" "missing \<noteq> []"
    using proper_prefix [of "content b @ concat ds" d "wire q" rest] assms(2) by auto
  obtain b0 where b0: "receive pool_run junk ds b s = Some (b0, s)" "buf_inv b0" "content b0 = content b @ concat ds"
    "max 8 (writerIndex b0) \<le> max 8 (writerIndex b) + length (concat ds)"
    using receive_waits [OF assms(1) _ missing(2) assms(4), of ds pool_run junk s] missing(1) first assms(6) by auto
  then have "writerIndex b0 + length d < 2 ^ 63"
    using assms(6) by (simp add: max_def split: if_splits)
  then obtain b1 where b1: "append_bytes b0 d = Some b1" "buf_inv b1" "content b1 = wire q @ rest"
    using append_bytes_ok [OF b0(2), of d] b0(3) assms(2) by (metis append.assoc)
  obtain b2 p where p: "cut_packet junk b1 = Some (b2, Some p)" "packet_ok p" "CPacket_copy p = CPacket_copy q"
    "buf_inv b2" "content b2 = rest"
    using cut_complete [OF b1(2), of "[]" q rest junk] b1(3) assms(4) by auto
  have "receive pool_run junk (ds @ [d]) b s = None"
    using b0(1) b1(1) onMessage_cut(2) [OF p(1,2)] by (simp add: receive_append)
  then show ?thesis
    using b0 b1 p by blast
qed

text \<open>
  C1: a packet that arrives in pieces, of which the first leaves at least two bytes of it in the buffer,
  is put together again. The pieces before the last change nothing but the buffer, which keeps them; when
  the last one has been appended, \<open>onMessage\<close> cuts out a packet with the fields of \<open>q\<close> and leaves the bytes
  after it. It then moves the packet into the argument of \<open>SolveTask\<close>, and the move constructor writes
  outside the packet: no packet becomes a task without undefined behaviour.
\<close>

theorem receive_fragments:
  assumes "buf_inv b" "content b @ concat ds @ d = wire q @ rest" "length d > length rest"
    "packet_wf q" "2 \<le> length (content b) + length (hd (ds @ [d]))"
    "max 8 (writerIndex b) + length (concat ds @ d) < 2 ^ 63"
  shows "\<exists>b0 b1 b2 p. receive pool_run junk ds b s = Some (b0, s) \<and> content b0 = content b @ concat ds
    \<and> append_bytes b0 d = Some b1 \<and> cut_packet junk b1 = Some (b2, Some p)
    \<and> CPacket_copy p = CPacket_copy q \<and> buf_inv b2 \<and> content b2 = rest
    \<and> receive pool_run junk (ds @ [d]) b s = None"
  by (rule receive_pieces [OF assms])

theorem receive_fragments_witness:
  "\<exists>b0 b1 b2 p. receive queue_run sample_packet [take 7 (wire sample_packet)] fresh_buffer sample_server
      = Some (b0, sample_server)
    \<and> append_bytes b0 (drop 7 (wire sample_packet) @ [0xEF]) = Some b1
    \<and> cut_packet sample_packet b1 = Some (b2, Some p) \<and> CPacket_copy p = CPacket_copy sample_packet
    \<and> content b2 = [0xEF]"
proof -
  have len: "length (wire sample_packet) = 36"
    using sample_packet_wf by (simp add: length_wire packet_wf_def) (simp add: sample_packet_def CPacket_string_def)
  show ?thesis
    using receive_fragments [OF fresh_buffer_inv(1), of "[take 7 (wire sample_packet)]"
        "drop 7 (wire sample_packet) @ [0xEF]" sample_packet "[0xEF]" queue_run sample_packet sample_server]
      fresh_buffer_inv sample_packet_wf len by fastforce
qed

text \<open>A complete packet stands at the first head of the bytes.\<close>

definition complete_packet :: "mem \<Rightarrow> nat \<Rightarrow> bool" where
  "complete_packet m n = (case find (head_at m) [0..<n] of None \<Rightarrow> False | Some k \<Rightarrow> complete_at m n k)"

text \<open>
  C20: With at least one spare byte behind the received data, what \<open>onMessage\<close> does with any bytes is
  decided by the first head. If no complete packet stands there, it returns: it has failed no assertion,
  stayed inside the buffer, kept the buffer's invariant, dropped only bytes from the front and made no
  task. If there is one, the parser gets to it in the same way, and handing it over is undefined.
\<close>

theorem onMessage_total:
  assumes "buf_inv b" "writerIndex b < length (buffer b)"
  shows "if complete_packet (peek_mem b) (length (content b))
    then onMessage pool_run junk b s = None
      \<and> (\<exists>b' p n. cut_packet junk b = Some (b', Some p) \<and> buf_inv b' \<and> content b' = drop n (content b))
    else \<exists>b' n. onMessage pool_run junk b s = Some (b', s) \<and> buf_inv b' \<and> content b' = drop n (content b)"
proof (cases "find (head_at (peek_mem b)) [0..<length (content b)]")
  case None
  then have "\<And>j. j < length (content b) \<Longrightarrow> \<not> head_at (peek_mem b) j"
    by (auto simp: find_None_iff)
  then have "onMessage pool_run junk b s = Some (retrieveAll b, s)"
    using peek_mem_content [OF assms(1)] assms(2) by (intro onMessage_cut(1) cut_no_head [OF assms(1)]) simp_all
  then show ?thesis
    using None assms(1) by (auto simp: complete_packet_def retrieveAll_inv intro!: exI [of _ "length (content b)"])
next
  case (Some k)
  then have k: "head_at (peek_mem b) k" "k < length (content b)" "\<And>j. j < k \<Longrightarrow> \<not> head_at (peek_mem b) j"
    by (auto simp: find_Some_iff)
  obtain c where c: "retrieve b k = Some c"
    using buf.consume_some [OF assms(1), of k] k(2) by auto
  note C = retrieve_partial [OF assms(1) k(2) c]
  let ?p = "(CPacket_default junk)\<lparr>m_sHead := 0xEFEF\<rparr>"
  have cut: "cut_packet junk b = at_head ?p c"
    by (rule cut_at_head [OF assms(1) k c])
  have "head_at (peek_mem c) 0" "m_headSize ?p = 34"
    using k length_peek_mem [OF assms(1)] by (simp_all add: C(3) head_at_drop CPacket_default_def)
  note total = at_head_total [OF C(1) this(2,1)]
  have complete: "complete_packet (peek_mem b) (length (content b)) = complete_at (peek_mem c) (length (content c)) 0"
    using Some k(2) by (auto simp: complete_packet_def complete_at_def C(2,3) get32_drop)
  show ?thesis
  proof (cases "complete_at (peek_mem c) (length (content c)) 0")
    case True
    then obtain b' q n where "at_head ?p c = Some (b', Some q)" "packet_ok q" "buf_inv b'" "content b' = drop n (content c)"
      using total by auto
    then show ?thesis
      using True cut complete onMessage_cut(2) [of junk b b' q] by (auto simp: C(2))
  next
    case False
    then show ?thesis
      using total cut complete onMessage_cut(1) [of junk b c] C(1,2) by auto
  qed
qed

theorem onMessage_total_witness:
  "(\<exists>b'. onMessage queue_run sample_packet fresh_buffer sample_server = Some (b', sample_server) \<and> buf_inv b')
   \<and> onMessage queue_run sample_packet
       \<lparr>buffer = replicate 8 0 @ wire sample_packet @ [0], readerIndex = 8, writerIndex = 44\<rparr> sample_server = None"
proof -
  let ?b = "\<lparr>buffer = replicate 8 0 @ wire sample_packet @ [0], readerIndex = 8, writerIndex = 44\<rparr>"
  have "complete_packet (peek_mem ?b) (length (content ?b))" "length (buffer ?b) = 45"
    by code_simp+
  then show ?thesis
    using onMessage_total [OF fresh_buffer_inv(1), of queue_run sample_packet sample_server] fresh_buffer_inv(2)
      onMessage_total [of ?b queue_run sample_packet sample_server]
    by (auto simp: fresh_buffer_def complete_packet_def buf_inv_def kCheapPrepend_def)
qed

text \<open>
  Bytes before a head are skipped, but one call cuts one packet out: when a piece completes two
  packets, the second stays in the buffer until the connection receives something else.
\<close>

theorem receive_two_packets:
  assumes "buf_inv b" "content b = []" "writerIndex b + length d < 2 ^ 63"
    "d = noise @ wire q1 @ wire q2 @ rest" "packet_wf q1" "packet_wf q2"
    "\<forall>j < length noise. \<not> head_at d j"
  shows "\<exists>b0 b1 b2 p1 p2. append_bytes b d = Some b0 \<and> cut_packet junk b0 = Some (b1, Some p1)
    \<and> CPacket_copy p1 = CPacket_copy q1 \<and> content b1 = wire q2 @ rest
    \<and> cut_packet junk b1 = Some (b2, Some p2) \<and> CPacket_copy p2 = CPacket_copy q2 \<and> content b2 = rest"
proof -
  obtain b0 where b0: "append_bytes b d = Some b0" "buf_inv b0" "content b0 = d"
    using append_bytes_ok [OF assms(1,3)] assms(2) by auto
  then have "content b0 = noise @ wire q1 @ (wire q2 @ rest)"
    using assms(4) by simp
  then obtain b1 p1 where b1: "cut_packet junk b0 = Some (b1, Some p1)" "CPacket_copy p1 = CPacket_copy q1"
    "buf_inv b1" "content b1 = [] @ wire q2 @ rest"
    using cut_complete [OF b0(2) _ assms(5), of noise "wire q2 @ rest" junk] assms(7) b0(3) by auto
  obtain b2 p2 where "cut_packet junk b1 = Some (b2, Some p2)" "CPacket_copy p2 = CPacket_copy q2" "content b2 = rest"
    using cut_complete [OF b1(3,4) assms(6)] by force
  then show ?thesis
    using b0(1) b1 by auto
qed

text \<open>
  A full buffer without a head is read past its end: when the received bytes reach the end of the
  vector, the search loads the byte after it.
\<close>

theorem onMessage_overread:
  assumes "buf_inv b" "writerIndex b = length (buffer b)" "content b \<noteq> []"
    "\<forall>j < length (content b). \<not> head_at (content b) j"
  shows "onMessage pool_run junk b s = None"
proof -
  have "peek_mem b = content b"
    using assms(2) peek_mem_content [OF assms(1)] by simp
  then have "FindHead_loop (peek_mem b) (readableBytes b) 0 (m_sHead (CPacket_default junk)) = None"
    using assms by (intro FindHead_overread) (simp_all add: length_content flip: length_greater_0_conv)
  then show ?thesis
    by (simp add: onMessage_def cut_packet_def FindHeadStart_def)
qed

theorem onMessage_overread_witness:
  "buf_inv (fresh_buffer\<lparr>writerIndex := 1032\<rparr>)
   \<and> onMessage queue_run sample_packet (fresh_buffer\<lparr>writerIndex := 1032\<rparr>) sample_server = None"
proof -
  let ?b = "fresh_buffer\<lparr>writerIndex := 1032\<rparr>"
  have b: "buf_inv ?b" "content ?b = replicate 1024 0" "writerIndex ?b = length (buffer ?b)"
    by (simp_all add: fresh_buffer_def buf_inv_def content_def kCheapPrepend_def)
  moreover have "\<not> head_at (replicate 1024 0) j" for j
    by (simp add: head_at_def)
  moreover have "content ?b \<noteq> []"
    unfolding b(2) by (simp flip: length_0_conv)
  ultimately show ?thesis
    using onMessage_overread [OF b(1,3), of queue_run sample_packet sample_server] by simp
qed

text \<open>
  C25: A head cut in two by the network is lost: when the received bytes end with the first byte of
  a head (and the stale byte behind them is not EF), everything is dropped, the started packet with it.
\<close>

theorem onMessage_split_head:
  assumes "buf_inv b" "content b = noise @ [0xEF]" "writerIndex b < length (buffer b)"
    "buffer b ! writerIndex b \<noteq> 0xEF" "\<forall>j < length noise. \<not> head_at (content b) j"
  shows "\<exists>b'. onMessage pool_run junk b s = Some (b', s) \<and> content b' = []"
proof -
  let ?m = "peek_mem b"
  have mem: "?m = noise @ 0xEF # drop (writerIndex b) (buffer b)"
    using peek_mem_content [OF assms(1)] assms(2) by simp
  have "\<not> head_at ?m j" if "j < length (content b)" for j
  proof (cases "j < length noise")
    case True
    then show ?thesis
      using assms(2,5) mem head_at_append [of j "content b"] by simp
  next
    case False
    then have "j = length noise"
      using that assms(2) by simp
    then show ?thesis
      using assms(3,4) by (simp add: head_at_def mem nth_append)
  qed
  then have "onMessage pool_run junk b s = Some (retrieveAll b, s)"
    using assms(2,3) by (intro onMessage_cut(1) cut_no_head [OF assms(1)]) (simp_all add: mem)
  then show ?thesis
    by simp
qed

theorem onMessage_split_head_witness:
  "\<exists>b b'. content b = [1, 0xEF] \<and> onMessage queue_run sample_packet b sample_server = Some (b', sample_server)
     \<and> content b' = []"
proof -
  let ?b = "\<lparr>buffer = replicate 8 0 @ [1, 0xEF, 0], readerIndex = 8, writerIndex = 10\<rparr>"
  have b: "buf_inv ?b" "content ?b = [1] @ [0xEF]"
    by (simp_all add: buf_inv_def content_def kCheapPrepend_def)
  have "\<exists>b'. onMessage queue_run sample_packet ?b sample_server = Some (b', sample_server) \<and> content b' = []"
    by (rule onMessage_split_head [OF b]) (auto simp: b(2) head_at_def nth_append)
  then show ?thesis
    using b(2) by auto
qed

end
