(* ===== verification/Sql_Schema.thy ===== *)
theory Sql_Schema
  imports Sql_Operate
begin

text \<open>
  Setting up the database, src/src/dm/sqlgradoperate.cpp: \<open>InitDMShemaAndTable\<close> loads the
  configuration, connects, and \<open>IniDM8SchemaTable\<close> creates the schema and the tables that are
  missing and adds the columns that are missing. The texts are built with \<open>sprintf\<close> in arrays of 64
  and 2048 chars; a text that does not fit is a write past the array.
\<close>

section \<open>Fixed arrays\<close>

definition BUF_LEN :: nat where
  "BUF_LEN = 64"

definition QUERY_LINE_LEN :: nat where
  "QUERY_LINE_LEN = 2048"

definition sprintf :: "nat \<Rightarrow> string \<Rightarrow> fault + string" where
  "sprintf n str = (if sprintf_fits n str then Inr str else Inl BufferOverflow)"

abbreviation quoted :: "string \<Rightarrow> string" where
  "quoted str \<equiv> CHR 0x22 # str @ [CHR 0x22]"

abbreviation literal :: "string \<Rightarrow> string" where
  "literal str \<equiv> CHR 0x27 # str @ [CHR 0x27]"

text \<open>
  The library stores a text with its NUL into a bound buffer, at most \<open>bound\<close> bytes; the buffers
  have 64 bytes and are bound with 65.
\<close>

definition store_name :: "nat \<Rightarrow> nat \<Rightarrow> db_cell option \<Rightarrow> fault + unit" where
  "store_name cap bound cell = (case cell of
     Some (CText str) \<Rightarrow> if min (length str + 1) bound \<le> cap then Inr () else Inl BufferOverflow
   | _ \<Rightarrow> Inr ())"

section \<open>Does a name exist\<close>

text \<open>
  The block that occurs three times: execute a query, bind its column, fetch once, free the
  handle. \<open>None\<close> if freeing fails. A query that cannot be executed counts as "not found", and its
  handle is freed a second time.
\<close>

definition name_exists :: "('h, 'w) dm_api \<Rightarrow> string \<Rightarrow> ('w, bool option) db" where
  "name_exists A sql =
    andThen (BindSql2Exe A (zero_stmt A) sql) (\<lambda>(iRet, hdl).
    andThen (if iRet \<noteq> 0 then ret False
             else andThen (bind_call A hdl 1 (BUF_LEN + 1)) (\<lambda>r.
                  if r \<noteq> 0 then ret False
                  else andThen (dpi_fetch_call A hdl) (\<lambda>(r, row).
                       if r = DSQL_NO_DATA then ret False
                       else andThen (lift_result (store_name BUF_LEN (BUF_LEN + 1) (row 1))) (\<lambda>_. ret True))))
      (\<lambda>exists. andThen (dm_free_call A hdl) (\<lambda>(r, _). ret (if r \<noteq> 0 then None else Some exists))))"

section \<open>Creating\<close>

definition CreateSchema :: "('h, 'w) dm_api \<Rightarrow> ('w, int) db" where
  "CreateSchema A = (\<lambda>s.
    andThen (lift_result (deref (m_pstTableMap s))) (\<lambda>m.
    andThen (lift_result (sprintf BUF_LEN (aucSchema m))) (\<lambda>acSchemaName.
    andThen (lift_result (sprintf QUERY_LINE_LEN
       (''CREATE SCHEMA '' @ quoted (aucSchema m) @ '' AUTHORIZATION '' @ quoted (aucAuthorization m) @ '';'')))
      (\<lambda>acSqlStr.
    andThen (BindSql2Exe A (zero_stmt A) acSqlStr) (\<lambda>(iRet, hdl).
    if iRet \<noteq> 0 then ret (-1)
    else andThen (dm_free_call A hdl) (\<lambda>(r, _). ret (if r \<noteq> 0 then -1 else 0)))))) s)"

text \<open>
  One column's text, formatted in 64 chars and copied behind the text so far, which has room for
  2048 chars.
\<close>

definition append_attr :: "Data_Map list \<Rightarrow> nat \<Rightarrow> string \<Rightarrow> string \<Rightarrow> fault + string" where
  "append_attr cols j stop str =
    bindE (elem_at cols j) (\<lambda>c.
    bindE (sprintf BUF_LEN (aucColumnName c @ '' '' @ aucType c @ stop)) (\<lambda>acColumnAttr.
    if length str + length acColumnAttr \<le> QUERY_LINE_LEN then Inr (str @ acColumnAttr)
    else Inl BufferOverflow))"

fun append_attrs :: "Data_Map list \<Rightarrow> nat list \<Rightarrow> string \<Rightarrow> fault + string" where
  "append_attrs cols [] str = Inr str"
| "append_attrs cols (j # js) str = bindE (append_attr cols j '','' str) (append_attrs cols js)"

text \<open>The whole text; without a NUL behind it, it cannot be used as a C string.\<close>

definition create_text :: "TableMap \<Rightarrow> DataTable \<Rightarrow> fault + string" where
  "create_text m tab =
    bindE (sprintf BUF_LEN (''CREATE TABLE '' @ quoted (aucSchema m) @ ''.'' @ quoted (aucTableName tab) @ '' (''))
      (\<lambda>acCreateTable.
    bindE (append_attrs (astMap tab) [0..<unat (usColumns tab) - 1] acCreateTable) (\<lambda>str.
    bindE (append_attr (astMap tab) (unat (usColumns tab) - 1) '');'' str) (\<lambda>pcSqlStr.
    if length pcSqlStr < QUERY_LINE_LEN then Inr pcSqlStr else Inl BadAccess)))"

definition CreateTable :: "('h, 'w) dm_api \<Rightarrow> nat \<Rightarrow> ('w, int) db" where
  "CreateTable A i = (\<lambda>s.
    andThen (lift_result (deref (m_pstTableMap s))) (\<lambda>m.
    andThen (lift_result (bindE (elem_at (pstTable m) i) (create_text m))) (\<lambda>pcSqlStr.
    andThen (BindSql2Exe A (zero_stmt A) pcSqlStr) (\<lambda>(iRet, hdl).
    if iRet \<noteq> 0 then ret (-1)
    else andThen (dm_free_call A hdl) (\<lambda>(r, _). ret (if r \<noteq> 0 then -1 else 0))))) s)"

fun create_tables :: "('h, 'w) dm_api \<Rightarrow> nat list \<Rightarrow> ('w, int) db" where
  "create_tables A [] = ret 0"
| "create_tables A (i # is) = andThen (CreateTable A i) (\<lambda>iRet.
     if iRet \<noteq> 0 then ret (-1) else create_tables A is)"

section \<open>Checking what is there\<close>

definition check_schema_sql :: "TableMap \<Rightarrow> string" where
  "check_schema_sql m =
    ''select t.name from sysobjects t where t.type$='' @ literal ''SCH'' @ '' and t.name='' @ literal (aucSchema m) @ '';''"

definition check_table_sql :: "TableMap \<Rightarrow> DataTable \<Rightarrow> string" where
  "check_table_sql m tab =
    ''select t.table_name from dba_tables t where t.owner='' @ literal (aucSchema m)
    @ '' and t.table_name='' @ literal (aucTableName tab) @ '';''"

definition check_column_sql :: "DataTable \<Rightarrow> Data_Map \<Rightarrow> string" where
  "check_column_sql tab c =
    ''select t.column_name from dba_tab_columns t where t.table_name='' @ literal (aucTableName tab)
    @ '' and t.column_name= UPPER('' @ literal (aucColumnName c) @ '');''"

definition add_column_sql :: "TableMap \<Rightarrow> DataTable \<Rightarrow> Data_Map \<Rightarrow> string" where
  "add_column_sql m tab c =
    ''alter table '' @ quoted (aucSchema m) @ ''.'' @ quoted (aucTableName tab)
    @ '' add column('' @ aucColumnName c @ '' '' @ aucType c @ '');''"

text \<open>
  The columns of one table. When a column cannot be added the loop ends and the table counts as
  done (result 0).
\<close>

fun check_columns :: "('h, 'w) dm_api \<Rightarrow> TableMap \<Rightarrow> DataTable \<Rightarrow> nat list \<Rightarrow> ('w, int) db" where
  "check_columns A m tab [] = ret 0"
| "check_columns A m tab (j # js) =
    andThen (lift_result (elem_at (astMap tab) j)) (\<lambda>c.
    andThen (lift_result (sprintf QUERY_LINE_LEN (check_column_sql tab c))) (\<lambda>acSqlCheckColumnStr.
    andThen (name_exists A acSqlCheckColumnStr) (\<lambda>r.
    case r of None \<Rightarrow> ret (-1)
    | Some True \<Rightarrow> check_columns A m tab js
    | Some False \<Rightarrow>
        andThen (lift_result (sprintf QUERY_LINE_LEN (add_column_sql m tab c))) (\<lambda>acAlertColumnSql.
        andThen (BindSql2Exe A (zero_stmt A) acAlertColumnSql) (\<lambda>(iRet, hdl).
        if iRet \<noteq> 0 then ret 0
        else andThen (dm_free_call A hdl) (\<lambda>(r, _).
             if r \<noteq> 0 then ret (-1) else check_columns A m tab js))))))"

fun check_tables :: "('h, 'w) dm_api \<Rightarrow> TableMap \<Rightarrow> nat list \<Rightarrow> ('w, int) db" where
  "check_tables A m [] = ret 0"
| "check_tables A m (i # is) =
    andThen (lift_result (elem_at (pstTable m) i)) (\<lambda>tab.
    andThen (lift_result (sprintf QUERY_LINE_LEN (check_table_sql m tab))) (\<lambda>acSqlCheckTableStr.
    andThen (name_exists A acSqlCheckTableStr) (\<lambda>r.
    case r of None \<Rightarrow> ret (-1)
    | Some False \<Rightarrow> andThen (CreateTable A i) (\<lambda>iRet.
        if iRet \<noteq> 0 then ret (-1) else check_tables A m is)
    | Some True \<Rightarrow> andThen (check_columns A m tab [0..<unat (usColumns tab)]) (\<lambda>iRet.
        if iRet \<noteq> 0 then ret (-1) else check_tables A m is))))"

definition IniDM8SchemaTable :: "('h, 'w) dm_api \<Rightarrow> ('w, int) db" where
  "IniDM8SchemaTable A = (\<lambda>s.
    andThen (lift_result (deref (m_pstTableMap s))) (\<lambda>m.
    andThen (lift_result (sprintf QUERY_LINE_LEN (check_schema_sql m))) (\<lambda>acSqlCheckSchemaStr.
    andThen (name_exists A acSqlCheckSchemaStr) (\<lambda>r.
    case r of None \<Rightarrow> ret (-1)
    | Some False \<Rightarrow> andThen (CreateSchema A) (\<lambda>iRet.
        if iRet \<noteq> 0 then ret (-1) else create_tables A [0..<unat (usTables m)])
    | Some True \<Rightarrow> check_tables A m [0..<unat (usTables m)]))) s)"

section \<open>The whole initialisation\<close>

text \<open>What \<open>CDmTableInfo\<close>, a class that is not in the repository, reads from the configuration.\<close>

record dm_table_info =
  IniDmInfo :: int
  GetModelStruct :: "unit pointer"
  GetTableMap_info :: "TableMap pointer"

definition InitDMShemaAndTable :: "('h, 'w) dm_api \<Rightarrow> dm_table_info \<Rightarrow> ('w, int) db" where
  "InitDMShemaAndTable A info = (\<lambda>s.
    if IniDmInfo info < 0 then (Inr (-1), s)
    else let s = s\<lparr>m_pstIniHead := GetModelStruct info\<rparr>
    in if m_pstIniHead s = Null then (Inr (-2), s)
    else let s = s\<lparr>m_pstTableMap := GetTableMap_info info\<rparr>
    in if m_pstTableMap s = Null then (Inr (-3), s)
    else andThen (ConnectToDM A) (\<lambda>r.
         if r < 0 then ret (-4)
         else andThen (IniDM8SchemaTable A) (\<lambda>r. if r < 0 then ret (-5) else ret r)) s)"

section \<open>The texts\<close>

definition table_header :: "TableMap \<Rightarrow> DataTable \<Rightarrow> string" where
  "table_header m tab = ''CREATE TABLE '' @ quoted (aucSchema m) @ ''.'' @ quoted (aucTableName tab) @ '' (''"

definition column_attr :: "string \<Rightarrow> Data_Map \<Rightarrow> string" where
  "column_attr stop c = aucColumnName c @ '' '' @ aucType c @ stop"

definition create_table_sql :: "TableMap \<Rightarrow> DataTable \<Rightarrow> string" where
  "create_table_sql m tab = table_header m tab @ concat (map (column_attr '','') (butlast (astMap tab)))
     @ column_attr '');'' (last (astMap tab))"

definition create_schema_sql :: "TableMap \<Rightarrow> string" where
  "create_schema_sql m = ''CREATE SCHEMA '' @ quoted (aucSchema m) @ '' AUTHORIZATION '' @ quoted (aucAuthorization m) @ '';''"

text \<open>The table has columns, as many as it says.\<close>

definition table_wf :: "DataTable \<Rightarrow> bool" where
  "table_wf tab \<longleftrightarrow> astMap tab \<noteq> [] \<and> unat (usColumns tab) = length (astMap tab)"

text \<open>Every part fits its array.\<close>

definition table_fits :: "TableMap \<Rightarrow> DataTable \<Rightarrow> bool" where
  "table_fits m tab \<longleftrightarrow> length (table_header m tab) < BUF_LEN
    \<and> (\<forall>c \<in> set (butlast (astMap tab)). length (column_attr '','' c) < BUF_LEN)
    \<and> length (column_attr '');'' (last (astMap tab))) < BUF_LEN
    \<and> length (create_table_sql m tab) < QUERY_LINE_LEN"

lemma length_table_header: "length (table_header m tab) = length (aucSchema m) + length (aucTableName tab) + 20"
  by (simp add: table_header_def)

lemma append_attr_eq:
  "j < length cols \<Longrightarrow> append_attr cols j stop str =
    (if length (column_attr stop (cols ! j)) < BUF_LEN \<and> length str + length (column_attr stop (cols ! j)) \<le> QUERY_LINE_LEN
     then Inr (str @ column_attr stop (cols ! j)) else Inl BufferOverflow)"
  by (simp add: append_attr_def elem_at_def sprintf_def sprintf_fits_def column_attr_def)

lemma append_attrs_eq:
  assumes "\<forall>j \<in> set js. j < length cols" "length str \<le> QUERY_LINE_LEN"
  defines "attrs \<equiv> map (\<lambda>j. column_attr '','' (cols ! j)) js"
  shows "append_attrs cols js str =
    (if (\<forall>a \<in> set attrs. length a < BUF_LEN) \<and> length (str @ concat attrs) \<le> QUERY_LINE_LEN
     then Inr (str @ concat attrs) else Inl BufferOverflow)"
  using assms(1,2) unfolding attrs_def
proof (induction js arbitrary: str)
  case (Cons j js)
  then show ?case
    by (auto simp: append_attr_eq)
qed simp

lemma column_attrs_butlast:
  "cols \<noteq> [] \<Longrightarrow> map (\<lambda>j. column_attr stop (cols ! j)) [0..<length cols - 1] = map (column_attr stop) (butlast cols)"
  by (rule nth_equalityI) (auto simp: nth_butlast)

lemma create_text_eq:
  assumes "table_wf tab"
  shows "table_fits m tab \<Longrightarrow> create_text m tab = Inr (create_table_sql m tab)"
    "\<not> table_fits m tab \<Longrightarrow> create_text m tab = Inl BufferOverflow \<or> create_text m tab = Inl BadAccess"
proof -
  let ?cols = "astMap tab" and ?h = "table_header m tab"
  let ?as = "map (column_attr '','') (butlast ?cols)" and ?l = "column_attr '');'' (last ?cols)"
  have cols: "?cols \<noteq> []" "unat (usColumns tab) = length ?cols"
    using assms by (simp_all add: table_wf_def)
  have "create_text m tab =
    bindE (sprintf BUF_LEN ?h) (\<lambda>acCreateTable.
    bindE (append_attrs ?cols [0..<length ?cols - 1] acCreateTable) (\<lambda>str.
    bindE (append_attr ?cols (length ?cols - 1) '');'' str) (\<lambda>pcSqlStr.
    if length pcSqlStr < QUERY_LINE_LEN then Inr pcSqlStr else Inl BadAccess)))"
    by (simp add: create_text_def cols(2) table_header_def)
  also have "\<dots> = (if \<not> length ?h < BUF_LEN then Inl BufferOverflow
     else if \<not> ((\<forall>a \<in> set ?as. length a < BUF_LEN) \<and> length (?h @ concat ?as) \<le> QUERY_LINE_LEN) then Inl BufferOverflow
     else if \<not> (length ?l < BUF_LEN \<and> length (?h @ concat ?as) + length ?l \<le> QUERY_LINE_LEN) then Inl BufferOverflow
     else if length (?h @ concat ?as @ ?l) < QUERY_LINE_LEN then Inr (?h @ concat ?as @ ?l) else Inl BadAccess)"
  proof (cases "length ?h < BUF_LEN")
    case True
    then have "length ?h \<le> QUERY_LINE_LEN"
      by (simp add: BUF_LEN_def QUERY_LINE_LEN_def)
    moreover have "\<forall>j \<in> set [0..<length ?cols - 1]. j < length ?cols"
      by auto
    ultimately have "append_attrs ?cols [0..<length ?cols - 1] ?h =
      (if (\<forall>a \<in> set ?as. length a < BUF_LEN) \<and> length (?h @ concat ?as) \<le> QUERY_LINE_LEN
       then Inr (?h @ concat ?as) else Inl BufferOverflow)"
      by (simp only: append_attrs_eq column_attrs_butlast [OF cols(1)])
    then show ?thesis
      using True cols(1) by (simp add: sprintf_def sprintf_fits_def append_attr_eq last_conv_nth)
  qed (simp add: sprintf_def sprintf_fits_def)
  finally show "table_fits m tab \<Longrightarrow> create_text m tab = Inr (create_table_sql m tab)"
    "\<not> table_fits m tab \<Longrightarrow> create_text m tab = Inl BufferOverflow \<or> create_text m tab = Inl BadAccess"
    by (auto simp: table_fits_def create_table_sql_def)
qed

section \<open>One statement, then free\<close>

text \<open>Creating a table or the schema: the database accepted the statement, or the code is -1.\<close>

lemma run_and_free:
  assumes "port_ok s"
  shows "\<exists>r t. andThen (BindSql2Exe A h sql) (\<lambda>(iRet, hdl). if iRet \<noteq> 0 then ret (-1)
      else andThen (dm_free_call A hdl) (\<lambda>(r, _). ret (if r \<noteq> 0 then -1 else 0))) s = (Inr r, t)
    \<and> same_config s t \<and> r \<in> {0, - 1 :: int} \<and> (\<exists>es. events t = events s @ es
       \<and> (executed es = [sql] \<and> open_handles es = 0 \<or> executed es = [] \<and> r = - 1))"
proof -
  obtain r h' t where t: "BindSql2Exe A h sql s = (Inr (r, h'), t)" "exec_run True sql s r t"
    using BindSql2Exe_run [OF assms, of A h sql] by blast
  obtain es where es: "events t = events s @ es" "executed es = (if r = 0 then [sql] else [])"
    "r = 0 \<longrightarrow> open_handles es = 1"
    using exec_run_events [OF t(2)] by blast
  obtain f h2 w where f: "dm_free_stmt A h' (world t) = (f, h2, w)"
    by (metis prod_cases3)
  have "same_config s t"
    using t(2) by (rule exec_run_config)
  then show ?thesis
    using t(1) es f by (auto simp: andThen_def ret_def dm_free_call_def same_config_def)
qed

lemma CreateTable_eq:
  assumes "m_pstTableMap s = Object m" "i < length (pstTable m)"
  shows "CreateTable A i s = (case create_text m (pstTable m ! i) of Inl e \<Rightarrow> (Inl e, s)
    | Inr sql \<Rightarrow> andThen (BindSql2Exe A (zero_stmt A) sql) (\<lambda>(iRet, hdl). if iRet \<noteq> 0 then ret (-1)
      else andThen (dm_free_call A hdl) (\<lambda>(r, _). ret (if r \<noteq> 0 then -1 else 0))) s)"
  using assms by (simp add: CreateTable_def andThen_def lift_result_def elem_at_def split: sum.split)

section \<open>On a database that answers\<close>

text \<open>The configuration is consistent and every text fits.\<close>

definition schema_fits :: "TableMap \<Rightarrow> bool" where
  "schema_fits m \<longleftrightarrow> unat (usTables m) = length (pstTable m) \<and> length (aucSchema m) < BUF_LEN
    \<and> length (create_schema_sql m) < QUERY_LINE_LEN \<and> length (check_schema_sql m) < QUERY_LINE_LEN
    \<and> (\<forall>tab \<in> set (pstTable m). table_wf tab \<and> table_fits m tab \<and> length (check_table_sql m tab) < QUERY_LINE_LEN
        \<and> (\<forall>c \<in> set (astMap tab). length (check_column_sql tab c) < QUERY_LINE_LEN))"

text \<open>What the queries need of it: the counts are right, and the queries fit.\<close>

definition queries_fit :: "TableMap \<Rightarrow> bool" where
  "queries_fit m \<longleftrightarrow> unat (usTables m) = length (pstTable m) \<and> length (check_schema_sql m) < QUERY_LINE_LEN
    \<and> (\<forall>tab \<in> set (pstTable m). unat (usColumns tab) = length (astMap tab) \<and> length (check_table_sql m tab) < QUERY_LINE_LEN
        \<and> (\<forall>c \<in> set (astMap tab). length (check_column_sql tab c) < QUERY_LINE_LEN))"

lemma name_exists_answers:
  assumes A: "dm_answers A f row" and con: "conFlag s = 1"
    and name: "f \<noteq> 100 \<Longrightarrow> store_name BUF_LEN (BUF_LEN + 1) (row 1) = Inr ()"
  shows "\<exists>t. name_exists A sql s = (Inr (Some (f \<noteq> 100)), t) \<and> db_ran s [sql] 0 t"
proof -
  obtain h1 t1 where 1: "BindSql2Exe A (zero_stmt A) sql s = (Inr (0, h1), t1)" "db_ran s [sql] 1 t1"
    using BindSql2Exe_ran [OF A con] by blast
  obtain t2 where 2: "bind_call A h1 1 (BUF_LEN + 1) t1 = (Inr 0, t2)" "db_ran t1 [] 0 t2"
    using bind_ran [OF A] by blast
  obtain t3 where 3: "dpi_fetch_call A h1 t2 = (Inr (f, row), t3)" "db_ran t2 [] 0 t3"
    using dpi_fetch_ran [OF A] by blast
  obtain h2 t4 where 4: "dm_free_call A h1 t3 = (Inr (0, h2), t4)" "db_ran t3 [] (- 1) t4"
    using free_ran [OF A] by blast
  have "db_ran s [sql] 0 t4"
    using db_ran_trans [OF db_ran_trans [OF db_ran_trans [OF 1(2) 2(2)] 3(2)] 4(2)] by simp
  then show ?thesis
    using name by (auto simp: name_exists_def andThen_def ret_def lift_result_def DSQL_NO_DATA_def
        1(1) 2(1) [unfolded One_nat_def] 3(1) 4(1) simp del: add_Suc_right)
qed

lemma run_and_free_answers:
  assumes A: "dm_answers A f row" and con: "conFlag s = 1"
  shows "\<exists>t. andThen (BindSql2Exe A h sql) (\<lambda>(iRet, hdl). if iRet \<noteq> 0 then ret (-1)
      else andThen (dm_free_call A hdl) (\<lambda>(r, _). ret (if r \<noteq> 0 then -1 else 0))) s = (Inr (0 :: int), t)
    \<and> db_ran s [sql] 0 t"
proof -
  obtain h1 t1 where 1: "BindSql2Exe A h sql s = (Inr (0, h1), t1)" "db_ran s [sql] 1 t1"
    using BindSql2Exe_ran [OF A con] by blast
  obtain h2 t2 where 2: "dm_free_call A h1 t1 = (Inr (0, h2), t2)" "db_ran t1 [] (- 1) t2"
    using free_ran [OF A] by blast
  show ?thesis
    using 1(1) 2(1) db_ran_trans [OF 1(2) 2(2)] by (simp add: andThen_def ret_def)
qed

lemma db_ran_same: "db_ran s q n t \<Longrightarrow> conFlag t = conFlag s \<and> m_pstTableMap t = m_pstTableMap s"
  by (simp add: db_ran_def same_config_def)

lemma create_tables_answers:
  assumes A: "dm_answers A f row" and fits: "schema_fits m"
    and "conFlag s = 1" "m_pstTableMap s = Object m" "\<forall>i \<in> set is. i < length (pstTable m)"
  shows "\<exists>t. create_tables A is s = (Inr 0, t) \<and> db_ran s (map (\<lambda>i. create_table_sql m (pstTable m ! i)) is) 0 t"
  using assms(3-5)
proof (induction "is" arbitrary: s)
  case (Cons i "is")
  have "pstTable m ! i \<in> set (pstTable m)"
    using Cons.prems by simp
  then have ct: "create_text m (pstTable m ! i) = Inr (create_table_sql m (pstTable m ! i))"
    using fits by (intro create_text_eq(1)) (auto simp: schema_fits_def)
  obtain u where u: "CreateTable A i s = (Inr 0, u)" "db_ran s [create_table_sql m (pstTable m ! i)] 0 u"
    using run_and_free_answers [OF A Cons.prems(1), of "zero_stmt A" "create_table_sql m (pstTable m ! i)"] Cons.prems
    by (auto simp: CreateTable_eq [OF Cons.prems(2)] ct)
  then obtain t where t: "create_tables A is u = (Inr 0, t)"
    "db_ran u (map (\<lambda>i. create_table_sql m (pstTable m ! i)) is) 0 t"
    using Cons.IH [of u] Cons.prems db_ran_same [OF u(2)] by auto
  show ?case
    using u(1) t(1) db_ran_trans [OF u(2) t(2)] by (simp add: andThen_def)
qed (simp add: ret_def)

lemma check_columns_answers:
  assumes A: "dm_answers A 0 row" and name: "store_name BUF_LEN (BUF_LEN + 1) (row 1) = Inr ()"
    and fits: "\<forall>c \<in> set (astMap tab). length (check_column_sql tab c) < QUERY_LINE_LEN"
    and "conFlag s = 1" "\<forall>j \<in> set js. j < length (astMap tab)"
  shows "\<exists>t. check_columns A m tab js s = (Inr 0, t)
    \<and> db_ran s (map (\<lambda>j. check_column_sql tab (astMap tab ! j)) js) 0 t"
  using assms(4-5)
proof (induction js arbitrary: s)
  case (Cons j js)
  let ?q = "check_column_sql tab (astMap tab ! j)"
  have q: "sprintf QUERY_LINE_LEN ?q = Inr ?q"
    using fits Cons.prems by (simp add: sprintf_def sprintf_fits_def)
  obtain u where u: "name_exists A ?q s = (Inr (Some True), u)" "db_ran s [?q] 0 u"
    using name_exists_answers [OF A Cons.prems(1) name, of ?q] by auto
  obtain t where t: "check_columns A m tab js u = (Inr 0, t)"
    "db_ran u (map (\<lambda>j. check_column_sql tab (astMap tab ! j)) js) 0 t"
    using Cons.IH [of u] Cons.prems db_ran_same [OF u(2)] by auto
  show ?case
    using u(1) t(1) q Cons.prems db_ran_trans [OF u(2) t(2)]
    by (simp add: andThen_def lift_result_def elem_at_def)
qed (simp add: ret_def)

text \<open>The queries on one table that is there.\<close>

definition check_queries :: "TableMap \<Rightarrow> DataTable \<Rightarrow> string list" where
  "check_queries m tab = check_table_sql m tab # map (check_column_sql tab) (astMap tab)"

lemma check_tables_answers:
  assumes A: "dm_answers A 0 row" and name: "store_name BUF_LEN (BUF_LEN + 1) (row 1) = Inr ()"
    and fits: "queries_fit m" and "conFlag s = 1" "\<forall>i \<in> set is. i < length (pstTable m)"
  shows "\<exists>t. check_tables A m is s = (Inr 0, t)
    \<and> db_ran s (concat (map (\<lambda>i. check_queries m (pstTable m ! i)) is)) 0 t"
  using assms(4-5)
proof (induction "is" arbitrary: s)
  case (Cons i "is")
  let ?tab = "pstTable m ! i"
  let ?q = "check_table_sql m ?tab"
  have tab: "?tab \<in> set (pstTable m)"
    using Cons.prems by simp
  then have q: "sprintf QUERY_LINE_LEN ?q = Inr ?q" and wf: "unat (usColumns ?tab) = length (astMap ?tab)"
    and cols: "\<forall>c \<in> set (astMap ?tab). length (check_column_sql ?tab c) < QUERY_LINE_LEN"
    using fits by (auto simp: queries_fit_def sprintf_def sprintf_fits_def)
  obtain u where u: "name_exists A ?q s = (Inr (Some True), u)" "db_ran s [?q] 0 u"
    using name_exists_answers [OF A Cons.prems(1) name, of ?q] by auto
  have all: "map (\<lambda>j. check_column_sql ?tab (astMap ?tab ! j)) [0..<length (astMap ?tab)]
      = map (check_column_sql ?tab) (astMap ?tab)"
    by (rule nth_equalityI) auto
  obtain v where v: "check_columns A m ?tab [0..<length (astMap ?tab)] u = (Inr 0, v)"
    "db_ran u (map (check_column_sql ?tab) (astMap ?tab)) 0 v"
    using check_columns_answers [OF A name cols, of u "[0..<length (astMap ?tab)]" m] Cons.prems
      db_ran_same [OF u(2)] unfolding all by auto
  obtain t where t: "check_tables A m is v = (Inr 0, t)"
    "db_ran v (concat (map (\<lambda>i. check_queries m (pstTable m ! i)) is)) 0 t"
    using Cons.IH [of v] Cons.prems db_ran_same [OF u(2)] db_ran_same [OF v(2)] by auto
  show ?case
    using u(1) v(1) t(1) q wf Cons.prems db_ran_trans [OF db_ran_trans [OF u(2) v(2)] t(2)]
    by (simp add: andThen_def lift_result_def elem_at_def check_queries_def)
qed (simp add: ret_def)

section \<open>Samples\<close>

definition sample_info :: "TableMap \<Rightarrow> dm_table_info" where
  "sample_info m = \<lparr>IniDmInfo = 0, GetModelStruct = Object (), GetTableMap_info = Object m\<rparr>"

text \<open>Two entries of the shipped configuration file, config/db_config.ini.\<close>

definition shipped_table_map :: TableMap where
  "shipped_table_map = sample_table_map\<lparr>usTables := 1, pstTable :=
     [\<lparr>aucTableName = ''delete_AlgStandardIrrecoverableDiff'', usColumns = 2,
       astMap = [\<lparr>usType = 2, usTag = 0, aucColumnName = ''systemID'', aucType = ''INT''\<rparr>,
                 \<lparr>usType = 4, usTag = 0, aucColumnName = ''systemIP'', aucType = ''VARCHAR(64)''\<rparr>]\<rparr>]\<rparr>"

definition dm_connects :: "('h, 'w) dm_api \<Rightarrow> bool" where
  "dm_connects A \<longleftrightarrow> (\<forall>host user pw port w. \<exists>w'. dm_connect A host user pw port w = (0, 1, w'))"

lemma answering_connects: "dm_connects (answering f row)"
  by (simp add: dm_connects_def answering_def)

lemma sample_fits: "schema_fits sample_table_map"
  by (simp add: schema_fits_def sample_table_map_def table_wf_def table_fits_def table_header_def
      create_table_sql_def create_schema_sql_def column_attr_def check_schema_sql_def check_table_sql_def
      check_column_sql_def BUF_LEN_def QUERY_LINE_LEN_def)

text \<open>Everything up to \<open>IniDM8SchemaTable\<close>.\<close>

lemma Init_connects:
  assumes "dm_connects A" "port_ok s"
  shows "\<exists>u. InitDMShemaAndTable A (sample_info m) s
      = andThen (IniDM8SchemaTable A) (\<lambda>r. if r < 0 then ret (-5) else ret r) u
    \<and> conFlag u = 1 \<and> m_pstTableMap u = Object m \<and> executed (events u) = executed (events s)
    \<and> open_handles (events u) = open_handles (events s)"
proof -
  obtain p where p: "stoi (m_simpleIni s ''dbInfo'' ''PORT'' ''5236'') = Inr p"
    using assms(2) by (auto simp: port_ok_def)
  obtain w where w: "dm_connect A (m_simpleIni s ''dbInfo'' ''IP'' ''127.0.0.1'')
      (m_simpleIni s ''dbInfo'' ''LOGIN_NAME'' ''SYSDBA'')
      (m_simpleIni s ''dbInfo'' ''LOGIN_PASSWORD'' ''SYSDBA'') p (world s) = (0, 1, w)"
    using assms(1) by (metis dm_connects_def)
  show ?thesis
    using p w by (auto simp: InitDMShemaAndTable_def sample_info_def ConnectToDM_def Let_def
        dm_connect_call_def lift_result_def andThen_def)
qed

lemma IniDM8SchemaTable_empty:
  assumes A: "dm_answers A 100 row" and fits: "schema_fits m" and s: "conFlag s = 1" "m_pstTableMap s = Object m"
  shows "\<exists>t. IniDM8SchemaTable A s = (Inr 0, t)
    \<and> db_ran s (check_schema_sql m # create_schema_sql m # map (create_table_sql m) (pstTable m)) 0 t"
proof -
  have texts: "sprintf QUERY_LINE_LEN (check_schema_sql m) = Inr (check_schema_sql m)"
    "sprintf QUERY_LINE_LEN (create_schema_sql m) = Inr (create_schema_sql m)"
    "sprintf BUF_LEN (aucSchema m) = Inr (aucSchema m)" and n: "unat (usTables m) = length (pstTable m)"
    using fits by (simp_all add: schema_fits_def sprintf_def sprintf_fits_def)
  obtain u where u: "name_exists A (check_schema_sql m) s = (Inr (Some False), u)" "db_ran s [check_schema_sql m] 0 u"
    using name_exists_answers [OF A s(1), of "check_schema_sql m"] by auto
  have us: "conFlag u = 1" "m_pstTableMap u = Object m"
    using db_ran_same [OF u(2)] s by auto
  obtain v where v: "CreateSchema A u = (Inr 0, v)" "db_ran u [create_schema_sql m] 0 v"
    using run_and_free_answers [OF A us(1), of "zero_stmt A" "create_schema_sql m"] us(2) texts
    by (auto simp: CreateSchema_def andThen_def lift_result_def create_schema_sql_def)
  have all: "map (\<lambda>i. create_table_sql m (pstTable m ! i)) [0..<length (pstTable m)]
      = map (create_table_sql m) (pstTable m)"
    by (rule nth_equalityI) auto
  obtain t where t: "create_tables A [0..<length (pstTable m)] v = (Inr 0, t)"
    "db_ran v (map (create_table_sql m) (pstTable m)) 0 t"
    using create_tables_answers [OF A fits, of v "[0..<length (pstTable m)]"] db_ran_same [OF v(2)] us
    unfolding all by auto
  show ?thesis
    using u(1) v(1) t(1) texts(1) s(2) n db_ran_trans [OF db_ran_trans [OF u(2) v(2)] t(2)]
    by (simp add: IniDM8SchemaTable_def andThen_def lift_result_def)
qed

lemma IniDM8SchemaTable_present:
  assumes A: "dm_answers A 0 row" and name: "store_name BUF_LEN (BUF_LEN + 1) (row 1) = Inr ()"
    and fits: "queries_fit m" and s: "conFlag s = 1" "m_pstTableMap s = Object m"
  shows "\<exists>t. IniDM8SchemaTable A s = (Inr 0, t)
    \<and> db_ran s (check_schema_sql m # concat (map (check_queries m) (pstTable m))) 0 t"
proof -
  have q: "sprintf QUERY_LINE_LEN (check_schema_sql m) = Inr (check_schema_sql m)"
    and n: "unat (usTables m) = length (pstTable m)"
    using fits by (simp_all add: queries_fit_def sprintf_def sprintf_fits_def)
  obtain u where u: "name_exists A (check_schema_sql m) s = (Inr (Some True), u)" "db_ran s [check_schema_sql m] 0 u"
    using name_exists_answers [OF A s(1) name, of "check_schema_sql m"] by auto
  have all: "map (\<lambda>i. check_queries m (pstTable m ! i)) [0..<length (pstTable m)]
      = map (check_queries m) (pstTable m)"
    by (rule nth_equalityI) auto
  obtain t where t: "check_tables A m [0..<length (pstTable m)] u = (Inr 0, t)"
    "db_ran u (concat (map (check_queries m) (pstTable m))) 0 t"
    using check_tables_answers [OF A name fits, of u "[0..<length (pstTable m)]"] db_ran_same [OF u(2)] s(1)
    unfolding all by auto
  show ?thesis
    using u(1) t(1) q s(2) n db_ran_trans [OF u(2) t(2)]
    by (simp add: IniDM8SchemaTable_def andThen_def lift_result_def)
qed

section \<open>Properties\<close>

text \<open>
  C35: creating a table. When each part of the text fits its array, the call returns 0 or -1, and
  the database has accepted exactly the CREATE TABLE text with all columns in order, or nothing
  (then -1). When a part does not fit, or the text fills its 2048 bytes, an array is overrun
  before the database is called.
\<close>

theorem CreateTable_text:
  assumes "port_ok s" "m_pstTableMap s = Object m" "i < length (pstTable m)" "table_wf (pstTable m ! i)"
  shows "if table_fits m (pstTable m ! i)
    then \<exists>r t. CreateTable A i s = (Inr r, t) \<and> r \<in> {0, - 1}
      \<and> (executed (events t) = executed (events s) @ [create_table_sql m (pstTable m ! i)]
         \<or> executed (events t) = executed (events s) \<and> r = - 1)
    else CreateTable A i s \<in> {(Inl BufferOverflow, s), (Inl BadAccess, s)}"
  using run_and_free [OF assms(1), of A "zero_stmt A" "create_table_sql m (pstTable m ! i)"]
    create_text_eq [OF assms(4), of m]
  by (auto simp: CreateTable_eq [OF assms(2,3)])

lemma CreateTable_text_witness:
  "\<exists>r t. CreateTable (answering 0 Map.empty) 0 sample_unit_sqlop = (Inr r, t) \<and> r \<in> {0, - 1}"
proof -
  have tab: "m_pstTableMap sample_unit_sqlop = Object sample_table_map"
    "table_wf (pstTable sample_table_map ! 0)" "table_fits sample_table_map (pstTable sample_table_map ! 0)"
    "0 < length (pstTable sample_table_map)"
    using sample_fits
    by (simp_all add: sample_unit_sqlop_def sample_table_map_def schema_fits_def)
  show ?thesis
    using CreateTable_text [OF sample_unit_port_ok tab(1,4,2), of "answering 0 Map.empty"] tab(3) by auto
qed

text \<open>
  C36: the array for \<open>CREATE TABLE "schema"."table" (\<close> has 64 chars: when the names have more than 43
  together it is overrun, and the program never gets to create the table. The shipped
  configuration has such names: schema TEST_EXCEPTION with table
  delete_AlgStandardIrrecoverableDiff.
\<close>

theorem CreateTable_overflow:
  assumes "m_pstTableMap s = Object m" "i < length (pstTable m)"
    "43 < length (aucSchema m) + length (aucTableName (pstTable m ! i))"
  shows "CreateTable A i s = (Inl BufferOverflow, s)"
proof -
  have "\<not> length (table_header m (pstTable m ! i)) < BUF_LEN"
    using assms(3) by (simp add: length_table_header BUF_LEN_def)
  then have "create_text m (pstTable m ! i) = Inl BufferOverflow"
    by (simp add: create_text_def sprintf_def sprintf_fits_def table_header_def)
  then show ?thesis
    using assms(1,2) by (simp add: CreateTable_eq)
qed

lemma CreateTable_overflow_witness:
  "CreateTable (answering 0 Map.empty) 0 (sample_unit_sqlop\<lparr>m_pstTableMap := Object shipped_table_map\<rparr>)
   = (Inl BufferOverflow, sample_unit_sqlop\<lparr>m_pstTableMap := Object shipped_table_map\<rparr>)"
  by (rule CreateTable_overflow [of _ shipped_table_map]) (simp_all add: shipped_table_map_def sample_table_map_def)

text \<open>
  C17: initialising an empty database, when every call succeeds and every query finds nothing, for a
  configuration whose counts are right and whose texts fit the arrays they are formatted in
  (\<open>schema_fits\<close>; the shipped one has a table whose names do not fit, see \<open>CreateTable_overflow\<close>):
  the result is 0, and after the query for the schema the database has accepted CREATE SCHEMA and
  one CREATE TABLE for each configured table, in order. No handle stays open.
\<close>

theorem Init_creates_all:
  assumes "dm_answers A 100 row" "dm_connects A" "port_ok s" "schema_fits m"
  shows "\<exists>t. InitDMShemaAndTable A (sample_info m) s = (Inr 0, t)
    \<and> executed (events t) = executed (events s)
        @ check_schema_sql m # create_schema_sql m # map (create_table_sql m) (pstTable m)
    \<and> open_handles (events t) = open_handles (events s)"
proof -
  obtain u where u: "InitDMShemaAndTable A (sample_info m) s
      = andThen (IniDM8SchemaTable A) (\<lambda>r. if r < 0 then ret (-5) else ret r) u"
    "conFlag u = 1" "m_pstTableMap u = Object m" "executed (events u) = executed (events s)"
    "open_handles (events u) = open_handles (events s)"
    using Init_connects [OF assms(2,3)] by blast
  obtain t where "IniDM8SchemaTable A u = (Inr 0, t)"
    "db_ran u (check_schema_sql m # create_schema_sql m # map (create_table_sql m) (pstTable m)) 0 t"
    using IniDM8SchemaTable_empty [OF assms(1,4) u(2,3)] by blast
  then show ?thesis
    using u by (auto simp: andThen_def ret_def db_ran_def)
qed

lemma Init_creates_all_witness:
  "\<exists>t. InitDMShemaAndTable (answering 100 Map.empty) (sample_info sample_table_map) sample_unit_sqlop = (Inr 0, t)
     \<and> length (executed (events t)) = 3"
  using Init_creates_all [OF answering_answers answering_connects sample_unit_port_ok sample_fits]
  by (fastforce simp: sample_unit_sqlop_def CSqlGradOperate_ctor_def sample_table_map_def)

text \<open>
  C18: initialising a database in which everything is found, with a name that fits its array in every
  answer, for a configuration whose counts are right and whose queries fit their 2048 bytes (the names of
  the shipped configuration do): only the queries are executed (the schema, then each table followed by
  its columns), nothing is created or altered, the result is 0 and no handle stays open. So a second
  start changes nothing.
\<close>

theorem Init_changes_nothing:
  assumes "dm_answers A 0 row" "store_name BUF_LEN (BUF_LEN + 1) (row 1) = Inr ()" "dm_connects A"
    "port_ok s" "queries_fit m"
  shows "\<exists>t. InitDMShemaAndTable A (sample_info m) s = (Inr 0, t)
    \<and> executed (events t) = executed (events s)
        @ check_schema_sql m # concat (map (\<lambda>tab. check_table_sql m tab # map (check_column_sql tab) (astMap tab)) (pstTable m))
    \<and> open_handles (events t) = open_handles (events s)"
proof -
  obtain u where u: "InitDMShemaAndTable A (sample_info m) s
      = andThen (IniDM8SchemaTable A) (\<lambda>r. if r < 0 then ret (-5) else ret r) u"
    "conFlag u = 1" "m_pstTableMap u = Object m" "executed (events u) = executed (events s)"
    "open_handles (events u) = open_handles (events s)"
    using Init_connects [OF assms(3,4)] by blast
  obtain t where "IniDM8SchemaTable A u = (Inr 0, t)"
    "db_ran u (check_schema_sql m # concat (map (check_queries m) (pstTable m))) 0 t"
    using IniDM8SchemaTable_present [OF assms(1,2,5) u(2,3)] by blast
  then show ?thesis
    using u by (auto simp: andThen_def ret_def db_ran_def check_queries_def [abs_def])
qed

lemma shipped_queries_fit: "queries_fit shipped_table_map"
  by (simp add: queries_fit_def shipped_table_map_def sample_table_map_def check_schema_sql_def check_table_sql_def
      check_column_sql_def QUERY_LINE_LEN_def)

lemma Init_changes_nothing_witness:
  "\<exists>t. InitDMShemaAndTable (answering 0 [1 \<mapsto> CText ''delete_UnOrder'']) (sample_info shipped_table_map) sample_unit_sqlop = (Inr 0, t)
     \<and> length (executed (events t)) = 4"
proof -
  have "store_name BUF_LEN (BUF_LEN + 1) ([1 \<mapsto> CText ''delete_UnOrder''] 1) = Inr ()"
    by (simp add: store_name_def BUF_LEN_def)
  then show ?thesis
    using Init_changes_nothing [OF answering_answers _ answering_connects sample_unit_port_ok shipped_queries_fit,
        of "[1 \<mapsto> CText ''delete_UnOrder'']"]
    by (fastforce simp: sample_unit_sqlop_def CSqlGradOperate_ctor_def shipped_table_map_def)
qed

text \<open>
  A query for a name that the database refuses counts as "not found" (or as a failed free):
  nothing was accepted, and one handle more was freed than was allocated, since the failing
  execution has already freed it.
\<close>

theorem name_exists_refused:
  assumes "port_ok s" "BindSql2Exe A (zero_stmt A) sql s = (Inr (r, h), u)" "r \<noteq> 0" "r \<noteq> 1"
  shows "\<exists>x t. name_exists A sql s = (Inr x, t) \<and> x \<in> {None, Some False}
    \<and> executed (events t) = executed (events s)
    \<and> open_handles (events t) = open_handles (events s) - 1"
proof -
  have run: "exec_run True sql s r u"
    using BindSql2Exe_run [OF assms(1), of A "zero_stmt A" sql] assms(2) by auto
  then have "open_handles (events u) = open_handles (events s)"
    using assms(3,4) by (auto simp: exec_run_def exec_events_open)
  moreover obtain f h2 w where "dm_free_stmt A h (world u) = (f, h2, w)"
    by (metis prod_cases3)
  ultimately show ?thesis
    using assms(2,3) exec_run_executed [OF run]
    by (auto simp: name_exists_def andThen_def ret_def dm_free_call_def)
qed

lemma name_exists_refused_witness:
  "\<exists>x t. name_exists (scripted Map.empty) ''q'' (sample_sqlop [0, 0, - 2]) = (Inr x, t)
    \<and> open_handles (events t) = - 1"
proof -
  have "BindSql2Exe (scripted Map.empty) (zero_stmt (scripted Map.empty)) ''q'' (sample_sqlop [0, 0, - 2])
      = (Inr (- 2, 0), (sample_sqlop [])\<lparr>events := [EvAlloc 0, EvPrepare ''q'' 0, EvExec ''q'' (- 2), EvFree 0]\<rparr>)"
    by (simp add: BindSql2Exe_def ensure_connected_def andThen_def ret_def library_calls scripted_def
        sample_sqlop_def CSqlGradOperate_ctor_def)
  then show ?thesis
    using name_exists_refused [OF sample_port_ok [of "[0, 0, - 2]"]]
    by (fastforce simp: sample_sqlop_def CSqlGradOperate_ctor_def)
qed

end
