(* ===== verification/Sql_Backup.thy ===== *)
theory Sql_Backup
  imports Sql_Operate
begin

text \<open>
  Backups of the database, src/src/dm/sqlgradoperate.cpp: archiving is switched on, and a weekly
  full backup and an incremental backup are registered as jobs. Three of the functions have an
  \<open>int\<close> result and end without a return statement, which is the fault \<open>MissingReturn\<close>.
  \<open>mkdir\<close> stands for \<open>utils::checkOrCreateDirectory\<close>, which is not in the repository.
\<close>

section \<open>Archiving\<close>

definition archivelog_sql :: "string \<Rightarrow> string" where
  "archivelog_sql strPath = ''alter database add archivelog '' @ [CHR 0x27] @ ''type=local,dest='' @ strPath
     @ '',file_size=1024,space_limit=4096'' @ [CHR 0x27] @ '';''"

definition SetBackUpDB :: "('h, 'w) dm_api \<Rightarrow> (string \<Rightarrow> ('w, unit) db) \<Rightarrow> 'h \<Rightarrow> ('w, int \<times> 'h) db" where
  "SetBackUpDB A mkdir stDmStmt = (\<lambda>s.
    andThen (BindSql2ExeEx A stDmStmt ''alter database mount;'') (\<lambda>(r, stDmStmt).
    if r < 0 \<and> r \<noteq> -510 then ret (r, stDmStmt)
    else andThen (BindSql2ExeEx A stDmStmt ''alter database archivelog;'') (\<lambda>(r, stDmStmt).
    if r < 0 then ret (r, stDmStmt)
    else let strPath = m_simpleIni s ''dbInfo'' ''BackUpLogDir'' ''/dm8/backupUnExcept'' in
    andThen (mkdir strPath) (\<lambda>_.
    andThen (BindSql2ExeEx A stDmStmt (archivelog_sql strPath)) (\<lambda>(r, stDmStmt).
    if r < 0 \<and> r \<noteq> -806 then ret (r, stDmStmt)
    else andThen (BindSql2ExeEx A stDmStmt ''alter database open;'') (\<lambda>(r, stDmStmt).
    if r < 0 \<and> r \<noteq> -514 then ret (r, stDmStmt)
    else raise MissingReturn))))) s)"

section \<open>The jobs\<close>

abbreviation str_lit :: "string \<Rightarrow> string" where
  "str_lit x \<equiv> CHR 0x27 # x @ [CHR 0x27]"

abbreviation job_tail :: string where
  "job_tail \<equiv> '', 0, 0, 0, 0, NULL, 0);''"

text \<open>The statements that follow a successful \<open>SP_CREATE_JOB\<close>, and those that alter a job.\<close>

definition create_job_sql :: "string \<Rightarrow> string" where
  "create_job_sql job = ''call SP_CREATE_JOB('' @ str_lit job @ '',1,0,'' @ str_lit '''' @ '',0,0,''
     @ str_lit '''' @ '',0,'' @ str_lit '''' @ '');''"

definition config_start_sql :: "string \<Rightarrow> string" where
  "config_start_sql job = ''call SP_JOB_CONFIG_START('' @ str_lit job @ '');''"

definition config_commit_sql :: "string \<Rightarrow> string" where
  "config_commit_sql job = ''call SP_JOB_CONFIG_COMMIT('' @ str_lit job @ '');''"

definition job_step_sql :: "string \<Rightarrow> string \<Rightarrow> string \<Rightarrow> string \<Rightarrow> string" where
  "job_step_sql proc job step command =
     ''call '' @ proc @ ''('' @ str_lit job @ '', '' @ str_lit step @ '', 6, '' @ str_lit command @ job_tail"

definition job_schedule_sql :: "string \<Rightarrow> string \<Rightarrow> string \<Rightarrow> string \<Rightarrow> string \<Rightarrow> string \<Rightarrow> string" where
  "job_schedule_sql proc job name freq at_time from_date =
     ''call '' @ proc @ ''('' @ str_lit job @ '', '' @ str_lit name @ '', 1, 2, 1, '' @ freq @ '', 0, ''
     @ str_lit at_time @ '', NULL, '' @ str_lit from_date @ '', NULL, '' @ str_lit '''' @ '');''"

definition complete_statements :: "string \<Rightarrow> string list" where
  "complete_statements strPath =
    [config_start_sql ''BackUp_center'',
     job_step_sql ''SP_ADD_JOB_STEP'' ''BackUp_center'' ''BackUp_dm'' (''00000000'' @ strPath),
     job_schedule_sql ''SP_ADD_JOB_SCHEDULE'' ''BackUp_center'' ''test1'' ''64'' ''00:00:00'' ''2024-01-02 23:48:24'',
     config_commit_sql ''BackUp_center'']"

definition complete_alterations :: "string \<Rightarrow> string list" where
  "complete_alterations strPath =
    [job_step_sql ''SP_ALTER_JOB_STEP'' ''BackUp_center'' ''BackUp_dm'' (''00000000/'' @ strPath),
     job_schedule_sql ''SP_ALTER_JOB_SCHEDULE'' ''BackUp_center'' ''test1'' ''64'' ''00:00:00'' ''2024-01-02 23:48:24'',
     config_commit_sql ''BackUp_center'']"

definition increment_statements :: "string \<Rightarrow> string \<Rightarrow> string list" where
  "increment_statements strPath strPathAdd =
    [config_start_sql ''BackUp_Add'',
     job_step_sql ''SP_ADD_JOB_STEP'' ''BackUp_Add'' ''addbackup'' (''10000000'' @ strPath @ ''|'' @ strPathAdd),
     job_schedule_sql ''SP_ADD_JOB_SCHEDULE'' ''BackUp_Add'' ''BackUp_Add'' ''64'' ''00:00:00'' ''2024-01-02 23:48:24'',
     config_commit_sql ''BackUp_Add'']"

definition increment_alterations :: "string \<Rightarrow> string \<Rightarrow> string list" where
  "increment_alterations strPath strPathAdd =
    [config_start_sql ''BackUp_Add'',
     job_step_sql ''SP_ALTER_JOB_STEP'' ''BackUp_Add'' ''addbackup'' (''10000000'' @ strPath @ ''|'' @ strPathAdd),
     job_schedule_sql ''SP_ALTER_JOB_SCHEDULE'' ''BackUp_Add'' ''BackUp_Add'' ''1'' ''21:39:38'' ''2024-03-06 21:39:38'',
     config_commit_sql ''BackUp_Add'']"

text \<open>The first statement is prepared, the others are not; each failure ends the function.\<close>

definition AlterCompliBackUp :: "('h, 'w) dm_api \<Rightarrow> 'h \<Rightarrow> ('w, int \<times> 'h) db" where
  "AlterCompliBackUp A stDmStmt = (\<lambda>s.
    let strPath = m_simpleIni s ''dbInfo'' ''BackUpDir'' ''/dm8/backup'' in
    andThen (BindSql2Exe A stDmStmt (config_start_sql ''BackUp_center'')) (\<lambda>(r, stDmStmt).
    if r < 0 then ret (r, stDmStmt)
    else run_script (BindSql2ExeEx A) stDmStmt (complete_alterations strPath)) s)"

definition SetCompliBackUp :: "('h, 'w) dm_api \<Rightarrow> 'h \<Rightarrow> ('w, int \<times> 'h) db" where
  "SetCompliBackUp A stDmStmt = (\<lambda>s.
    let strPath = m_simpleIni s ''dbInfo'' ''BackUpDir'' ''/dm8/backup'' in
    andThen (BindSql2ExeEx A stDmStmt (create_job_sql ''BackUp_center'')) (\<lambda>(r, stDmStmt).
    if r < 0 then (if r = -8413 then AlterCompliBackUp A stDmStmt else ret (r, stDmStmt))
    else run_script (BindSql2ExeEx A) stDmStmt (complete_statements strPath)) s)"

text \<open>The incremental functions return a negative code, or fall off their end.\<close>

definition run_to_end :: "('w, int \<times> 'h) db \<Rightarrow> ('w, int \<times> 'h) db" where
  "run_to_end m = andThen m (\<lambda>(r, h). if r < 0 then ret (r, h) else raise MissingReturn)"

definition AlterAddBackUp :: "('h, 'w) dm_api \<Rightarrow> 'h \<Rightarrow> ('w, int \<times> 'h) db" where
  "AlterAddBackUp A stDmStmt = (\<lambda>s.
    let strPathAdd = m_simpleIni s ''dbInfo'' ''BackAddDir'' ''/dm8/backup'';
        strPath = m_simpleIni s ''dbInfo'' ''BackUpDir'' ''/dm8/backup''
    in run_to_end (run_script (BindSql2ExeEx A) stDmStmt (increment_alterations strPath strPathAdd)) s)"

definition SetAddBackUp :: "('h, 'w) dm_api \<Rightarrow> 'h \<Rightarrow> ('w, int \<times> 'h) db" where
  "SetAddBackUp A stDmStmt = (\<lambda>s.
    let strPathAdd = m_simpleIni s ''dbInfo'' ''BackAddDir'' ''/dm8/backup'';
        strPath = m_simpleIni s ''dbInfo'' ''BackUpDir'' ''/dm8/backup'' in
    andThen (BindSql2ExeEx A stDmStmt (create_job_sql ''BackUp_Add'')) (\<lambda>(r, stDmStmt).
    if r < 0 then (if r = -8413 then AlterAddBackUp A stDmStmt else ret (r, stDmStmt))
    else run_to_end (run_script (BindSql2ExeEx A) stDmStmt (increment_statements strPath strPathAdd))) s)"

text \<open>\<open>junk\<close> is the indeterminate handle of these functions.\<close>

definition UpdateCompliBackUp :: "('h, 'w) dm_api \<Rightarrow> 'h \<Rightarrow> ('w, int) db" where
  "UpdateCompliBackUp A junk = (\<lambda>s.
    let strPath = m_simpleIni s ''dbInfo'' ''BackUpDir'' ''/dm8/backup'' in
    andThen (BindSql2ExeEx A junk
      (job_step_sql ''SP_ALTER_JOB_STEP'' ''BackUp_center'' ''BackUp_dm'' (''00000000/'' @ strPath)))
      (\<lambda>(r, _). ret (if r < 0 then r else 0)) s)"

text \<open>The function returns before its statements.\<close>

definition UpdateAddBackUp :: "('w, int) db" where
  "UpdateAddBackUp = ret 0"

definition SetDbBackup :: "('h, 'w) dm_api \<Rightarrow> (string \<Rightarrow> ('w, unit) db) \<Rightarrow> 'h \<Rightarrow> ('w, int) db" where
  "SetDbBackup A mkdir junk =
    andThen (SetBackUpDB A mkdir junk) (\<lambda>(r, stDmStmt).
    if r \<noteq> 0 then ret r
    else andThen (SetCompliBackUp A stDmStmt) (\<lambda>(r, stDmStmt).
    if r \<noteq> 0 then ret r
    else andThen (SetAddBackUp A stDmStmt) (\<lambda>(r, _). ret r)))"

section \<open>Lemmas\<close>

text \<open>A job function: the first statement, then one of two scripts.\<close>

lemma direct_step:
  assumes "port_ok s"
  shows "\<exists>r h' t es. BindSql2ExeEx A h sql s = (Inr (r, h'), t) \<and> same_config s t \<and> port_ok t
    \<and> events t = events s @ es \<and> executed es = (if r = 0 then [sql] else [])
    \<and> (r = 0 \<longrightarrow> open_handles es = 1) \<and> (allocs_ok es \<longrightarrow> r \<le> 0)"
proof -
  obtain r h' t where t: "BindSql2ExeEx A h sql s = (Inr (r, h'), t)" "exec_run False sql s r t"
    using direct.exec_runs [OF assms, of A h sql] by blast
  then show ?thesis
    using exec_run_events [OF t(2)] exec_run_config [OF t(2)] port_ok_config assms by blast
qed

lemma allocs_ok_append [simp]: "allocs_ok (es @ fs) \<longleftrightarrow> allocs_ok es \<and> allocs_ok fs"
  by (auto simp: allocs_ok_def)

lemma AlterCompliBackUp_runs:
  assumes "port_ok s"
  shows "\<exists>r h' t es. AlterCompliBackUp A h s = (Inr (r, h'), t) \<and> same_config s t \<and> r \<le> 0
    \<and> events t = events s @ es \<and> (r = 0 \<and> allocs_ok es \<longrightarrow>
        executed es = config_start_sql ''BackUp_center'' # complete_alterations (m_simpleIni s ''dbInfo'' ''BackUpDir'' ''/dm8/backup''))"
proof -
  let ?sqls = "complete_alterations (m_simpleIni s ''dbInfo'' ''BackUpDir'' ''/dm8/backup'')"
  obtain r h1 u where u: "BindSql2Exe A h (config_start_sql ''BackUp_center'') s = (Inr (r, h1), u)"
    "exec_run True (config_start_sql ''BackUp_center'') s r u"
    using prepared.exec_runs [OF assms, of A h "config_start_sql ''BackUp_center''"] by blast
  obtain fs where fs: "events u = events s @ fs" "executed fs = (if r = 0 then [config_start_sql ''BackUp_center''] else [])"
    "allocs_ok fs \<longrightarrow> r \<le> 0"
    using exec_run_events [OF u(2)] by blast
  have cfg: "same_config s u"
    using u(2) by (rule exec_run_config)
  then have "port_ok u"
    using assms port_ok_config by blast
  then obtain r' h' t es where t: "run_script (BindSql2ExeEx A) h1 ?sqls u = (Inr (r', h'), t)" "same_config u t"
    "r' \<le> 0" "events t = events u @ es" "r' = 0 \<and> allocs_ok es \<longrightarrow> executed es = ?sqls"
    using direct.script_runs [of u A h1 ?sqls] by blast
  show ?thesis
  proof (cases "r < 0")
    case True
    then show ?thesis
      using u(1) fs(1) cfg by (simp add: AlterCompliBackUp_def andThen_def ret_def)
  next
    case False
    then have "AlterCompliBackUp A h s = (Inr (r', h'), t)"
      using u(1) t(1) by (simp add: AlterCompliBackUp_def andThen_def)
    moreover have "events t = events s @ fs @ es"
      using t(4) fs(1) by simp
    ultimately show ?thesis
      using t(3,5) fs False same_config_trans [OF cfg t(2)]
      by (intro exI [of _ r'] exI [of _ h'] exI [of _ t] exI [of _ "fs @ es"]) auto
  qed
qed

lemma run_script_nonneg: "run_script exec h sqls s = (Inr (r, h'), t) \<Longrightarrow> r \<le> 0"
proof (induction sqls arbitrary: h s)
  case (Cons q qs)
  then show ?case
    by (auto simp: andThen_eq_Inr ret_def split: if_splits)
qed (simp add: ret_def)

lemma SetBackUpDB_outcome:
  assumes "port_ok s" "\<And>p u. mkdir p u = (Inr (), u)"
  shows "\<exists>t es. events t = events s @ es \<and>
    ((\<exists>r h'. r < 0 \<and> SetBackUpDB A mkdir h s = (Inr (r, h'), t)) \<or>
     SetBackUpDB A mkdir h s = (Inl MissingReturn, t))"
proof -
  let ?p = "m_simpleIni s ''dbInfo'' ''BackUpLogDir'' ''/dm8/backupUnExcept''"
  obtain r1 h1 t1 e1 where 1: "BindSql2ExeEx A h ''alter database mount;'' s = (Inr (r1, h1), t1)"
    "port_ok t1" "events t1 = events s @ e1"
    using direct_step [OF assms(1), of A h] by blast
  obtain r2 h2 t2 e2 where 2: "BindSql2ExeEx A h1 ''alter database archivelog;'' t1 = (Inr (r2, h2), t2)"
    "port_ok t2" "events t2 = events t1 @ e2"
    using direct_step [OF 1(2), of A h1] by blast
  obtain r3 h3 t3 e3 where 3: "BindSql2ExeEx A h2 (archivelog_sql ?p) t2 = (Inr (r3, h3), t3)"
    "port_ok t3" "events t3 = events t2 @ e3"
    using direct_step [OF 2(2), of A h2] by blast
  obtain r4 h4 t4 e4 where 4: "BindSql2ExeEx A h3 ''alter database open;'' t3 = (Inr (r4, h4), t4)"
    "events t4 = events t3 @ e4"
    using direct_step [OF 3(2), of A h3] by blast
  note defs = SetBackUpDB_def andThen_def ret_def raise_def Let_def assms(2) 1(1) 2(1) 3(1) 4(1)
  consider "r1 < 0" "r1 \<noteq> -510" | "\<not> (r1 < 0 \<and> r1 \<noteq> -510)" "r2 < 0"
    | "\<not> (r1 < 0 \<and> r1 \<noteq> -510)" "\<not> r2 < 0" "r3 < 0" "r3 \<noteq> -806"
    | "\<not> (r1 < 0 \<and> r1 \<noteq> -510)" "\<not> r2 < 0" "\<not> (r3 < 0 \<and> r3 \<noteq> -806)" "r4 < 0" "r4 \<noteq> -514"
    | "\<not> (r1 < 0 \<and> r1 \<noteq> -510)" "\<not> r2 < 0" "\<not> (r3 < 0 \<and> r3 \<noteq> -806)" "\<not> (r4 < 0 \<and> r4 \<noteq> -514)"
    by blast
  then show ?thesis
  proof cases
    case 1
    then show ?thesis
      using \<open>events t1 = _\<close> by (intro exI [of _ t1] exI [of _ e1]) (auto simp: defs)
  next
    case c: 2
    then show ?thesis
      using 1(3) 2(3) by (intro exI [of _ t2] exI [of _ "e1 @ e2"]) (auto simp: defs)
  next
    case c: 3
    then show ?thesis
      using 1(3) 2(3) 3(3) by (intro exI [of _ t3] exI [of _ "e1 @ e2 @ e3"]) (auto simp: defs)
  next
    case c: 4
    then show ?thesis
      using 1(3) 2(3) 3(3) 4(2) by (intro exI [of _ t4] exI [of _ "e1 @ e2 @ e3 @ e4"]) (auto simp: defs)
  next
    case c: 5
    then show ?thesis
      using 1(3) 2(3) 3(3) 4(2) by (intro exI [of _ t4] exI [of _ "e1 @ e2 @ e3 @ e4"]) (auto simp: defs)
  qed
qed

lemma BindSql2ExeEx_ran:
  assumes "dm_answers A f row" "conFlag s = 1"
  shows "\<exists>h' t. BindSql2ExeEx A h sql s = (Inr (0, h'), t) \<and> db_ran s [sql] 1 t \<and> conFlag t = 1"
proof -
  obtain h1 w1 where 1: "dm_alloc_stmt A h (world s) = (0, h1, w1)"
    using dm_answersD(1) [OF assms(1)] by blast
  obtain w2 where 2: "databaseExecuteDirect A h1 sql w1 = (0, w2)"
    using dm_answersD(4) [OF assms(1)] by blast
  show ?thesis
    using assms(2) by (simp add: BindSql2ExeEx_def ensure_connected_def andThen_def ret_def
        library_calls 1 2 db_ran_def same_config_def)
qed

lemma SetBackUpDB_answers:
  assumes A: "dm_answers A f row" "conFlag s = 1" and mkdir: "\<And>p u. mkdir p u = (Inr (), u)"
  shows "\<exists>t. SetBackUpDB A mkdir h s = (Inl MissingReturn, t) \<and> db_ran s
    [''alter database mount;'', ''alter database archivelog;'',
     archivelog_sql (m_simpleIni s ''dbInfo'' ''BackUpLogDir'' ''/dm8/backupUnExcept''), ''alter database open;''] 4 t"
proof -
  let ?p = "m_simpleIni s ''dbInfo'' ''BackUpLogDir'' ''/dm8/backupUnExcept''"
  obtain h1 t1 where 1: "BindSql2ExeEx A h ''alter database mount;'' s = (Inr (0, h1), t1)"
    "db_ran s [''alter database mount;''] 1 t1" "conFlag t1 = 1"
    using BindSql2ExeEx_ran [OF A] by blast
  obtain h2 t2 where 2: "BindSql2ExeEx A h1 ''alter database archivelog;'' t1 = (Inr (0, h2), t2)"
    "db_ran t1 [''alter database archivelog;''] 1 t2" "conFlag t2 = 1"
    using BindSql2ExeEx_ran [OF A(1) 1(3)] by blast
  obtain h3 t3 where 3: "BindSql2ExeEx A h2 (archivelog_sql ?p) t2 = (Inr (0, h3), t3)"
    "db_ran t2 [archivelog_sql ?p] 1 t3" "conFlag t3 = 1"
    using BindSql2ExeEx_ran [OF A(1) 2(3)] by blast
  obtain h4 t4 where 4: "BindSql2ExeEx A h3 ''alter database open;'' t3 = (Inr (0, h4), t4)"
    "db_ran t3 [''alter database open;''] 1 t4"
    using BindSql2ExeEx_ran [OF A(1) 3(3)] by blast
  show ?thesis
    using 1(1) 2(1) 3(1) 4(1) db_ran_trans [OF db_ran_trans [OF db_ran_trans [OF 1(2) 2(2)] 3(2)] 4(2)]
    by (simp add: SetBackUpDB_def andThen_def ret_def raise_def Let_def mkdir)
qed

text \<open>No statement handle can be allocated.\<close>

definition no_handles :: "('h, 'w) dm_api \<Rightarrow> bool" where
  "no_handles A \<longleftrightarrow> (\<forall>h w. fst (dm_alloc_stmt A h w) < 0)"

lemma direct_no_handle:
  assumes "no_handles A" "conFlag s = 1"
  shows "\<exists>h' t. BindSql2ExeEx A h sql s = (Inr (1, h'), t) \<and> executed (events t) = executed (events s) \<and> conFlag t = 1"
proof -
  obtain a h1 w1 where a: "dm_alloc_stmt A h (world s) = (a, h1, w1)" by (metis prod_cases3)
  obtain f h2 w2 where f: "dm_free_stmt A h1 w1 = (f, h2, w2)" by (metis prod_cases3)
  have "a < 0"
    using assms(1) a by (metis fst_conv no_handles_def)
  then show ?thesis
    using assms(2) by (simp add: BindSql2ExeEx_def ensure_connected_def andThen_def ret_def
        library_calls a f SH_SQL_GETHANDLE_ERROR_def)
qed

lemma script_no_handle:
  assumes "no_handles A" "conFlag s = 1"
  shows "\<exists>h' t. run_script (BindSql2ExeEx A) h sqls s = (Inr (0, h'), t) \<and> executed (events t) = executed (events s)"
  using assms(2)
proof (induction sqls arbitrary: h s)
  case (Cons q qs)
  obtain h1 u where u: "BindSql2ExeEx A h q s = (Inr (1, h1), u)" "executed (events u) = executed (events s)"
    "conFlag u = 1"
    using direct_no_handle [OF assms(1) Cons.prems] by blast
  then show ?case
    using Cons.IH [OF u(3), of h1] by (auto simp: andThen_def)
qed (simp add: ret_def)

section \<open>Properties\<close>

lemma SetCompliBackUp_runs:
  assumes "port_ok s"
  shows "\<exists>r h' t es. SetCompliBackUp A h s = (Inr (r, h'), t) \<and> r \<le> 0 \<and> events t = events s @ es
    \<and> (r = 0 \<and> allocs_ok es \<longrightarrow>
        (let strPath = m_simpleIni s ''dbInfo'' ''BackUpDir'' ''/dm8/backup'' in
         executed es = create_job_sql ''BackUp_center'' # complete_statements strPath
         \<or> executed es = config_start_sql ''BackUp_center'' # complete_alterations strPath))"
proof -
  let ?p = "m_simpleIni s ''dbInfo'' ''BackUpDir'' ''/dm8/backup''"
  let ?q = "create_job_sql ''BackUp_center''"
  obtain r h1 u fs where u: "BindSql2ExeEx A h ?q s = (Inr (r, h1), u)" "same_config s u" "port_ok u"
    "events u = events s @ fs" "executed fs = (if r = 0 then [?q] else [])" "allocs_ok fs \<longrightarrow> r \<le> 0"
    using direct_step [OF assms, of A h ?q] by blast
  have p: "m_simpleIni u = m_simpleIni s"
    using u(2) by (simp add: same_config_def)
  consider "r = -8413" | "r < 0" "r \<noteq> -8413" | "0 \<le> r"
    by linarith
  then show ?thesis
  proof cases
    case 1
    obtain r' h' t es where "AlterCompliBackUp A h1 u = (Inr (r', h'), t)" "r' \<le> 0" "events t = events u @ es"
      "r' = 0 \<and> allocs_ok es \<longrightarrow> executed es = config_start_sql ''BackUp_center'' # complete_alterations ?p"
      using AlterCompliBackUp_runs [OF u(3), of A h1] p by auto
    then show ?thesis
      using u 1 by (intro exI [of _ r'] exI [of _ h'] exI [of _ t] exI [of _ "fs @ es"])
        (simp add: SetCompliBackUp_def andThen_def)
  next
    case 2
    then show ?thesis
      using u(1,4) by (simp add: SetCompliBackUp_def andThen_def ret_def)
  next
    case 3
    obtain r' h' t es where "run_script (BindSql2ExeEx A) h1 (complete_statements ?p) u = (Inr (r', h'), t)"
      "r' \<le> 0" "events t = events u @ es" "r' = 0 \<and> allocs_ok es \<longrightarrow> executed es = complete_statements ?p"
      using direct.script_runs [OF u(3), of A h1 "complete_statements ?p"] by blast
    then show ?thesis
      using u 3 by (intro exI [of _ r'] exI [of _ h'] exI [of _ t] exI [of _ "fs @ es"])
        (auto simp: SetCompliBackUp_def andThen_def Let_def)
  qed
qed

text \<open>
  C38: registering the full backup. The function returns 0 or a negative code. With 0, and no
  failed handle allocation, the database has accepted one of two scripts, statement by statement: the
  job was created, its configuration started, one step and one schedule added and the configuration
  committed; or, since the job existed, its configuration was started, its step and its schedule
  were altered and the configuration was committed.
\<close>

theorem SetCompliBackUp_jobs:
  assumes "port_ok s"
  shows "\<exists>r h' t es. SetCompliBackUp A h s = (Inr (r, h'), t) \<and> r \<le> 0 \<and> events t = events s @ es
    \<and> (r = 0 \<and> allocs_ok es \<longrightarrow>
        (let strPath = m_simpleIni s ''dbInfo'' ''BackUpDir'' ''/dm8/backup'' in
         executed es =
           [''call SP_CREATE_JOB('' @ str_lit ''BackUp_center'' @ '',1,0,'' @ str_lit '''' @ '',0,0,'' @ str_lit ''''
              @ '',0,'' @ str_lit '''' @ '');'',
            ''call SP_JOB_CONFIG_START('' @ str_lit ''BackUp_center'' @ '');'',
            ''call SP_ADD_JOB_STEP('' @ str_lit ''BackUp_center'' @ '', '' @ str_lit ''BackUp_dm'' @ '', 6, ''
              @ str_lit (''00000000'' @ strPath) @ '', 0, 0, 0, 0, NULL, 0);'',
            ''call SP_ADD_JOB_SCHEDULE('' @ str_lit ''BackUp_center'' @ '', '' @ str_lit ''test1'' @ '', 1, 2, 1, 64, 0, ''
              @ str_lit ''00:00:00'' @ '', NULL, '' @ str_lit ''2024-01-02 23:48:24'' @ '', NULL, '' @ str_lit '''' @ '');'',
            ''call SP_JOB_CONFIG_COMMIT('' @ str_lit ''BackUp_center'' @ '');'']
         \<or> executed es =
           [''call SP_JOB_CONFIG_START('' @ str_lit ''BackUp_center'' @ '');'',
            ''call SP_ALTER_JOB_STEP('' @ str_lit ''BackUp_center'' @ '', '' @ str_lit ''BackUp_dm'' @ '', 6, ''
              @ str_lit (''00000000/'' @ strPath) @ '', 0, 0, 0, 0, NULL, 0);'',
            ''call SP_ALTER_JOB_SCHEDULE('' @ str_lit ''BackUp_center'' @ '', '' @ str_lit ''test1'' @ '', 1, 2, 1, 64, 0, ''
              @ str_lit ''00:00:00'' @ '', NULL, '' @ str_lit ''2024-01-02 23:48:24'' @ '', NULL, '' @ str_lit '''' @ '');'',
            ''call SP_JOB_CONFIG_COMMIT('' @ str_lit ''BackUp_center'' @ '');'']))"
  using SetCompliBackUp_runs [OF assms, of A h]
  unfolding complete_statements_def complete_alterations_def create_job_sql_def config_start_sql_def
    config_commit_sql_def job_step_sql_def job_schedule_sql_def by simp

lemma SetCompliBackUp_jobs_witness:
  "port_ok (sample_sqlop [0, - 8413]) \<and>
   (\<exists>r h t. SetCompliBackUp (scripted Map.empty) 0 (sample_sqlop [0, - 8413]) = (Inr (r, h), t) \<and> r \<le> 0)"
  using SetCompliBackUp_jobs [OF sample_port_ok [of "[0, - 8413]"], of "scripted Map.empty" 0]
    sample_port_ok [of "[0, - 8413]"] by blast

text \<open>
  The code for "no handle" is 1, and the backup functions test for negative codes only: when
  no statement handle can be allocated, registering the full backup returns 0, success, although
  the database was given no statement at all.
\<close>

theorem SetCompliBackUp_no_handles:
  assumes "no_handles A" "conFlag s = 1"
  shows "\<exists>h' t. SetCompliBackUp A h s = (Inr (0, h'), t) \<and> executed (events t) = executed (events s)"
proof -
  let ?sqls = "complete_statements (m_simpleIni s ''dbInfo'' ''BackUpDir'' ''/dm8/backup'')"
  obtain h1 u where u: "BindSql2ExeEx A h (create_job_sql ''BackUp_center'') s = (Inr (1, h1), u)"
    "executed (events u) = executed (events s)" "conFlag u = 1"
    using direct_no_handle [OF assms] by blast
  then show ?thesis
    using script_no_handle [OF assms(1) u(3), of h1 ?sqls] by (auto simp: SetCompliBackUp_def andThen_def Let_def)
qed

lemma SetCompliBackUp_no_handles_witness:
  "\<exists>h t. SetCompliBackUp ((answering 0 Map.empty)\<lparr>dm_alloc_stmt := \<lambda>h w. (- 1, h, w)\<rparr>) 0 sample_unit_sqlop
     = (Inr (0, h), t) \<and> executed (events t) = []"
proof -
  have "no_handles ((answering 0 Map.empty)\<lparr>dm_alloc_stmt := \<lambda>h w. (- 1, h, w)\<rparr>)"
    by (simp add: no_handles_def)
  then show ?thesis
    using SetCompliBackUp_no_handles [of _ sample_unit_sqlop 0]
    by (fastforce simp: sample_unit_sqlop_def CSqlGradOperate_ctor_def)
qed

text \<open>
  C37: the whole backup set-up never returns 0. It returns a negative code, or \<open>SetBackUpDB\<close> runs off
  its end and its result is undefined, so that the jobs are not known to be set up; this is what
  happens on a database that accepts everything, after the four statements on archiving.
\<close>

theorem SetDbBackup_outcome:
  assumes "port_ok s" "\<And>p u. mkdir p u = (Inr (), u)"
  shows "(case fst (SetDbBackup A mkdir junk s) of Inl e \<Rightarrow> e = MissingReturn | Inr r \<Rightarrow> r < 0)
    \<and> (dm_answers A f row \<and> conFlag s = 1 \<longrightarrow>
        (\<exists>t. SetDbBackup A mkdir junk s = (Inl MissingReturn, t)
          \<and> executed (events t) = executed (events s) @
             [''alter database mount;'', ''alter database archivelog;'',
              archivelog_sql (m_simpleIni s ''dbInfo'' ''BackUpLogDir'' ''/dm8/backupUnExcept''),
              ''alter database open;'']))"
proof -
  have "case fst (SetDbBackup A mkdir junk s) of Inl e \<Rightarrow> e = MissingReturn | Inr r \<Rightarrow> r < 0"
    using SetBackUpDB_outcome [of s mkdir A junk, OF assms] by (auto simp: SetDbBackup_def andThen_def ret_def)
  moreover have "\<exists>t. SetDbBackup A mkdir junk s = (Inl MissingReturn, t)
          \<and> executed (events t) = executed (events s) @
             [''alter database mount;'', ''alter database archivelog;'',
              archivelog_sql (m_simpleIni s ''dbInfo'' ''BackUpLogDir'' ''/dm8/backupUnExcept''),
              ''alter database open;'']" if "dm_answers A f row" "conFlag s = 1"
    using SetBackUpDB_answers [of A f row s mkdir junk, OF that assms(2)]
    by (auto simp: SetDbBackup_def andThen_def db_ran_def)
  ultimately show ?thesis
    by blast
qed

lemma SetDbBackup_outcome_witness:
  "\<exists>t. SetDbBackup (answering 0 Map.empty) (\<lambda>_. ret ()) 0 sample_unit_sqlop = (Inl MissingReturn, t)
     \<and> length (executed (events t)) = 4"
  using SetDbBackup_outcome [OF sample_unit_port_ok, of "\<lambda>_. ret ()" "answering 0 Map.empty" 0 0 Map.empty]
  by (fastforce simp: ret_def answering_answers sample_unit_sqlop_def CSqlGradOperate_ctor_def)

end
