(* ===== verification/Start_Up.thy ===== *)
theory Start_Up
  imports Server Sql_Schema Sql_Backup
begin

text \<open>
  The FTP service of src/src/ftp and the start of the program, src/src/main.cpp. \<open>CftpServerEx\<close>,
  the class \<open>main\<close> really starts, and \<open>utils::checkOrCreateDirectory\<close> are not in the repository,
  nor are fineftp and the network loop: they are parameters.
\<close>

section \<open>The FTP service\<close>

datatype permission = All | ReadOnly

record 'w fineftp =
  addUserAnonymous :: "string \<Rightarrow> permission \<Rightarrow> 'w \<Rightarrow> 'w"
  addUser :: "string \<Rightarrow> string \<Rightarrow> string \<Rightarrow> permission \<Rightarrow> 'w \<Rightarrow> 'w"
  ftp_start :: "64 word \<Rightarrow> 'w \<Rightarrow> bool \<times> 'w"

text \<open>The members; \<open>server\<close> is the state of the FTP library.\<close>

record 'w Cftp =
  server :: 'w
  userName :: string
  password :: string
  local_root :: string
  port :: "16 word"
  thread_number :: "64 word"
  m_started :: bool

text \<open>The result of \<open>LoadFile\<close> is passed in. Without an error the end of the function is reached.\<close>

definition InitConfigReader :: "int \<Rightarrow> fault + int" where
  "InitConfigReader load = (if load < 0 then Inr load else Inl MissingReturn)"

definition InitFtpServerInfo ::
  "ini \<Rightarrow> (string \<Rightarrow> ('w Cftp, unit) call) \<Rightarrow> ('w Cftp, unit) call" where
  "InitFtpServerInfo GetValue mkdir =
    andThen (lift_result (stoi (GetValue ''ftp'' ''PORT'' ''21''))) (\<lambda>p.
    andThen (\<lambda>f. (Inr (), f\<lparr>port := word_of_int p, local_root := GetValue ''ftp'' ''CSV_PATH'' ''/dm8/saveCsv''\<rparr>)) (\<lambda>_.
    andThen (mkdir (GetValue ''ftp'' ''CSV_PATH'' ''/dm8/saveCsv'')) (\<lambda>_.
    andThen (\<lambda>f. (Inr (), f\<lparr>userName := GetValue ''ftp'' ''USER_NAME'' ''ftp_client'',
                             password := GetValue ''ftp'' ''PASSWORD'' ''12345''\<rparr>)) (\<lambda>_.
    andThen (lift_result (stoi (GetValue ''ftp'' ''Thread_number'' ''4''))) (\<lambda>n.
    \<lambda>f. (Inr (), f\<lparr>thread_number := word_of_int n\<rparr>))))))"

text \<open>
  The constructor makes the FTP server from the member \<open>port\<close> in its initialiser list, before any
  statement has given it a value.
\<close>

definition Cftp_ctor ::
  "(16 word \<Rightarrow> 'w) \<Rightarrow> 16 word pointer \<Rightarrow> int \<Rightarrow> ini \<Rightarrow> (string \<Rightarrow> ('w Cftp, unit) call) \<Rightarrow> fault + 'w Cftp" where
  "Cftp_ctor new_server uninit_port load GetValue mkdir =
    bindE (deref uninit_port) (\<lambda>p.
    bindE (InitConfigReader load) (\<lambda>r.
    if r < 0 then Inl (ProcessExit r)
    else (case InitFtpServerInfo GetValue mkdir
            \<lparr>server = new_server p, userName = '''', password = '''', local_root = '''', port = p,
             thread_number = 0, m_started = False\<rparr> of
            (Inl e, _) \<Rightarrow> Inl e | (Inr _, f) \<Rightarrow> Inr f)))"

definition Cftp_dtor :: "'w Cftp \<Rightarrow> 'w Cftp" where
  "Cftp_dtor f = f\<lparr>m_started := False\<rparr>"

definition StartFtp :: "'w fineftp \<Rightarrow> 'w Cftp \<Rightarrow> int \<times> 'w Cftp" where
  "StartFtp lib f =
    (let w = addUserAnonymous lib (local_root f) All (server f);
         w = addUser lib (userName f) (password f) (local_root f) ReadOnly w;
         (ok, w) = ftp_start lib (thread_number f) w
     in if ok then (0, f\<lparr>server := w, m_started := True\<rparr>) else (-1, f\<lparr>server := w\<rparr>))"

text \<open>What the calls come to: no FTP object is ever made, whatever the configuration.\<close>

lemma Cftp_ctor_fails:
  "Cftp_ctor new_server Indeterminate load GetValue mkdir = Inl Uninitialised"
  "\<exists>e. Cftp_ctor new_server (Object p) load GetValue mkdir = Inl e"
  by (simp_all add: Cftp_ctor_def InitConfigReader_def)

text \<open>The port is cut to 16 bits, the number of threads extended to 64.\<close>

lemma InitFtpServerInfo_values:
  assumes "stoi (GetValue ''ftp'' ''PORT'' ''21'') = Inr p" "stoi (GetValue ''ftp'' ''Thread_number'' ''4'') = Inr n"
    "\<And>d g. mkdir d g = (Inr (), g)"
  shows "InitFtpServerInfo GetValue mkdir f = (Inr (), f\<lparr>port := word_of_int p,
      local_root := GetValue ''ftp'' ''CSV_PATH'' ''/dm8/saveCsv'', userName := GetValue ''ftp'' ''USER_NAME'' ''ftp_client'',
      password := GetValue ''ftp'' ''PASSWORD'' ''12345'', thread_number := word_of_int n\<rparr>)"
  using assms by (simp add: InitFtpServerInfo_def andThen_def lift_result_def)

lemma StartFtp_started: "fst (StartFtp lib f) = 0 \<Longrightarrow> m_started (snd (StartFtp lib f))"
  by (auto simp: StartFtp_def Let_def split: prod.splits)

section \<open>main\<close>

text \<open>
  \<open>StartEx\<close> constructs the FTP object and starts it; \<open>loop\<close> runs the network with the started
  server until it ends.
\<close>

definition main ::
  "('h, 'w) dm_api \<Rightarrow> dm_table_info \<Rightarrow> (string \<Rightarrow> ('w, unit) db) \<Rightarrow> 'h \<Rightarrow> ('w, int) db
    \<Rightarrow> 'pool \<Rightarrow> (int \<Rightarrow> 'pool \<Rightarrow> 'pool) \<Rightarrow> ('pool CMuduoServer \<Rightarrow> ('w, unit) db)
    \<Rightarrow> ini \<Rightarrow> byte \<Rightarrow> 'w \<Rightarrow> (fault + int) \<times> 'w sqlop" where
  "main A info mkdir junk StartEx pool pool_start loop GetValue flag w =
    andThen (InitDMShemaAndTable A info) (\<lambda>r.
    if r < 0 then raise (ProcessExit (-1))
    else andThen (SetDbBackup A mkdir junk) (\<lambda>r.
    if r < 0 then raise (ProcessExit (-1))
    else andThen StartEx (\<lambda>r.
    if r < 0 then raise (ProcessExit (-1))
    else andThen (lift_result (CMuduoServer_ctor GetValue pool)) (\<lambda>server.
         andThen (loop (snd (Server_Start pool_start server))) (\<lambda>_. ret 0)))))
    (CSqlGradOperate_ctor GetValue flag w)"

lemma SetBackUpDB_negative: "SetBackUpDB A mkdir h s = (Inr (r, h'), t) \<Longrightarrow> r < 0"
  by (auto simp: SetBackUpDB_def andThen_def ret_def raise_def Let_def split: prod.splits sum.splits if_splits)

lemma SetDbBackup_negative: "SetDbBackup A mkdir h s = (Inr r, t) \<Longrightarrow> r < 0"
  using SetBackUpDB_negative
  by (fastforce simp: SetDbBackup_def andThen_def ret_def split: prod.splits sum.splits if_splits)

lemma main_stops:
  "\<exists>e t. \<forall>StartEx pool pool_start loop.
    main A info mkdir junk StartEx pool pool_start loop GetValue flag w = (Inl e, t)"
proof -
  let ?s = "CSqlGradOperate_ctor GetValue flag w"
  obtain r s where init: "InitDMShemaAndTable A info ?s = (r, s)"
    by (cases "InitDMShemaAndTable A info ?s")
  show ?thesis
  proof (cases r)
    case (Inl e)
    then show ?thesis
      using init by (simp add: main_def andThen_def)
  next
    case (Inr i)
    obtain b t where backup: "SetDbBackup A mkdir junk s = (b, t)"
      by (cases "SetDbBackup A mkdir junk s")
    show ?thesis
    proof (cases "i < 0")
      case True
      then show ?thesis
        using init Inr by (simp add: main_def andThen_def raise_def)
    next
      case False
      then show ?thesis
        using init Inr backup SetDbBackup_negative [of A mkdir junk s _ t]
        by (cases b) (auto simp: main_def andThen_def raise_def)
    qed
  qed
qed

end
