(* ===== verification/Sql_Query.thy ===== *)
theory Sql_Query
  imports Sql_Operate
begin

text \<open>
  Reading the reports of a period, src/src/dm/DbData.h and sqlgradoperate.cpp: \<open>InitDbData\<close> takes
  the columns from the configuration, \<open>GetCommitTimeLines\<close> counts the rows, \<open>GetDataByExcuteSql\<close>
  binds a buffer for each column and fetches row by row into \<open>CDbData\<close>. The buffers come from
  \<open>malloc\<close>, which is taken to succeed; that they are released with \<open>delete[]\<close>, or not at all, is
  not modelled.
\<close>

section \<open>Data\<close>

definition TYPE_INT :: nat where
  "TYPE_INT = 2"

definition TYPE_STRING :: nat where
  "TYPE_STRING = 4"

definition MAX_SIZE :: nat where
  "MAX_SIZE = 1024"

record CDbRowData =
  piData :: "32 word"
  strData :: string

definition CDbRowData_int :: "32 word \<Rightarrow> CDbRowData" where
  "CDbRowData_int d = \<lparr>piData = d, strData = ''''\<rparr>"

definition CDbRowData_string :: "string \<Rightarrow> CDbRowData" where
  "CDbRowData_string d = \<lparr>piData = - 1, strData = d\<rparr>"

text \<open>The sizes are not initialised by the constructor.\<close>

record CDbData =
  iLineSize :: "64 word option"
  iClomuSize :: "int option"
  vecCloName :: "string list"
  vecType :: "nat list"
  vecDbRow :: "CDbRowData list"

definition CDbData_ctor :: CDbData where
  "CDbData_ctor = \<lparr>iLineSize = None, iClomuSize = None, vecCloName = [], vecType = [], vecDbRow = []\<rparr>"

definition init_val :: "'a option \<Rightarrow> fault + 'a" where
  "init_val x = (case x of None \<Rightarrow> Inl Uninitialised | Some v \<Rightarrow> Inr v)"

text \<open>\<open>std::vector::at\<close>.\<close>

definition vec_at :: "'a list \<Rightarrow> nat \<Rightarrow> fault + 'a" where
  "vec_at xs i = (if i < length xs then Inr (xs ! i) else Inl OutOfRange)"

section \<open>The columns of a table\<close>

text \<open>
  The search runs over all tables; its test for "not found" is inside the loop and never true, so
  without a match the pointer to the table stays indeterminate.
\<close>

datatype table_search = Found DataTable | NoMatch | ReturnError

fun find_table :: "DataTable list \<Rightarrow> string \<Rightarrow> nat \<Rightarrow> nat list \<Rightarrow> fault + table_search" where
  "find_table tabs name n [] = Inr NoMatch"
| "find_table tabs name n (i # is) =
    bindE (elem_at tabs i) (\<lambda>tab.
    if aucTableName tab = name then Inr (Found tab)
    else if n = i then Inr ReturnError
    else find_table tabs name n is)"

text \<open>One column is appended to the names and the types.\<close>

definition column_type :: "Data_Map \<Rightarrow> nat" where
  "column_type c = (if unat (usType c) = TYPE_INT then TYPE_INT else TYPE_STRING)"

definition add_column :: "Data_Map \<Rightarrow> CDbData \<Rightarrow> CDbData" where
  "add_column c d = d\<lparr>vecCloName := vecCloName d @ [aucColumnName c],
     vecType := vecType d @ [column_type c]\<rparr>"

fun add_columns :: "Data_Map list \<Rightarrow> nat list \<Rightarrow> CDbData \<Rightarrow> fault + CDbData" where
  "add_columns cols [] d = Inr d"
| "add_columns cols (i # is) d = bindE (elem_at cols i) (\<lambda>c. add_columns cols is (add_column c d))"

definition InitDbData :: "string \<Rightarrow> CDbData \<Rightarrow> ('w, int \<times> CDbData) db" where
  "InitDbData tableName d = (\<lambda>s. (
    bindE (deref (m_pstTableMap s)) (\<lambda>m.
    bindE (find_table (pstTable m) tableName (unat (usTables m)) [0..<unat (usTables m)]) (\<lambda>r.
    case r of
      ReturnError \<Rightarrow> Inr (-1, d)
    | NoMatch \<Rightarrow> Inl Uninitialised
    | Found tab \<Rightarrow>
        bindE (add_columns (astMap tab) [0..<unat (usColumns tab)] (d\<lparr>iClomuSize := Some (uint (usColumns tab))\<rparr>))
          (\<lambda>d. Inr (0, d)))), s))"

section \<open>The query\<close>

definition GetSqlByTime :: "string \<Rightarrow> string \<Rightarrow> string \<Rightarrow> ('w, int \<times> string) db" where
  "GetSqlByTime tableName timeStart timeEnd = (\<lambda>s.
    andThen (lift_result (deref (m_pstTableMap s))) (\<lambda>m.
    ret (0, ''SELECT * FROM '' @ aucSchema m @ ''.'' @ [CHR 0x22] @ tableName @ [CHR 0x22]
      @ '' WHERE SUBMITTIME BETWEEN '' @ [CHR 0x27] @ timeStart @ [CHR 0x27] @ '' AND ''
      @ [CHR 0x27] @ timeEnd @ [CHR 0x27] @ '';'')) s)"

section \<open>Fetching\<close>

text \<open>The buffers: an int and a text for each column; all start as 0.\<close>

type_synonym buffers = "(nat \<Rightarrow> 32 word) \<times> (nat \<Rightarrow> string)"

definition fresh_buffers :: buffers where
  "fresh_buffers = (\<lambda>_. 0, \<lambda>_. '''')"

text \<open>
  A fetch stores the cells of the bound columns, numbered from 1: ints into the int of the column,
  texts into its buffer of 1024 chars, of which one is the NUL.
\<close>

definition store_row :: "nat list \<Rightarrow> (nat \<Rightarrow> db_cell option) \<Rightarrow> buffers \<Rightarrow> buffers" where
  "store_row types row b =
    (\<lambda>j. if j < length types \<and> types ! j = TYPE_INT then (case row (j + 1) of Some (CInt i) \<Rightarrow> i | _ \<Rightarrow> fst b j) else fst b j,
     \<lambda>j. if j < length types \<and> types ! j = TYPE_STRING
          then (case row (j + 1) of Some (CText x) \<Rightarrow> take (MAX_SIZE - 1) x | _ \<Rightarrow> snd b j) else snd b j)"

text \<open>Binding the columns; \<open>iRet\<close> is the last code, which a column of another type leaves alone.\<close>

fun bind_columns :: "('h, 'w) dm_api \<Rightarrow> 'h \<Rightarrow> nat list \<Rightarrow> nat list \<Rightarrow> int \<Rightarrow> ('w, bool) db" where
  "bind_columns A stDmStmt types [] iRet = ret True"
| "bind_columns A stDmStmt types (inumber # is) iRet =
    andThen (lift_result (vec_at types inumber)) (\<lambda>ty.
    andThen (if ty = TYPE_INT then bind_call A stDmStmt (inumber + 1) 4
             else if ty = TYPE_STRING then bind_call A stDmStmt (inumber + 1) MAX_SIZE
             else ret iRet) (\<lambda>iRet.
    if iRet < 0 then ret False else bind_columns A stDmStmt types is iRet))"

fun push_row :: "nat list \<Rightarrow> buffers \<Rightarrow> nat list \<Rightarrow> CDbRowData list \<Rightarrow> fault + CDbRowData list" where
  "push_row types b [] acc = Inr acc"
| "push_row types b (inumber # is) acc =
    bindE (vec_at types inumber) (\<lambda>ty.
    push_row types b is (acc @ (if ty = TYPE_INT then [CDbRowData_int (fst b inumber)]
                                else if ty = TYPE_STRING then [CDbRowData_string (snd b inumber)] else [])))"

text \<open>At most \<open>n\<close> rows.\<close>

fun fetch_rows :: "('h, 'w) dm_api \<Rightarrow> 'h \<Rightarrow> nat list \<Rightarrow> nat \<Rightarrow> nat \<Rightarrow> buffers \<Rightarrow> CDbRowData list \<Rightarrow> ('w, CDbRowData list) db"
where
  "fetch_rows A stDmStmt types cols 0 b acc = ret acc"
| "fetch_rows A stDmStmt types cols (Suc n) b acc =
    andThen (fetch_call A stDmStmt) (\<lambda>(r, row).
    if r = DSQL_NO_DATA then ret acc
    else let b = store_row types row b
      in andThen (lift_result (push_row types b [0..<cols] acc)) (\<lambda>acc.
         fetch_rows A stDmStmt types cols n b acc))"

definition GetDataByExcuteSql :: "('h, 'w) dm_api \<Rightarrow> 'h \<Rightarrow> CDbData \<Rightarrow> ('w, int \<times> CDbData) db" where
  "GetDataByExcuteSql A stDmStmt d =
    andThen (lift_result (init_val (iClomuSize d))) (\<lambda>cols.
    andThen (bind_columns A stDmStmt (vecType d) [0..<nat cols] 0) (\<lambda>bound.
    if \<not> bound then andThen (dm_free_call A stDmStmt) (\<lambda>_. ret (SH_SQL_BINDCLOMN_ERROR, d))
    else andThen (lift_result (init_val (iLineSize d))) (\<lambda>lines.
    andThen (fetch_rows A stDmStmt (vecType d) (nat cols) (nat (sint lines)) fresh_buffers (vecDbRow d)) (\<lambda>rows.
    let d = d\<lparr>vecDbRow := rows\<rparr> in
    andThen (dm_free_call A stDmStmt) (\<lambda>(r, stDmStmt).
    if r \<noteq> 0 then andThen (dm_free_call A stDmStmt) (\<lambda>_. ret (SH_SQL_BINDCLOMN_ERROR, d))
    else ret (0, d))))))"

text \<open>
  The codes of \<open>InitDbData\<close> and of the count are only logged. \<open>junk\<close> is the uninitialised handle.
\<close>

definition GetDataBySubmitTime ::
  "('h, 'w) dm_api \<Rightarrow> 'h \<Rightarrow> string \<Rightarrow> string \<Rightarrow> string \<Rightarrow> CDbData \<Rightarrow> ('w, int \<times> CDbData) db" where
  "GetDataBySubmitTime A junk tableName timeStart timeEnd dataAll =
    andThen (InitDbData tableName dataAll) (\<lambda>(_, dataAll).
    andThen (GetCommitTimeLines A timeStart timeEnd tableName (iLineSize dataAll)) (\<lambda>(_, n).
    let dataAll = dataAll\<lparr>iLineSize := n\<rparr> in
    andThen (GetSqlByTime tableName timeStart timeEnd) (\<lambda>(_, ccSqlselectAll).
    andThen (BindSql2Exe A junk ccSqlselectAll) (\<lambda>(r, stDmStmt).
    if r \<noteq> 0 then ret (r, dataAll)
    else andThen (GetDataByExcuteSql A stDmStmt dataAll) (\<lambda>(r, dataAll).
    if r \<noteq> 0 then ret (-1, dataAll) else ret (0, dataAll))))))"

section \<open>Lemmas\<close>

lemma find_table_result:
  assumes "\<forall>i \<in> set is. i < length tabs \<and> i < n"
  shows "find_table tabs name n is =
    Inr (case List.find (\<lambda>i. aucTableName (tabs ! i) = name) is of None \<Rightarrow> NoMatch | Some i \<Rightarrow> Found (tabs ! i))"
  using assms by (induction "is") (auto simp: elem_at_def)

lemma add_columns_result:
  assumes "\<forall>i \<in> set is. i < length cols"
  shows "add_columns cols is d = Inr (d\<lparr>vecCloName := vecCloName d @ map (\<lambda>i. aucColumnName (cols ! i)) is,
    vecType := vecType d @ map (\<lambda>i. column_type (cols ! i)) is\<rparr>)"
  using assms by (induction "is" arbitrary: d) (simp_all add: elem_at_def add_column_def)

lemma map_index_list: "map (\<lambda>i. g (xs ! i)) [0..<length xs] = map g xs"
  by (rule nth_equalityI) auto

text \<open>A row as the data of its columns.\<close>

definition row_data :: "nat list \<Rightarrow> buffers \<Rightarrow> CDbRowData list" where
  "row_data types b = map (\<lambda>j. if types ! j = TYPE_INT then CDbRowData_int (fst b j)
     else CDbRowData_string (snd b j)) [0..<length types]"

definition types_ok :: "nat list \<Rightarrow> bool" where
  "types_ok types \<longleftrightarrow> set types \<subseteq> {TYPE_INT, TYPE_STRING}"

lemma types_ok_nth: "types_ok types \<Longrightarrow> i < length types \<Longrightarrow> types ! i = TYPE_INT \<or> types ! i = TYPE_STRING"
  using nth_mem [of i types] unfolding types_ok_def by blast

lemma push_row_result:
  assumes "types_ok types" "\<forall>i \<in> set is. i < length types"
  shows "push_row types b is acc = Inr (acc @ map (\<lambda>j. if types ! j = TYPE_INT then CDbRowData_int (fst b j)
     else CDbRowData_string (snd b j)) is)"
  using assms(2)
proof (induction "is" arbitrary: acc)
  case (Cons i "is")
  moreover have "types ! i = TYPE_INT \<or> types ! i = TYPE_STRING"
    using Cons.prems types_ok_nth [OF assms(1)] by simp
  ultimately show ?case
    by (auto simp: vec_at_def TYPE_INT_def TYPE_STRING_def)
qed simp

lemma push_row_all: "types_ok types \<Longrightarrow> push_row types b [0..<length types] acc = Inr (acc @ row_data types b)"
  by (simp add: push_row_result row_data_def)

section \<open>A library that delivers rows\<close>

text \<open>The fetches on handle \<open>h\<close> return the rows one by one, then "no data".\<close>

fun delivers :: "('h, 'w) dm_api \<Rightarrow> 'h \<Rightarrow> 'w \<Rightarrow> (nat \<Rightarrow> db_cell option) list \<Rightarrow> bool" where
  "delivers A h w [] \<longleftrightarrow> fst (databaseFetch A h w) = DSQL_NO_DATA"
| "delivers A h w (row # rows) \<longleftrightarrow> (case databaseFetch A h w of
     (r, row', w') \<Rightarrow> r \<noteq> DSQL_NO_DATA \<and> row' = row \<and> delivers A h w' rows)"

text \<open>Binding and freeing succeed, and binding does not disturb the rows.\<close>

definition query_ready :: "('h, 'w) dm_api \<Rightarrow> 'h \<Rightarrow> 'w \<Rightarrow> (nat \<Rightarrow> db_cell option) list \<Rightarrow> bool" where
  "query_ready A h w rows \<longleftrightarrow> delivers A h w rows
    \<and> (\<forall>c n w. delivers A h w rows \<longrightarrow>
         fst (databaseBindColumn A h c n w) = 0 \<and> delivers A h (snd (databaseBindColumn A h c n w)) rows)
    \<and> (\<forall>w. fst (dm_free_stmt A h w) = 0)"

text \<open>Each column of the row has a cell of its type.\<close>

definition row_complete :: "nat list \<Rightarrow> (nat \<Rightarrow> db_cell option) \<Rightarrow> bool" where
  "row_complete types row \<longleftrightarrow> (\<forall>j < length types. case row (j + 1) of
     Some (CInt i) \<Rightarrow> types ! j = TYPE_INT | Some (CText x) \<Rightarrow> types ! j = TYPE_STRING | None \<Rightarrow> False)"

definition cell_data :: "db_cell option \<Rightarrow> CDbRowData" where
  "cell_data c = (case c of Some (CInt i) \<Rightarrow> CDbRowData_int i
     | Some (CText x) \<Rightarrow> CDbRowData_string (take (MAX_SIZE - 1) x) | None \<Rightarrow> CDbRowData_int 0)"

definition row_cells :: "nat list \<Rightarrow> (nat \<Rightarrow> db_cell option) \<Rightarrow> CDbRowData list" where
  "row_cells types row = map (\<lambda>j. cell_data (row (j + 1))) [0..<length types]"

lemma row_data_store:
  assumes "row_complete types row"
  shows "row_data types (store_row types row b) = row_cells types row"
proof -
  have "(if types ! j = TYPE_INT then CDbRowData_int (fst (store_row types row b) j)
         else CDbRowData_string (snd (store_row types row b) j)) = cell_data (row (j + 1))"
    if "j < length types" for j
    using assms that
    by (auto simp: row_complete_def store_row_def cell_data_def TYPE_INT_def TYPE_STRING_def
        split: option.splits db_cell.splits)
  then show ?thesis
    by (simp add: row_data_def row_cells_def)
qed

lemma bind_columns_ready:
  assumes ready: "\<forall>c n w. delivers A h w rows \<longrightarrow>
         fst (databaseBindColumn A h c n w) = 0 \<and> delivers A h (snd (databaseBindColumn A h c n w)) rows"
    and types: "types_ok types" and "\<forall>i \<in> set is. i < length types" "delivers A h (world s) rows"
  shows "\<exists>t. bind_columns A h types is iRet s = (Inr True, t) \<and> db_ran s [] 0 t \<and> delivers A h (world t) rows"
  using assms(3,4)
proof (induction "is" arbitrary: s iRet)
  case (Cons i "is")
  have ty: "types ! i = TYPE_INT \<or> types ! i = TYPE_STRING"
    using Cons.prems types_ok_nth [OF types] by simp
  define n where "n = (if types ! i = TYPE_INT then 4 else MAX_SIZE)"
  obtain w where w: "databaseBindColumn A h (i + 1) n (world s) = (0, w)" "delivers A h w rows"
    using ready Cons.prems(2) by (metis fst_conv snd_conv surj_pair)
  let ?u = "s\<lparr>world := w, events := events s @ [EvBind (i + 1) 0]\<rparr>"
  have b: "bind_call A h (i + 1) n s = (Inr 0, ?u)"
    using w(1) by (simp add: bind_call_def)
  have u: "db_ran s [] 0 ?u"
    by (simp add: db_ran_def same_config_def)
  obtain t where t: "bind_columns A h types is 0 ?u = (Inr True, t)" "db_ran ?u [] 0 t"
    "delivers A h (world t) rows"
    using Cons.IH [of ?u 0] Cons.prems(1) w(2) by auto
  have "bind_columns A h types (i # is) iRet s = bind_columns A h types is 0 ?u"
    using b ty Cons.prems(1)
    by (auto simp: andThen_def lift_result_def vec_at_def n_def TYPE_INT_def TYPE_STRING_def simp del: add_2_eq_Suc')
  then show ?case
    using t db_ran_trans [OF u t(2)] by auto
qed (simp add: ret_def)

lemma fetch_rows_delivers:
  assumes types: "types_ok types" and "\<forall>row \<in> set rows. row_complete types row" "delivers A h (world s) rows"
  shows "\<exists>t. fetch_rows A h types (length types) n b acc s
      = (Inr (acc @ concat (map (row_cells types) (take n rows))), t) \<and> db_ran s [] 0 t"
  using assms(2,3)
proof (induction n arbitrary: rows b acc s)
  case (Suc n)
  obtain r row w where f: "databaseFetch A h (world s) = (r, row, w)"
    by (metis prod_cases3)
  let ?u = "s\<lparr>world := w, events := events s @ [EvFetch r]\<rparr>"
  have u: "db_ran s [] 0 ?u"
    by (simp add: db_ran_def same_config_def)
  show ?case
  proof (cases rows)
    case Nil
    then show ?thesis
      using Suc.prems f u by (simp add: andThen_def fetch_call_def ret_def)
  next
    case (Cons q qs)
    then have q: "r \<noteq> DSQL_NO_DATA" "row = q" "delivers A h w qs"
      using Suc.prems(2) f by auto
    have "row_data types (store_row types q b) = row_cells types q"
      using Suc.prems(1) Cons by (intro row_data_store) simp
    moreover obtain t where "fetch_rows A h types (length types) n (store_row types q b) (acc @ row_cells types q) ?u
        = (Inr ((acc @ row_cells types q) @ concat (map (row_cells types) (take n qs))), t)" "db_ran ?u [] 0 t"
      using Suc.IH [of qs ?u "store_row types q b" "acc @ row_cells types q"] Suc.prems(1) q(3) Cons by auto
    ultimately show ?thesis
      using q(1,2) f Cons db_ran_trans [OF u]
      by (fastforce simp: andThen_def fetch_call_def lift_result_def push_row_all [OF types] Let_def)
  qed
qed (simp add: ret_def)

section \<open>Properties\<close>

text \<open>
  The columns of a table. A configured name gives the columns of the first table of that
  name, in order, appended to the names and types, and code 0; every type but INT is read as
  text. For a name that is not configured the code does not return -1 as meant: it goes on with a
  pointer that was never assigned.
\<close>

theorem InitDbData_columns:
  assumes "m_pstTableMap s = Object m" "unat (usTables m) = length (pstTable m)"
    "\<forall>tab \<in> set (pstTable m). unat (usColumns tab) = length (astMap tab)"
  shows "InitDbData tableName d s = (case List.find (\<lambda>tab. aucTableName tab = tableName) (pstTable m) of
      None \<Rightarrow> Inl Uninitialised
    | Some tab \<Rightarrow> Inr (0, d\<lparr>iClomuSize := Some (int (length (astMap tab))),
        vecCloName := vecCloName d @ map aucColumnName (astMap tab),
        vecType := vecType d @ map (\<lambda>c. if usType c = 2 then 2 else 4) (astMap tab)\<rparr>), s)"
proof -
  let ?tabs = "pstTable m"
  show ?thesis
  proof (cases "List.find (\<lambda>tab. aucTableName tab = tableName) ?tabs")
    case None
    then have "List.find (\<lambda>i. aucTableName (?tabs ! i) = tableName) [0..<length ?tabs] = None"
      by (auto simp: find_None_iff in_set_conv_nth)
    then show ?thesis
      using None assms(1,2) by (simp add: InitDbData_def find_table_result)
  next
    case (Some tab)
    then obtain i where i: "i < length ?tabs" "aucTableName (?tabs ! i) = tableName" "tab = ?tabs ! i"
      "\<forall>j < i. aucTableName (?tabs ! j) \<noteq> tableName"
      by (auto simp: find_Some_iff)
    then have "List.find (\<lambda>i. aucTableName (?tabs ! i) = tableName) [0..<length ?tabs] = Some i"
      by (auto simp: find_Some_iff)
    moreover have n: "unat (usColumns tab) = length (astMap tab)"
      using assms(3) i(1,3) by simp
    moreover have "uint (usColumns tab) = int (length (astMap tab))"
      using n by (metis uint_nat)
    moreover have "column_type = (\<lambda>c. if usType c = 2 then 2 else 4)"
      by (simp add: fun_eq_iff column_type_def TYPE_INT_def TYPE_STRING_def word_unat_eq_iff)
    ultimately show ?thesis
      using Some assms(1,2) i(3)
      by (simp add: InitDbData_def find_table_result add_columns_result map_index_list [of column_type]
          map_index_list [of aucColumnName])
  qed
qed

lemma InitDbData_columns_witness:
  "fst (InitDbData ''delete_UnOrder'' CDbData_ctor sample_unit_sqlop)
     = Inr (0, CDbData_ctor\<lparr>iClomuSize := Some 2, vecCloName := [''systemID'', ''data''], vecType := [2, 4]\<rparr>)
   \<and> fst (InitDbData ''delete_NotifyError'' CDbData_ctor sample_unit_sqlop) = Inl Uninitialised"
proof -
  have "m_pstTableMap sample_unit_sqlop = Object sample_table_map"
    "unat (usTables sample_table_map) = length (pstTable sample_table_map)"
    "\<forall>tab \<in> set (pstTable sample_table_map). unat (usColumns tab) = length (astMap tab)"
    by (simp_all add: sample_unit_sqlop_def sample_table_map_def)
  note * = InitDbData_columns [OF this]
  show ?thesis
    by (simp add: *) (simp add: sample_table_map_def CDbData_ctor_def)
qed

text \<open>
  C39: reading the result of a query. The data hold what the library delivered: for each of the
  first \<open>n\<close> rows, where \<open>n\<close> is the number of rows counted before, one entry per column in column
  order, an int for an INT column and the text, cut after 1023 chars, for the others. The result
  is 0 and the handle is freed once. When the library delivers fewer rows than were counted, the
  counted number is kept nevertheless.
\<close>

theorem GetDataByExcuteSql_rows:
  assumes "query_ready A h (world s) rows" "types_ok (vecType d)" "\<forall>row \<in> set rows. row_complete (vecType d) row"
    "iClomuSize d = Some (int (length (vecType d)))" "iLineSize d = Some n"
  shows "\<exists>t. GetDataByExcuteSql A h d s = (Inr (0, d\<lparr>vecDbRow := vecDbRow d @
        concat (map (row_cells (vecType d)) (take (nat (sint n)) rows))\<rparr>), t)
    \<and> executed (events t) = executed (events s) \<and> open_handles (events t) = open_handles (events s) - 1"
proof -
  let ?types = "vecType d"
  let ?rows = "vecDbRow d @ concat (map (row_cells ?types) (take (nat (sint n)) rows))"
  have ready: "delivers A h (world s) rows" "\<forall>c n w. delivers A h w rows \<longrightarrow>
         fst (databaseBindColumn A h c n w) = 0 \<and> delivers A h (snd (databaseBindColumn A h c n w)) rows"
    "\<forall>w. fst (dm_free_stmt A h w) = 0"
    using assms(1) by (auto simp: query_ready_def)
  obtain u where u: "bind_columns A h ?types [0..<length ?types] 0 s = (Inr True, u)" "db_ran s [] 0 u"
    "delivers A h (world u) rows"
    using bind_columns_ready [OF ready(2) assms(2) _ ready(1), of "[0..<length ?types]" 0] by auto
  obtain v where v: "fetch_rows A h ?types (length ?types) (nat (sint n)) fresh_buffers (vecDbRow d) u
      = (Inr ?rows, v)" "db_ran u [] 0 v"
    using fetch_rows_delivers [OF assms(2,3) u(3)] by blast
  obtain h' w where f: "dm_free_stmt A h (world v) = (0, h', w)"
    using ready(3) by (metis fst_conv prod_cases3)
  have "GetDataByExcuteSql A h d s = (Inr (0, d\<lparr>vecDbRow := ?rows\<rparr>), v\<lparr>world := w, events := events v @ [EvFree 0]\<rparr>)"
    using u(1) v(1) f assms(4,5)
    by (simp add: GetDataByExcuteSql_def andThen_def lift_result_def ret_def init_val_def Let_def dm_free_call_def)
  then show ?thesis
    using db_ran_trans [OF u(2) v(2)] by (simp add: db_ran_def)
qed

text \<open>The world is the list of rows still to be fetched.\<close>

definition row_api :: "(nat, (nat \<Rightarrow> db_cell option) list) dm_api" where
  "row_api = \<lparr>dm_connect = (\<lambda>host user password port w. (0, 1, w)),
     dm_alloc_stmt = (\<lambda>h w. (0, Suc h, w)), dm_free_stmt = (\<lambda>h w. (0, 0, w)),
     databasePrepare = (\<lambda>h sql w. (0, w)), databaseExecuteDirect = (\<lambda>h sql w. (0, w)),
     databaseBindColumn = (\<lambda>h c n w. (0, w)),
     databaseFetch = (\<lambda>h w. case w of [] \<Rightarrow> (100, Map.empty, []) | r # rs \<Rightarrow> (0, r, rs)),
     dpi_fetch = (\<lambda>h w. case w of [] \<Rightarrow> (100, Map.empty, []) | r # rs \<Rightarrow> (0, r, rs)), zero_stmt = 0\<rparr>"

lemma row_api_ready: "query_ready row_api h rows rows"
proof -
  have "delivers row_api h rs rs" for rs
    by (induction rs) (simp_all add: row_api_def DSQL_NO_DATA_def)
  then show ?thesis
    by (simp add: query_ready_def row_api_def)
qed

definition sample_rows :: "(nat \<Rightarrow> db_cell option) list" where
  "sample_rows = [[1 \<mapsto> CInt 7, 2 \<mapsto> CText ''a''], [1 \<mapsto> CInt 8, 2 \<mapsto> CText ''b''], [1 \<mapsto> CInt 9, 2 \<mapsto> CText ''c'']]"

definition sample_query :: CDbData where
  "sample_query = CDbData_ctor\<lparr>iLineSize := Some 2, iClomuSize := Some 2,
     vecCloName := [''systemID'', ''data''], vecType := [2, 4]\<rparr>"

lemma GetDataByExcuteSql_rows_witness:
  "\<exists>t. GetDataByExcuteSql row_api 1 sample_query ((CSqlGradOperate_ctor default_ini 1 sample_rows)) =
     (Inr (0, sample_query\<lparr>vecDbRow := [CDbRowData_int 7, CDbRowData_string ''a'',
        CDbRowData_int 8, CDbRowData_string ''b'']\<rparr>), t)"
proof -
  have "types_ok (vecType sample_query)"
    by (simp add: types_ok_def sample_query_def TYPE_INT_def TYPE_STRING_def)
  moreover have "\<forall>row \<in> set sample_rows. row_complete (vecType sample_query) row"
    by (simp add: sample_rows_def sample_query_def row_complete_def TYPE_INT_def TYPE_STRING_def less_Suc_eq)
  moreover have "concat (map (row_cells (vecType sample_query)) (take 2 sample_rows)) =
      [CDbRowData_int 7, CDbRowData_string ''a'', CDbRowData_int 8, CDbRowData_string ''b'']"
    by (simp add: sample_rows_def sample_query_def row_cells_def cell_data_def MAX_SIZE_def upt_rec numeral_2_eq_2)
  ultimately show ?thesis
    using GetDataByExcuteSql_rows [of row_api 1 "CSqlGradOperate_ctor default_ini 1 sample_rows" sample_rows sample_query 2]
    by (fastforce simp: CSqlGradOperate_ctor_def row_api_ready sample_query_def CDbData_ctor_def)
qed

end
