(* ===== verification/Csv_Export.thy ===== *)
theory Csv_Export
  imports Sql_Query Sql_Text
begin

text \<open>
  Writing query results as CSV, src/src/dm/sqlgradoperate.cpp: \<open>SavaDataAsCsv\<close>. Its output is checked
  against a reader of the format (fields separated by commas, records by newlines, a field in
  double quotes may contain anything, a quote in it doubled). The file system is a map from names
  to contents; \<open>can_open\<close> says which files can be written. What a file holds after an exception is
  not modelled.
\<close>

section \<open>Writing\<close>

abbreviation newline :: char where
  "newline \<equiv> CHR 0x0A"

text \<open>The separator behind column \<open>j\<close> of \<open>cloSize\<close>.\<close>

definition col_end :: "nat \<Rightarrow> nat \<Rightarrow> string" where
  "col_end cloSize j = (if j = cloSize - 1 then [newline] else '','')"

fun write_header :: "CDbData \<Rightarrow> nat \<Rightarrow> nat list \<Rightarrow> fault + string" where
  "write_header d cloSize [] = Inr ''''"
| "write_header d cloSize (i # is) =
    bindE (vec_at (vecCloName d) i) (\<lambda>name.
    bindE (write_header d cloSize is) (\<lambda>rest. Inr (name @ col_end cloSize i @ rest)))"

text \<open>A column of another type than the two writes nothing.\<close>

definition write_cell :: "CDbData \<Rightarrow> nat \<Rightarrow> nat \<Rightarrow> nat \<Rightarrow> fault + string" where
  "write_cell d cloSize i j =
    bindE (vec_at (vecType d) j) (\<lambda>ty.
    if ty = TYPE_INT then
      bindE (vec_at (vecDbRow d) (i * cloSize + j)) (\<lambda>c. Inr (int_str (sint (piData c)) @ col_end cloSize j))
    else if ty = TYPE_STRING then
      bindE (vec_at (vecDbRow d) (i * cloSize + j)) (\<lambda>c. Inr ([dq] @ strData c @ [dq] @ col_end cloSize j))
    else Inr '''')"

fun write_row :: "CDbData \<Rightarrow> nat \<Rightarrow> nat \<Rightarrow> nat list \<Rightarrow> fault + string" where
  "write_row d cloSize i [] = Inr ''''"
| "write_row d cloSize i (j # js) =
    bindE (write_cell d cloSize i j) (\<lambda>c. bindE (write_row d cloSize i js) (\<lambda>rest. Inr (c @ rest)))"

fun write_rows :: "CDbData \<Rightarrow> nat \<Rightarrow> nat list \<Rightarrow> fault + string" where
  "write_rows d cloSize [] = Inr ''''"
| "write_rows d cloSize (i # is) =
    bindE (write_row d cloSize i [0..<cloSize]) (\<lambda>r. bindE (write_rows d cloSize is) (\<lambda>rest. Inr (r @ rest)))"

text \<open>
  The loops compare a \<open>size_t\<close> with an \<open>int\<close>: a negative size counts as a huge one. The number of
  lines is first cut from 64 to 32 bits.
\<close>

definition loop_bound :: "32 word \<Rightarrow> nat" where
  "loop_bound w = unat (scast w :: 64 word)"

definition csv_text :: "CDbData \<Rightarrow> fault + string" where
  "csv_text d =
    bindE (init_val (iLineSize d)) (\<lambda>lines.
    bindE (init_val (iClomuSize d)) (\<lambda>cols.
    let lineSize = (ucast lines :: 32 word); cloSize = loop_bound (word_of_int cols) in
    bindE (write_header d cloSize [0..<cloSize]) (\<lambda>header.
    if lineSize = 0 then Inr header
    else bindE (write_rows d cloSize [0..<loop_bound lineSize]) (\<lambda>rows. Inr (header @ rows)))))"

definition SavaDataAsCsv ::
  "(string \<Rightarrow> bool) \<Rightarrow> CDbData \<Rightarrow> string \<Rightarrow> (string \<rightharpoonup> string) \<Rightarrow> fault + int \<times> (string \<rightharpoonup> string)" where
  "SavaDataAsCsv can_open dataAll fullName files =
    bindE (csv_text dataAll) (\<lambda>content.
    Inr (0, if can_open fullName then files(fullName \<mapsto> content) else files))"

section \<open>Reading\<close>

text \<open>One field, and what follows it.\<close>

definition csv_field :: "string \<Rightarrow> (string \<times> string) option" where
  "csv_field x = (case x of
     c # cs \<Rightarrow> if c = dq then lex_quoted dq cs
               else Some (takeWhile (\<lambda>c. c \<noteq> CHR '','' \<and> c \<noteq> newline) x, dropWhile (\<lambda>c. c \<noteq> CHR '','' \<and> c \<noteq> newline) x)
   | [] \<Rightarrow> Some ([], []))"

fun cons_field :: "string \<Rightarrow> string list list \<Rightarrow> string list list" where
  "cons_field f [] = [[f]]"
| "cons_field f (r # rs) = (f # r) # rs"

lemma csv_field_length:
  assumes "csv_field x = Some (f, r)"
  shows "length r \<le> length x"
proof (cases x)
  case (Cons c cs)
  show ?thesis
  proof (cases "c = dq")
    case True
    then show ?thesis
      using assms Cons lex_quoted_shorter [of dq cs f r] by (simp add: csv_field_def)
  next
    case False
    then have "r = dropWhile (\<lambda>c. c \<noteq> CHR '','' \<and> c \<noteq> newline) x"
      using assms Cons by (simp add: csv_field_def)
    then show ?thesis
      by (simp add: length_dropWhile_le)
  qed
qed (use assms in \<open>simp add: csv_field_def\<close>)

function csv_read :: "string \<Rightarrow> string list list option" where
  "csv_read x = (case csv_field x of
     None \<Rightarrow> None
   | Some (f, []) \<Rightarrow> Some [[f]]
   | Some (f, c # r) \<Rightarrow>
       if c = CHR '','' then map_option (cons_field f) (csv_read r)
       else if c = newline then (if r = [] then Some [[f]] else map_option ((#) [f]) (csv_read r))
       else None)"
  by pat_completeness auto
termination
  by (relation "measure length") (auto dest!: csv_field_length)

declare csv_read.simps [simp del]

section \<open>Reading back what was written\<close>

text \<open>\<open>w\<close> is read as the field \<open>f\<close> when a separator follows.\<close>

definition reads_as :: "string \<Rightarrow> string \<Rightarrow> bool" where
  "reads_as w f \<longleftrightarrow> (\<forall>c r. c = CHR '','' \<or> c = newline \<longrightarrow> csv_field (w @ c # r) = Some (f, c # r))"

definition plain_field :: "string \<Rightarrow> bool" where
  "plain_field w \<longleftrightarrow> (\<forall>c \<in> set w. c \<noteq> CHR '','' \<and> c \<noteq> newline \<and> c \<noteq> dq)"

lemma reads_plain:
  assumes "plain_field w"
  shows "reads_as w w"
proof -
  have "csv_field (w @ c # r) = Some (w, c # r)" if "c = CHR '','' \<or> c = newline" for c r
  proof -
    have stop: "\<not> (c \<noteq> CHR '','' \<and> c \<noteq> newline)" "c \<noteq> dq" and w: "\<forall>c \<in> set w. c \<noteq> CHR '','' \<and> c \<noteq> newline"
      using that assms by (auto simp: plain_field_def)
    show ?thesis
      using takeWhile_word [OF w stop(1), of r] stop(2) assms
      by (cases w) (auto simp: csv_field_def plain_field_def)
  qed
  then show ?thesis
    by (simp add: reads_as_def)
qed

lemma reads_quoted: "dq \<notin> set v \<Longrightarrow> reads_as (dq # v @ [dq]) v"
  by (auto simp: reads_as_def csv_field_def lex_quoted_plain)

lemma reads_int: "reads_as (int_str i) (int_str i)"
proof (rule reads_plain)
  have "plain_field (nat_str n)" for n
    using nat_str_digits by (fastforce simp: plain_field_def is_digit_def)
  then show "plain_field (int_str i)"
    by (auto simp: int_str_def plain_field_def)
qed

text \<open>A record: fields separated by commas, ended by a newline.\<close>

fun record_text :: "string list \<Rightarrow> string" where
  "record_text [] = ''''"
| "record_text [w] = w @ [newline]"
| "record_text (w # ws) = w @ '','' @ record_text ws"

lemma csv_read_record:
  assumes "list_all2 reads_as ws fs" "ws \<noteq> []"
  shows "csv_read (record_text ws @ rest) =
    (if rest = [] then Some [fs] else map_option ((#) fs) (csv_read rest))"
  using assms
proof (induction ws arbitrary: fs rule: record_text.induct)
  case (2 w)
  then obtain f where f: "fs = [f]" "reads_as w f"
    by (auto simp: list_all2_Cons1)
  then have "csv_field (w @ newline # rest) = Some (f, newline # rest)"
    by (simp add: reads_as_def)
  then show ?case
    using f(1) by (subst csv_read.simps) simp
next
  case (3 w v vs)
  then obtain f gs where f: "fs = f # gs" "reads_as w f" "list_all2 reads_as (v # vs) gs"
    by (auto simp: list_all2_Cons1)
  then have "csv_field (w @ CHR '','' # record_text (v # vs) @ rest) = Some (f, CHR '','' # record_text (v # vs) @ rest)"
    by (simp add: reads_as_def)
  then have "csv_read (record_text (w # v # vs) @ rest)
      = map_option (cons_field f) (csv_read (record_text (v # vs) @ rest))"
    by (subst csv_read.simps) simp
  then show ?case
    using "3.IH" [OF f(3)] f(1) by (cases "csv_read rest") auto
qed simp

lemma record_text_nonempty: "ws \<noteq> [] \<Longrightarrow> record_text ws \<noteq> []"
  by (induction ws rule: record_text.induct) auto

lemma csv_read_records:
  assumes "list_all2 (list_all2 reads_as) recs data" "recs \<noteq> []" "\<forall>ws \<in> set recs. ws \<noteq> []"
  shows "csv_read (concat (map record_text recs)) = Some data"
  using assms
proof (induction recs arbitrary: data)
  case (Cons ws recs)
  then obtain fs data' where d: "data = fs # data'" "list_all2 reads_as ws fs" "list_all2 (list_all2 reads_as) recs data'"
    by (auto simp: list_all2_Cons1)
  show ?case
  proof (cases "recs = []")
    case True
    then show ?thesis
      using csv_read_record [OF d(2), of "[]"] Cons.prems d by simp
  next
    case False
    then obtain xs where "xs \<in> set recs" "record_text xs \<noteq> []"
      using Cons.prems(3) record_text_nonempty by (cases recs) auto
    then have ne: "concat (map record_text recs) \<noteq> []"
      by auto
    have "csv_read (concat (map record_text recs)) = Some data'"
      using Cons.IH [OF d(3) False] Cons.prems(3) by simp
    then have "csv_read (record_text ws @ concat (map record_text recs)) = Some data"
      using csv_read_record [OF d(2), of "concat (map record_text recs)"] Cons.prems(3) ne d(1)
      by (simp del: concat_eq_Nil_conv)
    then show ?thesis
      by simp
  qed
qed simp

text \<open>The loops of the code write records.\<close>

lemma record_text_upt:
  "i < n \<Longrightarrow> concat (map (\<lambda>j. w j @ col_end n j) [i..<n]) = record_text (map w [i..<n])"
proof (induction "n - i" arbitrary: i)
  case (Suc k)
  show ?case
  proof (cases "Suc i = n")
    case True
    then show ?thesis
      by (auto simp: upt_rec [of i] col_end_def)
  next
    case False
    then have "map w [i..<n] = w i # w (Suc i) # map w [Suc (Suc i)..<n]" "[i..<n] = i # [Suc i..<n]"
      "map w [Suc i..<n] = w (Suc i) # map w [Suc (Suc i)..<n]"
      using Suc.prems by (simp_all add: upt_rec)
    then show ?thesis
      using Suc.hyps(1) [of "Suc i"] Suc.hyps(2) Suc.prems False by (simp add: col_end_def)
  qed
qed simp

lemma write_header_eq:
  "\<forall>i \<in> set is. i < length (vecCloName d) \<Longrightarrow>
    write_header d n is = Inr (concat (map (\<lambda>i. vecCloName d ! i @ col_end n i) is))"
  by (induction "is") (auto simp: vec_at_def)

text \<open>What is written for a cell, and what is read.\<close>

definition cell_text :: "nat \<Rightarrow> CDbRowData \<Rightarrow> string" where
  "cell_text ty c = (if ty = TYPE_INT then int_str (sint (piData c)) else dq # strData c @ [dq])"

definition cell_field :: "nat \<Rightarrow> CDbRowData \<Rightarrow> string" where
  "cell_field ty c = (if ty = TYPE_INT then int_str (sint (piData c)) else strData c)"

lemma write_row_eq:
  assumes "types_ok (vecType d)" "\<forall>j \<in> set js. j < length (vecType d) \<and> i * n + j < length (vecDbRow d)"
  shows "write_row d n i js =
    Inr (concat (map (\<lambda>j. cell_text (vecType d ! j) (vecDbRow d ! (i * n + j)) @ col_end n j) js))"
  using assms(2)
proof (induction js)
  case (Cons j js)
  then show ?case
    using types_ok_nth [OF assms(1), of j]
    by (auto simp: write_cell_def vec_at_def cell_text_def TYPE_INT_def TYPE_STRING_def)
qed simp

definition csv_rows :: "CDbData \<Rightarrow> nat \<Rightarrow> nat \<Rightarrow> (nat \<Rightarrow> CDbRowData \<Rightarrow> string) \<Rightarrow> string list list" where
  "csv_rows d cols lines g =
    map (\<lambda>i. map (\<lambda>j. g (vecType d ! j) (vecDbRow d ! (i * cols + j))) [0..<cols]) [0..<lines]"

lemma write_rows_eq:
  assumes "types_ok (vecType d)" "length (vecType d) = n" "0 < n" "\<forall>i \<in> set is. i * n + n \<le> length (vecDbRow d)"
  shows "write_rows d n is = Inr (concat (map (\<lambda>i. record_text
    (map (\<lambda>j. cell_text (vecType d ! j) (vecDbRow d ! (i * n + j))) [0..<n])) is))"
  using assms(4)
proof (induction "is")
  case (Cons i "is")
  have "write_row d n i [0..<n] = Inr (record_text (map (\<lambda>j. cell_text (vecType d ! j) (vecDbRow d ! (i * n + j))) [0..<n]))"
    using Cons.prems assms(2,3) write_row_eq [OF assms(1), of "[0..<n]" i n]
      record_text_upt [of 0 n "\<lambda>j. cell_text (vecType d ! j) (vecDbRow d ! (i * n + j))"] by auto
  then show ?case
    using Cons by simp
qed simp

section \<open>Sizes\<close>

lemma sint_small: "n < 2 ^ 31 \<Longrightarrow> sint (word_of_nat n :: 32 word) = int n"
  by (simp add: signed_of_nat signed_take_bit_int_eq_self)

lemma loop_bound_small:
  assumes "n < 2 ^ 31"
  shows "loop_bound (word_of_nat n) = n"
proof -
  have "(scast (word_of_nat n :: 32 word) :: 64 word) = word_of_int (sint (word_of_nat n :: 32 word))"
    by (rule scast_eq)
  also have "\<dots> = word_of_nat n"
    using assms sint_small by simp
  finally show ?thesis
    using assms by (simp add: loop_bound_def unsigned_of_nat take_bit_nat_eq_self)
qed

lemma lines_small: "n < 2 ^ 31 \<Longrightarrow> (ucast (word_of_nat n :: 64 word) :: 32 word) = word_of_nat n"
  by (simp add: ucast_eq unsigned_of_nat take_bit_nat_eq_self)

lemma lines_zero: "n < 2 ^ 31 \<Longrightarrow> word_of_nat n = (0 :: 32 word) \<longleftrightarrow> n = 0"
  by (simp add: word_of_nat_eq_0_iff nat_dvd_not_less) (auto dest: dvd_imp_le)

section \<open>Properties\<close>

text \<open>
  Query results as \<open>InitDbData\<close> and the fetch leave them: \<open>lines\<close> rows of the columns, where no column
  name needs quoting and no text contains a double quote.
\<close>

definition csv_ok :: "CDbData \<Rightarrow> nat \<Rightarrow> bool" where
  "csv_ok d lines \<longleftrightarrow> iLineSize d = Some (word_of_nat lines) \<and> lines < 2 ^ 31
    \<and> iClomuSize d = Some (int (length (vecType d))) \<and> length (vecCloName d) = length (vecType d)
    \<and> 0 < length (vecType d) \<and> length (vecType d) < 2 ^ 31 \<and> types_ok (vecType d)
    \<and> (\<forall>name \<in> set (vecCloName d). plain_field name) \<and> (\<forall>c \<in> set (vecDbRow d). dq \<notin> set (strData c))"

lemma csv_text_header:
  assumes "csv_ok d lines"
  shows "csv_text d = (if lines = 0 then Inr (record_text (vecCloName d))
    else bindE (write_rows d (length (vecType d)) [0..<lines]) (\<lambda>rows. Inr (record_text (vecCloName d) @ rows)))"
proof -
  let ?n = "length (vecType d)"
  have ok: "iLineSize d = Some (word_of_nat lines)" "lines < 2 ^ 31" "iClomuSize d = Some (int ?n)"
    "length (vecCloName d) = ?n" "0 < ?n" "?n < 2 ^ 31"
    using assms by (simp_all add: csv_ok_def)
  have "map ((!) (vecCloName d)) [0..<?n] = vecCloName d"
    using ok(4) by (metis map_nth)
  then have "write_header d ?n [0..<?n] = Inr (record_text (vecCloName d))"
    using record_text_upt [of 0 ?n "(!) (vecCloName d)"] ok(4,5) by (simp add: write_header_eq)
  then show ?thesis
    using loop_bound_small [OF ok(2)] loop_bound_small [OF ok(6)] lines_small [OF ok(2)] lines_zero [OF ok(2)]
    by (simp add: csv_text_def init_val_def ok(1,3) Let_def)
qed

text \<open>
  C19: the file a CSV reader sees. For complete query results, with as many cells as rows and columns
  make, of which no text contains a double quote and no column name needs quoting (a comma, a quote or a
  line break), the export returns 0, and the content it writes is read back as the column names followed
  by the rows, cell by cell: numbers in decimal, texts unchanged, also when they contain commas or line
  breaks. A double quote in a text is not escaped (\<open>SavaDataAsCsv_quote\<close>). When the file cannot
  be opened the result is 0 all the same and nothing is written.
\<close>

theorem SavaDataAsCsv_reads_back:
  assumes "csv_ok d lines" "length (vecDbRow d) = lines * length (vecType d)"
  shows "\<exists>content. SavaDataAsCsv can_open d fullName files
      = Inr (0, if can_open fullName then files(fullName \<mapsto> content) else files)
    \<and> csv_read content = Some (vecCloName d # csv_rows d (length (vecType d)) lines cell_field)"
proof -
  let ?n = "length (vecType d)"
  let ?recs = "vecCloName d # csv_rows d ?n lines cell_text"
  have ok: "types_ok (vecType d)" "0 < ?n" "length (vecCloName d) = ?n"
    "\<forall>name \<in> set (vecCloName d). plain_field name" "\<forall>c \<in> set (vecDbRow d). dq \<notin> set (strData c)"
    using assms(1) by (simp_all add: csv_ok_def)
  have bound: "i * ?n + ?n \<le> length (vecDbRow d)" if "i < lines" for i
    using mult_le_mono1 [of "Suc i" lines ?n] that assms(2) by simp
  have rows: "write_rows d ?n [0..<lines] = Inr (concat (map record_text (csv_rows d ?n lines cell_text)))"
    using write_rows_eq [OF ok(1) refl ok(2), of "[0..<lines]"] bound by (simp add: csv_rows_def o_def)
  have content: "csv_text d = Inr (concat (map record_text ?recs))"
    using csv_text_header [OF assms(1)] rows by (simp add: csv_rows_def)
  have "list_all2 reads_as (vecCloName d) (vecCloName d)"
    using ok(4) by (auto simp: list_all2_conv_all_nth intro: reads_plain)
  moreover have "reads_as (cell_text (vecType d ! j) (vecDbRow d ! (i * ?n + j))) (cell_field (vecType d ! j) (vecDbRow d ! (i * ?n + j)))"
    if "i < lines" "j < ?n" for i j
    using bound [OF that(1)] that(2) ok(5) by (auto simp: cell_text_def cell_field_def intro: reads_int reads_quoted)
  then have "list_all2 (list_all2 reads_as) (csv_rows d ?n lines cell_text) (csv_rows d ?n lines cell_field)"
    by (simp add: csv_rows_def list_all2_conv_all_nth)
  ultimately have "csv_read (concat (map record_text ?recs)) = Some (vecCloName d # csv_rows d ?n lines cell_field)"
    using ok(2,3) by (intro csv_read_records) (auto simp: csv_rows_def)
  then show ?thesis
    using content by (intro exI [of _ "concat (map record_text ?recs)"]) (simp add: SavaDataAsCsv_def)
qed

text \<open>Writing stops with \<open>out_of_range\<close> exactly at a cell that is not there.\<close>

lemma write_cell_short:
  assumes "types_ok (vecType d)" "j < length (vecType d)"
  shows "write_cell d n i j = Inl OutOfRange \<or> (\<exists>c. write_cell d n i j = Inr c)"
    "length (vecDbRow d) \<le> i * n + j \<Longrightarrow> write_cell d n i j = Inl OutOfRange"
  using types_ok_nth [OF assms] assms(2)
  by (auto simp: write_cell_def vec_at_def TYPE_INT_def TYPE_STRING_def)

lemma write_row_cases:
  assumes "types_ok (vecType d)" "\<forall>j \<in> set js. j < length (vecType d)"
  shows "write_row d n i js = Inl OutOfRange \<or> (\<exists>c. write_row d n i js = Inr c)"
  using assms(2)
proof (induction js)
  case (Cons j js)
  then show ?case
    using write_cell_short(1) [OF assms(1), of j n i] by auto
qed simp

lemma write_row_short:
  assumes "types_ok (vecType d)" "\<forall>j \<in> set js. j < length (vecType d)"
    "j \<in> set js" "length (vecDbRow d) \<le> i * n + j"
  shows "write_row d n i js = Inl OutOfRange"
  using assms(2,3)
proof (induction js)
  case (Cons k js)
  show ?case
  proof (cases "k = j")
    case True
    then show ?thesis
      using Cons.prems write_cell_short(2) [OF assms(1) _ assms(4)] by simp
  next
    case False
    then show ?thesis
      using Cons write_cell_short(1) [OF assms(1), of k n i] by auto
  qed
qed simp

lemma write_rows_short:
  assumes "types_ok (vecType d)" "n \<le> length (vecType d)" "i \<in> set is"
    "write_row d n i [0..<n] = Inl OutOfRange"
  shows "write_rows d n is = Inl OutOfRange"
  using assms(3)
proof (induction "is")
  case (Cons k "is")
  show ?case
  proof (cases "k = i")
    case True
    then show ?thesis
      using assms(4) by simp
  next
    case False
    then show ?thesis
      using Cons write_row_cases [OF assms(1), of "[0..<n]" n k] assms(2) by auto
  qed
qed simp

text \<open>
  The export trusts the number of lines. When fewer rows were fetched than counted, as when
  rows are deleted between the two queries, it throws \<open>out_of_range\<close>.
\<close>

theorem SavaDataAsCsv_short:
  assumes "csv_ok d lines" "length (vecDbRow d) < lines * length (vecType d)"
  shows "SavaDataAsCsv can_open d fullName files = Inl OutOfRange"
proof -
  let ?n = "length (vecType d)"
  have ok: "types_ok (vecType d)" "0 < ?n"
    using assms(1) by (simp_all add: csv_ok_def)
  obtain k where k: "lines = Suc k"
    using assms(2) by (cases lines) auto
  then have "write_row d ?n k [0..<?n] = Inl OutOfRange"
    using ok assms(2) by (intro write_row_short [of d _ "?n - 1"]) auto
  then have "write_rows d ?n [0..<lines] = Inl OutOfRange"
    using k write_rows_short [OF ok(1), of ?n k "[0..<lines]"] by simp
  then show ?thesis
    using csv_text_header [OF assms(1)] k by (simp add: SavaDataAsCsv_def)
qed

section \<open>Witnesses\<close>

definition sample_export :: "CDbRowData list \<Rightarrow> CDbData" where
  "sample_export rows = sample_query\<lparr>vecDbRow := rows\<rparr>"

lemma sample_export_ok:
  assumes "\<forall>c \<in> set rows. dq \<notin> set (strData c)"
  shows "csv_ok (sample_export rows) 2"
  using assms by (simp add: csv_ok_def sample_export_def sample_query_def CDbData_ctor_def types_ok_def
      plain_field_def TYPE_INT_def TYPE_STRING_def)

lemma SavaDataAsCsv_reads_back_witness:
  "\<exists>content. SavaDataAsCsv (\<lambda>_. True) (sample_export [CDbRowData_int (- 7), CDbRowData_string ''a,b'',
       CDbRowData_int 8, CDbRowData_string '''']) ''f.csv'' Map.empty = Inr (0, [''f.csv'' \<mapsto> content])
     \<and> csv_read content = Some [[''systemID'', ''data''], [''-7'', ''a,b''], [''8'', '''']]"
proof -
  let ?d = "sample_export [CDbRowData_int (- 7), CDbRowData_string ''a,b'', CDbRowData_int 8, CDbRowData_string '''']"
  have d: "csv_ok ?d 2"
    by (intro sample_export_ok) (simp add: CDbRowData_int_def CDbRowData_string_def)
  have digits: "digit_char 7 = CHR ''7''" "digit_char 8 = CHR ''8''"
    by code_simp+
  have "vecCloName ?d # csv_rows ?d 2 2 cell_field = [[''systemID'', ''data''], [''-7'', ''a,b''], [''8'', '''']]"
    by (simp add: csv_rows_def sample_export_def sample_query_def cell_field_def CDbRowData_int_def
        CDbRowData_string_def TYPE_INT_def upt_rec int_str_def nat_str.simps digits CDbData_ctor_def)
  moreover have n: "length (vecType ?d) = 2" "length (vecDbRow ?d) = 2 * length (vecType ?d)"
    by (simp_all add: sample_export_def sample_query_def CDbData_ctor_def)
  ultimately show ?thesis
    using SavaDataAsCsv_reads_back [OF d n(2), of "\<lambda>_. True" "''f.csv''" Map.empty] unfolding n(1) by simp
qed

lemma SavaDataAsCsv_short_witness:
  "SavaDataAsCsv (\<lambda>_. True) (sample_export [CDbRowData_int 7, CDbRowData_string ''a'']) ''f.csv'' Map.empty = Inl OutOfRange"
  by (rule SavaDataAsCsv_short [OF sample_export_ok])
    (simp_all add: sample_export_def sample_query_def CDbData_ctor_def CDbRowData_int_def CDbRowData_string_def)

text \<open>
  A double quote in a text is not doubled. One that is followed by a character other than a
  quote, a comma or a line break makes the file unreadable as CSV: here for the first row of a
  one-column result.
\<close>

theorem SavaDataAsCsv_quote:
  assumes "iLineSize d = Some 1" "iClomuSize d = Some 1" "vecType d = [TYPE_STRING]" "vecCloName d = [name]"
    "plain_field name" "vecDbRow d = [c]" "strData c = x @ dq # z # y" "dq \<notin> set x" "z \<notin> {dq, CHR '','', newline}"
  shows "\<exists>content. csv_text d = Inr content \<and> csv_read content = None"
proof -
  let ?row = "dq # strData c @ [dq, newline]"
  have sizes: "(ucast (1 :: 64 word) :: 32 word) = 1" "loop_bound 1 = 1"
    using lines_small [of 1] loop_bound_small [of 1] by simp_all
  have "csv_text d = Inr (record_text [name] @ ?row)"
    by (simp add: csv_text_def init_val_def assms(1-4,6) sizes Let_def vec_at_def write_cell_def
        TYPE_STRING_def TYPE_INT_def col_end_def)
  moreover have "csv_read (record_text [name] @ ?row) = map_option ((#) [name]) (csv_read ?row)"
    using csv_read_record [of "[name]" "[name]" ?row] reads_plain [OF assms(5)] by simp
  moreover have "lex_quoted dq (strData c @ [dq, newline]) = Some (x, z # y @ [dq, newline])"
    using lex_quoted_plain [OF assms(8), of z] assms(7,9) by simp
  then have "csv_read ?row = None"
    using assms(9) by (subst csv_read.simps) (simp add: csv_field_def)
  ultimately show ?thesis
    by simp
qed

lemma SavaDataAsCsv_quote_witness:
  "\<exists>content. csv_text \<lparr>iLineSize = Some 1, iClomuSize = Some 1, vecCloName = [''data''], vecType = [4],
      vecDbRow = [CDbRowData_string [CHR ''{'', dq, CHR ''k'', dq, CHR ''}'']]\<rparr> = Inr content \<and> csv_read content = None"
  using SavaDataAsCsv_quote [of "\<lparr>iLineSize = Some 1, iClomuSize = Some 1, vecCloName = [''data''], vecType = [4],
      vecDbRow = [CDbRowData_string [CHR ''{'', dq, CHR ''k'', dq, CHR ''}'']]\<rparr>" "''data''"
      "CDbRowData_string [CHR ''{'', dq, CHR ''k'', dq, CHR ''}'']" "''{''" "CHR ''k''" "[dq, CHR ''}'']"]
  by (simp add: TYPE_STRING_def plain_field_def CDbRowData_string_def)

end
