(* ===== verification/Report_Json.thy ===== *)
theory Report_Json
  imports Data_Info
begin

text \<open>
  What the report classes of src/src/data/DMdata share: how a member of the JSON document is read,
  and the object they extend. The classes use three styles, \<open>get(key, default)\<close>,
  \<open>isMember(key) ? v[key] : default\<close> and \<open>v[key]\<close>; \<open>json_access\<close> adds the operations of jsoncpp
  they need to \<open>json_lib\<close>, \<open>access_contract\<close> their documented behaviour.
\<close>

section \<open>More of the JSON library\<close>

record 'v json_access = "'v json_lib" +
  json_index :: "'v \<Rightarrow> string \<Rightarrow> fault + 'v"          \<comment> \<open>\<open>v[key]\<close>\<close>
  isMember :: "'v \<Rightarrow> string \<Rightarrow> fault + bool"
  asUInt :: "'v \<Rightarrow> fault + int"
  isObject :: "'v \<Rightarrow> bool"
  getMemberNames :: "'v \<Rightarrow> string list"

text \<open>
  Documented behaviour: on an object the three ways to look a member up agree, a missing member
  is a null, which reads as the empty text and as 0; an object is not convertible to a text;
  \<open>asUInt\<close> returns a 32 bit unsigned int or throws and agrees with \<open>asInt\<close> on what both hold;
  the text \<open>dd\<close> is not a document.
\<close>

definition null_reads :: "('v, 'z) json_access_scheme \<Rightarrow> 'v \<Rightarrow> bool" where
  "null_reads J w \<longleftrightarrow> asString J w = Inr '''' \<and> asInt J w = Inr 0 \<and> asUInt J w = Inr 0"

definition lookup_agrees :: "('v, 'z) json_access_scheme \<Rightarrow> 'v \<Rightarrow> string \<Rightarrow> bool" where
  "lookup_agrees J v k \<longleftrightarrow>
    (\<exists>b w. isMember J v k = Inr b \<and> json_index J v k = Inr w
       \<and> (\<forall>x. json_get J v k x = Inr (if b then w else x)) \<and> (b \<or> null_reads J w))"

definition access_contract :: "('v, 'z) json_access_scheme \<Rightarrow> bool" where
  "access_contract J \<longleftrightarrow>
    json_contract J
    \<and> parseFromStream J ''dd'' = None
    \<and> (\<forall>v k. isObject J v \<longrightarrow> lookup_agrees J v k)
    \<and> (\<forall>v. isObject J v \<longrightarrow> asString J v = Inl JsonError)
    \<and> (\<forall>v i. asUInt J v = Inr i \<longrightarrow> 0 \<le> i \<and> i < 2 ^ 32)
    \<and> (\<forall>v i. asUInt J v = Inr i \<and> i < 2 ^ 31 - 1 \<longrightarrow> asInt J v = Inr i)"

section \<open>Reading a member\<close>

text \<open>\<open>v.isMember(key) ? v[key].asString() : ""\<close>, and the same with \<open>asUInt()\<close> and 0.\<close>

definition member_string :: "('v, 'z) json_access_scheme \<Rightarrow> 'v \<Rightarrow> string \<Rightarrow> fault + string" where
  "member_string J v key = bindE (isMember J v key)
    (\<lambda>b. if b then bindE (json_index J v key) (asString J) else Inr '''')"

definition member_uint :: "('v, 'z) json_access_scheme \<Rightarrow> 'v \<Rightarrow> string \<Rightarrow> fault + int" where
  "member_uint J v key = bindE (isMember J v key)
    (\<lambda>b. if b then bindE (json_index J v key) (asUInt J) else Inr 0)"

text \<open>\<open>v[key].asString()\<close> and \<open>v[key].asUInt()\<close>.\<close>

definition index_string :: "('v, 'z) json_access_scheme \<Rightarrow> 'v \<Rightarrow> string \<Rightarrow> fault + string" where
  "index_string J v key = bindE (json_index J v key) (asString J)"

definition index_uint :: "('v, 'z) json_access_scheme \<Rightarrow> 'v \<Rightarrow> string \<Rightarrow> fault + int" where
  "index_uint J v key = bindE (json_index J v key) (asUInt J)"

text \<open>
  \<open>root["data"]["content"]\<close>. On the non-constant \<open>root\<close> a missing member is created as null,
  which every later read sees the same way as a missing one.
\<close>

definition data_content :: "('v, 'z) json_access_scheme \<Rightarrow> 'v \<Rightarrow> fault + 'v" where
  "data_content J root = bindE (json_index J root ''data'') (\<lambda>v. json_index J v ''content'')"

section \<open>The object\<close>

text \<open>
  Every report class uses \<open>modelName\<close> and \<open>tableName\<close>, which the base class no longer declares: the
  constructors set \<open>tableName\<close>, and \<open>modelName\<close> is whatever the object was given. A report class
  adds its own members to this record; \<open>root\<close>, which the base class keeps, is passed along.
\<close>

record report = DataInfoBase +
  modelName :: string
  tableName :: string

definition report_ctor ::
  "('v, 'z) json_access_scheme \<Rightarrow> string \<Rightarrow> string \<Rightarrow> string \<Rightarrow> fault + report" where
  "report_ctor J model table jsonString = bindE (DataInfoBase_ctor J jsonString)
    (\<lambda>b. Inr (DataInfoBase.extend b (report.fields model table)))"

text \<open>The values every statement starts with, and the ones it ends with.\<close>

definition head_nums :: "'a DataInfoBase_scheme \<Rightarrow> sql_val list" where
  "head_nums d = [Num (unat (systemID d)), Str (systemIP d), Num (unat (mainCMD d)),
     Num (unat (subCMD d)), Str (evidenceID d), Num (unat (msgVersion d)), Str (submittime d)]"

definition head_texts :: "'a DataInfoBase_scheme \<Rightarrow> sql_val list" where
  "head_texts d = [Str (nat_str (unat (systemID d))), Str (systemIP d), Str (nat_str (unat (mainCMD d))),
     Str (nat_str (unat (subCMD d))), Str (evidenceID d), Str (nat_str (unat (msgVersion d))),
     Str (submittime d)]"

definition tail_vals :: "'a DataInfoBase_scheme \<Rightarrow> sql_val list" where
  "tail_vals d = [Str (dataHash d), Str (datasign d), Str (randomidentification d)]"

lemmas report_vals_defs = head_nums_def head_texts_def tail_vals_def

definition head_columns :: "string list" where
  "head_columns = [''systemID'', ''systemIP'', ''mainCMD'', ''subCMD'', ''evidenceID'', ''msgVersion'',
     ''submittime'']"

definition tail_columns :: "string list" where
  "tail_columns = [''dataHash'', ''datasign'', ''randomidentification'']"

lemmas report_columns_defs = head_columns_def tail_columns_def

text \<open>The text is one INSERT that gives each column its value, in order.\<close>

definition says_insert :: "string \<Rightarrow> string \<Rightarrow> string \<Rightarrow> string list \<Rightarrow> sql_val list \<Rightarrow> bool" where
  "says_insert sql schema table cols vals \<longleftrightarrow>
    length cols = length vals \<and> sql_lex sql = Some (insert_tokens schema table cols (map val_tok vals))"

text \<open>
  Each member \<open>k\<close> of \<open>ks\<close>, read from the document in the style of the class, is the text the
  column of the same name gets.
\<close>

definition stores :: "(string \<Rightarrow> fault + string) \<Rightarrow> string list \<Rightarrow> sql_val list \<Rightarrow> string list \<Rightarrow> bool" where
  "stores read cols vals ks \<longleftrightarrow> (\<forall>k \<in> set ks. \<exists>s. read k = Inr s \<and> (k, Str s) \<in> set (zip cols vals))"

text \<open>The names and the texts of a statement cannot end their quotes early.\<close>

definition names_ok :: "'a report_scheme \<Rightarrow> bool" where
  "names_ok d \<longleftrightarrow> dq \<notin> set (modelName d) \<and> dq \<notin> set (tableName d)"

definition values_ok :: "sql_val list \<Rightarrow> bool" where
  "values_ok vs \<longleftrightarrow> (\<forall>v \<in> set vs. val_ok v)"

text \<open>
  From the document to the database: whenever the members of a report have been read (\<open>turn\<close>, the
  result of \<open>TurnStr2Obj\<close>) and its texts have no single quotes, \<open>TurnStr2Obj\<close> has returned
  \<open>result\<close>, the statement is one INSERT into the report's table, and every text column of \<open>ks\<close>
  gets the member of the same name.
\<close>

definition report_flow ::
  "(fault + bool \<times> 'a report_scheme) \<Rightarrow> bool \<Rightarrow> ('a report_scheme \<Rightarrow> string) \<Rightarrow> string list
    \<Rightarrow> ('a report_scheme \<Rightarrow> sql_val list) \<Rightarrow> report \<Rightarrow> (fault + 'v)
    \<Rightarrow> ('v \<Rightarrow> string \<Rightarrow> fault + string) \<Rightarrow> string list \<Rightarrow> bool" where
  "report_flow turn result stmt cols vals r doc read ks \<longleftrightarrow>
    (\<forall>b d. turn = Inr (b, d) \<and> values_ok (vals d) \<longrightarrow>
      b = result \<and> says_insert (stmt d) (modelName r) (tableName r) cols (vals d)
      \<and> (\<exists>content. doc = Inr content \<and> stores (read content) cols (vals d) ks))"

lemma report_flowD:
  assumes "report_flow turn result stmt cols vals r doc read ks" "turn = Inr (b, d)" "values_ok (vals d)"
  shows "b = result" "says_insert (stmt d) (modelName r) (tableName r) cols (vals d)"
  using assms by (auto simp: report_flow_def)

section \<open>The output of DisplayData\<close>

text \<open>A line of output: the label, given as the octets of its UTF-8 text, and the value.\<close>

definition octets :: "nat list \<Rightarrow> string" where
  "octets bs = map char_of bs"

definition out_line :: "string \<Rightarrow> string \<Rightarrow> string" where
  "out_line label v = label @ v @ [CHR 0x0A]"

definition DisPlayCommonData :: "'a DataInfoBase_scheme \<Rightarrow> string" where
  "DisPlayCommonData d =
    out_line (octets [231, 179, 187, 231, 187, 159] @ ''ID: '') (nat_str (unat (systemID d)))
    @ out_line (octets [231, 179, 187, 231, 187, 159] @ ''IP: '') (systemIP d)
    @ out_line (octets [228, 184, 187, 229, 145, 189, 228, 187, 164] @ '': '') (nat_str (unat (mainCMD d)))
    @ out_line (octets [229, 173, 144, 229, 145, 189, 228, 187, 164] @ '': '') (nat_str (unat (subCMD d)))
    @ out_line (octets [232, 175, 129, 230, 141, 174] @ ''ID: '') (evidenceID d)
    @ out_line (octets [230, 182, 136, 230, 129, 175, 231, 137, 136, 230, 156, 172] @ '': '') (nat_str (unat (msgVersion d)))
    @ out_line (octets [230, 143, 144, 228, 186, 164, 230, 151, 182, 233, 151, 180] @ '': '') (submittime d)
    @ out_line (octets [230, 149, 176, 230, 141, 174, 229, 147, 136, 229, 184, 140] @ '': '') (dataHash d)
    @ out_line (octets [233, 152, 178, 228, 188, 170, 229, 134, 133, 229, 174, 185, 231, 173, 190, 229, 144, 141] @ '': '') (datasign d)
    @ out_line (octets [233, 154, 143, 230, 156, 186, 230, 160, 135, 232, 175, 134] @ '': '') (randomidentification d)"

section \<open>Lemmas\<close>

lemma lookup_agreesE:
  assumes "access_contract J" "isObject J v"
  obtains b w where "isMember J v k = Inr b" "json_index J v k = Inr w"
    "\<And>x. json_get J v k x = Inr (if b then w else x)" "b \<or> null_reads J w"
  using assms unfolding access_contract_def lookup_agrees_def by meson

lemma member_string_index:
  assumes "access_contract J" "isObject J v"
  shows "member_string J v k = index_string J v k" "get_string J v k '''' = index_string J v k"
proof -
  obtain b w where w: "isMember J v k = Inr b" "json_index J v k = Inr w"
    "\<And>x. json_get J v k x = Inr (if b then w else x)" "b \<or> null_reads J w"
    using lookup_agreesE [OF assms] by metis
  have "asString J (of_string_value J '''') = Inr ''''"
    using assms(1) by (simp add: access_contract_def json_contract_def)
  then show "member_string J v k = index_string J v k" "get_string J v k '''' = index_string J v k"
    using w by (auto simp: member_string_def index_string_def get_string_def null_reads_def)
qed

lemma member_uint_index:
  assumes "access_contract J" "isObject J v"
  shows "member_uint J v k = index_uint J v k"
    "member_uint J v k = Inr i \<Longrightarrow> i < 2 ^ 31 - 1 \<Longrightarrow> get_int J v k 0 = Inr i"
proof -
  obtain b w where w: "isMember J v k = Inr b" "json_index J v k = Inr w"
    "\<And>x. json_get J v k x = Inr (if b then w else x)" "b \<or> null_reads J w"
    using lookup_agreesE [OF assms] by metis
  have "asInt J (of_int_value J 0) = Inr 0"
    using assms(1) by (simp add: access_contract_def json_contract_def)
  moreover have "asUInt J w = Inr i \<Longrightarrow> i < 2 ^ 31 - 1 \<Longrightarrow> asInt J w = Inr i"
    using assms(1) by (simp add: access_contract_def)
  ultimately show "member_uint J v k = index_uint J v k"
    "member_uint J v k = Inr i \<Longrightarrow> i < 2 ^ 31 - 1 \<Longrightarrow> get_int J v k 0 = Inr i"
    using w by (auto simp: member_uint_def index_uint_def get_int_def null_reads_def split: if_splits)
qed

lemma report_ctor_Inr:
  assumes "report_ctor J model table s = Inr r"
  shows "modelName r = model" "tableName r = table" "DataInfoBase_ctor J s = Inr (DataInfoBase.truncate r)"
  using assms
  by (auto simp: report_ctor_def bindE_Inr DataInfoBase.defs report.defs)

lemma vals_text_even: "values_ok vs \<Longrightarrow> even (count_list (vals_text vs) sq)"
proof -
  have val: "even (count_list (val_text v) sq)" if "val_ok v" for v
  proof (cases v)
    case (Raw t)
    then have "sq \<notin> set t"
      using that by (auto simp: is_word_def)
    then show ?thesis
      using Raw by (simp add: count_notin)
  qed (use that in \<open>simp_all add: count_notin\<close>)
  show "values_ok vs \<Longrightarrow> even (count_list (vals_text vs) sq)"
    using val by (induction vs rule: vals_text.induct) (auto simp: values_ok_def)
qed

lemma vals_text_plain:
  "\<forall>v \<in> set vs. c \<notin> set (val_text v) \<Longrightarrow> c \<noteq> CHR '','' \<Longrightarrow> c \<noteq> CHR '' '' \<Longrightarrow> c \<notin> set (vals_text vs)"
  by (induction vs rule: vals_text.induct) auto

text \<open>
  A document whose \<open>data\<close> member is an object, the only kind the classes read their own members
  from, is refused by the constructor of the base class, which reads \<open>data\<close> as a text.
\<close>

lemma nested_data_refused:
  assumes "access_contract J" "parseFromStream J s = Some root" "isObject J root"
    "json_index J root ''data'' = Inr v" "isMember J root ''data'' = Inr True" "isObject J v"
  shows "\<exists>e. report_ctor J model table s = Inl e"
proof -
  have "json_get J root ''data'' x = Inr v" for x
    using assms(1,3,4,5) by (elim lookup_agreesE [of J root "''data''"]) auto
  then have "get_string J root ''data'' ''NULL'' = Inl JsonError"
    using assms(1,6) by (simp add: get_string_def access_contract_def)
  then have "DataInfoBase_ctor J s \<noteq> Inr d" for d
    using assms(2) SetCommonData_Inr(8) [of J root d] by (auto simp: DataInfoBase_ctor_def InitJsonReader_def)
  then show ?thesis
    by (cases "DataInfoBase_ctor J s") (auto simp: report_ctor_def)
qed

section \<open>What a class has to provide\<close>

text \<open>
  A report class is its statement and its values: if the statement of a regular report is the
  shared shape over the class's fixed texts and values, the database reads it as the INSERT it
  should be.
\<close>

locale report_statement = insert_header pre mid cols
  for pre :: string and mid :: string and cols :: "string list" +
  fixes stmt :: "'a report_scheme \<Rightarrow> string"
    and vals :: "'a report_scheme \<Rightarrow> sql_val list"
    and regular :: "'a report_scheme \<Rightarrow> bool"
  assumes shape: "regular d \<Longrightarrow> stmt d = pre @ dq # modelName d @ dq # CHR ''.'' # dq # tableName d @ dq # mid
                    @ vals_text (vals d) @ '');''"
    and count: "length (vals d) = length cols"
    and some_value: "vals d \<noteq> []"
begin

lemma says:
  assumes "regular d" "names_ok d" "values_ok (vals d)"
  shows "says_insert (stmt d) (modelName d) (tableName d) cols (vals d)"
  using statement_lex [of "modelName d" "tableName d" "vals d"] assms count [of d] some_value [of d]
  by (simp add: says_insert_def shape names_ok_def values_ok_def)

lemma flow:
  assumes "\<And>b d. turn = Inr (b, d) \<Longrightarrow> b = result \<and> modelName d = modelName r \<and> tableName d = tableName r
      \<and> regular d \<and> (\<exists>content. doc = Inr content \<and> stores (read content) cols (vals d) ks)"
    and "names_ok r"
  shows "report_flow turn result stmt cols vals r doc read ks"
  unfolding report_flow_def
proof (intro allI impI, elim conjE)
  fix b d
  assume "turn = Inr (b, d)" "values_ok (vals d)"
  then show "b = result \<and> says_insert (stmt d) (modelName r) (tableName r) cols (vals d)
      \<and> (\<exists>content. doc = Inr content \<and> stores (read content) cols (vals d) ks)"
    using assms(1) [of b d] assms(2) says [of d] by (simp add: names_ok_def)
qed

text \<open>A text with an odd number of single quotes leaves the rest of the statement unreadable.\<close>

lemma stuck:
  assumes "regular d" "names_ok d" "vals d = us @ Str s # ws" "us \<noteq> []" "ws \<noteq> []"
    "values_ok us" "values_ok ws" "odd (count_list s sq)" "\<forall>v \<in> set (Str s # ws). dq \<notin> set (val_text v)"
  shows "sql_lex (stmt d) = None"
proof -
  let ?p = "pre @ dq # modelName d @ dq # CHR ''.'' # dq # tableName d @ dq # mid @ vals_text us @ '', ''"
  let ?r = "vals_text (Str s # ws) @ '');''"
  have "stmt d = ?p @ ?r"
    using assms(1,3,4) by (simp add: shape vals_text_append)
  moreover have "dq \<notin> set ?r"
    using vals_text_plain [OF assms(9)] by simp
  moreover have "odd (count_list ?r sq)"
    using vals_text_even [OF assms(7)] assms(5,8) by (cases ws) auto
  moreover obtain ts where "lexes ?p ts"
    using statement_prefix [of "modelName d" "tableName d" us] assms(2,4,6)
    by (auto simp: names_ok_def values_ok_def)
  ultimately show ?thesis
    by (metis lexes_stuck)
qed

end

section \<open>An instance of the library\<close>

fun sample_index :: "json \<Rightarrow> string \<Rightarrow> fault + json" where
  "sample_index (JObject ms) k = Inr (case map_of ms k of None \<Rightarrow> JNull | Some v \<Rightarrow> v)"
| "sample_index JNull k = Inr JNull"
| "sample_index v k = Inl JsonError"

fun sample_isMember :: "json \<Rightarrow> string \<Rightarrow> fault + bool" where
  "sample_isMember (JObject ms) k = Inr (map_of ms k \<noteq> None)"
| "sample_isMember JNull k = Inr False"
| "sample_isMember v k = Inl JsonError"

fun sample_asUInt :: "json \<Rightarrow> fault + int" where
  "sample_asUInt (JInt i) = (if 0 \<le> i \<and> i < 2 ^ 32 then Inr i else Inl JsonError)"
| "sample_asUInt JNull = Inr 0"
| "sample_asUInt v = Inl JsonError"

fun sample_members :: "json \<Rightarrow> string list" where
  "sample_members (JObject ms) = remdups (map fst ms)"
| "sample_members v = []"

fun sample_isObject :: "json \<Rightarrow> bool" where
  "sample_isObject (JObject ms) = True"
| "sample_isObject v = False"

definition sample_access :: "json \<Rightarrow> json json_access" where
  "sample_access doc = \<lparr>parseFromStream = (\<lambda>s. if s = '''' \<or> s = ''dd'' then None else Some doc),
     json_get = sample_get, of_int_value = JInt, of_string_value = JString,
     asInt = sample_asInt, asString = sample_asString, json_index = sample_index,
     isMember = sample_isMember, asUInt = sample_asUInt, isObject = sample_isObject,
     getMemberNames = sample_members\<rparr>"

lemma sample_access_contract: "access_contract (sample_access doc)"
proof -
  have "- (2 ^ 31) \<le> i \<and> i < 2 ^ 31" if "sample_asInt v = Inr i" for v i
    using that by (cases v) (auto split: if_splits)
  moreover have "0 \<le> i \<and> i < 2 ^ 32 \<and> (i < 2 ^ 31 - 1 \<longrightarrow> sample_asInt v = Inr i)"
    if "sample_asUInt v = Inr i" for v i
    using that by (cases v) (auto split: if_splits)
  moreover have "lookup_agrees (sample_access doc) v k" if "sample_isObject v" for v k
    using that by (cases v) (auto simp: lookup_agrees_def sample_access_def null_reads_def split: option.splits)
  moreover have "sample_asString v = Inl JsonError" if "sample_isObject v" for v
    using that by (cases v) auto
  ultimately show ?thesis
    by (auto simp: access_contract_def json_contract_def sample_access_def)
qed

text \<open>An object of a report class as the factory makes it: it knows the names of its tables.\<close>

definition sample_object :: "string \<Rightarrow> report" where
  "sample_object table = DataInfoBase.extend sample_report (report.fields ''TEST_EXCEPTION'' table)"

lemma sample_object_names: "dq \<notin> set table \<Longrightarrow> names_ok (sample_object table)"
  by (simp add: names_ok_def sample_object_def DataInfoBase.defs report.defs)

section \<open>Properties\<close>

text \<open>
  The three styles of reading a member are the same function: on an object,
  \<open>isMember(k) ? v[k].asString() : ""\<close>, \<open>get(k, "").asString()\<close> and \<open>v[k].asString()\<close> give the same
  text or throw alike, and so do the unsigned readings; \<open>get(k, 0).asInt()\<close> agrees with them on
  every number that fits.
\<close>

theorem reading_styles:
  assumes "access_contract J" "isObject J v"
  shows "member_string J v k = index_string J v k \<and> get_string J v k '''' = index_string J v k
    \<and> member_uint J v k = index_uint J v k
    \<and> (\<forall>i. member_uint J v k = Inr i \<and> i < 2 ^ 31 - 1 \<longrightarrow> get_int J v k 0 = Inr i)"
  using member_string_index [OF assms] member_uint_index [OF assms] by blast

lemma reading_styles_witness:
  "member_string (sample_access JNull) (JObject [(''a'', JString ''x'')]) ''b'' = Inr ''''
   \<and> get_int (sample_access JNull) (JObject [(''a'', JInt 5)]) ''a'' 0 = Inr 5"
proof
  have "isObject (sample_access JNull) (JObject ms)" for ms
    by (simp add: sample_access_def)
  note styles = reading_styles [OF sample_access_contract this]
  show "member_string (sample_access JNull) (JObject [(''a'', JString ''x'')]) ''b'' = Inr ''''"
    using styles [of "[(''a'', JString ''x'')]" "''b''"]
    by (simp add: index_string_def sample_access_def)
  show "get_int (sample_access JNull) (JObject [(''a'', JInt 5)]) ''a'' 0 = Inr 5"
    using styles [of "[(''a'', JInt 5)]" "''a''"]
    by (simp add: member_uint_def sample_access_def)
qed

end
