(* ===== verification/Reports_Stream.thy ===== *)
theory Reports_Stream
  imports Report_Json
begin

text \<open>
  The report classes of src/src/data/DMdata that build their statement with a stringstream, or
  write numbers without quotes: per class its members, the constructor, \<open>DisplayData\<close> (the text it
  prints), \<open>TurnStr2Obj\<close> (its result and the object after it) and \<open>GetInserDataInOrder\<close>, and the
  interpretation of \<open>report_statement\<close> that says what the statement tells the database.
\<close>

section \<open>CDelData\<close>

text \<open>
  src/src/data/DMdata/DelData.h and .cpp: a deletion was not carried out as ordered (0x4120).
\<close>

record CDelData = report +
  DataType :: "16 word"
  infoID :: string
  deleteInstruction :: string
  deletePerformer :: string
  deletePerformTime :: string
  timeout :: string

definition CDelData_ctor ::
  "('v, 'z) json_access_scheme \<Rightarrow> string \<Rightarrow> string \<Rightarrow> fault + CDelData" where
  "CDelData_ctor J model jsonString = bindE (report_ctor J model ''delete_UnOrder'' jsonString)
    (\<lambda>r. Inr (report.extend r (CDelData.fields 0 '''' '''' '''' '''' '''')))"

definition CDelData_DisplayData :: "CDelData \<Rightarrow> string" where
  "CDelData_DisplayData d =
    DisPlayCommonData d
    @ out_line ''DataType: '' (nat_str (unat (DataType d)))
    @ out_line ''infoID: '' (infoID d)
    @ out_line ''deleteInstruction: '' (deleteInstruction d)
    @ out_line ''deletePerformer: '' (deletePerformer d)
    @ out_line ''deletePerformTime: '' (deletePerformTime d)
    @ out_line ''timeout: '' (timeout d)"

definition CDelData_TurnStr2Obj ::
  "('v, 'z) json_access_scheme \<Rightarrow> 'v \<Rightarrow> report \<Rightarrow> fault + bool \<times> CDelData" where
  "CDelData_TurnStr2Obj J root r =
    bindE (json_index J root ''data'') (\<lambda>jsonData.
    bindE (member_uint J jsonData ''DataType'') (\<lambda>v_DataType.
    bindE (json_index J jsonData ''content'') (\<lambda>content.
    bindE (member_string J content ''infoID'') (\<lambda>v_infoID.
    bindE (member_string J content ''deleteInstruction'') (\<lambda>v_deleteInstruction.
    bindE (member_string J content ''deletePerformer'') (\<lambda>v_deletePerformer.
    bindE (member_string J content ''deletePerformTime'') (\<lambda>v_deletePerformTime.
    bindE (member_string J content ''timeout'') (\<lambda>v_timeout.
    Inr (True, report.extend r (CDelData.fields (word_of_int v_DataType) v_infoID v_deleteInstruction
        v_deletePerformer v_deletePerformTime v_timeout))))))))))"

definition CDelData_GetInserDataInOrder :: "CDelData \<Rightarrow> string" where
  "CDelData_GetInserDataInOrder d =
    ''INSERT INTO '' @ [dq] @ modelName d @ [dq] @ ''.'' @ [dq] @ tableName d @ [dq] @ '' (''
    @ ''systemID, systemIP, mainCMD, subCMD, evidenceID, msgVersion, submittime, ''
    @ ''DataType, infoID, deleteInstruction, deletePerformer, deletePerformTime, timeout, ''
    @ ''dataHash, datasign, randomidentification) VALUES (''
    @ nat_str (unat (systemID d)) @ '', ''
    @ [sq] @ systemIP d @ [sq] @ '', ''
    @ nat_str (unat (mainCMD d)) @ '', ''
    @ nat_str (unat (subCMD d)) @ '', ''
    @ [sq] @ evidenceID d @ [sq] @ '', ''
    @ nat_str (unat (msgVersion d)) @ '', ''
    @ [sq] @ submittime d @ [sq] @ '', ''
    @ nat_str (unat (DataType d)) @ '', ''
    @ [sq] @ infoID d @ [sq] @ '', ''
    @ [sq] @ deleteInstruction d @ [sq] @ '', ''
    @ [sq] @ deletePerformer d @ [sq] @ '', ''
    @ [sq] @ deletePerformTime d @ [sq] @ '', ''
    @ [sq] @ timeout d @ [sq] @ '', ''
    @ [sq] @ dataHash d @ [sq] @ '', ''
    @ [sq] @ datasign d @ [sq] @ '', ''
    @ [sq] @ randomidentification d @ [sq] @ '');''"

definition CDelData_columns :: "string list" where
  "CDelData_columns = head_columns @ [''DataType'', ''infoID'', ''deleteInstruction'', ''deletePerformer'',
      ''deletePerformTime'', ''timeout''] @ tail_columns"

definition CDelData_vals :: "CDelData \<Rightarrow> sql_val list" where
  "CDelData_vals d = head_nums d @ [Num (unat (DataType d)), Str (infoID d), Str (deleteInstruction d),
      Str (deletePerformer d), Str (deletePerformTime d), Str (timeout d)] @ tail_vals d"

interpretation CDelData_sql: report_statement "''INSERT INTO ''"
  "'' (systemID, systemIP, mainCMD, subCMD, evidenceID, msgVersion, submittime, DataType, infoID, deleteInstruction, deletePerformer, deletePerformTime, timeout, dataHash, datasign, randomidentification) VALUES (''"
  CDelData_columns CDelData_GetInserDataInOrder CDelData_vals "\<lambda>_. True"
  by unfold_locales
    (simp add: CDelData_GetInserDataInOrder_def CDelData_vals_def CDelData_columns_def report_vals_defs report_columns_defs is_punct_def is_space_def; fail
     | code_simp)+

lemma CDelData_flow:
  assumes "names_ok r"
  shows "report_flow (CDelData_TurnStr2Obj J root r) True CDelData_GetInserDataInOrder CDelData_columns
      CDelData_vals r (data_content J root) (member_string J)
      [''infoID'', ''deleteInstruction'', ''deletePerformer'', ''deletePerformTime'', ''timeout'']"
  using assms
  by (intro CDelData_sql.flow)
    (auto simp: CDelData_TurnStr2Obj_def data_content_def bindE_Inr report.defs CDelData.defs stores_def
      CDelData_columns_def CDelData_vals_def report_vals_defs report_columns_defs)

section \<open>CDelCopyData\<close>

text \<open>
  src/src/data/DMdata/DelCopyData.h and .cpp: deleting the copies failed.
\<close>

record CDelCopyData = report +
  DataType :: "16 word"
  globalID :: string
  deleteInstruction :: string
  deletePerformer :: string
  deletePerformTime :: string
  deleteControlSet :: string
  deleteDupResult :: string

definition CDelCopyData_ctor ::
  "('v, 'z) json_access_scheme \<Rightarrow> string \<Rightarrow> string \<Rightarrow> fault + report" where
  "CDelCopyData_ctor J model jsonString = report_ctor J model ''delete_DupFail'' jsonString"

definition CDelCopyData_DisplayData :: "CDelCopyData \<Rightarrow> string" where
  "CDelCopyData_DisplayData d =
    DisPlayCommonData d
    @ out_line (octets [230, 149, 176, 230, 141, 174] @ '':'') ''''
    @ out_line ''  DataType: '' (nat_str (unat (DataType d)))
    @ out_line ''  infoID: '' (globalID d)
    @ out_line ''  deleteInstruction: '' (deleteInstruction d)
    @ out_line ''  deletePerformer: '' (deletePerformer d)
    @ out_line ''  deletePerformTime: '' (deletePerformTime d)
    @ out_line ''  deleteControlSet: '' (deleteControlSet d)
    @ out_line ''  deleteDupResult: '' (deleteDupResult d)"

definition CDelCopyData_TurnStr2Obj ::
  "('v, 'z) json_access_scheme \<Rightarrow> 'v \<Rightarrow> report \<Rightarrow> fault + bool \<times> CDelCopyData" where
  "CDelCopyData_TurnStr2Obj J root r =
    bindE (json_index J root ''data'') (\<lambda>jsonData.
    bindE (member_uint J jsonData ''DataType'') (\<lambda>v_DataType.
    bindE (json_index J jsonData ''content'') (\<lambda>content.
    bindE (member_string J content ''globalID'') (\<lambda>v_globalID.
    bindE (member_string J content ''deleteInstruction'') (\<lambda>v_deleteInstruction.
    bindE (member_string J content ''deletePerformer'') (\<lambda>v_deletePerformer.
    bindE (member_string J content ''deletePerformTime'') (\<lambda>v_deletePerformTime.
    bindE (member_string J content ''deleteControlSet'') (\<lambda>v_deleteControlSet.
    bindE (member_string J content ''deleteDupResult'') (\<lambda>v_deleteDupResult.
    Inr (True, report.extend r (CDelCopyData.fields (word_of_int v_DataType) v_globalID v_deleteInstruction
        v_deletePerformer v_deletePerformTime v_deleteControlSet v_deleteDupResult)))))))))))"

definition CDelCopyData_GetInserDataInOrder :: "CDelCopyData \<Rightarrow> string" where
  "CDelCopyData_GetInserDataInOrder d =
    ''INSERT INTO '' @ [dq] @ modelName d @ [dq] @ ''.'' @ [dq] @ tableName d @ [dq] @ '' (''
    @ ''systemID, systemIP, mainCMD, subCMD, evidenceID, msgVersion, submittime, ''
    @ ''DataType, globalID, deleteInstruction, deletePerformer, deletePerformTime, deleteControlSet, deleteDupResult, ''
    @ ''dataHash, datasign, randomidentification) VALUES (''
    @ nat_str (unat (systemID d)) @ '', ''
    @ [sq] @ systemIP d @ [sq] @ '', ''
    @ nat_str (unat (mainCMD d)) @ '', ''
    @ nat_str (unat (subCMD d)) @ '', ''
    @ [sq] @ evidenceID d @ [sq] @ '', ''
    @ nat_str (unat (msgVersion d)) @ '', ''
    @ [sq] @ submittime d @ [sq] @ '', ''
    @ nat_str (unat (DataType d)) @ '', ''
    @ [sq] @ globalID d @ [sq] @ '', ''
    @ [sq] @ deleteInstruction d @ [sq] @ '', ''
    @ [sq] @ deletePerformer d @ [sq] @ '', ''
    @ [sq] @ deletePerformTime d @ [sq] @ '', ''
    @ [sq] @ deleteControlSet d @ [sq] @ '', ''
    @ [sq] @ deleteDupResult d @ [sq] @ '', ''
    @ [sq] @ dataHash d @ [sq] @ '', ''
    @ [sq] @ datasign d @ [sq] @ '', ''
    @ [sq] @ randomidentification d @ [sq] @ '');''"

definition CDelCopyData_columns :: "string list" where
  "CDelCopyData_columns = head_columns @ [''DataType'', ''globalID'', ''deleteInstruction'',
      ''deletePerformer'', ''deletePerformTime'', ''deleteControlSet'', ''deleteDupResult''] @ tail_columns"

definition CDelCopyData_vals :: "CDelCopyData \<Rightarrow> sql_val list" where
  "CDelCopyData_vals d = head_nums d @ [Num (unat (DataType d)), Str (globalID d), Str (deleteInstruction d),
      Str (deletePerformer d), Str (deletePerformTime d), Str (deleteControlSet d), Str (deleteDupResult d)]
      @ tail_vals d"

interpretation CDelCopyData_sql: report_statement "''INSERT INTO ''"
  "'' (systemID, systemIP, mainCMD, subCMD, evidenceID, msgVersion, submittime, DataType, globalID, deleteInstruction, deletePerformer, deletePerformTime, deleteControlSet, deleteDupResult, dataHash, datasign, randomidentification) VALUES (''"
  CDelCopyData_columns CDelCopyData_GetInserDataInOrder CDelCopyData_vals "\<lambda>_. True"
  by unfold_locales
    (simp add: CDelCopyData_GetInserDataInOrder_def CDelCopyData_vals_def CDelCopyData_columns_def report_vals_defs report_columns_defs is_punct_def is_space_def; fail
     | code_simp)+

lemma CDelCopyData_flow:
  assumes "names_ok r"
  shows "report_flow (CDelCopyData_TurnStr2Obj J root r) True CDelCopyData_GetInserDataInOrder CDelCopyData_columns
      CDelCopyData_vals r (data_content J root) (member_string J)
      [''globalID'', ''deleteInstruction'', ''deletePerformer'', ''deletePerformTime'',
       ''deleteControlSet'', ''deleteDupResult'']"
  using assms
  by (intro CDelCopyData_sql.flow)
    (auto simp: CDelCopyData_TurnStr2Obj_def data_content_def bindE_Inr report.defs CDelCopyData.defs stores_def
      CDelCopyData_columns_def CDelCopyData_vals_def report_vals_defs report_columns_defs)

section \<open>CNoticData\<close>

text \<open>
  src/src/data/DMdata/NoticData.h and .cpp: a deletion notice failed (0x4020). The key
  \<open>lastDomainId\<close> read here is not spelled like the column
  \<open>lastDomainID\<close>.
\<close>

record CNoticData = report +
  DataType :: "16 word"
  userID :: string
  infoID :: string
  sourceDomainID :: string
  nextDomainID :: string
  lastDomainID :: string
  deleteMethod :: string
  deleteDomainSet :: string
  deleteNotify :: string
  deleteNotifyCreateTime :: string
  deleteNotifyError :: string

definition CNoticData_ctor ::
  "('v, 'z) json_access_scheme \<Rightarrow> string \<Rightarrow> string \<Rightarrow> fault + report" where
  "CNoticData_ctor J model jsonString = report_ctor J model ''delete_NotificationConfirmationDiff'' jsonString"

definition CNoticData_DisplayData :: "CNoticData \<Rightarrow> string" where
  "CNoticData_DisplayData d =
    DisPlayCommonData d
    @ out_line (octets [230, 149, 176, 230, 141, 174] @ '':'') ''''
    @ out_line ''  DataType: '' (nat_str (unat (DataType d)))
    @ out_line ''  userID: '' (userID d)
    @ out_line ''  infoID: '' (infoID d)
    @ out_line ''  sourceDomainID: '' (sourceDomainID d)
    @ out_line ''  nextDomainID: '' (nextDomainID d)
    @ out_line ''  lastDomainID: '' (lastDomainID d)
    @ out_line ''  deleteMethod: '' (deleteMethod d)
    @ out_line ''  deleteDomainSet: '' (deleteDomainSet d)
    @ out_line ''  deleteNotify: '' (deleteNotify d)
    @ out_line ''  deleteNotifyCreateTime: '' (deleteNotifyCreateTime d)
    @ out_line ''  deleteNotifyError: '' (deleteNotifyError d)"

definition CNoticData_TurnStr2Obj ::
  "('v, 'z) json_access_scheme \<Rightarrow> 'v \<Rightarrow> report \<Rightarrow> fault + bool \<times> CNoticData" where
  "CNoticData_TurnStr2Obj J root r =
    bindE (json_index J root ''data'') (\<lambda>jsonData.
    bindE (member_uint J jsonData ''DataType'') (\<lambda>v_DataType.
    bindE (json_index J jsonData ''content'') (\<lambda>content.
    bindE (member_string J content ''userID'') (\<lambda>v_userID.
    bindE (member_string J content ''infoID'') (\<lambda>v_infoID.
    bindE (member_string J content ''sourceDomainID'') (\<lambda>v_sourceDomainID.
    bindE (member_string J content ''nextDomainID'') (\<lambda>v_nextDomainID.
    bindE (member_string J content ''lastDomainId'') (\<lambda>v_lastDomainID.
    bindE (member_string J content ''deleteMethod'') (\<lambda>v_deleteMethod.
    bindE (member_string J content ''deleteDomainSet'') (\<lambda>v_deleteDomainSet.
    bindE (member_string J content ''deleteNotify'') (\<lambda>v_deleteNotify.
    bindE (member_string J content ''deleteNotifyCreateTime'') (\<lambda>v_deleteNotifyCreateTime.
    bindE (member_string J content ''deleteNotifyError'') (\<lambda>v_deleteNotifyError.
    Inr (True, report.extend r (CNoticData.fields (word_of_int v_DataType) v_userID v_infoID v_sourceDomainID
        v_nextDomainID v_lastDomainID v_deleteMethod v_deleteDomainSet v_deleteNotify
        v_deleteNotifyCreateTime v_deleteNotifyError)))))))))))))))"

definition CNoticData_GetInserDataInOrder :: "CNoticData \<Rightarrow> string" where
  "CNoticData_GetInserDataInOrder d =
    ''INSERT INTO '' @ [dq] @ modelName d @ [dq] @ ''.'' @ [dq] @ tableName d @ [dq] @ '' (''
    @ ''systemID, systemIP, mainCMD, subCMD, evidenceID, msgVersion, submittime, ''
    @ ''DataType, userID, infoID, sourceDomainID, nextDomainID, lastDomainID, ''
    @ ''deleteMethod, deleteDomainSet, deleteNotify, deleteNotifyCreateTime, deleteNotifyError, ''
    @ ''dataHash, datasign, randomidentification) VALUES (''
    @ nat_str (unat (systemID d)) @ '', ''
    @ [sq] @ systemIP d @ [sq] @ '', ''
    @ nat_str (unat (mainCMD d)) @ '', ''
    @ nat_str (unat (subCMD d)) @ '', ''
    @ [sq] @ evidenceID d @ [sq] @ '', ''
    @ nat_str (unat (msgVersion d)) @ '', ''
    @ [sq] @ submittime d @ [sq] @ '', ''
    @ nat_str (unat (DataType d)) @ '', ''
    @ [sq] @ userID d @ [sq] @ '', ''
    @ [sq] @ infoID d @ [sq] @ '', ''
    @ [sq] @ sourceDomainID d @ [sq] @ '', ''
    @ [sq] @ nextDomainID d @ [sq] @ '', ''
    @ [sq] @ lastDomainID d @ [sq] @ '', ''
    @ [sq] @ deleteMethod d @ [sq] @ '', ''
    @ [sq] @ deleteDomainSet d @ [sq] @ '', ''
    @ [sq] @ deleteNotify d @ [sq] @ '', ''
    @ [sq] @ deleteNotifyCreateTime d @ [sq] @ '', ''
    @ [sq] @ deleteNotifyError d @ [sq] @ '', ''
    @ [sq] @ dataHash d @ [sq] @ '', ''
    @ [sq] @ datasign d @ [sq] @ '', ''
    @ [sq] @ randomidentification d @ [sq] @ '');''"

definition CNoticData_columns :: "string list" where
  "CNoticData_columns = head_columns @ [''DataType'', ''userID'', ''infoID'', ''sourceDomainID'',
      ''nextDomainID'', ''lastDomainID'', ''deleteMethod'', ''deleteDomainSet'', ''deleteNotify'',
      ''deleteNotifyCreateTime'', ''deleteNotifyError''] @ tail_columns"

definition CNoticData_vals :: "CNoticData \<Rightarrow> sql_val list" where
  "CNoticData_vals d = head_nums d @ [Num (unat (DataType d)), Str (userID d), Str (infoID d),
      Str (sourceDomainID d), Str (nextDomainID d), Str (lastDomainID d), Str (deleteMethod d),
      Str (deleteDomainSet d), Str (deleteNotify d), Str (deleteNotifyCreateTime d),
      Str (deleteNotifyError d)] @ tail_vals d"

interpretation CNoticData_sql: report_statement "''INSERT INTO ''"
  "'' (systemID, systemIP, mainCMD, subCMD, evidenceID, msgVersion, submittime, DataType, userID, infoID, sourceDomainID, nextDomainID, lastDomainID, deleteMethod, deleteDomainSet, deleteNotify, deleteNotifyCreateTime, deleteNotifyError, dataHash, datasign, randomidentification) VALUES (''"
  CNoticData_columns CNoticData_GetInserDataInOrder CNoticData_vals "\<lambda>_. True"
  by unfold_locales
    (simp add: CNoticData_GetInserDataInOrder_def CNoticData_vals_def CNoticData_columns_def report_vals_defs report_columns_defs is_punct_def is_space_def; fail
     | code_simp)+

lemma CNoticData_flow:
  assumes "names_ok r"
  shows "report_flow (CNoticData_TurnStr2Obj J root r) True CNoticData_GetInserDataInOrder CNoticData_columns
      CNoticData_vals r (data_content J root)
      (\<lambda>v k. member_string J v (if k = ''lastDomainID'' then ''lastDomainId'' else k))
      [''userID'', ''infoID'', ''sourceDomainID'', ''nextDomainID'', ''lastDomainID'', ''deleteMethod'',
       ''deleteDomainSet'', ''deleteNotify'', ''deleteNotifyCreateTime'', ''deleteNotifyError'']"
  using assms
  by (intro CNoticData_sql.flow)
    (auto simp: CNoticData_TurnStr2Obj_def data_content_def bindE_Inr report.defs CNoticData.defs stores_def
      CNoticData_columns_def CNoticData_vals_def report_vals_defs report_columns_defs)

section \<open>CUnCpareDelData\<close>

text \<open>
  src/src/data/DMdata/UnCpareDelData.h and .cpp: intention and request of a deletion differ.
\<close>

record CUnCpareDelData = report +
  DataType :: "16 word"
  infoID :: string
  deleteIntention :: string
  deleteRequest :: string
  deleteIntentiongRequestDiff :: string

definition CUnCpareDelData_ctor ::
  "('v, 'z) json_access_scheme \<Rightarrow> string \<Rightarrow> string \<Rightarrow> fault + report" where
  "CUnCpareDelData_ctor J model jsonString = report_ctor J model ''delete_IntentiongRequestDiff'' jsonString"

definition CUnCpareDelData_DisplayData :: "CUnCpareDelData \<Rightarrow> string" where
  "CUnCpareDelData_DisplayData d =
    DisPlayCommonData d
    @ out_line (octets [230, 149, 176, 230, 141, 174] @ '':'') ''''
    @ out_line (''  '' @ octets [229, 188, 130, 229, 184, 184, 231, 177, 187, 229, 158, 139, 228, 187, 163, 231, 160, 129] @ '': '') (nat_str (unat (DataType d)))
    @ out_line (''  '' @ octets [228, 191, 161, 230, 129, 175, 230, 160, 135, 232, 175, 134] @ '': '') (infoID d)
    @ out_line (''  '' @ octets [229, 136, 160, 233, 153, 164, 230, 132, 143, 229, 155, 190] @ '': '') (deleteIntention d)
    @ out_line (''  '' @ octets [229, 136, 160, 233, 153, 164, 232, 175, 183, 230, 177, 130] @ '': '') (deleteRequest d)
    @ out_line (''  '' @ octets [229, 136, 160, 233, 153, 164, 232, 175, 183, 230, 177, 130, 228, 184, 173, 229, 136, 160, 233, 153, 164, 230, 132, 143, 229, 155, 190, 228, 184, 141, 228, 184, 128, 232, 135, 180, 231, 154, 132, 232, 175, 180, 230, 152, 142] @ '': '') (deleteIntentiongRequestDiff d)"

definition CUnCpareDelData_TurnStr2Obj ::
  "('v, 'z) json_access_scheme \<Rightarrow> 'v \<Rightarrow> report \<Rightarrow> fault + bool \<times> CUnCpareDelData" where
  "CUnCpareDelData_TurnStr2Obj J root r =
    bindE (json_index J root ''data'') (\<lambda>jsonData.
    bindE (member_uint J jsonData ''DataType'') (\<lambda>v_DataType.
    bindE (bindE (json_index J jsonData ''content'') (\<lambda>v. member_string J v ''infoID'')) (\<lambda>v_infoID.
    bindE (bindE (json_index J jsonData ''content'') (\<lambda>v. member_string J v ''deleteIntention'')) (\<lambda>v_deleteIntention.
    bindE (bindE (json_index J jsonData ''content'') (\<lambda>v. member_string J v ''deleteRequest'')) (\<lambda>v_deleteRequest.
    bindE (bindE (json_index J jsonData ''content'') (\<lambda>v. member_string J v ''deleteIntentiongRequestDiff'')) (\<lambda>v_deleteIntentiongRequestDiff.
    Inr (True, report.extend r (CUnCpareDelData.fields (word_of_int v_DataType) v_infoID v_deleteIntention
        v_deleteRequest v_deleteIntentiongRequestDiff))))))))"

definition CUnCpareDelData_GetInserDataInOrder :: "CUnCpareDelData \<Rightarrow> string" where
  "CUnCpareDelData_GetInserDataInOrder d =
    ''INSERT INTO '' @ [dq] @ modelName d @ [dq] @ ''.'' @ [dq] @ tableName d @ [dq] @ '' (''
    @ ''systemID, systemIP, mainCMD, subCMD, evidenceID, msgVersion, submittime, ''
    @ ''DataType, infoID, deleteIntention, deleteRequest, deleteIntentiongRequestDiff, ''
    @ ''dataHash, datasign, randomidentification) VALUES (''
    @ nat_str (unat (systemID d)) @ '', ''
    @ [sq] @ systemIP d @ [sq] @ '', ''
    @ nat_str (unat (mainCMD d)) @ '', ''
    @ nat_str (unat (subCMD d)) @ '', ''
    @ [sq] @ evidenceID d @ [sq] @ '', ''
    @ nat_str (unat (msgVersion d)) @ '', ''
    @ [sq] @ submittime d @ [sq] @ '', ''
    @ nat_str (unat (DataType d)) @ '', ''
    @ [sq] @ infoID d @ [sq] @ '', ''
    @ [sq] @ deleteIntention d @ [sq] @ '', ''
    @ [sq] @ deleteRequest d @ [sq] @ '', ''
    @ [sq] @ deleteIntentiongRequestDiff d @ [sq] @ '', ''
    @ [sq] @ dataHash d @ [sq] @ '', ''
    @ [sq] @ datasign d @ [sq] @ '', ''
    @ [sq] @ randomidentification d @ [sq] @ '');''"

definition CUnCpareDelData_columns :: "string list" where
  "CUnCpareDelData_columns = head_columns @ [''DataType'', ''infoID'', ''deleteIntention'', ''deleteRequest'',
      ''deleteIntentiongRequestDiff''] @ tail_columns"

definition CUnCpareDelData_vals :: "CUnCpareDelData \<Rightarrow> sql_val list" where
  "CUnCpareDelData_vals d = head_nums d @ [Num (unat (DataType d)), Str (infoID d), Str (deleteIntention d),
      Str (deleteRequest d), Str (deleteIntentiongRequestDiff d)] @ tail_vals d"

interpretation CUnCpareDelData_sql: report_statement "''INSERT INTO ''"
  "'' (systemID, systemIP, mainCMD, subCMD, evidenceID, msgVersion, submittime, DataType, infoID, deleteIntention, deleteRequest, deleteIntentiongRequestDiff, dataHash, datasign, randomidentification) VALUES (''"
  CUnCpareDelData_columns CUnCpareDelData_GetInserDataInOrder CUnCpareDelData_vals "\<lambda>_. True"
  by unfold_locales
    (simp add: CUnCpareDelData_GetInserDataInOrder_def CUnCpareDelData_vals_def CUnCpareDelData_columns_def report_vals_defs report_columns_defs is_punct_def is_space_def; fail
     | code_simp)+

lemma CUnCpareDelData_flow:
  assumes "names_ok r"
  shows "report_flow (CUnCpareDelData_TurnStr2Obj J root r) True CUnCpareDelData_GetInserDataInOrder CUnCpareDelData_columns
      CUnCpareDelData_vals r (data_content J root) (member_string J)
      [''infoID'', ''deleteIntention'', ''deleteRequest'', ''deleteIntentiongRequestDiff'']"
  using assms
  by (intro CUnCpareDelData_sql.flow)
    (auto simp: CUnCpareDelData_TurnStr2Obj_def data_content_def bindE_Inr report.defs CUnCpareDelData.defs stores_def
      CUnCpareDelData_columns_def CUnCpareDelData_vals_def report_vals_defs report_columns_defs)

section \<open>CConsistData\<close>

text \<open>
  src/src/data/DMdata/ConsistData.h and .cpp: an inconsistent deletion (0x4224).
\<close>

record CConsistData = report +
  DataType :: "32 word"
  infoID :: string
  deleteIntention :: string
  classifyInformation :: string
  deleteAlg :: "32 word"
  deleteConsistencyDiff :: string

definition CConsistData_ctor ::
  "('v, 'z) json_access_scheme \<Rightarrow> string \<Rightarrow> string \<Rightarrow> fault + report" where
  "CConsistData_ctor J model jsonString = report_ctor J model ''delete_ConsistencyDiff'' jsonString"

definition CConsistData_DisplayData :: "CConsistData \<Rightarrow> string" where
  "CConsistData_DisplayData d =
    DisPlayCommonData d
    @ out_line (''  '' @ octets [230, 149, 176, 230, 141, 174, 231, 177, 187, 229, 158, 139] @ '': '') (nat_str (unat (DataType d)))
    @ out_line (''    '' @ octets [228, 191, 161, 230, 129, 175] @ ''ID: '') (infoID d)
    @ out_line (''    '' @ octets [229, 136, 160, 233, 153, 164, 230, 132, 143, 229, 155, 190] @ '': '') (deleteIntention d)
    @ out_line (''    '' @ octets [229, 136, 134, 231, 177, 187, 229, 136, 134, 231, 186, 167, 228, 191, 161, 230, 129, 175] @ '': '') (classifyInformation d)
    @ out_line (''    '' @ octets [229, 136, 160, 233, 153, 164, 231, 174, 151, 230, 179, 149] @ '': '') (nat_str (unat (deleteAlg d)))
    @ out_line (''    '' @ octets [229, 136, 160, 233, 153, 164, 228, 184, 128, 232, 135, 180, 230, 128, 167, 229, 188, 130, 229, 184, 184] @ '': '') (deleteConsistencyDiff d)"

definition CConsistData_TurnStr2Obj ::
  "('v, 'z) json_access_scheme \<Rightarrow> 'v \<Rightarrow> report \<Rightarrow> fault + bool \<times> CConsistData" where
  "CConsistData_TurnStr2Obj J root r =
    bindE (bindE (json_index J root ''data'') (\<lambda>v. index_uint J v ''DataType'')) (\<lambda>v_DataType.
    bindE (bindE (data_content J root) (\<lambda>v. index_string J v ''infoID'')) (\<lambda>v_infoID.
    bindE (bindE (data_content J root) (\<lambda>v. index_string J v ''deleteIntention'')) (\<lambda>v_deleteIntention.
    bindE (bindE (data_content J root) (\<lambda>v. index_string J v ''classifyInformation'')) (\<lambda>v_classifyInformation.
    bindE (bindE (data_content J root) (\<lambda>v. index_uint J v ''deleteAlg'')) (\<lambda>v_deleteAlg.
    bindE (bindE (data_content J root) (\<lambda>v. index_string J v ''deleteConsistencyDiff'')) (\<lambda>v_deleteConsistencyDiff.
    Inr (True, report.extend r (CConsistData.fields (word_of_int v_DataType) v_infoID v_deleteIntention
        v_classifyInformation (word_of_int v_deleteAlg) v_deleteConsistencyDiff))))))))"

definition CConsistData_GetInserDataInOrder :: "CConsistData \<Rightarrow> string" where
  "CConsistData_GetInserDataInOrder d =
    ''INSERT INTO  '' @ [dq] @ modelName d @ [dq] @ ''.'' @ [dq] @ tableName d @ [dq]
    @ '' (systemID, systemIP, mainCMD, subCMD, evidenceID, msgVersion, submittime, DataType, infoID, deleteIntention, classifyInformation, deleteAlg, deleteConsistencyDiff, dataHash, datasign, randomidentification) VALUES (''
    @ nat_str (unat (systemID d)) @ '', '' @ [sq] @ systemIP d @ [sq] @ '', '' @ nat_str (unat (mainCMD d))
    @ '', '' @ nat_str (unat (subCMD d)) @ '', '' @ [sq] @ evidenceID d @ [sq] @ '', ''
    @ nat_str (unat (msgVersion d)) @ '', '' @ [sq] @ submittime d @ [sq] @ '', ''
    @ nat_str (unat (DataType d)) @ '', '' @ [sq]
    @ infoID d @ [sq] @ '', '' @ [sq] @ deleteIntention d @ [sq] @ '', '' @ [sq] @ classifyInformation d
    @ [sq] @ '', '' @ nat_str (unat (deleteAlg d)) @ '', '' @ [sq] @ deleteConsistencyDiff d
    @ [sq] @ '', '' @ [sq] @ dataHash d @ [sq] @ '', '' @ [sq] @ datasign d @ [sq] @ '', '' @ [sq]
    @ randomidentification d @ [sq] @ '');''"

definition CConsistData_columns :: "string list" where
  "CConsistData_columns = head_columns @ [''DataType'', ''infoID'', ''deleteIntention'',
      ''classifyInformation'', ''deleteAlg'', ''deleteConsistencyDiff''] @ tail_columns"

definition CConsistData_vals :: "CConsistData \<Rightarrow> sql_val list" where
  "CConsistData_vals d = head_nums d @ [Num (unat (DataType d)), Str (infoID d), Str (deleteIntention d),
      Str (classifyInformation d), Num (unat (deleteAlg d)), Str (deleteConsistencyDiff d)] @ tail_vals d"

interpretation CConsistData_sql: report_statement "''INSERT INTO  ''"
  "'' (systemID, systemIP, mainCMD, subCMD, evidenceID, msgVersion, submittime, DataType, infoID, deleteIntention, classifyInformation, deleteAlg, deleteConsistencyDiff, dataHash, datasign, randomidentification) VALUES (''"
  CConsistData_columns CConsistData_GetInserDataInOrder CConsistData_vals "\<lambda>_. True"
  by unfold_locales
    (simp add: CConsistData_GetInserDataInOrder_def CConsistData_vals_def CConsistData_columns_def report_vals_defs report_columns_defs is_punct_def is_space_def; fail
     | code_simp)+

lemma CConsistData_flow:
  assumes "names_ok r"
  shows "report_flow (CConsistData_TurnStr2Obj J root r) True CConsistData_GetInserDataInOrder CConsistData_columns
      CConsistData_vals r (data_content J root) (index_string J)
      [''infoID'', ''deleteIntention'', ''classifyInformation'', ''deleteConsistencyDiff'']"
  using assms
  by (intro CConsistData_sql.flow)
    (auto simp: CConsistData_TurnStr2Obj_def data_content_def bindE_Inr report.defs CConsistData.defs stores_def
      CConsistData_columns_def CConsistData_vals_def report_vals_defs report_columns_defs)

section \<open>CUnTrigerDelData\<close>

text \<open>
  src/src/data/DMdata/UnTrigerDelData.h and .cpp: a deletion against its trigger (0x4222). Its
  \<open>TurnStr2Obj\<close> returns false although it has read every member.
\<close>

record CUnTrigerDelData = report +
  infoID :: string
  deleteRequest :: string
  deleteTriggers :: string
  deleteRequestTriggerDiff :: string

definition CUnTrigerDelData_ctor ::
  "('v, 'z) json_access_scheme \<Rightarrow> string \<Rightarrow> string \<Rightarrow> fault + report" where
  "CUnTrigerDelData_ctor J model jsonString = report_ctor J model ''delete_RequestTriggerDiff'' jsonString"

definition CUnTrigerDelData_DisplayData :: "CUnTrigerDelData \<Rightarrow> string" where
  "CUnTrigerDelData_DisplayData d =
    DisPlayCommonData d
    @ out_line (octets [230, 149, 176, 230, 141, 174] @ '':'') ''''
    @ out_line (''  '' @ octets [228, 191, 161, 230, 129, 175, 230, 160, 135, 232, 175, 134] @ '': '') (infoID d)
    @ out_line (''  '' @ octets [229, 136, 160, 233, 153, 164, 232, 175, 183, 230, 177, 130] @ '': '') (deleteRequest d)
    @ out_line (''  '' @ octets [229, 136, 160, 233, 153, 164, 232, 167, 166, 229, 143, 145, 230, 157, 161, 228, 187, 182] @ '': '') (deleteTriggers d)
    @ out_line (''  '' @ octets [229, 136, 160, 233, 153, 164, 232, 175, 183, 230, 177, 130, 228, 184, 142, 232, 167, 166, 229, 143, 145, 229, 183, 174, 229, 188, 130] @ '': '') (deleteRequestTriggerDiff d)"

definition CUnTrigerDelData_TurnStr2Obj ::
  "('v, 'z) json_access_scheme \<Rightarrow> 'v \<Rightarrow> report \<Rightarrow> fault + bool \<times> CUnTrigerDelData" where
  "CUnTrigerDelData_TurnStr2Obj J root r =
    bindE (bindE (data_content J root) (\<lambda>v. index_string J v ''infoID'')) (\<lambda>v_infoID.
    bindE (bindE (data_content J root) (\<lambda>v. index_string J v ''deleteRequest'')) (\<lambda>v_deleteRequest.
    bindE (bindE (data_content J root) (\<lambda>v. index_string J v ''deleteTriggers'')) (\<lambda>v_deleteTriggers.
    bindE (bindE (data_content J root) (\<lambda>v. index_string J v ''deleteRequestTriggerDiff'')) (\<lambda>v_deleteRequestTriggerDiff.
    Inr (False, report.extend r (CUnTrigerDelData.fields v_infoID v_deleteRequest v_deleteTriggers
        v_deleteRequestTriggerDiff))))))"

definition CUnTrigerDelData_GetInserDataInOrder :: "CUnTrigerDelData \<Rightarrow> string" where
  "CUnTrigerDelData_GetInserDataInOrder d =
    ''INSERT INTO  '' @ [dq] @ modelName d @ [dq] @ ''.'' @ [dq] @ tableName d @ [dq] @ '' (''
    @ ''systemID, systemIP, mainCMD, subCMD, evidenceID, msgVersion, submittime, ''
    @ ''infoID, deleteRequest, deleteTriggers, deleteRequestTriggerDiff, ''
    @ ''dataHash, datasign, randomidentification''
    @ '') VALUES (''
    @ nat_str (unat (systemID d)) @ '', ''
    @ [sq] @ systemIP d @ [sq] @ '', ''
    @ nat_str (unat (mainCMD d)) @ '', ''
    @ nat_str (unat (subCMD d)) @ '', ''
    @ [sq] @ evidenceID d @ [sq] @ '', ''
    @ nat_str (unat (msgVersion d)) @ '', ''
    @ [sq] @ submittime d @ [sq] @ '', ''
    @ [sq] @ infoID d @ [sq] @ '', ''
    @ [sq] @ deleteRequest d @ [sq] @ '', ''
    @ [sq] @ deleteTriggers d @ [sq] @ '', ''
    @ [sq] @ deleteRequestTriggerDiff d @ [sq] @ '', ''
    @ [sq] @ dataHash d @ [sq] @ '', ''
    @ [sq] @ datasign d @ [sq] @ '', ''
    @ [sq] @ randomidentification d @ [sq]
    @ '');''"

definition CUnTrigerDelData_columns :: "string list" where
  "CUnTrigerDelData_columns = head_columns @ [''infoID'', ''deleteRequest'', ''deleteTriggers'',
      ''deleteRequestTriggerDiff''] @ tail_columns"

definition CUnTrigerDelData_vals :: "CUnTrigerDelData \<Rightarrow> sql_val list" where
  "CUnTrigerDelData_vals d = head_nums d @ [Str (infoID d), Str (deleteRequest d), Str (deleteTriggers d),
      Str (deleteRequestTriggerDiff d)] @ tail_vals d"

interpretation CUnTrigerDelData_sql: report_statement "''INSERT INTO  ''"
  "'' (systemID, systemIP, mainCMD, subCMD, evidenceID, msgVersion, submittime, infoID, deleteRequest, deleteTriggers, deleteRequestTriggerDiff, dataHash, datasign, randomidentification) VALUES (''"
  CUnTrigerDelData_columns CUnTrigerDelData_GetInserDataInOrder CUnTrigerDelData_vals "\<lambda>_. True"
  by unfold_locales
    (simp add: CUnTrigerDelData_GetInserDataInOrder_def CUnTrigerDelData_vals_def CUnTrigerDelData_columns_def report_vals_defs report_columns_defs is_punct_def is_space_def; fail
     | code_simp)+

lemma CUnTrigerDelData_flow:
  assumes "names_ok r"
  shows "report_flow (CUnTrigerDelData_TurnStr2Obj J root r) False CUnTrigerDelData_GetInserDataInOrder CUnTrigerDelData_columns
      CUnTrigerDelData_vals r (data_content J root) (index_string J)
      [''infoID'', ''deleteRequest'', ''deleteTriggers'', ''deleteRequestTriggerDiff'']"
  using assms
  by (intro CUnTrigerDelData_sql.flow)
    (auto simp: CUnTrigerDelData_TurnStr2Obj_def data_content_def bindE_Inr report.defs CUnTrigerDelData.defs stores_def
      CUnTrigerDelData_columns_def CUnTrigerDelData_vals_def report_vals_defs report_columns_defs)

section \<open>Properties\<close>

text \<open>A document with every member, and a report made from it.\<close>

definition nested_document :: json where
  "nested_document = JObject [(''systemID'', JInt 7), (''data'', JObject [(''DataType'', JInt 2),
     (''content'', JObject [(''infoID'', JString ''i''), (''deleteInstruction'', JString ''del''),
       (''deletePerformer'', JString ''p''), (''deletePerformTime'', JString ''t'')])])]"

text \<open>
  C11: the six report classes that write numbers without quotes. From the JSON document to the
  database, for reports of which no value contains a single quote (the texts are not escaped) and no
  schema or table name a double quote: the statement is read as one INSERT into the table of the report
  that gives each column its value, in order, and every text column that is listed gets the text the
  document has under \<open>data.content\<close> and the column's name (the empty text if it has none). Exceptions,
  as the code has them: \<open>CUnTrigerDelData\<close> reads everything and yet reports failure, and the column
  \<open>lastDomainID\<close> of \<open>CNoticData\<close> gets the member \<open>lastDomainId\<close>, spelt otherwise than its column.
\<close>

theorem stream_reports:
  assumes "names_ok r"
  shows "report_flow (CDelData_TurnStr2Obj J root r) True CDelData_GetInserDataInOrder CDelData_columns
      CDelData_vals r (data_content J root) (member_string J)
      [''infoID'', ''deleteInstruction'', ''deletePerformer'', ''deletePerformTime'', ''timeout'']
    \<and> report_flow (CDelCopyData_TurnStr2Obj J root r) True CDelCopyData_GetInserDataInOrder CDelCopyData_columns
      CDelCopyData_vals r (data_content J root) (member_string J)
      [''globalID'', ''deleteInstruction'', ''deletePerformer'', ''deletePerformTime'',
       ''deleteControlSet'', ''deleteDupResult'']
    \<and> report_flow (CNoticData_TurnStr2Obj J root r) True CNoticData_GetInserDataInOrder CNoticData_columns
      CNoticData_vals r (data_content J root)
      (\<lambda>v k. member_string J v (if k = ''lastDomainID'' then ''lastDomainId'' else k))
      [''userID'', ''infoID'', ''sourceDomainID'', ''nextDomainID'', ''lastDomainID'', ''deleteMethod'',
       ''deleteDomainSet'', ''deleteNotify'', ''deleteNotifyCreateTime'', ''deleteNotifyError'']
    \<and> report_flow (CUnCpareDelData_TurnStr2Obj J root r) True CUnCpareDelData_GetInserDataInOrder CUnCpareDelData_columns
      CUnCpareDelData_vals r (data_content J root) (member_string J)
      [''infoID'', ''deleteIntention'', ''deleteRequest'', ''deleteIntentiongRequestDiff'']
    \<and> report_flow (CConsistData_TurnStr2Obj J root r) True CConsistData_GetInserDataInOrder CConsistData_columns
      CConsistData_vals r (data_content J root) (index_string J)
      [''infoID'', ''deleteIntention'', ''classifyInformation'', ''deleteConsistencyDiff'']
    \<and> report_flow (CUnTrigerDelData_TurnStr2Obj J root r) False CUnTrigerDelData_GetInserDataInOrder CUnTrigerDelData_columns
      CUnTrigerDelData_vals r (data_content J root) (index_string J)
      [''infoID'', ''deleteRequest'', ''deleteTriggers'', ''deleteRequestTriggerDiff'']"
  by (intro conjI CDelData_flow CDelCopyData_flow CNoticData_flow CUnCpareDelData_flow
    CConsistData_flow CUnTrigerDelData_flow assms)

lemma stream_reports_witness:
  "\<exists>d. CDelData_TurnStr2Obj (sample_access nested_document) nested_document (sample_object ''delete_UnOrder'') = Inr (True, d)
     \<and> says_insert (CDelData_GetInserDataInOrder d) ''TEST_EXCEPTION'' ''delete_UnOrder'' CDelData_columns (CDelData_vals d)
     \<and> timeout d = ''''"
proof -
  let ?d = "report.extend (sample_object ''delete_UnOrder'') (CDelData.fields 2 ''i'' ''del'' ''p'' ''t'' '''')"
  have "CDelData_TurnStr2Obj (sample_access nested_document) nested_document (sample_object ''delete_UnOrder'')
      = Inr (True, ?d)"
    by (simp add: CDelData_TurnStr2Obj_def sample_access_def nested_document_def member_string_def member_uint_def)
  moreover have "values_ok (CDelData_vals ?d)"
    by (simp add: values_ok_def CDelData_vals_def report_vals_defs sample_object_def sample_report_def
        DataInfoBase.defs report.defs CDelData.defs)
  moreover have "modelName (sample_object ''delete_UnOrder'') = ''TEST_EXCEPTION''"
    "tableName (sample_object ''delete_UnOrder'') = ''delete_UnOrder''" "timeout ?d = ''''"
    by (simp_all add: sample_object_def DataInfoBase.defs report.defs CDelData.defs)
  moreover have "report_flow (CDelData_TurnStr2Obj (sample_access nested_document) nested_document
      (sample_object ''delete_UnOrder'')) True CDelData_GetInserDataInOrder CDelData_columns CDelData_vals
      (sample_object ''delete_UnOrder'') (data_content (sample_access nested_document) nested_document)
      (member_string (sample_access nested_document))
      [''infoID'', ''deleteInstruction'', ''deletePerformer'', ''deletePerformTime'', ''timeout'']"
    by (rule stream_reports [THEN conjunct1]) (rule sample_object_names, simp)
  ultimately show ?thesis
    using report_flowD by (metis (no_types, lifting))
qed

end
