(* ===== verification/Reports_Quoted.thy ===== *)
theory Reports_Quoted
  imports Report_Json
begin

text \<open>
  The report classes of src/src/data/DMdata that concatenate texts: their statements put every
  value in quotes, numbers as well. Laid out as \<open>Reports_Stream\<close>.
\<close>

text \<open>The conversion of an int to char.\<close>

definition char_of_int :: "int \<Rightarrow> char" where
  "char_of_int i = char_of (nat (i mod 256))"

section \<open>CAlgStandardDiff\<close>

text \<open>
  src/src/data/DMdata/AlgStandardDiff.h and .cpp: the deletion method deviates from the standard
  (0x4225).
\<close>

record CAlgStandardDiff = report +
  DataType :: "32 word"
  infoID :: string
  deleteAlg :: "32 word"
  deleteAlgParam :: string
  Standard :: string
  deleteAlgStandardDiff :: string

definition CAlgStandardDiff_ctor ::
  "('v, 'z) json_access_scheme \<Rightarrow> string \<Rightarrow> string \<Rightarrow> fault + report" where
  "CAlgStandardDiff_ctor J model jsonString = report_ctor J model ''delete_AlgStandardDiff'' jsonString"

definition CAlgStandardDiff_DisplayData :: "CAlgStandardDiff \<Rightarrow> string" where
  "CAlgStandardDiff_DisplayData d =
    DisPlayCommonData d
    @ out_line (''  '' @ octets [229, 188, 130, 229, 184, 184, 231, 177, 187, 229, 158, 139] @ '': '') (nat_str (unat (DataType d)))
    @ out_line (''  '' @ octets [228, 191, 161, 230, 129, 175, 230, 160, 135, 232, 175, 134] @ '': '') (infoID d)
    @ out_line (''  '' @ octets [229, 136, 160, 233, 153, 164, 231, 174, 151, 230, 179, 149] @ '': '') (int_str (sint (deleteAlg d)))
    @ out_line (''  '' @ octets [229, 136, 160, 233, 153, 164, 231, 174, 151, 230, 179, 149, 229, 143, 130, 230, 149, 176] @ '': '') (deleteAlgParam d)
    @ out_line (''  '' @ octets [230, 160, 135, 229, 135, 134] @ '': '') (Standard d)
    @ out_line (''  '' @ octets [229, 136, 160, 233, 153, 164, 230, 150, 185, 230, 179, 149, 228, 184, 142, 230, 160, 135, 229, 135, 134, 229, 183, 174, 229, 188, 130] @ '': '') (deleteAlgStandardDiff d)"

definition CAlgStandardDiff_TurnStr2Obj ::
  "('v, 'z) json_access_scheme \<Rightarrow> 'v \<Rightarrow> report \<Rightarrow> fault + bool \<times> CAlgStandardDiff" where
  "CAlgStandardDiff_TurnStr2Obj J root r =
    bindE (bindE (json_index J root ''data'') (\<lambda>v. get_int J v ''DataType'' 0)) (\<lambda>v_DataType.
    bindE (bindE (data_content J root) (\<lambda>v. get_string J v ''infoID'' '''')) (\<lambda>v_infoID.
    bindE (bindE (data_content J root) (\<lambda>v. get_int J v ''deleteAlg'' 0)) (\<lambda>v_deleteAlg.
    bindE (bindE (data_content J root) (\<lambda>v. get_string J v ''deleteAlgParam'' '''')) (\<lambda>v_deleteAlgParam.
    bindE (bindE (data_content J root) (\<lambda>v. get_string J v ''Standard'' '''')) (\<lambda>v_Standard.
    bindE (bindE (data_content J root) (\<lambda>v. get_string J v ''deleteAlgStandardDiff'' '''')) (\<lambda>v_deleteAlgStandardDiff.
    Inr (True, report.extend r (CAlgStandardDiff.fields (word_of_int v_DataType) v_infoID (word_of_int
        v_deleteAlg) v_deleteAlgParam v_Standard v_deleteAlgStandardDiff))))))))"

definition CAlgStandardDiff_GetInserDataInOrder :: "CAlgStandardDiff \<Rightarrow> string" where
  "CAlgStandardDiff_GetInserDataInOrder d =
    ''INSERT INTO  '' @ [dq] @ modelName d @ [dq] @ ''.'' @ [dq] @ tableName d @ [dq]
    @ '' (systemID, systemIP, mainCMD, subCMD, evidenceID, msgVersion, submittime, DataType, infoID, deleteAlg, deleteAlgParam, Standard, deleteAlgStandardDiff, dataHash, datasign, randomidentification) VALUES ('' @ [sq]
    @ nat_str (unat (systemID d)) @ [sq] @ '', '' @ [sq] @ systemIP d @ [sq] @ '', '' @ [sq]
    @ nat_str (unat (mainCMD d)) @ [sq] @ '', '' @ [sq] @ nat_str (unat (subCMD d)) @ [sq] @ '', '' @ [sq]
    @ evidenceID d @ [sq] @ '', '' @ [sq] @ nat_str (unat (msgVersion d)) @ [sq] @ '', '' @ [sq]
    @ submittime d @ [sq] @ '', '' @ [sq] @ nat_str (unat (DataType d)) @ [sq] @ '', '' @ [sq]
    @ infoID d @ [sq] @ '', '' @ [sq] @ int_str (sint (deleteAlg d)) @ [sq] @ '', '' @ [sq]
    @ deleteAlgParam d @ [sq] @ '', '' @ [sq] @ Standard d @ [sq] @ '', '' @ [sq] @ deleteAlgStandardDiff d
    @ [sq] @ '', '' @ [sq] @ dataHash d @ [sq] @ '', '' @ [sq] @ datasign d @ [sq] @ '', '' @ [sq]
    @ randomidentification d @ [sq] @ '');''"

definition CAlgStandardDiff_columns :: "string list" where
  "CAlgStandardDiff_columns = head_columns @ [''DataType'', ''infoID'', ''deleteAlg'', ''deleteAlgParam'',
      ''Standard'', ''deleteAlgStandardDiff''] @ tail_columns"

definition CAlgStandardDiff_vals :: "CAlgStandardDiff \<Rightarrow> sql_val list" where
  "CAlgStandardDiff_vals d = head_texts d @ [Str (nat_str (unat (DataType d))), Str (infoID d),
      Str (int_str (sint (deleteAlg d))), Str (deleteAlgParam d), Str (Standard d),
      Str (deleteAlgStandardDiff d)] @ tail_vals d"

interpretation CAlgStandardDiff_sql: report_statement "''INSERT INTO  ''"
  "'' (systemID, systemIP, mainCMD, subCMD, evidenceID, msgVersion, submittime, DataType, infoID, deleteAlg, deleteAlgParam, Standard, deleteAlgStandardDiff, dataHash, datasign, randomidentification) VALUES (''"
  CAlgStandardDiff_columns CAlgStandardDiff_GetInserDataInOrder CAlgStandardDiff_vals "\<lambda>_. True"
  by unfold_locales
    (simp add: CAlgStandardDiff_GetInserDataInOrder_def CAlgStandardDiff_vals_def CAlgStandardDiff_columns_def report_vals_defs report_columns_defs is_punct_def is_space_def; fail
     | code_simp)+

lemma CAlgStandardDiff_flow:
  assumes "names_ok r"
  shows "report_flow (CAlgStandardDiff_TurnStr2Obj J root r) True CAlgStandardDiff_GetInserDataInOrder CAlgStandardDiff_columns
      CAlgStandardDiff_vals r (data_content J root) (\<lambda>v k. get_string J v k [])
      [''infoID'', ''deleteAlgParam'', ''Standard'', ''deleteAlgStandardDiff'']"
  using assms
  by (intro CAlgStandardDiff_sql.flow)
    (auto simp: CAlgStandardDiff_TurnStr2Obj_def data_content_def bindE_Inr report.defs CAlgStandardDiff.defs stores_def
      CAlgStandardDiff_columns_def CAlgStandardDiff_vals_def report_vals_defs report_columns_defs)

section \<open>CmpliDelFail\<close>

text \<open>
  src/src/data/DMdata/CmpliDelFail.h and .cpp: the deletion as a whole had no effect (0x4229).
\<close>

record CmpliDelFail = report +
  DataType :: "32 word"
  infoID :: string
  deleteEffectEvaDomainSet :: string

definition CmpliDelFail_ctor ::
  "('v, 'z) json_access_scheme \<Rightarrow> string \<Rightarrow> string \<Rightarrow> fault + report" where
  "CmpliDelFail_ctor J model jsonString = report_ctor J model ''delete_EffectEvaDomainSet'' jsonString"

definition CmpliDelFail_DisplayData :: "CmpliDelFail \<Rightarrow> string" where
  "CmpliDelFail_DisplayData d =
    DisPlayCommonData d
    @ out_line (''  '' @ octets [229, 188, 130, 229, 184, 184, 231, 177, 187, 229, 158, 139] @ '': '') (nat_str (unat (DataType d)))
    @ out_line (''  '' @ octets [228, 191, 161, 230, 129, 175, 230, 160, 135, 232, 175, 134] @ '': '') (infoID d)
    @ out_line (''  '' @ octets [229, 136, 160, 233, 153, 164, 230, 149, 136, 230, 158, 156, 232, 175, 132, 230, 181, 139, 229, 188, 130, 229, 184, 184, 229, 159, 159, 233, 155, 134, 229, 144, 136] @ '': '') (deleteEffectEvaDomainSet d)"

definition CmpliDelFail_TurnStr2Obj ::
  "('v, 'z) json_access_scheme \<Rightarrow> 'v \<Rightarrow> report \<Rightarrow> fault + bool \<times> CmpliDelFail" where
  "CmpliDelFail_TurnStr2Obj J root r =
    bindE (bindE (json_index J root ''data'') (\<lambda>v. get_int J v ''DataType'' 0)) (\<lambda>v_DataType.
    bindE (bindE (data_content J root) (\<lambda>v. get_string J v ''infoID'' '''')) (\<lambda>v_infoID.
    bindE (bindE (data_content J root) (\<lambda>v. get_string J v ''deleteEffectEvaDomainSet'' '''')) (\<lambda>v_deleteEffectEvaDomainSet.
    Inr (True, report.extend r (CmpliDelFail.fields (word_of_int v_DataType) v_infoID v_deleteEffectEvaDomainSet)))))"

definition CmpliDelFail_GetInserDataInOrder :: "CmpliDelFail \<Rightarrow> string" where
  "CmpliDelFail_GetInserDataInOrder d =
    ''INSERT INTO  '' @ [dq] @ modelName d @ [dq] @ ''.'' @ [dq] @ tableName d @ [dq]
    @ '' (systemID, systemIP, mainCMD, subCMD, evidenceID, msgVersion, submittime, DataType, infoID, deleteEffectEvaDomainSet, dataHash, datasign, randomidentification) VALUES ('' @ [sq]
    @ nat_str (unat (systemID d)) @ [sq] @ '', '' @ [sq] @ systemIP d @ [sq] @ '', '' @ [sq]
    @ nat_str (unat (mainCMD d)) @ [sq] @ '', '' @ [sq] @ nat_str (unat (subCMD d)) @ [sq] @ '', '' @ [sq]
    @ evidenceID d @ [sq] @ '', '' @ [sq] @ nat_str (unat (msgVersion d)) @ [sq] @ '', '' @ [sq]
    @ submittime d @ [sq] @ '', '' @ [sq] @ nat_str (unat (DataType d)) @ [sq] @ '', '' @ [sq]
    @ infoID d @ [sq] @ '', '' @ [sq] @ deleteEffectEvaDomainSet d @ [sq] @ '', '' @ [sq] @ dataHash d @ [sq]
    @ '', '' @ [sq] @ datasign d @ [sq] @ '', '' @ [sq] @ randomidentification d @ [sq] @ '');''"

definition CmpliDelFail_columns :: "string list" where
  "CmpliDelFail_columns = head_columns @ [''DataType'', ''infoID'', ''deleteEffectEvaDomainSet''] @ tail_columns"

definition CmpliDelFail_vals :: "CmpliDelFail \<Rightarrow> sql_val list" where
  "CmpliDelFail_vals d = head_texts d @ [Str (nat_str (unat (DataType d))), Str (infoID d),
      Str (deleteEffectEvaDomainSet d)] @ tail_vals d"

interpretation CmpliDelFail_sql: report_statement "''INSERT INTO  ''"
  "'' (systemID, systemIP, mainCMD, subCMD, evidenceID, msgVersion, submittime, DataType, infoID, deleteEffectEvaDomainSet, dataHash, datasign, randomidentification) VALUES (''"
  CmpliDelFail_columns CmpliDelFail_GetInserDataInOrder CmpliDelFail_vals "\<lambda>_. True"
  by unfold_locales
    (simp add: CmpliDelFail_GetInserDataInOrder_def CmpliDelFail_vals_def CmpliDelFail_columns_def report_vals_defs report_columns_defs is_punct_def is_space_def; fail
     | code_simp)+

lemma CmpliDelFail_flow:
  assumes "names_ok r"
  shows "report_flow (CmpliDelFail_TurnStr2Obj J root r) True CmpliDelFail_GetInserDataInOrder CmpliDelFail_columns
      CmpliDelFail_vals r (data_content J root) (\<lambda>v k. get_string J v k [])
      [''infoID'', ''deleteEffectEvaDomainSet'']"
  using assms
  by (intro CmpliDelFail_sql.flow)
    (auto simp: CmpliDelFail_TurnStr2Obj_def data_content_def bindE_Inr report.defs CmpliDelFail.defs stores_def
      CmpliDelFail_columns_def CmpliDelFail_vals_def report_vals_defs report_columns_defs)

section \<open>DelDupComple\<close>

text \<open>
  src/src/data/DMdata/DelDupComple.h and .cpp: not all copies were deleted (0x4228).
\<close>

record DelDupComple = report +
  DataType :: "32 word"
  infoID :: string
  deleteDupFailSet :: string
  deleteDupSuccSet :: string
  deleteDupCompletenessDiff :: string

definition DelDupComple_ctor ::
  "('v, 'z) json_access_scheme \<Rightarrow> string \<Rightarrow> string \<Rightarrow> fault + report" where
  "DelDupComple_ctor J model jsonString = report_ctor J model ''delete_DupCompletenessDiff'' jsonString"

definition DelDupComple_DisplayData :: "DelDupComple \<Rightarrow> string" where
  "DelDupComple_DisplayData d =
    DisPlayCommonData d
    @ out_line (''  '' @ octets [229, 188, 130, 229, 184, 184, 231, 177, 187, 229, 158, 139] @ '': '') (nat_str (unat (DataType d)))
    @ out_line (''  '' @ octets [228, 191, 161, 230, 129, 175, 230, 160, 135, 232, 175, 134] @ '': '') (infoID d)
    @ out_line (''  '' @ octets [230, 156, 170, 230, 137, 167, 232, 161, 140, 229, 136, 160, 233, 153, 164, 231, 154, 132, 229, 137, 175, 230, 156, 172, 233, 155, 134, 229, 144, 136] @ '': '') (deleteDupFailSet d)
    @ out_line (''  '' @ octets [229, 183, 178, 230, 137, 167, 232, 161, 140, 229, 136, 160, 233, 153, 164, 231, 154, 132, 229, 137, 175, 230, 156, 172, 233, 155, 134, 229, 144, 136] @ '': '') (deleteDupSuccSet d)
    @ out_line (''  '' @ octets [229, 137, 175, 230, 156, 172, 229, 136, 160, 233, 153, 164, 229, 174, 140, 229, 164, 135, 230, 128, 167, 229, 188, 130, 229, 184, 184] @ '': '') (deleteDupCompletenessDiff d)"

definition DelDupComple_TurnStr2Obj ::
  "('v, 'z) json_access_scheme \<Rightarrow> 'v \<Rightarrow> report \<Rightarrow> fault + bool \<times> DelDupComple" where
  "DelDupComple_TurnStr2Obj J root r =
    bindE (bindE (json_index J root ''data'') (\<lambda>v. get_int J v ''DataType'' 0)) (\<lambda>v_DataType.
    bindE (bindE (data_content J root) (\<lambda>v. get_string J v ''infoID'' '''')) (\<lambda>v_infoID.
    bindE (bindE (data_content J root) (\<lambda>v. get_string J v ''deleteDupFailSet'' '''')) (\<lambda>v_deleteDupFailSet.
    bindE (bindE (data_content J root) (\<lambda>v. get_string J v ''deleteDupSuccSet'' '''')) (\<lambda>v_deleteDupSuccSet.
    bindE (bindE (data_content J root) (\<lambda>v. get_string J v ''deleteDupCompletenessDiff'' '''')) (\<lambda>v_deleteDupCompletenessDiff.
    Inr (True, report.extend r (DelDupComple.fields (word_of_int v_DataType) v_infoID v_deleteDupFailSet
        v_deleteDupSuccSet v_deleteDupCompletenessDiff)))))))"

definition DelDupComple_GetInserDataInOrder :: "DelDupComple \<Rightarrow> string" where
  "DelDupComple_GetInserDataInOrder d =
    ''INSERT INTO '' @ [dq] @ modelName d @ [dq] @ ''.'' @ [dq] @ tableName d @ [dq]
    @ '' (systemID, systemIP, mainCMD, subCMD, evidenceID, msgVersion, submittime, DataType, infoID, deleteDupFailSet, deleteDupSuccSet, deleteDupCompletenessDiff, dataHash, datasign, randomidentification) VALUES ('' @ [sq]
    @ nat_str (unat (systemID d)) @ [sq] @ '', '' @ [sq] @ systemIP d @ [sq] @ '', '' @ [sq]
    @ nat_str (unat (mainCMD d)) @ [sq] @ '', '' @ [sq] @ nat_str (unat (subCMD d)) @ [sq] @ '', '' @ [sq]
    @ evidenceID d @ [sq] @ '', '' @ [sq] @ nat_str (unat (msgVersion d)) @ [sq] @ '', '' @ [sq]
    @ submittime d @ [sq] @ '', '' @ [sq] @ nat_str (unat (DataType d)) @ [sq] @ '', '' @ [sq]
    @ infoID d @ [sq] @ '', '' @ [sq] @ deleteDupFailSet d @ [sq] @ '', '' @ [sq] @ deleteDupSuccSet d @ [sq]
    @ '', '' @ [sq] @ deleteDupCompletenessDiff d @ [sq] @ '', '' @ [sq] @ dataHash d @ [sq] @ '', '' @ [sq]
    @ datasign d @ [sq] @ '', '' @ [sq] @ randomidentification d @ [sq] @ '');''"

definition DelDupComple_columns :: "string list" where
  "DelDupComple_columns = head_columns @ [''DataType'', ''infoID'', ''deleteDupFailSet'', ''deleteDupSuccSet'',
      ''deleteDupCompletenessDiff''] @ tail_columns"

definition DelDupComple_vals :: "DelDupComple \<Rightarrow> sql_val list" where
  "DelDupComple_vals d = head_texts d @ [Str (nat_str (unat (DataType d))), Str (infoID d),
      Str (deleteDupFailSet d), Str (deleteDupSuccSet d), Str (deleteDupCompletenessDiff d)] @ tail_vals d"

interpretation DelDupComple_sql: report_statement "''INSERT INTO ''"
  "'' (systemID, systemIP, mainCMD, subCMD, evidenceID, msgVersion, submittime, DataType, infoID, deleteDupFailSet, deleteDupSuccSet, deleteDupCompletenessDiff, dataHash, datasign, randomidentification) VALUES (''"
  DelDupComple_columns DelDupComple_GetInserDataInOrder DelDupComple_vals "\<lambda>_. True"
  by unfold_locales
    (simp add: DelDupComple_GetInserDataInOrder_def DelDupComple_vals_def DelDupComple_columns_def report_vals_defs report_columns_defs is_punct_def is_space_def; fail
     | code_simp)+

lemma DelDupComple_flow:
  assumes "names_ok r"
  shows "report_flow (DelDupComple_TurnStr2Obj J root r) True DelDupComple_GetInserDataInOrder DelDupComple_columns
      DelDupComple_vals r (data_content J root) (\<lambda>v k. get_string J v k [])
      [''infoID'', ''deleteDupFailSet'', ''deleteDupSuccSet'', ''deleteDupCompletenessDiff'']"
  using assms
  by (intro DelDupComple_sql.flow)
    (auto simp: DelDupComple_TurnStr2Obj_def data_content_def bindE_Inr report.defs DelDupComple.defs stores_def
      DelDupComple_columns_def DelDupComple_vals_def report_vals_defs report_columns_defs)

section \<open>UnEfficaAlg\<close>

text \<open>
  src/src/data/DMdata/UnEfficaAlg.h and .cpp: the deletion algorithm had no effect (0x4227).
\<close>

record UnEfficaAlg = report +
  DataType :: "32 word"
  infoID :: string
  deleteAlg :: "32 word"
  deleteAlgParam :: string
  RetentionStatus :: string
  deleteAlgRetentionStatusDiff :: string

definition UnEfficaAlg_ctor ::
  "('v, 'z) json_access_scheme \<Rightarrow> string \<Rightarrow> string \<Rightarrow> fault + report" where
  "UnEfficaAlg_ctor J model jsonString = report_ctor J model ''delete_AlgRetentionStatusDiff'' jsonString"

definition UnEfficaAlg_DisplayData :: "UnEfficaAlg \<Rightarrow> string" where
  "UnEfficaAlg_DisplayData d =
    DisPlayCommonData d
    @ out_line (''  '' @ octets [229, 188, 130, 229, 184, 184, 231, 177, 187, 229, 158, 139] @ '': '') (nat_str (unat (DataType d)))
    @ out_line (''  '' @ octets [228, 191, 161, 230, 129, 175, 230, 160, 135, 232, 175, 134] @ '': '') (infoID d)
    @ out_line (''  '' @ octets [229, 136, 160, 233, 153, 164, 231, 174, 151, 230, 179, 149] @ '': '') (int_str (sint (deleteAlg d)))
    @ out_line (''  '' @ octets [229, 136, 160, 233, 153, 164, 231, 174, 151, 230, 179, 149, 229, 143, 130, 230, 149, 176] @ '': '') (deleteAlgParam d)
    @ out_line (''  '' @ octets [228, 184, 170, 228, 186, 186, 228, 191, 161, 230, 129, 175, 231, 149, 153, 229, 173, 152, 231, 138, 182, 230, 128, 129] @ '': '') (RetentionStatus d)
    @ out_line (''  '' @ octets [229, 136, 160, 233, 153, 164, 231, 174, 151, 230, 179, 149, 228, 184, 142, 228, 184, 170, 228, 186, 186, 228, 191, 161, 230, 129, 175, 231, 149, 153, 229, 173, 152, 231, 138, 182, 230, 128, 129, 229, 183, 174, 229, 188, 130] @ '': '') (deleteAlgRetentionStatusDiff d)"

definition UnEfficaAlg_TurnStr2Obj ::
  "('v, 'z) json_access_scheme \<Rightarrow> 'v \<Rightarrow> report \<Rightarrow> fault + bool \<times> UnEfficaAlg" where
  "UnEfficaAlg_TurnStr2Obj J root r =
    bindE (bindE (json_index J root ''data'') (\<lambda>v. get_int J v ''DataType'' 0)) (\<lambda>v_DataType.
    bindE (bindE (data_content J root) (\<lambda>v. get_string J v ''infoID'' '''')) (\<lambda>v_infoID.
    bindE (bindE (data_content J root) (\<lambda>v. get_int J v ''deleteAlg'' 0)) (\<lambda>v_deleteAlg.
    bindE (bindE (data_content J root) (\<lambda>v. get_string J v ''deleteAlgParam'' '''')) (\<lambda>v_deleteAlgParam.
    bindE (bindE (data_content J root) (\<lambda>v. get_string J v ''RetentionStatus'' '''')) (\<lambda>v_RetentionStatus.
    bindE (bindE (data_content J root) (\<lambda>v. get_string J v ''deleteAlgRetentionStatusDiff'' '''')) (\<lambda>v_deleteAlgRetentionStatusDiff.
    Inr (True, report.extend r (UnEfficaAlg.fields (word_of_int v_DataType) v_infoID (word_of_int
        v_deleteAlg) v_deleteAlgParam v_RetentionStatus v_deleteAlgRetentionStatusDiff))))))))"

definition UnEfficaAlg_GetInserDataInOrder :: "UnEfficaAlg \<Rightarrow> string" where
  "UnEfficaAlg_GetInserDataInOrder d =
    ''INSERT INTO '' @ [dq] @ modelName d @ [dq] @ ''.'' @ [dq] @ tableName d @ [dq]
    @ '' (systemID, systemIP, mainCMD, subCMD, evidenceID, msgVersion, submittime, DataType, infoID, deleteAlg, deleteAlgParam, RetentionStatus, deleteAlgRetentionStatusDiff, dataHash, datasign, randomidentification) VALUES ('' @ [sq]
    @ nat_str (unat (systemID d)) @ [sq] @ '', '' @ [sq] @ systemIP d @ [sq] @ '', '' @ [sq]
    @ nat_str (unat (mainCMD d)) @ [sq] @ '', '' @ [sq] @ nat_str (unat (subCMD d)) @ [sq] @ '', '' @ [sq]
    @ evidenceID d @ [sq] @ '', '' @ [sq] @ nat_str (unat (msgVersion d)) @ [sq] @ '', '' @ [sq]
    @ submittime d @ [sq] @ '', '' @ [sq] @ nat_str (unat (DataType d)) @ [sq] @ '', '' @ [sq]
    @ infoID d @ [sq] @ '', '' @ [sq] @ int_str (sint (deleteAlg d)) @ [sq] @ '', '' @ [sq]
    @ deleteAlgParam d @ [sq] @ '', '' @ [sq] @ RetentionStatus d @ [sq] @ '', '' @ [sq]
    @ deleteAlgRetentionStatusDiff d @ [sq] @ '', '' @ [sq] @ dataHash d @ [sq] @ '', '' @ [sq] @ datasign d
    @ [sq] @ '', '' @ [sq]
    @ randomidentification d @ [sq] @ '');''"

definition UnEfficaAlg_columns :: "string list" where
  "UnEfficaAlg_columns = head_columns @ [''DataType'', ''infoID'', ''deleteAlg'', ''deleteAlgParam'',
      ''RetentionStatus'', ''deleteAlgRetentionStatusDiff''] @ tail_columns"

definition UnEfficaAlg_vals :: "UnEfficaAlg \<Rightarrow> sql_val list" where
  "UnEfficaAlg_vals d = head_texts d @ [Str (nat_str (unat (DataType d))), Str (infoID d),
      Str (int_str (sint (deleteAlg d))), Str (deleteAlgParam d), Str (RetentionStatus d),
      Str (deleteAlgRetentionStatusDiff d)] @ tail_vals d"

interpretation UnEfficaAlg_sql: report_statement "''INSERT INTO ''"
  "'' (systemID, systemIP, mainCMD, subCMD, evidenceID, msgVersion, submittime, DataType, infoID, deleteAlg, deleteAlgParam, RetentionStatus, deleteAlgRetentionStatusDiff, dataHash, datasign, randomidentification) VALUES (''"
  UnEfficaAlg_columns UnEfficaAlg_GetInserDataInOrder UnEfficaAlg_vals "\<lambda>_. True"
  by unfold_locales
    (simp add: UnEfficaAlg_GetInserDataInOrder_def UnEfficaAlg_vals_def UnEfficaAlg_columns_def report_vals_defs report_columns_defs is_punct_def is_space_def; fail
     | code_simp)+

lemma UnEfficaAlg_flow:
  assumes "names_ok r"
  shows "report_flow (UnEfficaAlg_TurnStr2Obj J root r) True UnEfficaAlg_GetInserDataInOrder UnEfficaAlg_columns
      UnEfficaAlg_vals r (data_content J root) (\<lambda>v k. get_string J v k [])
      [''infoID'', ''deleteAlgParam'', ''RetentionStatus'', ''deleteAlgRetentionStatusDiff'']"
  using assms
  by (intro UnEfficaAlg_sql.flow)
    (auto simp: UnEfficaAlg_TurnStr2Obj_def data_content_def bindE_Inr report.defs UnEfficaAlg.defs stores_def
      UnEfficaAlg_columns_def UnEfficaAlg_vals_def report_vals_defs report_columns_defs)

section \<open>UnNotificationCfirm\<close>

text \<open>
  src/src/data/DMdata/UnNotificationCfirm.h and .cpp: notices and confirmations differ (0x4223).
\<close>

record UnNotificationCfirm = report +
  DataType :: "32 word"
  infoID :: string
  deleteNotify :: string
  deleteConfirmation :: string
  deleteConfirmationResponse :: string
  deleteNotificationConfirmationDiff :: string

definition UnNotificationCfirm_ctor ::
  "('v, 'z) json_access_scheme \<Rightarrow> string \<Rightarrow> string \<Rightarrow> fault + report" where
  "UnNotificationCfirm_ctor J model jsonString = report_ctor J model ''delete_NotificationConfirmationDiff'' jsonString"

definition UnNotificationCfirm_DisplayData :: "UnNotificationCfirm \<Rightarrow> string" where
  "UnNotificationCfirm_DisplayData d =
    DisPlayCommonData d
    @ out_line (''  '' @ octets [229, 188, 130, 229, 184, 184, 231, 177, 187, 229, 158, 139] @ '': '') (nat_str (unat (DataType d)))
    @ out_line (''  '' @ octets [228, 191, 161, 230, 129, 175, 230, 160, 135, 232, 175, 134] @ '': '') (infoID d)
    @ out_line (''  '' @ octets [229, 136, 160, 233, 153, 164, 233, 128, 154, 231, 159, 165] @ '': '') (deleteNotify d)
    @ out_line (''  '' @ octets [229, 136, 160, 233, 153, 164, 231, 161, 174, 232, 174, 164, 228, 191, 161, 230, 129, 175] @ '': '') (deleteConfirmation d)
    @ out_line (''  '' @ octets [229, 136, 160, 233, 153, 164, 231, 161, 174, 232, 174, 164] @ '': '') (deleteConfirmationResponse d)
    @ out_line (''  '' @ octets [229, 136, 160, 233, 153, 164, 233, 128, 154, 231, 159, 165, 228, 184, 142, 231, 161, 174, 232, 174, 164, 229, 183, 174, 229, 188, 130] @ '': '') (deleteNotificationConfirmationDiff d)"

definition UnNotificationCfirm_TurnStr2Obj ::
  "('v, 'z) json_access_scheme \<Rightarrow> 'v \<Rightarrow> report \<Rightarrow> fault + bool \<times> UnNotificationCfirm" where
  "UnNotificationCfirm_TurnStr2Obj J root r =
    bindE (bindE (json_index J root ''data'') (\<lambda>v. get_int J v ''DataType'' 0)) (\<lambda>v_DataType.
    bindE (bindE (data_content J root) (\<lambda>v. get_string J v ''infoID'' '''')) (\<lambda>v_infoID.
    bindE (bindE (data_content J root) (\<lambda>v. get_string J v ''deleteNotify'' '''')) (\<lambda>v_deleteNotify.
    bindE (bindE (data_content J root) (\<lambda>v. get_string J v ''deleteConfirmation'' '''')) (\<lambda>v_deleteConfirmation.
    bindE (bindE (data_content J root) (\<lambda>v. get_string J v ''deleteConfirmationResponse'' '''')) (\<lambda>v_deleteConfirmationResponse.
    bindE (bindE (data_content J root) (\<lambda>v. get_string J v ''deleteNotificationConfirmationDiff'' '''')) (\<lambda>v_deleteNotificationConfirmationDiff.
    Inr (True, report.extend r (UnNotificationCfirm.fields (word_of_int v_DataType) v_infoID v_deleteNotify
        v_deleteConfirmation v_deleteConfirmationResponse v_deleteNotificationConfirmationDiff))))))))"

definition UnNotificationCfirm_GetInserDataInOrder :: "UnNotificationCfirm \<Rightarrow> string" where
  "UnNotificationCfirm_GetInserDataInOrder d =
    ''INSERT INTO '' @ [dq] @ modelName d @ [dq] @ ''.'' @ [dq] @ tableName d @ [dq]
    @ '' (systemID, systemIP, mainCMD, subCMD, evidenceID, msgVersion, submittime, DataType, infoID, deleteNotify, deleteConfirmation, deleteConfirmationResponse, deleteNotificationConfirmationDiff, dataHash, datasign, randomidentification) VALUES ('' @ [sq]
    @ nat_str (unat (systemID d)) @ [sq] @ '', '' @ [sq] @ systemIP d @ [sq] @ '', '' @ [sq]
    @ nat_str (unat (mainCMD d)) @ [sq] @ '', '' @ [sq] @ nat_str (unat (subCMD d)) @ [sq] @ '', '' @ [sq]
    @ evidenceID d @ [sq] @ '', '' @ [sq] @ nat_str (unat (msgVersion d)) @ [sq] @ '', '' @ [sq]
    @ submittime d @ [sq] @ '', '' @ [sq] @ nat_str (unat (DataType d)) @ [sq] @ '', '' @ [sq]
    @ infoID d @ [sq] @ '', '' @ [sq] @ deleteNotify d @ [sq] @ '', '' @ [sq] @ deleteConfirmation d @ [sq]
    @ '', '' @ [sq] @ deleteConfirmationResponse d @ [sq] @ '', '' @ [sq]
    @ deleteNotificationConfirmationDiff d @ [sq] @ '', '' @ [sq] @ dataHash d @ [sq] @ '', '' @ [sq]
    @ datasign d @ [sq] @ '', '' @ [sq]
    @ randomidentification d @ [sq] @ '');''"

definition UnNotificationCfirm_columns :: "string list" where
  "UnNotificationCfirm_columns = head_columns @ [''DataType'', ''infoID'', ''deleteNotify'',
      ''deleteConfirmation'', ''deleteConfirmationResponse'', ''deleteNotificationConfirmationDiff'']
      @ tail_columns"

definition UnNotificationCfirm_vals :: "UnNotificationCfirm \<Rightarrow> sql_val list" where
  "UnNotificationCfirm_vals d = head_texts d @ [Str (nat_str (unat (DataType d))), Str (infoID d),
      Str (deleteNotify d), Str (deleteConfirmation d), Str (deleteConfirmationResponse d),
      Str (deleteNotificationConfirmationDiff d)] @ tail_vals d"

interpretation UnNotificationCfirm_sql: report_statement "''INSERT INTO ''"
  "'' (systemID, systemIP, mainCMD, subCMD, evidenceID, msgVersion, submittime, DataType, infoID, deleteNotify, deleteConfirmation, deleteConfirmationResponse, deleteNotificationConfirmationDiff, dataHash, datasign, randomidentification) VALUES (''"
  UnNotificationCfirm_columns UnNotificationCfirm_GetInserDataInOrder UnNotificationCfirm_vals "\<lambda>_. True"
  by unfold_locales
    (simp add: UnNotificationCfirm_GetInserDataInOrder_def UnNotificationCfirm_vals_def UnNotificationCfirm_columns_def report_vals_defs report_columns_defs is_punct_def is_space_def; fail
     | code_simp)+

lemma UnNotificationCfirm_flow:
  assumes "names_ok r"
  shows "report_flow (UnNotificationCfirm_TurnStr2Obj J root r) True UnNotificationCfirm_GetInserDataInOrder UnNotificationCfirm_columns
      UnNotificationCfirm_vals r (data_content J root) (\<lambda>v k. get_string J v k [])
      [''infoID'', ''deleteNotify'', ''deleteConfirmation'', ''deleteConfirmationResponse'',
       ''deleteNotificationConfirmationDiff'']"
  using assms
  by (intro UnNotificationCfirm_sql.flow)
    (auto simp: UnNotificationCfirm_TurnStr2Obj_def data_content_def bindE_Inr report.defs UnNotificationCfirm.defs stores_def
      UnNotificationCfirm_columns_def UnNotificationCfirm_vals_def report_vals_defs report_columns_defs)

section \<open>UnRecoverable\<close>

text \<open>
  src/src/data/DMdata/UnRecoverable.h and .cpp: a deleted copy can be recovered (0x4226).
  \<open>deleteAlg\<close> is a text, and the code assigns the int it reads to it: the text
  becomes the one character with that code.
\<close>

record UnRecoverable = report +
  DataType :: "32 word"
  infoID :: string
  deleteDupInfoID :: string
  deleteAlg :: string
  deleteAlgParam :: string
  Standard :: string
  deleteAlgStandardIrrecoverableDiff :: string

definition UnRecoverable_ctor ::
  "('v, 'z) json_access_scheme \<Rightarrow> string \<Rightarrow> string \<Rightarrow> fault + report" where
  "UnRecoverable_ctor J model jsonString = report_ctor J model ''delete_AlgStandardIrrecoverableDiff'' jsonString"

definition UnRecoverable_DisplayData :: "UnRecoverable \<Rightarrow> string" where
  "UnRecoverable_DisplayData d =
    DisPlayCommonData d
    @ out_line (''  '' @ octets [229, 188, 130, 229, 184, 184, 231, 177, 187, 229, 158, 139] @ '': '') (nat_str (unat (DataType d)))
    @ out_line (''  '' @ octets [228, 191, 161, 230, 129, 175, 230, 160, 135, 232, 175, 134] @ '': '') (infoID d)
    @ out_line (''  '' @ octets [229, 136, 160, 233, 153, 164, 229, 137, 175, 230, 156, 172, 228, 191, 161, 230, 129, 175, 230, 160, 135, 232, 175, 134] @ '': '') (deleteDupInfoID d)
    @ out_line (''  '' @ octets [229, 136, 160, 233, 153, 164, 231, 174, 151, 230, 179, 149] @ '': '') (deleteAlg d)
    @ out_line (''  '' @ octets [229, 136, 160, 233, 153, 164, 231, 174, 151, 230, 179, 149, 229, 143, 130, 230, 149, 176] @ '': '') (deleteAlgParam d)
    @ out_line (''  '' @ octets [230, 160, 135, 229, 135, 134] @ '': '') (Standard d)
    @ out_line (''  '' @ octets [228, 184, 141, 229, 143, 175, 230, 129, 162, 229, 164, 141, 230, 128, 167, 232, 175, 132, 228, 188, 176, 231, 187, 147, 230, 158, 156, 229, 183, 174, 229, 188, 130] @ '': '') (deleteAlgStandardIrrecoverableDiff d)"

definition UnRecoverable_TurnStr2Obj ::
  "('v, 'z) json_access_scheme \<Rightarrow> 'v \<Rightarrow> report \<Rightarrow> fault + bool \<times> UnRecoverable" where
  "UnRecoverable_TurnStr2Obj J root r =
    bindE (bindE (json_index J root ''data'') (\<lambda>v. get_int J v ''DataType'' 0)) (\<lambda>v_DataType.
    bindE (bindE (data_content J root) (\<lambda>v. get_string J v ''infoID'' '''')) (\<lambda>v_infoID.
    bindE (bindE (data_content J root) (\<lambda>v. get_string J v ''deleteDupInfoID'' '''')) (\<lambda>v_deleteDupInfoID.
    bindE (bindE (data_content J root) (\<lambda>v. get_int J v ''deleteAlg'' 0)) (\<lambda>v_deleteAlg.
    bindE (bindE (data_content J root) (\<lambda>v. get_string J v ''deleteAlgParam'' '''')) (\<lambda>v_deleteAlgParam.
    bindE (bindE (data_content J root) (\<lambda>v. get_string J v ''Standard'' '''')) (\<lambda>v_Standard.
    bindE (bindE (data_content J root) (\<lambda>v. get_string J v ''deleteAlgStandardIrrecoverableDiff'' '''')) (\<lambda>v_deleteAlgStandardIrrecoverableDiff.
    Inr (True, report.extend r (UnRecoverable.fields (word_of_int v_DataType) v_infoID
        v_deleteDupInfoID [char_of_int v_deleteAlg] v_deleteAlgParam v_Standard
        v_deleteAlgStandardIrrecoverableDiff)))))))))"

definition UnRecoverable_GetInserDataInOrder :: "UnRecoverable \<Rightarrow> string" where
  "UnRecoverable_GetInserDataInOrder d =
    ''INSERT INTO '' @ [dq] @ modelName d @ [dq] @ ''.'' @ [dq] @ tableName d @ [dq]
    @ '' (systemID, systemIP, mainCMD, subCMD, evidenceID, msgVersion, submittime, DataType, infoID, deleteDupInfoID, deleteAlg, deleteAlgParam, Standard, deleteAlgStandardIrrecoverableDiff, dataHash, datasign, randomidentification) VALUES ('' @ [sq]
    @ nat_str (unat (systemID d)) @ [sq] @ '', '' @ [sq] @ systemIP d @ [sq] @ '', '' @ [sq]
    @ nat_str (unat (mainCMD d)) @ [sq] @ '', '' @ [sq] @ nat_str (unat (subCMD d)) @ [sq] @ '', '' @ [sq]
    @ evidenceID d @ [sq] @ '', '' @ [sq] @ nat_str (unat (msgVersion d)) @ [sq] @ '', '' @ [sq]
    @ submittime d @ [sq] @ '', '' @ [sq] @ nat_str (unat (DataType d)) @ [sq] @ '', '' @ [sq]
    @ infoID d @ [sq] @ '', '' @ [sq] @ deleteDupInfoID d @ [sq] @ '', '' @ [sq] @ deleteAlg d @ [sq]
    @ '', '' @ [sq] @ deleteAlgParam d @ [sq] @ '', '' @ [sq] @ Standard d @ [sq] @ '', '' @ [sq]
    @ deleteAlgStandardIrrecoverableDiff d @ [sq] @ '', '' @ [sq]
    @ dataHash d @ [sq] @ '', '' @ [sq] @ datasign d @ [sq] @ '', '' @ [sq] @ randomidentification d @ [sq] @ '');''"

definition UnRecoverable_columns :: "string list" where
  "UnRecoverable_columns = head_columns @ [''DataType'', ''infoID'', ''deleteDupInfoID'', ''deleteAlg'',
      ''deleteAlgParam'', ''Standard'', ''deleteAlgStandardIrrecoverableDiff''] @ tail_columns"

definition UnRecoverable_vals :: "UnRecoverable \<Rightarrow> sql_val list" where
  "UnRecoverable_vals d = head_texts d @ [Str (nat_str (unat (DataType d))), Str (infoID d),
      Str (deleteDupInfoID d), Str (deleteAlg d), Str (deleteAlgParam d), Str (Standard d),
      Str (deleteAlgStandardIrrecoverableDiff d)] @ tail_vals d"

interpretation UnRecoverable_sql: report_statement "''INSERT INTO ''"
  "'' (systemID, systemIP, mainCMD, subCMD, evidenceID, msgVersion, submittime, DataType, infoID, deleteDupInfoID, deleteAlg, deleteAlgParam, Standard, deleteAlgStandardIrrecoverableDiff, dataHash, datasign, randomidentification) VALUES (''"
  UnRecoverable_columns UnRecoverable_GetInserDataInOrder UnRecoverable_vals "\<lambda>_. True"
  by unfold_locales
    (simp add: UnRecoverable_GetInserDataInOrder_def UnRecoverable_vals_def UnRecoverable_columns_def report_vals_defs report_columns_defs is_punct_def is_space_def; fail
     | code_simp)+

lemma UnRecoverable_flow:
  assumes "names_ok r"
  shows "report_flow (UnRecoverable_TurnStr2Obj J root r) True UnRecoverable_GetInserDataInOrder UnRecoverable_columns
      UnRecoverable_vals r (data_content J root) (\<lambda>v k. get_string J v k [])
      [''infoID'', ''deleteDupInfoID'', ''deleteAlgParam'', ''Standard'',
       ''deleteAlgStandardIrrecoverableDiff'']"
  using assms
  by (intro UnRecoverable_sql.flow)
    (auto simp: UnRecoverable_TurnStr2Obj_def data_content_def bindE_Inr report.defs UnRecoverable.defs stores_def
      UnRecoverable_columns_def UnRecoverable_vals_def report_vals_defs report_columns_defs)

section \<open>Properties\<close>

text \<open>A document.\<close>

definition algorithm_document :: "int \<Rightarrow> json" where
  "algorithm_document i = JObject [(''data'', JObject [(''DataType'', JInt 2),
     (''content'', JObject [(''infoID'', JString ''i''), (''deleteAlg'', JInt i)])])]"

text \<open>
  C12: the six report classes that put every value in quotes. From the JSON document to the
  database, for reports of which no value contains a single quote (the texts are not escaped) and no
  schema or table name a double quote: the statement is read as one INSERT into the table of the
  report that gives each column its value, in order, every value as a text, and every text column that is
  listed gets the text the document has under \<open>data.content\<close> and the column's name (the empty text if it
  has none). Exception: \<open>deleteAlg\<close> of \<open>UnRecoverable\<close>, which is a text there but read as a number.
\<close>

theorem quoted_reports:
  assumes "names_ok r"
  shows "report_flow (CAlgStandardDiff_TurnStr2Obj J root r) True CAlgStandardDiff_GetInserDataInOrder CAlgStandardDiff_columns
      CAlgStandardDiff_vals r (data_content J root) (\<lambda>v k. get_string J v k [])
      [''infoID'', ''deleteAlgParam'', ''Standard'', ''deleteAlgStandardDiff'']
    \<and> report_flow (CmpliDelFail_TurnStr2Obj J root r) True CmpliDelFail_GetInserDataInOrder CmpliDelFail_columns
      CmpliDelFail_vals r (data_content J root) (\<lambda>v k. get_string J v k [])
      [''infoID'', ''deleteEffectEvaDomainSet'']
    \<and> report_flow (DelDupComple_TurnStr2Obj J root r) True DelDupComple_GetInserDataInOrder DelDupComple_columns
      DelDupComple_vals r (data_content J root) (\<lambda>v k. get_string J v k [])
      [''infoID'', ''deleteDupFailSet'', ''deleteDupSuccSet'', ''deleteDupCompletenessDiff'']
    \<and> report_flow (UnEfficaAlg_TurnStr2Obj J root r) True UnEfficaAlg_GetInserDataInOrder UnEfficaAlg_columns
      UnEfficaAlg_vals r (data_content J root) (\<lambda>v k. get_string J v k [])
      [''infoID'', ''deleteAlgParam'', ''RetentionStatus'', ''deleteAlgRetentionStatusDiff'']
    \<and> report_flow (UnNotificationCfirm_TurnStr2Obj J root r) True UnNotificationCfirm_GetInserDataInOrder UnNotificationCfirm_columns
      UnNotificationCfirm_vals r (data_content J root) (\<lambda>v k. get_string J v k [])
      [''infoID'', ''deleteNotify'', ''deleteConfirmation'', ''deleteConfirmationResponse'',
       ''deleteNotificationConfirmationDiff'']
    \<and> report_flow (UnRecoverable_TurnStr2Obj J root r) True UnRecoverable_GetInserDataInOrder UnRecoverable_columns
      UnRecoverable_vals r (data_content J root) (\<lambda>v k. get_string J v k [])
      [''infoID'', ''deleteDupInfoID'', ''deleteAlgParam'', ''Standard'',
       ''deleteAlgStandardIrrecoverableDiff'']"
  by (intro conjI CAlgStandardDiff_flow CmpliDelFail_flow DelDupComple_flow UnEfficaAlg_flow
    UnNotificationCfirm_flow UnRecoverable_flow assms)

lemma quoted_reports_witness:
  "\<exists>d. UnEfficaAlg_TurnStr2Obj (sample_access (algorithm_document (- 3))) (algorithm_document (- 3)) (sample_object ''t'')
       = Inr (True, d)
     \<and> says_insert (UnEfficaAlg_GetInserDataInOrder d) ''TEST_EXCEPTION'' ''t'' UnEfficaAlg_columns (UnEfficaAlg_vals d)
     \<and> (''deleteAlg'', Str ''-3'') \<in> set (zip UnEfficaAlg_columns (UnEfficaAlg_vals d))"
proof -
  let ?d = "report.extend (sample_object ''t'') (UnEfficaAlg.fields 2 ''i'' (- 3) '''' '''' '''')"
  have "UnEfficaAlg_TurnStr2Obj (sample_access (algorithm_document (- 3))) (algorithm_document (- 3)) (sample_object ''t'')
      = Inr (True, ?d)"
    by (simp add: UnEfficaAlg_TurnStr2Obj_def data_content_def sample_access_def algorithm_document_def
        get_string_def get_int_def)
  moreover have "sint (- 3 :: 32 word) = - 3" "nat_str 3 = ''3''"
    by (simp, code_simp)
  then have "int_str (sint (- 3 :: 32 word)) = ''-3''"
    by (simp add: int_str_def)
  then have "values_ok (UnEfficaAlg_vals ?d)"
    "(''deleteAlg'', Str ''-3'') \<in> set (zip UnEfficaAlg_columns (UnEfficaAlg_vals ?d))"
    by (auto simp: values_ok_def UnEfficaAlg_vals_def report_vals_defs sample_object_def sample_report_def
        DataInfoBase.defs report.defs UnEfficaAlg.defs UnEfficaAlg_columns_def report_columns_defs)
  moreover have "modelName (sample_object ''t'') = ''TEST_EXCEPTION''" "tableName (sample_object ''t'') = ''t''"
    by (simp_all add: sample_object_def DataInfoBase.defs report.defs)
  moreover have "report_flow (UnEfficaAlg_TurnStr2Obj (sample_access (algorithm_document (- 3))) (algorithm_document (- 3))
      (sample_object ''t'')) True UnEfficaAlg_GetInserDataInOrder UnEfficaAlg_columns UnEfficaAlg_vals
      (sample_object ''t'') (data_content (sample_access (algorithm_document (- 3))) (algorithm_document (- 3)))
      (\<lambda>v k. get_string (sample_access (algorithm_document (- 3))) v k [])
      [''infoID'', ''deleteAlgParam'', ''RetentionStatus'', ''deleteAlgRetentionStatusDiff'']"
    by (rule quoted_reports [THEN conjunct2, THEN conjunct2, THEN conjunct2, THEN conjunct1])
      (rule sample_object_names, simp)
  ultimately show ?thesis
    using report_flowD by (metis (no_types, lifting))
qed

lemma char_of_int_sq: "i mod 256 = 39 \<Longrightarrow> char_of_int i = sq"
proof -
  have "char_of (39 :: nat) = sq"
    by code_simp
  then show "i mod 256 = 39 \<Longrightarrow> char_of_int i = sq"
    by (simp add: char_of_int_def)
qed

text \<open>
  The deletion algorithm of an \<open>UnRecoverable\<close> report. The code assigns the number to a text,
  which becomes the one character with that code, modulo 256: algorithm 1 is stored as the
  control character 1, not as the text \<open>1\<close>. For the code of the single quote, 39, the statement
  cannot be read at all.
\<close>

theorem UnRecoverable_alg:
  assumes "UnRecoverable_TurnStr2Obj J root r = Inr (b, d)" "data_content J root = Inr content"
    "get_int J content ''deleteAlg'' 0 = Inr i"
  shows "UnRecoverable.deleteAlg d = [char_of_int i]
    \<and> (i mod 256 = 39 \<and> names_ok r \<and> values_ok (UnRecoverable_vals (d\<lparr>deleteAlg := ''''\<rparr>))
        \<and> (\<forall>v \<in> set (UnRecoverable_vals d). dq \<notin> set (val_text v))
       \<longrightarrow> sql_lex (UnRecoverable_GetInserDataInOrder d) = None)"
proof (intro conjI impI)
  show alg: "UnRecoverable.deleteAlg d = [char_of_int i]"
    using assms by (auto simp: UnRecoverable_TurnStr2Obj_def bindE_Inr report.defs UnRecoverable.defs)
  assume h: "i mod 256 = 39 \<and> names_ok r \<and> values_ok (UnRecoverable_vals (d\<lparr>deleteAlg := ''''\<rparr>))
        \<and> (\<forall>v \<in> set (UnRecoverable_vals d). dq \<notin> set (val_text v))"
  let ?us = "take 10 (UnRecoverable_vals d)" and ?ws = "drop 11 (UnRecoverable_vals d)"
  have sq: "char_of_int i = sq"
    using h char_of_int_sq by blast
  have split: "UnRecoverable_vals d = ?us @ Str [sq] # ?ws" "?us \<noteq> []" "?ws \<noteq> []"
    using alg sq by (simp_all add: UnRecoverable_vals_def report_vals_defs)
  have "values_ok ?us" "values_ok ?ws"
    using h by (simp_all add: values_ok_def UnRecoverable_vals_def report_vals_defs)
  moreover have "names_ok d"
    using h assms(1) by (auto simp: UnRecoverable_TurnStr2Obj_def bindE_Inr report.defs UnRecoverable.defs names_ok_def)
  moreover have "\<forall>v \<in> set (Str [sq] # ?ws). dq \<notin> set (val_text v)"
    using h split(1) by (metis Un_iff set_append)
  ultimately show "sql_lex (UnRecoverable_GetInserDataInOrder d) = None"
    using UnRecoverable_sql.stuck [OF TrueI, of d ?us "[sq]" ?ws] split by simp
qed

lemma UnRecoverable_alg_witness:
  "\<exists>d. UnRecoverable_TurnStr2Obj (sample_access (algorithm_document 39)) (algorithm_document 39) (sample_object ''t'')
       = Inr (True, d)
     \<and> UnRecoverable.deleteAlg d = [sq] \<and> sql_lex (UnRecoverable_GetInserDataInOrder d) = None"
proof -
  let ?d = "report.extend (sample_object ''t'') (UnRecoverable.fields 2 ''i'' '''' [char_of_int 39] '''' '''' '''')"
  let ?content = "JObject [(''infoID'', JString ''i''), (''deleteAlg'', JInt 39)]"
  have turn: "UnRecoverable_TurnStr2Obj (sample_access (algorithm_document 39)) (algorithm_document 39)
      (sample_object ''t'') = Inr (True, ?d)"
    by (simp add: UnRecoverable_TurnStr2Obj_def data_content_def sample_access_def algorithm_document_def
        get_string_def get_int_def)
  moreover have "data_content (sample_access (algorithm_document 39)) (algorithm_document 39) = Inr ?content"
    "get_int (sample_access (algorithm_document 39)) ?content ''deleteAlg'' 0 = Inr 39"
    by (simp_all add: data_content_def sample_access_def algorithm_document_def get_int_def)
  moreover have "char_of_int 39 = sq"
    by (simp add: char_of_int_sq)
  moreover from this have "values_ok (UnRecoverable_vals (?d\<lparr>deleteAlg := ''''\<rparr>))"
    "\<forall>v \<in> set (UnRecoverable_vals ?d). dq \<notin> set (val_text v)"
    by (simp_all add: values_ok_def UnRecoverable_vals_def report_vals_defs sample_object_def sample_report_def
        DataInfoBase.defs report.defs UnRecoverable.defs)
  ultimately show ?thesis
    using UnRecoverable_alg [OF turn, of ?content 39] sample_object_names [of "''t''"]
    by (intro exI [of _ ?d]) simp
qed

end
