(* ===== verification/Reports_Ack.thy ===== *)
theory Reports_Ack
  imports Reports_Stream Reports_Quoted "HOL-Library.List_Lexorder" "HOL-Library.Char_ord"
begin

text \<open>
  The remaining two classes of src/src/data/DMdata. \<open>CNotifyAckData\<close> writes a map of
  acknowledgements into one column and edits the text it has already written; \<open>RequstJsonData\<close>
  parses its document itself and writes into a fixed table. Then the properties that span the
  constructors of all report classes.
\<close>

section \<open>CNotifyAckData\<close>

text \<open>
  src/src/data/DMdata/NoticAckData.h and .cpp: a notice was not confirmed (0x4021). \<open>std::map\<close> is
  the list of its entries in the order of the keys, which is the order it is traversed in.
\<close>

record CNotifyAckData = report +
  DataType :: "16 word"
  userID :: string
  infoID :: string
  deleteNotifyAck :: string
  sourceDomainID :: string
  dictAck :: "(string \<times> string) list"
  deleteNotifyAckError :: string

definition CNotifyAckData_ctor ::
  "('v, 'z) json_access_scheme \<Rightarrow> string \<Rightarrow> string \<Rightarrow> fault + report" where
  "CNotifyAckData_ctor J model jsonString = report_ctor J model ''delete_NotifyAckError'' jsonString"

definition CNotifyAckData_DisplayData :: "CNotifyAckData \<Rightarrow> string" where
  "CNotifyAckData_DisplayData d =
    DisPlayCommonData d
    @ out_line (octets [230, 149, 176, 230, 141, 174] @ '':'') ''''
    @ out_line ''  DataType: '' (nat_str (unat (DataType d)))
    @ out_line ''  userID: '' (userID d)
    @ out_line ''  infoID: '' (infoID d)
    @ out_line ''  deleteNotifyAck: '' (deleteNotifyAck d)
    @ out_line ''  sourceDomainID: '' (sourceDomainID d)
    @ out_line ''  dictAck:'' ''''
    @ concat (map (\<lambda>(k, v). out_line (''    '' @ k @ '': '') v) (dictAck d))
    @ out_line ''  deleteNotifyAckError: '' (deleteNotifyAckError d)"

text \<open>\<open>m[k] = v\<close>, and the loop that fills the map.\<close>

fun map_set :: "string \<Rightarrow> string \<Rightarrow> (string \<times> string) list \<Rightarrow> (string \<times> string) list" where
  "map_set k v [] = [(k, v)]"
| "map_set k v ((l, w) # m) =
    (if k = l then (k, v) # m else if k < l then (k, v) # (l, w) # m else (l, w) # map_set k v m)"

fun read_acks ::
  "('v, 'z) json_access_scheme \<Rightarrow> 'v \<Rightarrow> string list \<Rightarrow> (string \<times> string) list
    \<Rightarrow> fault + (string \<times> string) list" where
  "read_acks J v [] m = Inr m"
| "read_acks J v (k # ks) m = bindE (index_string J v k) (\<lambda>s. read_acks J v ks (map_set k s m))"

definition CNotifyAckData_TurnStr2Obj ::
  "('v, 'z) json_access_scheme \<Rightarrow> 'v \<Rightarrow> report \<Rightarrow> fault + bool \<times> CNotifyAckData" where
  "CNotifyAckData_TurnStr2Obj J root r =
    bindE (json_index J root ''data'') (\<lambda>jsonData.
    bindE (member_uint J jsonData ''DataType'') (\<lambda>v_DataType.
    bindE (json_index J jsonData ''content'') (\<lambda>content.
    bindE (member_string J content ''userID'') (\<lambda>v_userID.
    bindE (member_string J content ''infoID'') (\<lambda>v_infoID.
    bindE (member_string J content ''deleteNotifyAck'') (\<lambda>v_deleteNotifyAck.
    bindE (member_string J content ''sourceDomainID'') (\<lambda>v_sourceDomainID.
    bindE (member_string J content ''deleteNotifyAckError'') (\<lambda>v_deleteNotifyAckError.
    bindE (json_index J content ''dictAck'') (\<lambda>v_dictAck.
    bindE (if isObject J v_dictAck then read_acks J v_dictAck (getMemberNames J v_dictAck) [] else Inr []) (\<lambda>m.
    Inr (True, report.extend r (CNotifyAckData.fields (word_of_int v_DataType) v_userID v_infoID
        v_deleteNotifyAck v_sourceDomainID m v_deleteNotifyAckError))))))))))))"

text \<open>
  \<open>ss.seekp(-1, std::ios_base::end)\<close> moves the write position to the last character, which the next
  write replaces: the trailing comma of the last entry, meant to be removed.
\<close>

definition CNotifyAckData_head :: "CNotifyAckData \<Rightarrow> string" where
  "CNotifyAckData_head d =
    ''INSERT INTO '' @ [dq] @ modelName d @ [dq] @ ''.'' @ [dq] @ tableName d @ [dq] @ '' (''
    @ ''systemID, systemIP, mainCMD, subCMD, evidenceID, msgVersion, submittime, ''
    @ ''DataType, userID, infoID, deleteNotifyAck, sourceDomainID, ''
    @ ''dictAck, deleteNotifyAckError, dataHash, datasign, randomidentification) VALUES (''
    @ nat_str (unat (systemID d)) @ '', ''
    @ [sq] @ systemIP d @ [sq] @ '', ''
    @ nat_str (unat (mainCMD d)) @ '', ''
    @ nat_str (unat (subCMD d)) @ '', ''
    @ [sq] @ evidenceID d @ [sq] @ '', ''
    @ nat_str (unat (msgVersion d)) @ '', ''
    @ [sq] @ submittime d @ [sq] @ '', ''
    @ nat_str (unat (DataType d)) @ '', ''
    @ [sq] @ userID d @ [sq] @ '', ''
    @ [sq] @ infoID d @ [sq] @ '', ''
    @ [sq] @ deleteNotifyAck d @ [sq] @ '', ''
    @ [sq] @ sourceDomainID d @ [sq] @ '', ''
    @ [sq]"

definition CNotifyAckData_GetInserDataInOrder :: "CNotifyAckData \<Rightarrow> string" where
  "CNotifyAckData_GetInserDataInOrder d =
    butlast (CNotifyAckData_head d @ concat (map (\<lambda>(k, v). k @ '':'' @ v @ '','') (dictAck d)))
    @ [sq] @ '', ''
    @ [sq] @ deleteNotifyAckError d @ [sq] @ '', ''
    @ [sq] @ dataHash d @ [sq] @ '', ''
    @ [sq] @ datasign d @ [sq] @ '', ''
    @ [sq] @ randomidentification d @ [sq] @ '');''"

text \<open>What the column \<open>dictAck\<close> should get: the entries, separated by commas.\<close>

fun acks_text :: "(string \<times> string) list \<Rightarrow> string" where
  "acks_text [] = []"
| "acks_text [(k, v)] = k @ CHR '':'' # v"
| "acks_text ((k, v) # m) = k @ CHR '':'' # v @ CHR '','' # acks_text m"

definition CNotifyAckData_columns :: "string list" where
  "CNotifyAckData_columns = head_columns @ [''DataType'', ''userID'', ''infoID'', ''deleteNotifyAck'',
      ''sourceDomainID'', ''dictAck'', ''deleteNotifyAckError''] @ tail_columns"

definition CNotifyAckData_vals :: "CNotifyAckData \<Rightarrow> sql_val list" where
  "CNotifyAckData_vals d = head_nums d @ [Num (unat (DataType d)), Str (userID d), Str (infoID d),
      Str (deleteNotifyAck d), Str (sourceDomainID d), Str (acks_text (dictAck d)),
      Str (deleteNotifyAckError d)] @ tail_vals d"

lemma acks_butlast:
  "m \<noteq> [] \<Longrightarrow> butlast (h @ concat (map (\<lambda>(k, v). k @ '':'' @ v @ '','') m)) = h @ acks_text m"
proof (induction m arbitrary: h rule: acks_text.induct)
  case (2 k v)
  have "h @ concat (map (\<lambda>(k, v). k @ '':'' @ v @ '','') [(k, v)]) = (h @ k @ CHR '':'' # v) @ [CHR '','']"
    by simp
  then show ?case
    by (simp only: butlast_snoc acks_text.simps)
next
  case (3 k v p m)
  then show ?case
    using 3(1) [of "h @ k @ CHR '':'' # v @ '',''"] by simp
qed simp

abbreviation ack_mid :: string where
  "ack_mid \<equiv> '' (systemID, systemIP, mainCMD, subCMD, evidenceID, msgVersion, submittime, DataType, userID, infoID, deleteNotifyAck, sourceDomainID, dictAck, deleteNotifyAckError, dataHash, datasign, randomidentification) VALUES (''"

lemma ack_shape:
  assumes "dictAck d \<noteq> []"
  shows "CNotifyAckData_GetInserDataInOrder d = ''INSERT INTO '' @ dq # modelName d @ dq # CHR ''.'' # dq # tableName d
    @ dq # ack_mid @ vals_text (CNotifyAckData_vals d) @ '');''"
  unfolding CNotifyAckData_GetInserDataInOrder_def acks_butlast [OF assms]
  by (simp add: CNotifyAckData_head_def CNotifyAckData_vals_def report_vals_defs)

interpretation CNotifyAckData_sql: report_statement "''INSERT INTO ''" ack_mid
  CNotifyAckData_columns CNotifyAckData_GetInserDataInOrder CNotifyAckData_vals "\<lambda>d. dictAck d \<noteq> []"
  by unfold_locales
    (rule ack_shape, assumption
     | simp add: CNotifyAckData_vals_def CNotifyAckData_columns_def report_vals_defs report_columns_defs
        is_punct_def is_space_def; fail
     | code_simp)+

lemma map_set_nonempty: "map_set k v m \<noteq> []"
  by (induction k v m rule: map_set.induct) auto

lemma read_acks_some: "read_acks J v ks m = Inr n \<Longrightarrow> m \<noteq> [] \<Longrightarrow> n \<noteq> []"
  by (induction ks arbitrary: m) (auto simp: bindE_Inr, metis map_set_nonempty)

lemma read_acks_empty: "read_acks J v ks [] = Inr n \<Longrightarrow> n = [] \<longleftrightarrow> ks = []"
  using read_acks_some [of J v _ "map_set _ _ []" n] by (cases ks) (auto simp: bindE_Inr map_set_nonempty)

lemma no_acks_unreadable:
  assumes "dictAck d = []" "names_ok d" "values_ok (CNotifyAckData_vals d)"
    "\<forall>v \<in> set (CNotifyAckData_vals d). dq \<notin> set (val_text v)"
  shows "sql_lex (CNotifyAckData_GetInserDataInOrder d) = None"
proof -
  let ?us = "take 12 (CNotifyAckData_vals d)" and ?ws = "drop 13 (CNotifyAckData_vals d)"
  let ?p = "''INSERT INTO '' @ dq # modelName d @ dq # CHR ''.'' # dq # tableName d @ dq # ack_mid @ vals_text ?us @ '', ''"
  let ?r = "sq # '', '' @ vals_text ?ws @ '');''"
  have ok: "values_ok ?us" "values_ok ?ws" "\<forall>v \<in> set ?ws. dq \<notin> set (val_text v)" "?us \<noteq> []"
    using assms(3,4) by (simp_all add: values_ok_def CNotifyAckData_vals_def report_vals_defs)
  have head: "CNotifyAckData_head d = ?p @ [sq]"
    by (simp add: CNotifyAckData_head_def CNotifyAckData_vals_def report_vals_defs)
  have tail: "[sq] @ '', '' @ [sq] @ deleteNotifyAckError d @ [sq] @ '', '' @ [sq] @ dataHash d @ [sq] @ '', ''
      @ [sq] @ datasign d @ [sq] @ '', '' @ [sq] @ randomidentification d @ [sq] @ '');'' = ?r"
    by (simp add: CNotifyAckData_vals_def report_vals_defs)
  have "butlast (CNotifyAckData_head d) = ?p"
    unfolding head by (rule butlast_snoc)
  then have "CNotifyAckData_GetInserDataInOrder d = ?p @ ?r"
    unfolding CNotifyAckData_GetInserDataInOrder_def assms(1) tail by (simp only: list.map concat.simps append_Nil2)
  moreover have "dq \<notin> set ?r"
    using vals_text_plain [OF ok(3)] by simp
  moreover have "odd (count_list ?r sq)"
    using vals_text_even [OF ok(2)] by simp
  moreover obtain ts where "lexes ?p ts"
    using CNotifyAckData_sql.statement_prefix [of "modelName d" "tableName d" ?us] assms(2) ok
    by (auto simp: names_ok_def values_ok_def)
  ultimately show ?thesis
    by (metis lexes_stuck)
qed

lemma CNotifyAckData_read:
  assumes "CNotifyAckData_TurnStr2Obj J root r = Inr (b, d)" "data_content J root = Inr content"
    "json_index J content ''dictAck'' = Inr v"
  shows "b" "modelName d = modelName r" "tableName d = tableName r" "names_ok d = names_ok r"
    "dictAck d = [] \<longleftrightarrow> \<not> isObject J v \<or> getMemberNames J v = []"
  using assms
  by (auto simp: CNotifyAckData_TurnStr2Obj_def data_content_def bindE_Inr report.defs CNotifyAckData.defs
      names_ok_def dest: read_acks_empty split: if_splits)

section \<open>RequstJsonData\<close>

text \<open>
  src/src/data/DMdata/RequestJson.h and .cpp. The constructor hands the text \<open>dd\<close> to the base
  class. \<open>TurnStr2Obj\<close> parses its own document and assigns every member, those of the base class as
  well; an object keeps its members when the text does not parse.
\<close>

record RequstJsonData = DataInfoBase +
  objectHash :: string
  objectSize :: string
  objectSign :: string
  title :: string
  abstract :: string
  keyWords :: string
  category :: string
  others :: string
  recognizeResult :: string

definition RequstJsonData_ctor :: "('v, 'z) json_access_scheme \<Rightarrow> fault + DataInfoBase" where
  "RequstJsonData_ctor J = DataInfoBase_ctor J ''dd''"

definition RequstJsonData_DisplayData :: "RequstJsonData \<Rightarrow> string" where
  "RequstJsonData_DisplayData d =
    out_line (octets [231, 179, 187, 231, 187, 159] @ ''ID: '') (nat_str (unat (systemID d)))
    @ out_line (octets [231, 179, 187, 231, 187, 159] @ ''IP: '') (systemIP d)
    @ out_line (octets [228, 184, 187, 229, 145, 189, 228, 187, 164] @ '': '') (nat_str (unat (mainCMD d)))
    @ out_line (octets [229, 173, 144, 229, 145, 189, 228, 187, 164] @ '': '') (nat_str (unat (subCMD d)))
    @ out_line (octets [232, 175, 129, 230, 141, 174] @ ''ID: '') (evidenceID d)
    @ out_line (octets [230, 182, 136, 230, 129, 175, 231, 137, 136, 230, 156, 172] @ '': '') (nat_str (unat (msgVersion d)))
    @ out_line (octets [230, 143, 144, 228, 186, 164, 230, 151, 182, 233, 151, 180] @ '': '') (submittime d)
    @ out_line (octets [230, 149, 176, 230, 141, 174] @ '':'') ''''
    @ out_line (''  '' @ octets [229, 175, 185, 232, 177, 161, 229, 147, 136, 229, 184, 140] @ '': '') (objectHash d)
    @ out_line (''  '' @ octets [229, 175, 185, 232, 177, 161, 229, 164, 167, 229, 176, 143] @ '': '') (objectSize d)
    @ out_line (''  '' @ octets [229, 175, 185, 232, 177, 161, 231, 173, 190, 229, 144, 141] @ '': '') (objectSign d)
    @ out_line (''  '' @ octets [230, 160, 135, 233, 162, 152] @ '': '') (title d)
    @ out_line (''  '' @ octets [230, 145, 152, 232, 166, 129] @ '': '') (abstract d)
    @ out_line (''  '' @ octets [229, 133, 179, 233, 148, 174, 232, 175, 141] @ '': '') (keyWords d)
    @ out_line (''  '' @ octets [231, 177, 187, 229, 136, 171] @ '': '') (category d)
    @ out_line (''  '' @ octets [229, 133, 182, 228, 187, 150] @ '': '') (others d)
    @ out_line (''  '' @ octets [232, 175, 134, 229, 136, 171, 231, 187, 147, 230, 158, 156] @ '': '') (recognizeResult d)
    @ out_line (octets [230, 149, 176, 230, 141, 174, 229, 147, 136, 229, 184, 140] @ '': '') (dataHash d)
    @ out_line (octets [233, 154, 143, 230, 156, 186, 231, 173, 190, 229, 144, 141] @ '': '') (randomidentification d)"

definition assignValues ::
  "('v, 'z) json_access_scheme \<Rightarrow> 'v \<Rightarrow> RequstJsonData \<Rightarrow> fault + RequstJsonData" where
  "assignValues J root d =
    bindE (member_uint J root ''systemID'') (\<lambda>v_systemID.
    bindE (member_string J root ''systemIP'') (\<lambda>v_systemIP.
    bindE (member_uint J root ''mainCMD'') (\<lambda>v_mainCMD.
    bindE (member_uint J root ''subCMD'') (\<lambda>v_subCMD.
    bindE (member_string J root ''evidenceID'') (\<lambda>v_evidenceID.
    bindE (member_uint J root ''msgVersion'') (\<lambda>v_msgVersion.
    bindE (member_string J root ''submittime'') (\<lambda>v_submittime.
    bindE (json_index J root ''data'') (\<lambda>jsonData.
    bindE (member_string J jsonData ''objectHash'') (\<lambda>v_objectHash.
    bindE (member_string J jsonData ''objectSize'') (\<lambda>v_objectSize.
    bindE (member_string J jsonData ''objectSign'') (\<lambda>v_objectSign.
    bindE (member_string J jsonData ''title'') (\<lambda>v_title.
    bindE (member_string J jsonData ''abstract'') (\<lambda>v_abstract.
    bindE (member_string J jsonData ''keyWords'') (\<lambda>v_keyWords.
    bindE (member_string J jsonData ''category'') (\<lambda>v_category.
    bindE (member_string J jsonData ''others'') (\<lambda>v_others.
    bindE (member_string J jsonData ''recognizeResult'') (\<lambda>v_recognizeResult.
    bindE (member_string J root ''dataHash'') (\<lambda>v_dataHash.
    bindE (member_string J root ''noncesign'') (\<lambda>v_noncesign.
    Inr (d\<lparr>systemID := word_of_int v_systemID, systemIP := v_systemIP, mainCMD := word_of_int v_mainCMD,
      subCMD := word_of_int v_subCMD, evidenceID := v_evidenceID, msgVersion := word_of_int v_msgVersion,
      submittime := v_submittime, dataHash := v_dataHash, randomidentification := v_noncesign,
      objectHash := v_objectHash, objectSize := v_objectSize, objectSign := v_objectSign, title := v_title,
      abstract := v_abstract, keyWords := v_keyWords, category := v_category, others := v_others,
      recognizeResult := v_recognizeResult\<rparr>))))))))))))))))))))"

definition RequstJsonData_TurnStr2Obj ::
  "('v, 'z) json_access_scheme \<Rightarrow> string \<Rightarrow> RequstJsonData \<Rightarrow> fault + bool \<times> RequstJsonData" where
  "RequstJsonData_TurnStr2Obj J jsonString d =
    (case parseFromStream J jsonString of
       None \<Rightarrow> Inr (False, d)
     | Some root \<Rightarrow> bindE (assignValues J root d) (\<lambda>e. Inr (True, e)))"

definition RequstJsonData_GetInserDataInOrder :: "RequstJsonData \<Rightarrow> string" where
  "RequstJsonData_GetInserDataInOrder d =
    ''INSERT INTO '' @ [dq] @ ''TEST_EXCEPTION'' @ [dq] @ ''.'' @ [dq] @ ''TEST_info'' @ [dq] @ '' (''
    @ ''systemID, systemIP, mainCMD, subCMD, evidenceID, msgVersion, submittime, ''
    @ ''objectHash, objectSize, objectSign, title, abstract, keyWords, category, others, recognizeResult, ''
    @ ''dataHash, noncesign) VALUES (''
    @ nat_str (unat (systemID d)) @ '', ''
    @ [sq] @ systemIP d @ [sq] @ '', ''
    @ nat_str (unat (mainCMD d)) @ '', ''
    @ nat_str (unat (subCMD d)) @ '', ''
    @ [sq] @ evidenceID d @ [sq] @ '', ''
    @ nat_str (unat (msgVersion d)) @ '', ''
    @ [sq] @ submittime d @ [sq] @ '', ''
    @ [sq] @ objectHash d @ [sq] @ '', ''
    @ [sq] @ objectSize d @ [sq] @ '', ''
    @ [sq] @ objectSign d @ [sq] @ '', ''
    @ [sq] @ title d @ [sq] @ '', ''
    @ [sq] @ abstract d @ [sq] @ '', ''
    @ [sq] @ keyWords d @ [sq] @ '', ''
    @ [sq] @ category d @ [sq] @ '', ''
    @ [sq] @ others d @ [sq] @ '', ''
    @ [sq] @ recognizeResult d @ [sq] @ '', ''
    @ [sq] @ dataHash d @ [sq] @ '', ''
    @ [sq] @ randomidentification d @ [sq] @ '');''"

definition request_columns :: "string list" where
  "request_columns = head_columns @ [''objectHash'', ''objectSize'', ''objectSign'', ''title'', ''abstract'',
      ''keyWords'', ''category'', ''others'', ''recognizeResult'', ''dataHash'', ''noncesign'']"

definition request_vals :: "RequstJsonData \<Rightarrow> sql_val list" where
  "request_vals d = head_nums d @ [Str (objectHash d), Str (objectSize d), Str (objectSign d), Str (title d),
      Str (abstract d), Str (keyWords d), Str (category d), Str (others d), Str (recognizeResult d),
      Str (dataHash d), Str (randomidentification d)]"

interpretation request: insert_header "''INSERT INTO ''"
  "'' (systemID, systemIP, mainCMD, subCMD, evidenceID, msgVersion, submittime, objectHash, objectSize, objectSign, title, abstract, keyWords, category, others, recognizeResult, dataHash, noncesign) VALUES (''"
  request_columns
  by unfold_locales (simp add: is_punct_def is_space_def; fail | code_simp)+

lemma request_statement:
  assumes "values_ok (request_vals d)"
  shows "says_insert (RequstJsonData_GetInserDataInOrder d) ''TEST_EXCEPTION'' ''TEST_info''
    request_columns (request_vals d)"
proof -
  have "length request_columns = length (request_vals d)" "request_vals d \<noteq> []"
    by (simp_all add: request_columns_def request_vals_def report_vals_defs report_columns_defs)
  then show ?thesis
    using request.statement_lex [of "''TEST_EXCEPTION''" "''TEST_info''" "request_vals d"] assms
    by (simp add: says_insert_def values_ok_def RequstJsonData_GetInserDataInOrder_def request_vals_def
        report_vals_defs)
qed

section \<open>Properties\<close>

text \<open>
  the acknowledgements of a \<open>CNotifyAckData\<close> report. If the document has at least one, the
  statement is read as one INSERT that gives each column its value, \<open>dictAck\<close> the entries separated
  by commas. If it has none, the step that should remove the last comma removes the opening quote
  of the column instead, and the statement cannot be read.
\<close>

theorem NotifyAck_statement:
  assumes "CNotifyAckData_TurnStr2Obj J root r = Inr (b, d)" "data_content J root = Inr content"
    "json_index J content ''dictAck'' = Inr v" "names_ok r" "values_ok (CNotifyAckData_vals d)"
  shows "(isObject J v \<and> getMemberNames J v \<noteq> [] \<longrightarrow>
      says_insert (CNotifyAckData_GetInserDataInOrder d) (modelName r) (tableName r) CNotifyAckData_columns
        (CNotifyAckData_vals d))
    \<and> (\<not> (isObject J v \<and> getMemberNames J v \<noteq> []) \<and> (\<forall>w \<in> set (CNotifyAckData_vals d). dq \<notin> set (val_text w))
       \<longrightarrow> sql_lex (CNotifyAckData_GetInserDataInOrder d) = None)"
  using CNotifyAckData_read [OF assms(1-3)] CNotifyAckData_sql.says [of d] no_acks_unreadable [of d] assms(4,5)
  by auto

definition ack_document :: "(string \<times> json) list \<Rightarrow> json" where
  "ack_document ms = JObject [(''data'', JObject [(''content'', JObject [(''dictAck'', JObject ms)])])]"

definition ack_report :: "(string \<times> string) list \<Rightarrow> CNotifyAckData" where
  "ack_report m = report.extend (sample_object ''t'') (CNotifyAckData.fields 0 '''' '''' '''' '''' m '''')"

lemma ack_document_read:
  "data_content (sample_access (ack_document ms)) (ack_document ms) = Inr (JObject [(''dictAck'', JObject ms)])"
  "json_index (sample_access (ack_document ms)) (JObject [(''dictAck'', JObject ms)]) ''dictAck'' = Inr (JObject ms)"
  "isObject (sample_access (ack_document ms)) (JObject ms)"
  "getMemberNames (sample_access (ack_document ms)) (JObject ms) = remdups (map fst ms)"
  by (simp_all add: data_content_def sample_access_def ack_document_def)

lemma ack_report_ok:
  "values_ok (CNotifyAckData_vals (ack_report m)) \<longleftrightarrow> sq \<notin> set (acks_text m)"
  "(\<forall>w \<in> set (CNotifyAckData_vals (ack_report m)). dq \<notin> set (val_text w)) \<longleftrightarrow> dq \<notin> set (acks_text m)"
  by (simp_all add: values_ok_def CNotifyAckData_vals_def report_vals_defs ack_report_def
      sample_object_def sample_report_def DataInfoBase.defs report.defs CNotifyAckData.defs)

lemma NotifyAck_statement_witness:
  "says_insert (CNotifyAckData_GetInserDataInOrder (ack_report [(''a'', ''1''), (''b'', ''2'')])) ''TEST_EXCEPTION'' ''t''
      CNotifyAckData_columns (CNotifyAckData_vals (ack_report [(''a'', ''1''), (''b'', ''2'')]))
   \<and> sql_lex (CNotifyAckData_GetInserDataInOrder (ack_report [])) = None"
proof
  let ?r = "sample_object ''t''" and ?ms = "[(''b'', JString ''2''), (''a'', JString ''1'')]"
  have "CNotifyAckData_TurnStr2Obj (sample_access (ack_document ?ms)) (ack_document ?ms) ?r
      = Inr (True, ack_report [(''a'', ''1''), (''b'', ''2'')])"
    by (simp add: CNotifyAckData_TurnStr2Obj_def sample_access_def ack_document_def member_string_def
        member_uint_def index_string_def ack_report_def less_char_def)
  then show "says_insert (CNotifyAckData_GetInserDataInOrder (ack_report [(''a'', ''1''), (''b'', ''2'')]))
      ''TEST_EXCEPTION'' ''t'' CNotifyAckData_columns (CNotifyAckData_vals (ack_report [(''a'', ''1''), (''b'', ''2'')]))"
    using NotifyAck_statement [OF _ ack_document_read(1,2) [of ?ms], of ?r True "ack_report [(''a'', ''1''), (''b'', ''2'')]"]
      ack_document_read [of ?ms] sample_object_names [of "''t''"]
    by (simp add: ack_report_ok sample_object_def DataInfoBase.defs report.defs)
  have "CNotifyAckData_TurnStr2Obj (sample_access (ack_document [])) (ack_document []) ?r = Inr (True, ack_report [])"
    by (simp add: CNotifyAckData_TurnStr2Obj_def sample_access_def ack_document_def member_string_def
        member_uint_def ack_report_def)
  then show "sql_lex (CNotifyAckData_GetInserDataInOrder (ack_report [])) = None"
    using NotifyAck_statement [OF _ ack_document_read(1,2) [of "[]"], of ?r True "ack_report []"]
      ack_document_read [of "[]"] sample_object_names [of "''t''"]
    by (simp add: ack_report_ok)
qed

text \<open>
  C29: no report object that could be filled is ever constructed. The constructor of the base
  class reads the member \<open>data\<close> as a text, so it throws on every document whose \<open>data\<close> is an
  object, and the thirteen classes read all their members from that object. \<open>RequstJsonData\<close>, the
  fourteenth, hands a text to the base class that is no document: making one ends the process.
\<close>

theorem no_report_constructed:
  assumes "access_contract J"
  shows "RequstJsonData_ctor J = Inl (ProcessExit (-1))
    \<and> (\<forall>s root v. parseFromStream J s = Some root \<and> isObject J root \<and> isMember J root ''data'' = Inr True
        \<and> json_index J root ''data'' = Inr v \<and> isObject J v \<longrightarrow>
        (\<exists>e. CDelData_ctor J model s = Inl e) \<and> (\<exists>e. CDelCopyData_ctor J model s = Inl e)
        \<and> (\<exists>e. CNoticData_ctor J model s = Inl e) \<and> (\<exists>e. CNotifyAckData_ctor J model s = Inl e)
        \<and> (\<exists>e. CUnCpareDelData_ctor J model s = Inl e) \<and> (\<exists>e. CUnTrigerDelData_ctor J model s = Inl e)
        \<and> (\<exists>e. CConsistData_ctor J model s = Inl e) \<and> (\<exists>e. CAlgStandardDiff_ctor J model s = Inl e)
        \<and> (\<exists>e. CmpliDelFail_ctor J model s = Inl e) \<and> (\<exists>e. DelDupComple_ctor J model s = Inl e)
        \<and> (\<exists>e. UnEfficaAlg_ctor J model s = Inl e) \<and> (\<exists>e. UnNotificationCfirm_ctor J model s = Inl e)
        \<and> (\<exists>e. UnRecoverable_ctor J model s = Inl e))"
proof (intro conjI allI impI)
  show "RequstJsonData_ctor J = Inl (ProcessExit (-1))"
    using assms by (simp add: RequstJsonData_ctor_def DataInfoBase_ctor_def InitJsonReader_def access_contract_def)
next
  fix s root v
  assume "parseFromStream J s = Some root \<and> isObject J root \<and> isMember J root ''data'' = Inr True
        \<and> json_index J root ''data'' = Inr v \<and> isObject J v"
  then have refused: "\<exists>e. report_ctor J model table s = Inl e" for table
    using nested_data_refused [OF assms] by blast
  have "\<exists>e. CDelData_ctor J model s = Inl e"
    using refused [of "''delete_UnOrder''"] by (auto simp: CDelData_ctor_def)
  then show "\<exists>e. CDelData_ctor J model s = Inl e" .
  note ctor_defs = CDelCopyData_ctor_def CNoticData_ctor_def CNotifyAckData_ctor_def CUnCpareDelData_ctor_def
    CUnTrigerDelData_ctor_def CConsistData_ctor_def CAlgStandardDiff_ctor_def CmpliDelFail_ctor_def
    DelDupComple_ctor_def UnEfficaAlg_ctor_def UnNotificationCfirm_ctor_def UnRecoverable_ctor_def
  show "\<exists>e. CDelCopyData_ctor J model s = Inl e" "\<exists>e. CNoticData_ctor J model s = Inl e"
    "\<exists>e. CNotifyAckData_ctor J model s = Inl e" "\<exists>e. CUnCpareDelData_ctor J model s = Inl e"
    "\<exists>e. CUnTrigerDelData_ctor J model s = Inl e" "\<exists>e. CConsistData_ctor J model s = Inl e"
    "\<exists>e. CAlgStandardDiff_ctor J model s = Inl e" "\<exists>e. CmpliDelFail_ctor J model s = Inl e"
    "\<exists>e. DelDupComple_ctor J model s = Inl e" "\<exists>e. UnEfficaAlg_ctor J model s = Inl e"
    "\<exists>e. UnNotificationCfirm_ctor J model s = Inl e" "\<exists>e. UnRecoverable_ctor J model s = Inl e"
    unfolding ctor_defs by (rule refused)+
qed

lemma no_report_constructed_witness:
  "RequstJsonData_ctor (sample_access nested_document) = Inl (ProcessExit (-1))
   \<and> (\<exists>e. CDelData_ctor (sample_access nested_document) ''S'' ''{}'' = Inl e)"
proof -
  let ?J = "sample_access nested_document"
  have "parseFromStream ?J ''{}'' = Some nested_document \<and> isObject ?J nested_document
      \<and> isMember ?J nested_document ''data'' = Inr True"
    by (simp add: sample_access_def nested_document_def)
  moreover obtain v where "json_index ?J nested_document ''data'' = Inr v \<and> isObject ?J v"
    by (simp add: sample_access_def nested_document_def)
  ultimately show ?thesis
    using no_report_constructed [OF sample_access_contract [of nested_document], of "''S''"] by blast
qed

end
