(* ===== verification/Safe_Queue.thy ===== *)
theory Safe_Queue
  imports Prelude
begin

text \<open>
  The queue between threads of src/src/tools/ThreadSafeQueue.h. Each method is cut into the steps
  between which other threads can run: taking the mutex, the accesses under it, giving it back,
  notifying. A step of a thread gives the list of the states that can follow, more than one where
  \<open>notify_one\<close> chooses a sleeper; \<open>qstep\<close> is a step of some thread, and the invariants are proved
  by rule induction over \<open>reachable\<close>.
\<close>

section \<open>State\<close>

text \<open>Where a thread is, named after what it does next.\<close>

datatype 'a pc =
    Idle                                   \<comment> \<open>not in a method of the queue\<close>
  | PushLock 'a | PushQueue 'a | PushUnlock | PushNotify
  | PopLock | PopTest | PopAsleep | PopRelock | PopFront | PopRemove 'a | PopUnlock 'a | PopReturn 'a
  | DestroyLock | DestroySet | DestroyNotify | DestroyUnlock
  | QueryLock | QueryRead | QueryUnlock bool | QueryReturn bool
  | Undefined                              \<comment> \<open>\<open>front()\<close> of an empty queue was called\<close>

text \<open>
  The members of the class, \<open>m_mutex\<close> holding the thread that owns it; the threads waiting on
  \<open>m_notEmpty\<close> are those at \<open>PopAsleep\<close>. \<open>pushed\<close> and \<open>popped\<close> record, for the specification, the
  values ever inserted and removed.
\<close>

record 'a world =
  m_queue :: "'a list"
  m_mutex :: "nat option"
  m_isDestroyed :: bool
  threads :: "'a pc list"
  pushed :: "'a list"
  popped :: "'a list"

definition CThreadSafeQueue_ctor :: "nat \<Rightarrow> 'a world" where
  "CThreadSafeQueue_ctor n = \<lparr>m_queue = [], m_mutex = None, m_isDestroyed = False,
     threads = replicate n Idle, pushed = [], popped = []\<rparr>"

definition goto :: "nat \<Rightarrow> 'a pc \<Rightarrow> 'a world \<Rightarrow> 'a world" where
  "goto i p w = w\<lparr>threads := (threads w)[i := p]\<rparr>"

text \<open>Taking the mutex blocks while another thread has it.\<close>

definition lock :: "nat \<Rightarrow> 'a pc \<Rightarrow> 'a world \<Rightarrow> 'a world list" where
  "lock i p w = (if m_mutex w = None then [goto i p (w\<lparr>m_mutex := Some i\<rparr>)] else [])"

definition unlock :: "nat \<Rightarrow> 'a pc \<Rightarrow> 'a world \<Rightarrow> 'a world list" where
  "unlock i p w = [goto i p (w\<lparr>m_mutex := None\<rparr>)]"

fun is_asleep :: "'a pc \<Rightarrow> bool" where
  "is_asleep PopAsleep = True"
| "is_asleep p = False"

definition sleepers :: "'a world \<Rightarrow> nat list" where
  "sleepers w = filter (\<lambda>j. is_asleep (threads w ! j)) [0..<length (threads w)]"

definition wake :: "'a pc \<Rightarrow> 'a pc" where
  "wake p = (if is_asleep p then PopRelock else p)"

section \<open>The methods\<close>

fun push :: "nat \<Rightarrow> 'a pc \<Rightarrow> 'a world \<Rightarrow> 'a world list" where
  "push i (PushLock v) w = lock i (PushQueue v) w"
| "push i (PushQueue v) w = [goto i PushUnlock (w\<lparr>m_queue := m_queue w @ [v], pushed := pushed w @ [v]\<rparr>)]"
| "push i PushUnlock w = unlock i PushNotify w"
| "push i PushNotify w =
    (if sleepers w = [] then [goto i Idle w] else map (\<lambda>j. goto i Idle (goto j PopRelock w)) (sleepers w))"
| "push i p w = []"

text \<open>
  \<open>m_notEmpty.wait(lock)\<close> gives the mutex back and falls asleep in one step, and takes the mutex
  again after waking up. It may also wake up without a notification.
\<close>

fun pop :: "nat \<Rightarrow> 'a pc \<Rightarrow> 'a world \<Rightarrow> 'a world list" where
  "pop i PopLock w = lock i PopTest w"
| "pop i PopTest w =
    (if m_queue w = [] \<and> \<not> m_isDestroyed w then unlock i PopAsleep w else [goto i PopFront w])"
| "pop i PopAsleep w = [goto i PopRelock w]"
| "pop i PopRelock w = lock i PopTest w"
| "pop i PopFront w = (case m_queue w of [] \<Rightarrow> [goto i Undefined w] | v # q \<Rightarrow> [goto i (PopRemove v) w])"
| "pop i (PopRemove v) w = [goto i (PopUnlock v) (w\<lparr>m_queue := tl (m_queue w), popped := popped w @ [hd (m_queue w)]\<rparr>)]"
| "pop i (PopUnlock v) w = unlock i (PopReturn v) w"
| "pop i (PopReturn v) w = [goto i Idle w]"
| "pop i p w = []"

fun destroy :: "nat \<Rightarrow> 'a pc \<Rightarrow> 'a world \<Rightarrow> 'a world list" where
  "destroy i DestroyLock w = lock i DestroySet w"
| "destroy i DestroySet w = [goto i DestroyNotify (w\<lparr>m_isDestroyed := True\<rparr>)]"
| "destroy i DestroyNotify w = [goto i DestroyUnlock (w\<lparr>threads := map wake (threads w)\<rparr>)]"
| "destroy i DestroyUnlock w = unlock i Idle w"
| "destroy i p w = []"

fun isDestroyed :: "nat \<Rightarrow> 'a pc \<Rightarrow> 'a world \<Rightarrow> 'a world list" where
  "isDestroyed i QueryLock w = lock i QueryRead w"
| "isDestroyed i QueryRead w = [goto i (QueryUnlock (m_isDestroyed w)) w]"
| "isDestroyed i (QueryUnlock b) w = unlock i (QueryReturn b) w"
| "isDestroyed i (QueryReturn b) w = [goto i Idle w]"
| "isDestroyed i p w = []"

text \<open>A thread outside the class may call any method.\<close>

fun is_call :: "'a pc \<Rightarrow> bool" where
  "is_call (PushLock v) = True"
| "is_call PopLock = True"
| "is_call DestroyLock = True"
| "is_call QueryLock = True"
| "is_call p = False"

inductive qstep :: "'a world \<Rightarrow> 'a world \<Rightarrow> bool" where
  call: "i < length (threads w) \<Longrightarrow> threads w ! i = Idle \<Longrightarrow> is_call p \<Longrightarrow> qstep w (goto i p w)"
| push: "i < length (threads w) \<Longrightarrow> w' \<in> set (push i (threads w ! i) w) \<Longrightarrow> qstep w w'"
| pop: "i < length (threads w) \<Longrightarrow> w' \<in> set (pop i (threads w ! i) w) \<Longrightarrow> qstep w w'"
| destroy: "i < length (threads w) \<Longrightarrow> w' \<in> set (destroy i (threads w ! i) w) \<Longrightarrow> qstep w w'"
| isDestroyed: "i < length (threads w) \<Longrightarrow> w' \<in> set (isDestroyed i (threads w ! i) w) \<Longrightarrow> qstep w w'"

inductive reachable :: "nat \<Rightarrow> 'a world \<Rightarrow> bool" for n where
  start: "reachable n (CThreadSafeQueue_ctor n)"
| step: "reachable n w \<Longrightarrow> qstep w w' \<Longrightarrow> reachable n w'"

section \<open>The invariant\<close>

text \<open>The steps that are taken with the mutex held.\<close>

fun holds :: "'a pc \<Rightarrow> bool" where
  "holds (PushQueue v) = True"
| "holds PushUnlock = True"
| "holds PopTest = True"
| "holds PopFront = True"
| "holds (PopRemove v) = True"
| "holds (PopUnlock v) = True"
| "holds DestroySet = True"
| "holds DestroyNotify = True"
| "holds DestroyUnlock = True"
| "holds QueryRead = True"
| "holds (QueryUnlock b) = True"
| "holds Undefined = True"
| "holds p = False"

text \<open>
  The threads that will still look at the queue or wake up another one: producers that have
  inserted and not yet notified, consumers that are awake and have not yet taken an element.
\<close>

fun active :: "'a pc \<Rightarrow> bool" where
  "active PushUnlock = True"
| "active PushNotify = True"
| "active PopLock = True"
| "active PopTest = True"
| "active PopRelock = True"
| "active PopFront = True"
| "active (PopRemove v) = True"
| "active p = False"

definition actives :: "'a pc list \<Rightarrow> nat" where
  "actives ps = length (filter active ps)"

text \<open>What a thread knows at its step.\<close>

fun pc_ok :: "'a world \<Rightarrow> 'a pc \<Rightarrow> bool" where
  "pc_ok w PopFront = (m_queue w \<noteq> [] \<or> m_isDestroyed w)"
| "pc_ok w (PopRemove v) = (\<exists>q. m_queue w = v # q)"
| "pc_ok w Undefined = m_isDestroyed w"
| "pc_ok w DestroyNotify = m_isDestroyed w"
| "pc_ok w p = True"

definition mutex_ok :: "'a world \<Rightarrow> bool" where
  "mutex_ok w \<longleftrightarrow> (\<forall>i < length (threads w). holds (threads w ! i) \<longleftrightarrow> m_mutex w = Some i)
     \<and> (\<forall>k. m_mutex w = Some k \<longrightarrow> k < length (threads w))"

definition pcs_ok :: "'a world \<Rightarrow> bool" where
  "pcs_ok w \<longleftrightarrow> (\<forall>i < length (threads w). pc_ok w (threads w ! i))"

definition fifo :: "'a world \<Rightarrow> bool" where
  "fifo w \<longleftrightarrow> pushed w = popped w @ m_queue w"

definition asleep :: "'a world \<Rightarrow> bool" where
  "asleep w \<longleftrightarrow> (\<exists>i < length (threads w). is_asleep (threads w ! i))"

text \<open>While a consumer sleeps there is an active thread for every element in the queue.\<close>

definition wake_ok :: "'a world \<Rightarrow> bool" where
  "wake_ok w \<longleftrightarrow> (asleep w \<longrightarrow> length (m_queue w) \<le> actives (threads w))"

text \<open>After \<open>destroy\<close> has notified, nobody sleeps.\<close>

definition destroy_ok :: "'a world \<Rightarrow> bool" where
  "destroy_ok w \<longleftrightarrow> (m_isDestroyed w \<and> asleep w \<longrightarrow> (\<exists>i < length (threads w). threads w ! i = DestroyNotify))"

section \<open>Lemmas\<close>

lemma goto_simps [simp]:
  "m_queue (goto i p w) = m_queue w" "m_mutex (goto i p w) = m_mutex w"
  "m_isDestroyed (goto i p w) = m_isDestroyed w" "threads (goto i p w) = (threads w)[i := p]"
  "pushed (goto i p w) = pushed w" "popped (goto i p w) = popped w"
  by (simp_all add: goto_def)

lemma lock_set: "w' \<in> set (lock i p w) \<longleftrightarrow> m_mutex w = None \<and> w' = goto i p (w\<lparr>m_mutex := Some i\<rparr>)"
  by (auto simp: lock_def)

lemma unlock_set: "w' \<in> set (unlock i p w) \<longleftrightarrow> w' = goto i p (w\<lparr>m_mutex := None\<rparr>)"
  by (simp add: unlock_def)

lemma sleepers_set: "j \<in> set (sleepers w) \<longleftrightarrow> j < length (threads w) \<and> threads w ! j = PopAsleep"
  by (cases "threads w ! j") (auto simp: sleepers_def)

lemma sleepers_Nil: "sleepers w = [] \<longleftrightarrow> \<not> asleep w"
  by (auto simp: sleepers_def asleep_def filter_empty_conv)

lemma is_asleep_iff [simp]: "is_asleep p \<longleftrightarrow> p = PopAsleep"
  by (cases p) auto

lemma wake_simps [simp]: "holds (wake p) = holds p" "wake p = Undefined \<longleftrightarrow> p = Undefined" "pc_ok w (wake p) = pc_ok w p"
  "is_asleep (wake p) = False" "wake p = DestroyNotify \<longleftrightarrow> p = DestroyNotify"
  by (auto simp: wake_def)

lemmas step_sets = lock_set unlock_set sleepers_set sleepers_Nil nth_list_update

lemma mutex_ok_step:
  assumes "qstep w w'" "mutex_ok w"
  shows "mutex_ok w'"
  using assms
proof (cases rule: qstep.cases)
  case (call i p)
  then show ?thesis
    using assms(2) by (cases p) (auto simp: mutex_ok_def nth_list_update)
next
  case (push i)
  then show ?thesis
    using assms(2)
    by (cases "threads w ! i") (auto simp: mutex_ok_def step_sets split: if_splits, (metis holds.simps)+)
next
  case (pop i)
  then show ?thesis
    using assms(2) by (cases "threads w ! i") (auto simp: mutex_ok_def step_sets split: if_splits list.splits)
next
  case (destroy i)
  then show ?thesis
    using assms(2) by (cases "threads w ! i") (auto simp: mutex_ok_def step_sets split: if_splits)
next
  case (isDestroyed i)
  then show ?thesis
    using assms(2) by (cases "threads w ! i") (auto simp: mutex_ok_def step_sets split: if_splits)
qed


lemma sole_holder: "mutex_ok w \<Longrightarrow> i < length (threads w) \<Longrightarrow> j < length (threads w) \<Longrightarrow>
    holds (threads w ! i) \<Longrightarrow> holds (threads w ! j) \<Longrightarrow> i = j"
  by (auto simp: mutex_ok_def)

text \<open>What a thread knows does not change when another thread, with the mutex, changes the queue.\<close>

lemma pc_ok_other:
  assumes "mutex_ok w" "i < length (threads w)" "j < length (threads w)" "i \<noteq> j"
    "holds (threads w ! i)" "pc_ok w (threads w ! j)" "m_isDestroyed w \<Longrightarrow> m_isDestroyed w'"
  shows "pc_ok w' (threads w ! j)"
  using sole_holder [OF assms(1-3,5)] assms(4,6,7) by (cases "threads w ! j") auto

lemma pcs_ok_holder:
  assumes "mutex_ok w" "pcs_ok w" "i < length (threads w)" "holds (threads w ! i)"
    "threads w' = (threads w)[i := p]" "pc_ok w' p" "m_isDestroyed w \<Longrightarrow> m_isDestroyed w'"
  shows "pcs_ok w'"
  unfolding pcs_ok_def
proof (intro allI impI)
  fix j
  assume j: "j < length (threads w')"
  show "pc_ok w' (threads w' ! j)"
  proof (cases "j = i")
    case True
    then show ?thesis
      using assms(3,5,6) by simp
  next
    case False
    then have "pc_ok w' (threads w ! j)"
      using j assms(2,5) pc_ok_other [OF assms(1,3) _ _ assms(4) _ assms(7)] by (simp add: pcs_ok_def)
    then show ?thesis
      using False assms(5) by simp
  qed
qed

lemma pc_ok_updates [simp]:
  "pc_ok (goto i p w) q = pc_ok w q" "pc_ok (w\<lparr>m_mutex := m\<rparr>) q = pc_ok w q"
  "pc_ok (w\<lparr>threads := ts\<rparr>) q = pc_ok w q"
  by (cases q; simp)+

lemma pcs_ok_pop:
  assumes "i < length (threads w)" "w' \<in> set (pop i (threads w ! i) w)" "mutex_ok w" "pcs_ok w"
  shows "pcs_ok w'"
proof -
  show ?thesis
  proof (cases "\<exists>v. threads w ! i = PopRemove v")
    case True
    then obtain v where "threads w ! i = PopRemove v"
      by blast
    then show ?thesis
      using assms(1,2) pcs_ok_holder [OF assms(3,4) assms(1)] by simp
  next
    case False
    then show ?thesis
      using assms(1,2) assms(4)
      by (cases "threads w ! i") (auto simp: pcs_ok_def step_sets split: if_splits list.splits)
  qed
qed

lemma pcs_ok_step:
  assumes "qstep w w'" "mutex_ok w" "pcs_ok w"
  shows "pcs_ok w'"
  using assms(1)
proof (cases rule: qstep.cases)
  case (call i p)
  then show ?thesis
    using assms(3) by (cases p) (auto simp: pcs_ok_def nth_list_update)
next
  case (push i)
  show ?thesis
  proof (cases "\<exists>v. threads w ! i = PushQueue v")
    case True
    then obtain v where "threads w ! i = PushQueue v"
      by blast
    then show ?thesis
      using push pcs_ok_holder [OF assms(2,3) push(1)] by simp
  next
    case False
    then show ?thesis
      using push assms(3)
      by (cases "threads w ! i") (auto simp: pcs_ok_def step_sets split: if_splits)
  qed
next
  case (pop i)
  then show ?thesis
    using pcs_ok_pop assms(2,3) by blast
next
  case (destroy i)
  show ?thesis
  proof (cases "threads w ! i = DestroySet")
    case True
    then show ?thesis
      using destroy pcs_ok_holder [OF assms(2,3) destroy(1)] by simp
  next
    case False
    then show ?thesis
      using destroy assms(3)
      by (cases "threads w ! i") (auto simp: pcs_ok_def step_sets split: if_splits)
  qed
next
  case (isDestroyed i)
  then show ?thesis
    using assms(3) by (cases "threads w ! i") (auto simp: pcs_ok_def step_sets split: if_splits)
qed

lemma fifo_step:
  assumes "qstep w w'" "pcs_ok w" "fifo w"
  shows "fifo w'"
  using assms(1)
proof (cases rule: qstep.cases)
  case (call i p)
  then show ?thesis
    using assms(3) by (simp add: fifo_def)
next
  case (push i)
  then show ?thesis
    using assms(3) by (cases "threads w ! i") (auto simp: fifo_def step_sets split: if_splits)
next
  case (pop i)
  then have "pc_ok w (threads w ! i)"
    using assms(2) by (simp add: pcs_ok_def)
  then show ?thesis
    using pop assms(3) by (cases "threads w ! i") (auto simp: fifo_def step_sets split: if_splits list.splits)
next
  case (destroy i)
  then show ?thesis
    using assms(3) by (cases "threads w ! i") (auto simp: fifo_def step_sets)
next
  case (isDestroyed i)
  then show ?thesis
    using assms(3) by (cases "threads w ! i") (auto simp: fifo_def step_sets)
qed

lemma actives_update:
  "i < length ps \<Longrightarrow>
    actives (ps[i := p]) + (if active (ps ! i) then 1 else 0) = actives ps + (if active p then 1 else 0)"
proof (induction ps arbitrary: i)
  case (Cons q ps)
  then show ?case
    by (cases i) (fastforce simp: actives_def)+
qed simp

lemma asleep_update:
  "threads w' = (threads w)[i := p] \<Longrightarrow> p \<noteq> PopAsleep \<Longrightarrow> asleep w' \<Longrightarrow> asleep w"
  unfolding asleep_def by (metis is_asleep_iff length_list_update nth_list_update_eq nth_list_update_neq)

lemma wake_ok_update:
  assumes "wake_ok w" "i < length (threads w)" "threads w' = (threads w)[i := p]" "p \<noteq> PopAsleep"
    "length (m_queue w') + (if active (threads w ! i) then 1 else 0) \<le> length (m_queue w) + (if active p then 1 else 0)"
  shows "wake_ok w'"
  using assms(1,5) asleep_update [OF assms(3,4)] actives_update [OF assms(2), of p]
  unfolding wake_ok_def assms(3) by fastforce

lemma destroy_ok_update:
  assumes "destroy_ok w" "i < length (threads w)" "threads w' = (threads w)[i := p]" "p \<noteq> PopAsleep"
    "threads w ! i \<noteq> DestroyNotify" "m_isDestroyed w' = m_isDestroyed w"
  shows "destroy_ok w'"
  using assms(1,2,5,6) asleep_update [OF assms(3,4)]
  unfolding destroy_ok_def assms(3) by (metis length_list_update nth_list_update_neq)

lemma no_sleepers_wake: "\<not> asleep (w\<lparr>threads := map wake ts\<rparr>)"
  by (simp add: asleep_def wake_def)

text \<open>A notification moves one sleeper on.\<close>

lemma notify_counts:
  assumes "i < length ps" "ps ! i = PushNotify" "j < length ps" "ps ! j = PopAsleep"
  shows "actives ((ps[j := PopRelock])[i := Idle]) = actives ps"
proof -
  have "i \<noteq> j"
    using assms(2,4) by auto
  then show ?thesis
    using actives_update [of j ps PopRelock] actives_update [of i "ps[j := PopRelock]" Idle] assms by simp
qed

text \<open>After the notification of \<open>destroy\<close> no thread sleeps.\<close>

lemma destroy_notify_awake:
  assumes "threads w ! i = DestroyNotify" "w' \<in> set (destroy i (threads w ! i) w)"
  shows "\<not> asleep w'"
  using assms no_sleepers_wake [of "threads w" w]
    asleep_update [of w' "w\<lparr>threads := map wake (threads w)\<rparr>" i DestroyUnlock] by auto

lemma wake_ok_push:
  assumes "i < length (threads w)" "w' \<in> set (push i (threads w ! i) w)" "wake_ok w"
  shows "wake_ok w'"
proof -
  note upd = wake_ok_update [OF assms(3) assms(1), of w']
  show ?thesis
  proof (cases "threads w ! i = PushNotify")
    case False
    then show ?thesis
      using assms(2) upd by (cases "threads w ! i") (auto simp: lock_set unlock_set)
  next
    case True
    show ?thesis
    proof (cases "asleep w")
      case False
      then show ?thesis
        using assms(2) True asleep_update [of w' w i Idle] by (auto simp: sleepers_Nil wake_ok_def)
    next
      case asleep: True
      then obtain j where j: "j < length (threads w)" "threads w ! j = PopAsleep"
        "w' = goto i Idle (goto j PopRelock w)"
        using assms(2) True by (auto simp: sleepers_Nil sleepers_set)
      then show ?thesis
        using notify_counts [OF assms(1) True j(1,2)] assms(3) asleep by (simp add: wake_ok_def)
    qed
  qed
qed

lemma wake_ok_pop:
  assumes "i < length (threads w)" "w' \<in> set (pop i (threads w ! i) w)" "wake_ok w" "pcs_ok w"
  shows "wake_ok w'"
proof -
  note upd = wake_ok_update [OF assms(3) assms(1), of w']
  have ok: "pc_ok w (threads w ! i)"
    using assms(4) assms(1) by (simp add: pcs_ok_def)
  show ?thesis
  proof (cases "threads w ! i")
    case PopTest
    then show ?thesis
      using assms(2) upd by (auto simp: unlock_set wake_ok_def split: if_splits)
  next
    case PopFront
    then show ?thesis
      using assms(2) upd by (auto simp: wake_ok_def split: list.splits)
  next
    case (PopRemove v)
    then show ?thesis
      using assms(2) upd ok by auto
  qed (use assms(2) upd in \<open>auto simp: lock_set unlock_set\<close>)
qed

lemma wake_ok_step:
  assumes "qstep w w'" "pcs_ok w" "wake_ok w"
  shows "wake_ok w'"
  using assms(1)
proof (cases rule: qstep.cases)
  case (call i p)
  then show ?thesis
    using wake_ok_update [OF assms(3) call(2), of w' p] by (cases p) auto
next
  case (push i)
  then show ?thesis
    using wake_ok_push assms(3) by blast
next
  case (pop i)
  then show ?thesis
    using wake_ok_pop assms(2,3) by blast
next
  case (destroy i)
  note upd = wake_ok_update [OF assms(3) destroy(1), of w']
  show ?thesis
  proof (cases "threads w ! i = DestroyNotify")
    case True
    then have "\<not> asleep w'"
      using destroy_notify_awake destroy(2) by blast
    then show ?thesis
      by (simp add: wake_ok_def)
  next
    case False
    then show ?thesis
      using destroy(2) upd by (cases "threads w ! i") (auto simp: lock_set unlock_set)
  qed
next
  case (isDestroyed i)
  note upd = wake_ok_update [OF assms(3) isDestroyed(1), of w']
  show ?thesis
    using isDestroyed(2) upd by (cases "threads w ! i") (auto simp: lock_set unlock_set)
qed

lemma destroy_ok_push:
  assumes "i < length (threads w)" "w' \<in> set (push i (threads w ! i) w)" "destroy_ok w"
  shows "destroy_ok w'"
proof -
  note upd = destroy_ok_update [OF assms(3) assms(1), of w']
  show ?thesis
  proof (cases "threads w ! i = PushNotify \<and> asleep w")
    case True
    then obtain j where j: "j < length (threads w)" "threads w ! j = PopAsleep"
      "w' = goto i Idle (goto j PopRelock w)"
      using assms(2) by (auto simp: sleepers_Nil sleepers_set)
    then have "destroy_ok (goto j PopRelock w)"
      using destroy_ok_update [OF assms(3) j(1), of "goto j PopRelock w" PopRelock] by simp
    moreover have "i \<noteq> j"
      using True j by auto
    ultimately show ?thesis
      using destroy_ok_update [of "goto j PopRelock w" i w' Idle] assms(1) True j by simp
  next
    case False
    then show ?thesis
      using assms(2) upd by (cases "threads w ! i") (auto simp: lock_set unlock_set sleepers_Nil)
  qed
qed

lemma destroy_ok_step:
  assumes "qstep w w'" "destroy_ok w"
  shows "destroy_ok w'"
  using assms(1)
proof (cases rule: qstep.cases)
  case (call i p)
  then show ?thesis
    using destroy_ok_update [OF assms(2) call(2), of w' p] by (cases p) auto
next
  case (push i)
  then show ?thesis
    using destroy_ok_push assms(2) by blast
next
  case (pop i)
  note upd = destroy_ok_update [OF assms(2) pop(1), of w']
  show ?thesis
  proof (cases "threads w ! i")
    case PopTest
    then show ?thesis
      using pop(2) upd by (auto simp: unlock_set destroy_ok_def split: if_splits)
  qed (use pop(2) upd in \<open>auto simp: lock_set unlock_set split: list.splits\<close>)
next
  case (destroy i)
  note upd = destroy_ok_update [OF assms(2) destroy(1), of w']
  show ?thesis
  proof (cases "threads w ! i")
    case DestroySet
    then show ?thesis
      using destroy(1,2) by (auto simp: destroy_ok_def)
  next
    case DestroyNotify
    then have "\<not> asleep w'"
      using destroy_notify_awake destroy(2) by blast
    then show ?thesis
      by (simp add: destroy_ok_def)
  qed (use destroy(2) upd in \<open>auto simp: lock_set unlock_set\<close>)
next
  case (isDestroyed i)
  note upd = destroy_ok_update [OF assms(2) isDestroyed(1), of w']
  show ?thesis
    using isDestroyed(2) upd by (cases "threads w ! i") (auto simp: lock_set unlock_set)
qed

definition queue_inv :: "'a world \<Rightarrow> bool" where
  "queue_inv w \<longleftrightarrow> mutex_ok w \<and> pcs_ok w \<and> fifo w \<and> wake_ok w \<and> destroy_ok w"

lemma queue_inv_reachable: "reachable n w \<Longrightarrow> queue_inv w"
proof (induction rule: reachable.induct)
  case start
  then show ?case
    by (simp add: queue_inv_def CThreadSafeQueue_ctor_def mutex_ok_def pcs_ok_def fifo_def wake_ok_def
        destroy_ok_def asleep_def)
next
  case (step w w')
  then show ?case
    using mutex_ok_step pcs_ok_step fifo_step wake_ok_step destroy_ok_step unfolding queue_inv_def by blast
qed

lemma reachable_length: "reachable n w \<Longrightarrow> length (threads w) = n"
proof (induction rule: reachable.induct)
  case (step w w')
  from step(2) show ?case
  proof (cases rule: qstep.cases)
    case (call i p)
    then show ?thesis
      using step(3) by simp
  next
    case (push i)
    then show ?thesis
      using step(3) by (cases "threads w ! i") (auto simp: lock_set unlock_set split: if_splits)
  next
    case (pop i)
    then show ?thesis
      using step(3) by (cases "threads w ! i") (auto simp: lock_set unlock_set split: if_splits list.splits)
  next
    case (destroy i)
    then show ?thesis
      using step(3) by (cases "threads w ! i") (auto simp: lock_set unlock_set)
  next
    case (isDestroyed i)
    then show ?thesis
      using step(3) by (cases "threads w ! i") (auto simp: lock_set unlock_set)
  qed
qed (simp add: CThreadSafeQueue_ctor_def)

section \<open>Progress\<close>

text \<open>The steps a thread can take, and a run by a schedule.\<close>

definition thread_steps :: "nat \<Rightarrow> 'a world \<Rightarrow> 'a world list" where
  "thread_steps i w =
    (let p = threads w ! i in push i p w @ pop i p w @ destroy i p w @ isDestroyed i p w)"

lemma thread_steps_qstep: "i < length (threads w) \<Longrightarrow> w' \<in> set (thread_steps i w) \<Longrightarrow> qstep w w'"
  by (auto simp: thread_steps_def Let_def intro: qstep.intros)

fun runs :: "nat list \<Rightarrow> 'a world \<Rightarrow> 'a world" where
  "runs [] w = w"
| "runs (i # is) w = (case thread_steps i w of [] \<Rightarrow> runs is w | w' # _ \<Rightarrow> runs is w')"

lemma reachable_runs:
  "reachable n w \<Longrightarrow> \<forall>i \<in> set is. i < n \<Longrightarrow> reachable n (runs is w)"
proof (induction "is" arbitrary: w)
  case (Cons i "is")
  show ?case
  proof (cases "thread_steps i w")
    case Nil
    then show ?thesis
      using Cons by simp
  next
    case (Cons w' ws)
    then have "qstep w w'"
      using Cons.prems reachable_length [of n w] by (intro thread_steps_qstep [of i]) auto
    then have "reachable n w'"
      using Cons.prems(1) by (rule reachable.step [rotated])
    then show ?thesis
      using Cons Cons.IH [of w'] Cons.prems(2) by simp
  qed
qed simp

lemma reachable_call:
  "reachable n w \<Longrightarrow> i < n \<Longrightarrow> threads w ! i = Idle \<Longrightarrow> is_call p \<Longrightarrow> reachable n (goto i p w)"
  using reachable_length [of n w] by (blast intro: reachable.step qstep.call)

text \<open>The thread that has the mutex can go on, unless its behaviour is undefined.\<close>

lemma holder_steps:
  assumes "holds (threads w ! i)" "threads w ! i \<noteq> Undefined"
  shows "thread_steps i w \<noteq> []"
  using assms by (cases "threads w ! i") (auto simp: thread_steps_def unlock_def split: list.splits)

lemma active_steps:
  assumes "active (threads w ! i)" "m_mutex w = None \<or> holds (threads w ! i)"
  shows "thread_steps i w \<noteq> []"
  using assms
  by (cases "threads w ! i") (auto simp: thread_steps_def lock_def unlock_def sleepers_def filter_empty_conv split: list.splits)

lemma actives_some: "actives ps \<noteq> 0 \<Longrightarrow> \<exists>i < length ps. active (ps ! i)"
  by (auto simp: actives_def filter_empty_conv in_set_conv_nth)

lemma asleep_not_holds: "is_asleep p \<Longrightarrow> \<not> holds p"
  by simp

lemma awake_progress:
  assumes "mutex_ok w" "i < length (threads w)" "active (threads w ! i)" "Undefined \<notin> set (threads w)"
  shows "\<exists>k < length (threads w). threads w ! k \<noteq> PopAsleep \<and> thread_steps k w \<noteq> []"
proof (cases "m_mutex w")
  case None
  then show ?thesis
    using active_steps [OF assms(3)] assms(2,3) by (intro exI [of _ i]) auto
next
  case (Some k)
  then have k: "k < length (threads w)" "holds (threads w ! k)"
    using assms(1) by (auto simp: mutex_ok_def)
  then have "threads w ! k \<noteq> Undefined"
    using assms(4) nth_mem by metis
  then show ?thesis
    using holder_steps k by (intro exI [of _ k]) auto
qed

section \<open>Properties\<close>

text \<open>
  C13: the queue under any interleaving of any number of threads. The elements come out in the
  order they went in, none is lost or duplicated: what was ever inserted is what was ever removed
  followed by what is in the queue. At most one thread is between taking and giving back the
  mutex, and the element a consumer is about to return is the one it removes.
\<close>

theorem queue_fifo:
  assumes "reachable n w"
  shows "pushed w = popped w @ m_queue w
    \<and> (\<forall>i < n. \<forall>j < n. holds (threads w ! i) \<and> holds (threads w ! j) \<longrightarrow> i = j)
    \<and> (\<forall>i < n. \<forall>v. threads w ! i = PopRemove v \<longrightarrow> (\<exists>q. m_queue w = v # q))"
proof -
  have inv: "queue_inv w" "length (threads w) = n"
    using queue_inv_reachable [OF assms] reachable_length [OF assms] by auto
  then have "\<forall>i < n. pc_ok w (threads w ! i)"
    by (simp add: queue_inv_def pcs_ok_def)
  then have "\<forall>i < n. \<forall>v. threads w ! i = PopRemove v \<longrightarrow> (\<exists>q. m_queue w = v # q)"
    by (metis pc_ok.simps(2))
  then show ?thesis
    using inv sole_holder [of w] by (auto simp: queue_inv_def fifo_def)
qed

definition two_pushes :: "nat world" where
  "two_pushes = runs [0, 0, 0, 0] (goto 0 (PushLock 8) (runs [0, 0, 0, 0] (goto 0 (PushLock 7) (CThreadSafeQueue_ctor 2))))"

lemma two_pushes_reachable: "reachable 2 two_pushes"
  unfolding two_pushes_def
  by (intro reachable_runs reachable_call reachable.start; code_simp)

lemma queue_fifo_witness:
  "\<exists>w :: nat world. reachable 2 w \<and> m_queue w = [7, 8] \<and> pushed w = popped w @ [7, 8]"
proof -
  have "m_queue two_pushes = [7, 8]"
    by code_simp
  then show ?thesis
    using queue_fifo [OF two_pushes_reachable] two_pushes_reachable by metis
qed

text \<open>
  C14: no wake-up is lost. While a consumer sleeps, there is for every element of the queue a
  thread that will still notify or test the queue; so if the queue is not empty and no thread has
  run into undefined behaviour, a thread that does not sleep can take a step. After \<open>destroy\<close> has
  notified, no consumer sleeps.
\<close>

theorem queue_no_lost_wakeup:
  assumes "reachable n w"
  shows "(asleep w \<longrightarrow> length (m_queue w) \<le> actives (threads w))
    \<and> (asleep w \<and> m_queue w \<noteq> [] \<and> Undefined \<notin> set (threads w)
        \<longrightarrow> (\<exists>k < n. threads w ! k \<noteq> PopAsleep \<and> thread_steps k w \<noteq> []))
    \<and> (m_isDestroyed w \<and> DestroyNotify \<notin> set (threads w) \<longrightarrow> \<not> asleep w)"
proof (intro conjI impI)
  have inv: "queue_inv w" "length (threads w) = n"
    using queue_inv_reachable [OF assms] reachable_length [OF assms] by auto
  then show le: "length (m_queue w) \<le> actives (threads w)" if "asleep w"
    using that by (simp add: queue_inv_def wake_ok_def)
  show "\<not> asleep w" if "m_isDestroyed w \<and> DestroyNotify \<notin> set (threads w)"
    using inv that unfolding queue_inv_def destroy_ok_def by (metis nth_mem)
  assume h: "asleep w \<and> m_queue w \<noteq> [] \<and> Undefined \<notin> set (threads w)"
  then have "actives (threads w) \<noteq> 0"
    using le by (cases "m_queue w") auto
  then obtain i where "i < length (threads w)" "active (threads w ! i)"
    using actives_some by blast
  then show "\<exists>k < n. threads w ! k \<noteq> PopAsleep \<and> thread_steps k w \<noteq> []"
    using awake_progress [of w i] inv h by (auto simp: queue_inv_def)
qed

definition push_while_asleep :: "nat world" where
  "push_while_asleep = runs [1, 1, 1] (goto 1 (PushLock 7) (runs [0, 0] (goto 0 PopLock (CThreadSafeQueue_ctor 2))))"

lemma push_while_asleep_reachable: "reachable 2 push_while_asleep"
  unfolding push_while_asleep_def
  by (intro reachable_runs reachable_call reachable.start; code_simp)

lemma queue_no_lost_wakeup_witness:
  "asleep push_while_asleep \<and> m_queue push_while_asleep = [7] \<and> 1 \<le> actives (threads push_while_asleep)"
proof -
  have threads: "threads push_while_asleep = [PopAsleep, PushNotify]" and "m_queue push_while_asleep = [7]"
    by code_simp+
  moreover have "asleep push_while_asleep"
    unfolding asleep_def threads by (intro exI [of _ 0]) simp
  ultimately show ?thesis
    using queue_no_lost_wakeup [OF push_while_asleep_reachable] by simp
qed

text \<open>
  Taking from a queue that was destroyed. Before \<open>destroy\<close> no thread reads the front of an
  empty queue. Afterwards \<open>pop\<close> does not look at why its loop ended: with the queue empty, a
  consumer that was woken up, or that calls \<open>pop\<close> now, reads the front of the empty queue as soon
  as it gets the mutex.
\<close>

theorem queue_destroyed_pop:
  assumes "reachable n w"
  shows "(Undefined \<in> set (threads w) \<longrightarrow> m_isDestroyed w)
    \<and> (m_isDestroyed w \<and> m_queue w = [] \<and> m_mutex w = None \<and> i < n
        \<and> (threads w ! i = PopRelock \<or> threads w ! i = PopLock)
        \<longrightarrow> reachable n (runs [i, i, i] w) \<and> threads (runs [i, i, i] w) ! i = Undefined)"
proof (intro conjI impI)
  have inv: "queue_inv w" "length (threads w) = n"
    using queue_inv_reachable [OF assms] reachable_length [OF assms] by auto
  then show "m_isDestroyed w" if "Undefined \<in> set (threads w)"
    using that unfolding queue_inv_def pcs_ok_def by (metis in_set_conv_nth pc_ok.simps(3))
  assume h: "m_isDestroyed w \<and> m_queue w = [] \<and> m_mutex w = None \<and> i < n
        \<and> (threads w ! i = PopRelock \<or> threads w ! i = PopLock)"
  then show "reachable n (runs [i, i, i] w)"
    by (intro reachable_runs [OF assms]) simp
  show "threads (runs [i, i, i] w) ! i = Undefined"
    using h inv(2) by (auto simp: thread_steps_def lock_def)
qed

definition destroyed_while_asleep :: "nat world" where
  "destroyed_while_asleep = runs [1, 1, 1, 1] (goto 1 DestroyLock (runs [0, 0] (goto 0 PopLock (CThreadSafeQueue_ctor 2))))"

lemma queue_destroyed_pop_witness:
  "reachable 2 destroyed_while_asleep \<and> threads (runs [0, 0, 0] destroyed_while_asleep) ! 0 = Undefined"
proof -
  have r: "reachable 2 destroyed_while_asleep"
    unfolding destroyed_while_asleep_def
    by (intro reachable_runs reachable_call reachable.start; code_simp)
  have "m_isDestroyed destroyed_while_asleep \<and> m_queue destroyed_while_asleep = [] \<and> m_mutex destroyed_while_asleep = None
      \<and> threads destroyed_while_asleep ! 0 = PopRelock"
    by code_simp
  then show ?thesis
    using queue_destroyed_pop [OF r, of 0] r by simp
qed

end
