(* ===== verification/Blocking_Queue.thy ===== *)
theory Blocking_Queue
  imports Prelude
begin

text \<open>
  The queues of src/src/muduo/base/BlockingQueue.h and BoundedBlockingQueue.h. Every method holds
  the mutex from its first to its last statement, so it is one step: \<open>None\<close> where it waits for its
  condition (it is taken later, when the condition holds), the state after it otherwise. The
  interface the two share, \<open>blocking_fifo\<close>, and what follows from it for every sequence of steps.
\<close>

section \<open>The interface\<close>

datatype 'a qop = Put 'a | Take

locale blocking_fifo =
  fixes content :: "'q \<Rightarrow> 'a list"
    and enq :: "'a \<Rightarrow> 'q \<Rightarrow> 'q option"
    and deq :: "'q \<Rightarrow> ('a \<times> 'q) option"
    and room :: "'q \<Rightarrow> bool"
  assumes enq_content: "enq x q = Some q' \<Longrightarrow> content q' = content q @ [x]"
    and enq_waits: "enq x q = None \<longleftrightarrow> \<not> room q"
    and deq_content: "deq q = Some (x, q') \<Longrightarrow> content q = x # content q'"
    and deq_waits: "deq q = None \<longleftrightarrow> content q = []"
begin

text \<open>A sequence of steps, with the elements inserted and removed; \<open>None\<close> where one has to wait.\<close>

fun run :: "'a qop list \<Rightarrow> 'q \<Rightarrow> ('a list \<times> 'a list \<times> 'q) option" where
  "run [] q = Some ([], [], q)"
| "run (Put x # ops) q = enq x q \<bind> (\<lambda>q. run ops q \<bind> (\<lambda>(ins, outs, q). Some (x # ins, outs, q)))"
| "run (Take # ops) q = deq q \<bind> (\<lambda>(x, q). run ops q \<bind> (\<lambda>(ins, outs, q). Some (ins, x # outs, q)))"

lemma run_fifo: "run ops q = Some (ins, outs, q') \<Longrightarrow> content q @ ins = outs @ content q'"
proof (induction ops arbitrary: q ins outs)
  case (Cons p ops)
  then show ?case
    by (cases p) (fastforce simp: bind_eq_Some_conv dest: enq_content deq_content)+
qed simp

text \<open>Taking a step keeps what every insertion and removal keeps.\<close>

lemma run_keeps:
  assumes "run ops q = Some (ins, outs, q')" "P q"
    "\<And>x q q'. P q \<Longrightarrow> enq x q = Some q' \<Longrightarrow> P q'" "\<And>x q q'. P q \<Longrightarrow> deq q = Some (x, q') \<Longrightarrow> P q'"
  shows "P q'"
  using assms(1,2)
proof (induction ops arbitrary: q ins outs)
  case (Cons p ops)
  show ?case
  proof (cases p)
    case (Put x)
    then obtain q1 ins1 where "enq x q = Some q1" "run ops q1 = Some (ins1, outs, q')"
      using Cons.prems(1) by (auto simp: bind_eq_Some_conv)
    then show ?thesis
      using Cons.IH [of q1 ins1 outs] assms(3) [OF Cons.prems(2), of x q1] by simp
  next
    case Take
    then obtain x q1 outs1 where "deq q = Some (x, q1)" "run ops q1 = Some (ins, outs1, q')"
      using Cons.prems(1) by (auto simp: bind_eq_Some_conv)
    then show ?thesis
      using Cons.IH [of q1 ins outs1] assms(4) [OF Cons.prems(2), of x q1] by simp
  qed
qed simp

text \<open>A removal never waits right after an insertion.\<close>

lemma enq_deq: "enq x q = Some q' \<Longrightarrow> deq q' \<noteq> None"
  using enq_content deq_waits by simp

end

section \<open>BlockingQueue\<close>

text \<open>The state is the deque. Both overloads of \<open>put\<close> append.\<close>

definition BlockingQueue_ctor :: "'a list" where
  "BlockingQueue_ctor = []"

definition BlockingQueue_put :: "'a \<Rightarrow> 'a list \<Rightarrow> 'a list option" where
  "BlockingQueue_put x queue = Some (queue @ [x])"

definition BlockingQueue_put_move :: "'a \<Rightarrow> 'a list \<Rightarrow> 'a list option" where
  "BlockingQueue_put_move x queue = Some (queue @ [x])"

definition BlockingQueue_take :: "'a list \<Rightarrow> ('a \<times> 'a list) option" where
  "BlockingQueue_take queue = (if queue = [] then None else Some (hd queue, tl queue))"

definition BlockingQueue_drain :: "'a list \<Rightarrow> 'a list \<times> 'a list" where
  "BlockingQueue_drain queue = (queue, [])"

definition BlockingQueue_size :: "'a list \<Rightarrow> nat" where
  "BlockingQueue_size queue = length queue"

interpretation bq: blocking_fifo "\<lambda>q. q" BlockingQueue_put BlockingQueue_take "\<lambda>q. True"
  by unfold_locales (auto simp: BlockingQueue_put_def BlockingQueue_take_def split: if_splits)

section \<open>BoundedBlockingQueue\<close>

text \<open>\<open>boost::circular_buffer\<close>: its elements and its capacity. It is full when they are as many.\<close>

record 'a circular =
  items :: "'a list"
  capacity :: nat

definition BoundedBlockingQueue_ctor :: "nat \<Rightarrow> 'a circular" where
  "BoundedBlockingQueue_ctor maxSize = \<lparr>items = [], capacity = maxSize\<rparr>"

definition Bounded_full :: "'a circular \<Rightarrow> bool" where
  "Bounded_full q \<longleftrightarrow> length (items q) = capacity q"

definition Bounded_empty :: "'a circular \<Rightarrow> bool" where
  "Bounded_empty q \<longleftrightarrow> items q = []"

definition Bounded_size :: "'a circular \<Rightarrow> nat" where
  "Bounded_size q = length (items q)"

definition Bounded_capacity :: "'a circular \<Rightarrow> nat" where
  "Bounded_capacity q = capacity q"

definition Bounded_put :: "'a \<Rightarrow> 'a circular \<Rightarrow> 'a circular option" where
  "Bounded_put x q = (if Bounded_full q then None else Some (q\<lparr>items := items q @ [x]\<rparr>))"

definition Bounded_put_move :: "'a \<Rightarrow> 'a circular \<Rightarrow> 'a circular option" where
  "Bounded_put_move x q = (if Bounded_full q then None else Some (q\<lparr>items := items q @ [x]\<rparr>))"

definition Bounded_take :: "'a circular \<Rightarrow> ('a \<times> 'a circular) option" where
  "Bounded_take q = (if items q = [] then None else Some (hd (items q), q\<lparr>items := tl (items q)\<rparr>))"

lemmas bounded_defs = Bounded_full_def Bounded_empty_def Bounded_size_def Bounded_capacity_def Bounded_put_def
  Bounded_put_move_def Bounded_take_def

interpretation bbq: blocking_fifo items Bounded_put Bounded_take "\<lambda>q. \<not> Bounded_full q"
  by unfold_locales (auto simp: Bounded_put_def Bounded_take_def split: if_splits)

section \<open>Properties\<close>

text \<open>
  The two muduo queues. Whatever sequence of insertions and removals is taken, the elements
  come out in the order they went in; a bounded queue never holds more than its capacity, an
  insertion waits exactly when it is full, a removal exactly when it is empty.
\<close>

theorem blocking_queues:
  "(bq.run ops BlockingQueue_ctor = Some (ins, outs, q) \<longrightarrow> ins = outs @ q)
   \<and> (bbq.run ops (BoundedBlockingQueue_ctor n) = Some (ins, outs, b) \<longrightarrow>
      ins = outs @ items b \<and> Bounded_size b \<le> n \<and> Bounded_capacity b = n
      \<and> (Bounded_put x b = None \<longleftrightarrow> Bounded_size b = n) \<and> (Bounded_take b = None \<longleftrightarrow> Bounded_empty b))"
proof (intro conjI impI)
  show "ins = outs @ q" if "bq.run ops BlockingQueue_ctor = Some (ins, outs, q)"
    using bq.run_fifo [OF that] by (simp add: BlockingQueue_ctor_def)
  assume run: "bbq.run ops (BoundedBlockingQueue_ctor n) = Some (ins, outs, b)"
  then show "ins = outs @ items b"
    using bbq.run_fifo [OF run] by (simp add: BoundedBlockingQueue_ctor_def)
  have "Bounded_size b \<le> n \<and> Bounded_capacity b = n"
    by (rule bbq.run_keeps [OF run])
      (auto simp: BoundedBlockingQueue_ctor_def bounded_defs split: if_splits)
  then show "Bounded_size b \<le> n" "Bounded_capacity b = n"
    "Bounded_put x b = None \<longleftrightarrow> Bounded_size b = n" "Bounded_take b = None \<longleftrightarrow> Bounded_empty b"
    by (auto simp: bounded_defs)
qed

lemma blocking_queues_witness:
  "bbq.run [Put (1::nat), Put 2, Take] (BoundedBlockingQueue_ctor 2) = Some ([1, 2], [1], \<lparr>items = [2], capacity = 2\<rparr>)
   \<and> [1, 2 :: nat] = [1] @ items \<lparr>items = [2], capacity = 2\<rparr>"
proof -
  have run: "bbq.run [Put (1::nat), Put 2, Take] (BoundedBlockingQueue_ctor 2)
      = Some ([1, 2], [1], \<lparr>items = [2], capacity = 2\<rparr>)"
    by (simp add: BoundedBlockingQueue_ctor_def bounded_defs)
  then show ?thesis
    using blocking_queues [of "[Put (1::nat), Put 2, Take]" "[1, 2]" "[1]" "[2]" 2] by blast
qed

end
