(* ===== verification/Mutex_Lock.thy ===== *)
theory Mutex_Lock
  imports Prelude
begin

text \<open>
  The mutex of src/src/muduo/base/Mutex.h and the condition of Condition.h, with the thread numbers
  of CurrentThread.h. As in \<open>Safe_Queue\<close>, a method is cut into the steps between which other threads
  run, since \<open>holder_\<close> is written while the mutex is held and read by \<open>isLockedByThisThread\<close> at any
  time. \<open>lock_step\<close> is a step of some thread; the invariant says of which thread \<open>holder_\<close> is the number.
\<close>

section \<open>State\<close>

text \<open>
  Where a thread is, named after what it does next. The mutex is taken by a \<open>MutexLockGuard\<close> and given
  back by its destructor; between the two, at \<open>Locked\<close>, the thread may wait for the condition \<open>c\<close>.
\<close>

datatype lock_pc =
    Outside
  | LockMutex | LockAssign | Locked
  | UnlockUnassign | UnlockMutex
  | WaitUnassign nat | WaitRelease nat | WaitAsleep nat | WaitRelock | WaitAssign

text \<open>
  \<open>pthread_mutex\<close> is the thread that has the mutex of the system, \<open>holder\<close> the member \<open>holder_\<close>;
  \<open>t_cachedTid\<close> is a variable of each thread.
\<close>

record lock_world =
  pthread_mutex :: "nat option"
  holder :: int
  t_cachedTid :: "int list"
  pcs :: "lock_pc list"

definition MutexLock_ctor :: "nat \<Rightarrow> lock_world" where
  "MutexLock_ctor n = \<lparr>pthread_mutex = None, holder = 0, t_cachedTid = replicate n 0, pcs = replicate n Outside\<rparr>"

text \<open>
  The destructor asserts that nobody is registered, and that \<open>pthread_mutex_destroy\<close> returns 0,
  which it does not while the mutex is taken.
\<close>

definition MutexLock_dtor :: "lock_world \<Rightarrow> unit option" where
  "MutexLock_dtor w = (if holder w = 0 \<and> pthread_mutex w = None then Some () else None)"

section \<open>Methods\<close>

text \<open>
  \<open>cacheTid\<close> is only declared: the number \<open>gettid i\<close> that it stores for thread \<open>i\<close> is a parameter.
\<close>

definition cacheTid :: "(nat \<Rightarrow> int) \<Rightarrow> nat \<Rightarrow> lock_world \<Rightarrow> lock_world" where
  "cacheTid gettid i w = w\<lparr>t_cachedTid := (t_cachedTid w)[i := gettid i]\<rparr>"

definition tid :: "(nat \<Rightarrow> int) \<Rightarrow> nat \<Rightarrow> lock_world \<Rightarrow> int \<times> lock_world" where
  "tid gettid i w = (let w = (if t_cachedTid w ! i = 0 then cacheTid gettid i w else w) in (t_cachedTid w ! i, w))"

definition isLockedByThisThread :: "(nat \<Rightarrow> int) \<Rightarrow> nat \<Rightarrow> lock_world \<Rightarrow> bool \<times> lock_world" where
  "isLockedByThisThread gettid i w = (let (t, w) = tid gettid i w in (holder w = t, w))"

definition assertLocked :: "(nat \<Rightarrow> int) \<Rightarrow> nat \<Rightarrow> lock_world \<Rightarrow> lock_world option" where
  "assertLocked gettid i w = (let (b, w) = isLockedByThisThread gettid i w in if b then Some w else None)"

definition unassignHolder :: "lock_world \<Rightarrow> lock_world" where
  "unassignHolder w = w\<lparr>holder := 0\<rparr>"

definition assignHolder :: "(nat \<Rightarrow> int) \<Rightarrow> nat \<Rightarrow> lock_world \<Rightarrow> lock_world" where
  "assignHolder gettid i w = (let (t, w) = tid gettid i w in w\<lparr>holder := t\<rparr>)"

definition move_to :: "nat \<Rightarrow> lock_pc \<Rightarrow> lock_world \<Rightarrow> lock_world" where
  "move_to i p w = w\<lparr>pcs := (pcs w)[i := p]\<rparr>"

text \<open>\<open>pthread_mutex_lock\<close> blocks while the mutex is taken; \<open>pthread_mutex_unlock\<close> gives it back.\<close>

definition pthread_lock :: "nat \<Rightarrow> lock_pc \<Rightarrow> lock_world \<Rightarrow> lock_world list" where
  "pthread_lock i p w = (if pthread_mutex w = None then [move_to i p (w\<lparr>pthread_mutex := Some i\<rparr>)] else [])"

definition pthread_unlock :: "nat \<Rightarrow> lock_pc \<Rightarrow> lock_world \<Rightarrow> lock_world list" where
  "pthread_unlock i p w = [move_to i p (w\<lparr>pthread_mutex := None\<rparr>)]"

fun MutexLock_lock :: "(nat \<Rightarrow> int) \<Rightarrow> nat \<Rightarrow> lock_pc \<Rightarrow> lock_world \<Rightarrow> lock_world list" where
  "MutexLock_lock gettid i LockMutex w = pthread_lock i LockAssign w"
| "MutexLock_lock gettid i LockAssign w = [move_to i Locked (assignHolder gettid i w)]"
| "MutexLock_lock gettid i p w = []"

fun MutexLock_unlock :: "nat \<Rightarrow> lock_pc \<Rightarrow> lock_world \<Rightarrow> lock_world list" where
  "MutexLock_unlock i UnlockUnassign w = [move_to i UnlockMutex (unassignHolder w)]"
| "MutexLock_unlock i UnlockMutex w = pthread_unlock i Outside w"
| "MutexLock_unlock i p w = []"

definition MutexLockGuard_ctor :: "nat \<Rightarrow> lock_pc \<Rightarrow> lock_world \<Rightarrow> lock_world list" where
  "MutexLockGuard_ctor i p w = (if p = Outside then [move_to i LockMutex w] else [])"

definition MutexLockGuard_dtor :: "nat \<Rightarrow> lock_pc \<Rightarrow> lock_world \<Rightarrow> lock_world list" where
  "MutexLockGuard_dtor i p w = (if p = Locked then [move_to i UnlockUnassign w] else [])"

text \<open>
  \<open>pthread_cond_wait\<close> gives the mutex back and falls asleep in one step; the thread may wake up
  without being notified, and takes the mutex again before it returns. The \<open>UnassignGuard\<close> around
  it clears \<open>holder_\<close> before and sets it afterwards.
\<close>

fun Condition_wait :: "(nat \<Rightarrow> int) \<Rightarrow> nat \<Rightarrow> lock_pc \<Rightarrow> lock_world \<Rightarrow> lock_world list" where
  "Condition_wait gettid i (WaitUnassign c) w = [move_to i (WaitRelease c) (unassignHolder w)]"
| "Condition_wait gettid i (WaitRelease c) w = pthread_unlock i (WaitAsleep c) w"
| "Condition_wait gettid i (WaitAsleep c) w = [move_to i WaitRelock w]"
| "Condition_wait gettid i WaitRelock w = pthread_lock i WaitAssign w"
| "Condition_wait gettid i WaitAssign w = [move_to i Locked (assignHolder gettid i w)]"
| "Condition_wait gettid i p w = []"

definition sleeping :: "nat \<Rightarrow> lock_world \<Rightarrow> nat list" where
  "sleeping c w = filter (\<lambda>j. pcs w ! j = WaitAsleep c) [0..<length (pcs w)]"

text \<open>\<open>notify\<close> wakes one of the threads asleep on the condition, if there are any, \<open>notifyAll\<close> all of them.\<close>

definition Condition_notify :: "nat \<Rightarrow> lock_world \<Rightarrow> lock_world list" where
  "Condition_notify c w = (if sleeping c w = [] then [w] else map (\<lambda>j. move_to j WaitRelock w) (sleeping c w))"

definition Condition_notifyAll :: "nat \<Rightarrow> lock_world \<Rightarrow> lock_world" where
  "Condition_notifyAll c w = w\<lparr>pcs := map (\<lambda>p. if p = WaitAsleep c then WaitRelock else p) (pcs w)\<rparr>"

inductive lock_step :: "(nat \<Rightarrow> int) \<Rightarrow> lock_world \<Rightarrow> lock_world \<Rightarrow> bool" for gettid where
  guard: "i < length (pcs w) \<Longrightarrow> w' \<in> set (MutexLockGuard_ctor i (pcs w ! i) w) \<Longrightarrow> lock_step gettid w w'"
| lock: "i < length (pcs w) \<Longrightarrow> w' \<in> set (MutexLock_lock gettid i (pcs w ! i) w) \<Longrightarrow> lock_step gettid w w'"
| leave: "i < length (pcs w) \<Longrightarrow> w' \<in> set (MutexLockGuard_dtor i (pcs w ! i) w) \<Longrightarrow> lock_step gettid w w'"
| unlock: "i < length (pcs w) \<Longrightarrow> w' \<in> set (MutexLock_unlock i (pcs w ! i) w) \<Longrightarrow> lock_step gettid w w'"
| call_wait: "i < length (pcs w) \<Longrightarrow> pcs w ! i = Locked \<Longrightarrow> lock_step gettid w (move_to i (WaitUnassign c) w)"
| wait: "i < length (pcs w) \<Longrightarrow> w' \<in> set (Condition_wait gettid i (pcs w ! i) w) \<Longrightarrow> lock_step gettid w w'"
| notify: "w' \<in> set (Condition_notify c w) \<Longrightarrow> lock_step gettid w w'"
| notifyAll: "lock_step gettid w (Condition_notifyAll c w)"
| query: "i < length (pcs w) \<Longrightarrow> lock_step gettid w (snd (isLockedByThisThread gettid i w))"

inductive lock_reachable :: "(nat \<Rightarrow> int) \<Rightarrow> nat \<Rightarrow> lock_world \<Rightarrow> bool" for gettid n where
  start: "lock_reachable gettid n (MutexLock_ctor n)"
| step: "lock_reachable gettid n w \<Longrightarrow> lock_step gettid w w' \<Longrightarrow> lock_reachable gettid n w'"

section \<open>The invariant\<close>

text \<open>The steps at which a thread has the mutex, and those at which \<open>holder_\<close> is its number.\<close>

fun has_mutex :: "lock_pc \<Rightarrow> bool" where
  "has_mutex LockAssign = True"
| "has_mutex Locked = True"
| "has_mutex UnlockUnassign = True"
| "has_mutex UnlockMutex = True"
| "has_mutex (WaitUnassign c) = True"
| "has_mutex (WaitRelease c) = True"
| "has_mutex WaitAssign = True"
| "has_mutex p = False"

fun registered :: "lock_pc \<Rightarrow> bool" where
  "registered Locked = True"
| "registered UnlockUnassign = True"
| "registered (WaitUnassign c) = True"
| "registered p = False"

text \<open>What the system promises of the numbers of threads that are alive.\<close>

definition thread_ids :: "(nat \<Rightarrow> int) \<Rightarrow> bool" where
  "thread_ids gettid \<longleftrightarrow> inj gettid \<and> (\<forall>i. gettid i \<noteq> 0)"

definition lock_inv :: "(nat \<Rightarrow> int) \<Rightarrow> lock_world \<Rightarrow> bool" where
  "lock_inv gettid w \<longleftrightarrow> length (t_cachedTid w) = length (pcs w)
     \<and> (\<forall>i < length (pcs w). t_cachedTid w ! i \<in> {0, gettid i})
     \<and> (\<forall>i < length (pcs w). has_mutex (pcs w ! i) \<longleftrightarrow> pthread_mutex w = Some i)
     \<and> (\<forall>k. pthread_mutex w = Some k \<longrightarrow> k < length (pcs w))
     \<and> holder w = (case pthread_mutex w of None \<Rightarrow> 0 | Some k \<Rightarrow> if registered (pcs w ! k) then gettid k else 0)"

lemma move_to_simps [simp]:
  "pthread_mutex (move_to i p w) = pthread_mutex w" "holder (move_to i p w) = holder w"
  "t_cachedTid (move_to i p w) = t_cachedTid w" "pcs (move_to i p w) = (pcs w)[i := p]"
  by (simp_all add: move_to_def)

lemma tid_simps [simp]:
  "pthread_mutex (snd (tid gettid i w)) = pthread_mutex w" "holder (snd (tid gettid i w)) = holder w"
  "pcs (snd (tid gettid i w)) = pcs w" "length (t_cachedTid (snd (tid gettid i w))) = length (t_cachedTid w)"
  by (simp_all add: tid_def cacheTid_def)

lemma tid_is:
  assumes "lock_inv gettid w" "i < length (pcs w)"
  shows "fst (tid gettid i w) = gettid i"
    and "j < length (pcs w) \<Longrightarrow> t_cachedTid (snd (tid gettid i w)) ! j \<in> {0, gettid j}"
  using assms by (auto simp: lock_inv_def tid_def cacheTid_def nth_list_update)

lemma assignHolder_simps [simp]:
  "pthread_mutex (assignHolder gettid i w) = pthread_mutex w" "pcs (assignHolder gettid i w) = pcs w"
  "holder (assignHolder gettid i w) = fst (tid gettid i w)"
  "t_cachedTid (assignHolder gettid i w) = t_cachedTid (snd (tid gettid i w))"
  by (simp_all add: assignHolder_def split_beta)

lemma registered_has: "registered p \<Longrightarrow> has_mutex p"
  by (cases p) auto

text \<open>A step of one thread that leaves the mutex where it is.\<close>

lemma lock_inv_stay:
  assumes "lock_inv gettid w" "i < length (pcs w)" "pcs w' = (pcs w)[i := p]"
    "has_mutex p \<longleftrightarrow> has_mutex (pcs w ! i)" "pthread_mutex w' = pthread_mutex w"
    "t_cachedTid w' = t_cachedTid w \<or> t_cachedTid w' = t_cachedTid (snd (tid gettid i w))"
    "holder w' = (if has_mutex p then if registered p then gettid i else 0 else holder w)"
  shows "lock_inv gettid w'"
proof -
  have "\<forall>j < length (pcs w'). t_cachedTid w' ! j \<in> {0, gettid j}"
    using assms(6)
  proof
    assume "t_cachedTid w' = t_cachedTid w"
    then show ?thesis
      using assms(1,3) by (simp add: lock_inv_def)
  next
    assume "t_cachedTid w' = t_cachedTid (snd (tid gettid i w))"
    then show ?thesis
      using tid_is(2) [OF assms(1,2)] assms(3) by simp
  qed
  moreover have "length (t_cachedTid w') = length (pcs w')"
    using assms(1,3,6) by (auto simp: lock_inv_def)
  moreover have "\<forall>j < length (pcs w'). has_mutex (pcs w' ! j) \<longleftrightarrow> pthread_mutex w' = Some j"
    using assms(1-5) by (auto simp: lock_inv_def nth_list_update)
  moreover have "holder w' = (case pthread_mutex w' of None \<Rightarrow> 0 | Some k \<Rightarrow> if registered (pcs w' ! k) then gettid k else 0)"
    using assms(1-5,7) by (auto simp: lock_inv_def nth_list_update split: option.splits)
  ultimately show ?thesis
    using assms(1,3,5) by (simp add: lock_inv_def)
qed

text \<open>A step that takes or gives back the mutex.\<close>

lemma lock_inv_take:
  assumes "lock_inv gettid w" "i < length (pcs w)" "w' \<in> set (pthread_lock i p w)" "has_mutex p" "\<not> registered p"
  shows "lock_inv gettid w'"
  using assms by (auto simp: lock_inv_def pthread_lock_def nth_list_update split: if_splits)

lemma lock_inv_give:
  assumes "lock_inv gettid w" "i < length (pcs w)" "w' \<in> set (pthread_unlock i p w)"
    "has_mutex (pcs w ! i)" "\<not> registered (pcs w ! i)" "\<not> has_mutex p"
  shows "lock_inv gettid w'"
  using assms by (auto simp: lock_inv_def pthread_unlock_def nth_list_update)

lemma lock_inv_wake:
  assumes "lock_inv gettid w" "i < length (pcs w)" "pcs w ! i = WaitAsleep c"
  shows "lock_inv gettid (move_to i WaitRelock w)"
  by (rule lock_inv_stay [OF assms(1,2), where p = WaitRelock]) (auto simp: assms(3))

lemma lock_inv_notifyAll:
  assumes "lock_inv gettid w"
  shows "lock_inv gettid (Condition_notifyAll c w)"
proof -
  let ?f = "\<lambda>p. if p = WaitAsleep c then WaitRelock else p"
  have "has_mutex (?f p) = has_mutex p" "registered (?f p) = registered p" for p
    by auto
  then show ?thesis
    using assms unfolding lock_inv_def Condition_notifyAll_def by (simp split: option.splits)
qed

lemma lock_inv_query:
  assumes "lock_inv gettid w" "i < length (pcs w)"
  shows "lock_inv gettid (snd (isLockedByThisThread gettid i w))"
proof -
  have "holder w = (if has_mutex (pcs w ! i) then if registered (pcs w ! i) then gettid i else 0 else holder w)"
    using assms by (simp add: lock_inv_def)
  then show ?thesis
    by (intro lock_inv_stay [OF assms, where p = "pcs w ! i"]) (auto simp: isLockedByThisThread_def split_beta)
qed

lemma lock_inv_step:
  assumes "lock_step gettid w w'" "lock_inv gettid w"
  shows "lock_inv gettid w'"
  using assms(1)
proof (cases rule: lock_step.cases)
  case (guard i)
  then show ?thesis
    by (intro lock_inv_stay [OF assms(2), of i _ LockMutex]) (auto simp: MutexLockGuard_ctor_def split: if_splits)
next
  case (lock i)
  then show ?thesis
    using tid_is(1) [OF assms(2), of i] lock_inv_take [OF assms(2), of i w' LockAssign]
      lock_inv_stay [OF assms(2), of i w' Locked]
    by (cases "pcs w ! i") auto
next
  case (leave i)
  then have "pcs w ! i = Locked" "w' = move_to i UnlockUnassign w"
    by (auto simp: MutexLockGuard_dtor_def split: if_splits)
  moreover have "holder w = gettid i"
    using assms(2) leave(1) \<open>pcs w ! i = Locked\<close> by (force simp: lock_inv_def)
  ultimately show ?thesis
    using leave(1) by (intro lock_inv_stay [OF assms(2), of i _ UnlockUnassign]) auto
next
  case (unlock i)
  then show ?thesis
    using lock_inv_give [OF assms(2), of i w' Outside] lock_inv_stay [OF assms(2), of i w' UnlockMutex]
    by (cases "pcs w ! i") (auto simp: unassignHolder_def)
next
  case (call_wait i c)
  moreover have "holder w = gettid i"
    using assms(2) call_wait(2,3) by (force simp: lock_inv_def)
  ultimately show ?thesis
    by (intro lock_inv_stay [OF assms(2), of i _ "WaitUnassign c"]) auto
next
  case (wait i)
  then show ?thesis
    using tid_is(1) [OF assms(2), of i] lock_inv_take [OF assms(2), of i w' WaitAssign]
      lock_inv_give [OF assms(2), of i w'] lock_inv_wake [OF assms(2), of i]
      lock_inv_stay [OF assms(2), of i w'] 
    by (cases "pcs w ! i") (auto simp: unassignHolder_def)
next
  case (notify c)
  then show ?thesis
    using assms(2) lock_inv_wake [OF assms(2), of _ c]
    by (auto simp: Condition_notify_def sleeping_def split: if_splits)
next
  case (notifyAll c)
  then show ?thesis
    using lock_inv_notifyAll [OF assms(2)] by simp
next
  case (query i)
  then show ?thesis
    using lock_inv_query [OF assms(2)] by simp
qed

lemma lock_inv_start: "lock_inv gettid (MutexLock_ctor n)"
  by (simp add: lock_inv_def MutexLock_ctor_def)

lemma lock_inv_reachable: "lock_reachable gettid n w \<Longrightarrow> lock_inv gettid w"
  by (induction rule: lock_reachable.induct) (auto intro: lock_inv_start lock_inv_step)

lemma lock_step_length:
  assumes "lock_step gettid w w'"
  shows "length (pcs w') = length (pcs w)"
  using assms
proof (cases rule: lock_step.cases)
  case (lock i)
  then show ?thesis
    by (cases "pcs w ! i") (auto simp: pthread_lock_def split: if_splits)
next
  case (unlock i)
  then show ?thesis
    by (cases "pcs w ! i") (auto simp: pthread_unlock_def unassignHolder_def)
next
  case (wait i)
  then show ?thesis
    by (cases "pcs w ! i") (auto simp: pthread_lock_def pthread_unlock_def unassignHolder_def split: if_splits)
qed (auto simp: MutexLockGuard_ctor_def MutexLockGuard_dtor_def Condition_notify_def Condition_notifyAll_def
      isLockedByThisThread_def split_beta split: if_splits)

lemma lock_reachable_length: "lock_reachable gettid n w \<Longrightarrow> length (pcs w) = n"
  by (induction rule: lock_reachable.induct) (auto simp: MutexLock_ctor_def dest: lock_step_length)

text \<open>
  A thread that wants to go on and one that can, without counting those asleep, which may wake up at
  any time.
\<close>

fun wants_on :: "lock_pc \<Rightarrow> bool" where
  "wants_on Outside = False"
| "wants_on (WaitAsleep c) = False"
| "wants_on p = True"

definition enabled :: "(nat \<Rightarrow> int) \<Rightarrow> nat \<Rightarrow> lock_world \<Rightarrow> bool" where
  "enabled gettid i w \<longleftrightarrow> wants_on (pcs w ! i) \<and>
     (MutexLock_lock gettid i (pcs w ! i) w \<noteq> [] \<or> MutexLockGuard_dtor i (pcs w ! i) w \<noteq> []
      \<or> MutexLock_unlock i (pcs w ! i) w \<noteq> [] \<or> Condition_wait gettid i (pcs w ! i) w \<noteq> [])"

lemma holder_enabled: "has_mutex (pcs w ! i) \<Longrightarrow> enabled gettid i w"
  by (cases "pcs w ! i") (simp_all add: enabled_def MutexLockGuard_dtor_def pthread_unlock_def)

lemma free_enabled: "pthread_mutex w = None \<Longrightarrow> wants_on (pcs w ! i) \<Longrightarrow> enabled gettid i w"
  by (cases "pcs w ! i")
    (simp_all add: enabled_def MutexLockGuard_dtor_def pthread_lock_def pthread_unlock_def)

lemma locked_by:
  assumes "thread_ids gettid" "lock_inv gettid w" "i < length (pcs w)"
  shows "fst (isLockedByThisThread gettid i w) \<longleftrightarrow> registered (pcs w ! i)"
proof -
  have t: "fst (isLockedByThisThread gettid i w) \<longleftrightarrow> holder w = gettid i"
    using tid_is(1) [OF assms(2,3)] by (simp add: isLockedByThisThread_def split_beta)
  show ?thesis
  proof (cases "pthread_mutex w")
    case None
    then show ?thesis
      using t assms registered_has [of "pcs w ! i"] by (auto simp: lock_inv_def thread_ids_def)
  next
    case (Some k)
    then have "holder w = gettid i \<longleftrightarrow> k = i \<and> registered (pcs w ! k)"
      using assms by (auto simp: lock_inv_def thread_ids_def dest: injD)
    then show ?thesis
      using t Some assms registered_has [of "pcs w ! i"] by (auto simp: lock_inv_def)
  qed
qed

text \<open>
  C15: in every state the threads can reach, under any interleaving with any waits and notifications, at
  most one thread is past \<open>lock\<close>; \<open>isLockedByThisThread\<close>, although it reads \<open>holder_\<close> without the mutex,
  answers exactly whether the calling thread is the one between \<open>lock\<close> and \<open>unlock\<close>, so that
  \<open>assertLocked\<close> never fails inside a guard and always does elsewhere; as long as a thread
  wants to go on, one that is awake can; and once all are outside the assertions of the destructor hold.
\<close>

theorem mutex_holder:
  assumes "thread_ids gettid" "lock_reachable gettid n w"
  shows "(\<forall>i < n. \<forall>j < n. has_mutex (pcs w ! i) \<and> has_mutex (pcs w ! j) \<longrightarrow> i = j)
    \<and> (\<forall>i < n. fst (isLockedByThisThread gettid i w) = registered (pcs w ! i))
    \<and> (\<forall>i < n. assertLocked gettid i w \<noteq> None \<longleftrightarrow> registered (pcs w ! i))
    \<and> ((\<exists>i < n. wants_on (pcs w ! i)) \<longrightarrow> (\<exists>i < n. enabled gettid i w))
    \<and> ((\<forall>i < n. pcs w ! i = Outside) \<longrightarrow> MutexLock_dtor w = Some ())"
proof -
  have inv: "lock_inv gettid w" and n: "length (pcs w) = n"
    using lock_inv_reachable lock_reachable_length assms(2) by blast+
  have asks: "fst (isLockedByThisThread gettid i w) = registered (pcs w ! i)" if "i < n" for i
    using locked_by [OF assms(1) inv] that n by simp
  moreover have "assertLocked gettid i w \<noteq> None \<longleftrightarrow> registered (pcs w ! i)" if "i < n" for i
    using asks [OF that] by (simp add: assertLocked_def split_beta)
  moreover have "\<exists>j < n. enabled gettid j w" if "i < n" "wants_on (pcs w ! i)" for i
    using inv n that holder_enabled free_enabled
    by (cases "pthread_mutex w") (auto simp: lock_inv_def)
  moreover have "MutexLock_dtor w = Some ()" if "\<forall>i < n. pcs w ! i = Outside"
    using inv n that by (cases "pthread_mutex w") (auto simp: lock_inv_def MutexLock_dtor_def)
  moreover have "i = j" if "i < n" "j < n" "has_mutex (pcs w ! i)" "has_mutex (pcs w ! j)" for i j
    using inv n that by (auto simp: lock_inv_def)
  ultimately show ?thesis
    by blast
qed

text \<open>Two threads: the first waits for a condition, the second has the mutex.\<close>

definition sample_lock_world :: lock_world where
  "sample_lock_world = \<lparr>pthread_mutex = Some 1, holder = 2, t_cachedTid = [1, 2], pcs = [WaitAsleep 0, Locked]\<rparr>"

definition sample_gettid :: "nat \<Rightarrow> int" where
  "sample_gettid i = int i + 1"

lemma sample_lock_reachable: "lock_reachable sample_gettid 2 sample_lock_world"
proof -
  note s = lock_reachable.step
  let ?g = sample_gettid
  let ?w = "\<lambda>m h c p. \<lparr>pthread_mutex = m, holder = h, t_cachedTid = c, pcs = p\<rparr>"
  note defs = MutexLockGuard_ctor_def pthread_lock_def pthread_unlock_def move_to_def assignHolder_def
    unassignHolder_def tid_def cacheTid_def sample_gettid_def
  have "lock_reachable ?g 2 (?w None 0 [0, 0] [Outside, Outside])"
    using lock_reachable.start [of ?g 2] by (simp add: MutexLock_ctor_def numeral_2_eq_2)
  then have "lock_reachable ?g 2 (?w None 0 [0, 0] [LockMutex, Outside])"
    by (rule s) (rule guard [of 0], simp_all add: defs)
  then have "lock_reachable ?g 2 (?w (Some 0) 0 [0, 0] [LockAssign, Outside])"
    by (rule s) (rule lock [of 0], simp_all add: defs)
  then have "lock_reachable ?g 2 (?w (Some 0) 1 [1, 0] [Locked, Outside])"
    by (rule s) (rule lock [of 0], simp_all add: defs)
  then have "lock_reachable ?g 2 (?w (Some 0) 1 [1, 0] [WaitUnassign 0, Outside])"
    by (rule s) (use call_wait [of 0 "?w (Some 0) 1 [1, 0] [Locked, Outside]" ?g 0] in \<open>simp add: defs\<close>)
  then have "lock_reachable ?g 2 (?w (Some 0) 0 [1, 0] [WaitRelease 0, Outside])"
    by (rule s) (rule wait [of 0], simp_all add: defs)
  then have "lock_reachable ?g 2 (?w None 0 [1, 0] [WaitAsleep 0, Outside])"
    by (rule s) (rule wait [of 0], simp_all add: defs)
  then have "lock_reachable ?g 2 (?w None 0 [1, 0] [WaitAsleep 0, LockMutex])"
    by (rule s) (rule guard [of 1], simp_all add: defs)
  then have "lock_reachable ?g 2 (?w (Some 1) 0 [1, 0] [WaitAsleep 0, LockAssign])"
    by (rule s) (rule lock [of 1], simp_all add: defs)
  then have "lock_reachable ?g 2 (?w (Some 1) 2 [1, 2] [WaitAsleep 0, Locked])"
    by (rule s) (rule lock [of 1], simp_all add: defs)
  then show ?thesis
    by (simp add: sample_lock_world_def)
qed

lemma mutex_holder_witness:
  "fst (isLockedByThisThread sample_gettid 1 sample_lock_world)
   \<and> \<not> fst (isLockedByThisThread sample_gettid 0 sample_lock_world)
   \<and> (\<exists>i < 2. enabled sample_gettid i sample_lock_world)"
proof -
  have "thread_ids sample_gettid"
    by (auto simp: thread_ids_def sample_gettid_def inj_def)
  note th = mutex_holder [OF this sample_lock_reachable]
  then have asks: "\<forall>i < 2. fst (isLockedByThisThread sample_gettid i sample_lock_world) = registered (pcs sample_lock_world ! i)"
    by (elim conjE)
  from th have goes: "(\<exists>i < 2. wants_on (pcs sample_lock_world ! i)) \<longrightarrow> (\<exists>i < 2. enabled sample_gettid i sample_lock_world)"
    by (elim conjE)
  have pcs: "pcs sample_lock_world ! 0 = WaitAsleep 0" "pcs sample_lock_world ! 1 = Locked"
    by (simp_all add: sample_lock_world_def)
  then have "\<exists>i < 2. wants_on (pcs sample_lock_world ! i)"
    by (intro exI [of _ 1]) simp
  with goes have "\<exists>i < 2. enabled sample_gettid i sample_lock_world"
    by (rule mp)
  then show ?thesis
    using pcs asks [rule_format, of 0] asks [rule_format, of 1] by simp
qed

end
