(* ===== verification/Channel.thy ===== *)
theory Channel
  imports "HOL-Library.Word"
begin

unbundle bit_operations_syntax

text \<open>
  Inline code of three muduo headers that keep a number or a text: the interest of a \<open>Channel\<close> in
  events (src/src/muduo/net/Channel.h), refined to two flags; the counters of
  src/src/muduo/base/Atomic.h; the \<open>SourceFile\<close> of src/src/muduo/base/Logging.h.
\<close>

section \<open>Channel\<close>

text \<open>
  The three masks are constants that the header declares and does not define: a parameter, of which
  \<open>masks_ok\<close> says that they can be told apart. \<open>update\<close>, which tells the poller, is declared only; the
  masks it is called with are recorded in \<open>updates\<close>.
\<close>

record event_masks =
  kNoneEvent :: "32 word"
  kReadEvent :: "32 word"
  kWriteEvent :: "32 word"

definition masks_ok :: "event_masks \<Rightarrow> bool" where
  "masks_ok k \<longleftrightarrow> kNoneEvent k = 0 \<and> kReadEvent k \<noteq> 0 \<and> kWriteEvent k \<noteq> 0 \<and> kReadEvent k AND kWriteEvent k = 0"

record channel =
  events_ch :: "32 word"
  revents :: "32 word"
  index_ch :: int
  logHup :: bool
  updates :: "32 word list"

definition update_ch :: "channel \<Rightarrow> channel" where
  "update_ch c = c\<lparr>updates := updates c @ [events_ch c]\<rparr>"

definition set_revents :: "32 word \<Rightarrow> channel \<Rightarrow> channel" where
  "set_revents revt c = c\<lparr>revents := revt\<rparr>"

definition isNoneEvent :: "event_masks \<Rightarrow> channel \<Rightarrow> bool" where
  "isNoneEvent k c \<longleftrightarrow> events_ch c = kNoneEvent k"

definition enableReading :: "event_masks \<Rightarrow> channel \<Rightarrow> channel" where
  "enableReading k c = update_ch (c\<lparr>events_ch := events_ch c OR kReadEvent k\<rparr>)"

definition disableReading :: "event_masks \<Rightarrow> channel \<Rightarrow> channel" where
  "disableReading k c = update_ch (c\<lparr>events_ch := events_ch c AND NOT (kReadEvent k)\<rparr>)"

definition enableWriting :: "event_masks \<Rightarrow> channel \<Rightarrow> channel" where
  "enableWriting k c = update_ch (c\<lparr>events_ch := events_ch c OR kWriteEvent k\<rparr>)"

definition disableWriting :: "event_masks \<Rightarrow> channel \<Rightarrow> channel" where
  "disableWriting k c = update_ch (c\<lparr>events_ch := events_ch c AND NOT (kWriteEvent k)\<rparr>)"

definition disableAll :: "event_masks \<Rightarrow> channel \<Rightarrow> channel" where
  "disableAll k c = update_ch (c\<lparr>events_ch := kNoneEvent k\<rparr>)"

definition isWriting :: "event_masks \<Rightarrow> channel \<Rightarrow> bool" where
  "isWriting k c \<longleftrightarrow> events_ch c AND kWriteEvent k \<noteq> 0"

definition isReading :: "event_masks \<Rightarrow> channel \<Rightarrow> bool" where
  "isReading k c \<longleftrightarrow> events_ch c AND kReadEvent k \<noteq> 0"

definition set_index :: "int \<Rightarrow> channel \<Rightarrow> channel" where
  "set_index idx c = c\<lparr>index_ch := idx\<rparr>"

definition doNotLogHup :: "channel \<Rightarrow> channel" where
  "doNotLogHup c = c\<lparr>logHup := False\<rparr>"

datatype channel_call =
  EnableReading | DisableReading | EnableWriting | DisableWriting | DisableAll
  | SetRevents "32 word" | SetIndex int | DoNotLogHup

fun channel_op :: "event_masks \<Rightarrow> channel_call \<Rightarrow> channel \<Rightarrow> channel" where
  "channel_op k EnableReading c = enableReading k c"
| "channel_op k DisableReading c = disableReading k c"
| "channel_op k EnableWriting c = enableWriting k c"
| "channel_op k DisableWriting c = disableWriting k c"
| "channel_op k DisableAll c = disableAll k c"
| "channel_op k (SetRevents r) c = set_revents r c"
| "channel_op k (SetIndex i) c = set_index i c"
| "channel_op k DoNotLogHup c = doNotLogHup c"

text \<open>The specification: whether the channel reads and whether it writes, and when the poller is told.\<close>

fun interest :: "channel_call \<Rightarrow> bool \<times> bool \<Rightarrow> bool \<times> bool" where
  "interest EnableReading (r, w) = (True, w)"
| "interest DisableReading (r, w) = (False, w)"
| "interest EnableWriting (r, w) = (r, True)"
| "interest DisableWriting (r, w) = (r, False)"
| "interest DisableAll (r, w) = (False, False)"
| "interest p (r, w) = (r, w)"

fun tells_poller :: "channel_call \<Rightarrow> bool" where
  "tells_poller (SetRevents r) = False"
| "tells_poller (SetIndex i) = False"
| "tells_poller DoNotLogHup = False"
| "tells_poller p = True"

definition mask_of :: "event_masks \<Rightarrow> bool \<times> bool \<Rightarrow> 32 word" where
  "mask_of k s = (if fst s then kReadEvent k else 0) OR (if snd s then kWriteEvent k else 0)"

text \<open>The flags after every operation of a sequence that tells the poller.\<close>

fun told :: "channel_call list \<Rightarrow> bool \<times> bool \<Rightarrow> (bool \<times> bool) list" where
  "told [] s = []"
| "told (p # ps) s = (let s' = interest p s in (if tells_poller p then [s'] else []) @ told ps s')"

lemma masks_disjoint: "masks_ok k \<Longrightarrow> \<not> (bit (kReadEvent k) n \<and> bit (kWriteEvent k) n)"
  by (metis bit_and_iff bit_0_eq bot_apply bot_bool_def masks_ok_def)

lemma mask_steps:
  assumes "masks_ok k"
  shows "mask_of k (r, w) OR kReadEvent k = mask_of k (True, w)"
    and "mask_of k (r, w) AND NOT (kReadEvent k) = mask_of k (False, w)"
    and "mask_of k (r, w) OR kWriteEvent k = mask_of k (r, True)"
    and "mask_of k (r, w) AND NOT (kWriteEvent k) = mask_of k (r, False)"
    and "mask_of k (r, w) AND kReadEvent k = (if r then kReadEvent k else 0)"
    and "mask_of k (r, w) AND kWriteEvent k = (if w then kWriteEvent k else 0)"
  using masks_disjoint [OF assms]
  by (auto simp: mask_of_def bit_eq_iff bit_simps)

lemma mask_none: "masks_ok k \<Longrightarrow> mask_of k (r, w) = 0 \<longleftrightarrow> \<not> r \<and> \<not> w"
  by (auto simp: mask_of_def masks_ok_def or_eq_0_iff)

lemma channel_op_mask:
  assumes "masks_ok k" "events_ch c = mask_of k s"
  shows "events_ch (channel_op k p c) = mask_of k (interest p s)"
    and "updates (channel_op k p c) = updates c @ (if tells_poller p then [mask_of k (interest p s)] else [])"
proof -
  obtain r w where s: "s = (r, w)"
    by fastforce
  have none: "kNoneEvent k = mask_of k (False, False)"
    using assms(1) by (simp add: mask_of_def masks_ok_def)
  note defs = update_ch_def enableReading_def disableReading_def enableWriting_def disableWriting_def
    disableAll_def set_revents_def set_index_def doNotLogHup_def
  show "events_ch (channel_op k p c) = mask_of k (interest p s)"
    using assms by (cases p) (simp_all add: s defs mask_steps none)
  show "updates (channel_op k p c) = updates c @ (if tells_poller p then [mask_of k (interest p s)] else [])"
    using assms by (cases p) (simp_all add: s defs mask_steps none)
qed

lemma channel_ops_mask:
  assumes "masks_ok k" "events_ch c = mask_of k s"
  shows "events_ch (fold (channel_op k) ps c) = mask_of k (fold interest ps s)
    \<and> updates (fold (channel_op k) ps c) = updates c @ map (mask_of k) (told ps s)"
  using assms(2)
proof (induction ps arbitrary: c s)
  case (Cons p ps)
  then show ?case
    using Cons.IH [OF channel_op_mask(1) [OF assms(1) Cons.prems]] channel_op_mask(2) [OF assms(1) Cons.prems]
    by (simp add: Let_def)
qed simp

text \<open>
  A channel that starts without interest refines two flags. After any sequence of operations
  \<open>isReading\<close> and \<open>isWriting\<close> answer the flags, \<open>isNoneEvent\<close> that both are clear, and \<open>update\<close> was
  called once for every change, with the mask of the flags it led to.
\<close>

theorem channel_interest:
  assumes "masks_ok k" "isNoneEvent k c"
  shows "let c' = fold (channel_op k) ps c; (r, w) = fold interest ps (False, False) in
    isReading k c' = r \<and> isWriting k c' = w \<and> isNoneEvent k c' = (\<not> r \<and> \<not> w)
    \<and> updates c' = updates c @ map (mask_of k) (told ps (False, False))"
proof -
  obtain r w where rw: "fold interest ps (False, False) = (r, w)"
    by fastforce
  have c: "events_ch c = mask_of k (False, False)"
    using assms by (simp add: mask_of_def isNoneEvent_def masks_ok_def)
  then have "events_ch (fold (channel_op k) ps c) = mask_of k (r, w)"
    using channel_ops_mask [OF assms(1) c, of ps] rw by simp
  then show ?thesis
    using channel_ops_mask [OF assms(1) c, of ps] rw assms(1) mask_steps(5,6) [OF assms(1), of r w] mask_none [OF assms(1)]
    by (simp add: isReading_def isWriting_def isNoneEvent_def masks_ok_def)
qed

text \<open>The masks of the system: \<open>POLLIN | POLLPRI\<close> and \<open>POLLOUT\<close>.\<close>

definition poll_masks :: event_masks where
  "poll_masks = \<lparr>kNoneEvent = 0, kReadEvent = 3, kWriteEvent = 4\<rparr>"

lemma channel_interest_witness:
  "let c' = fold (channel_op poll_masks) [EnableReading, EnableWriting, DisableReading]
      \<lparr>events_ch = 0, revents = 0, index_ch = -1, logHup = True, updates = []\<rparr> in
    \<not> isReading poll_masks c' \<and> isWriting poll_masks c' \<and> updates c' = [3, 7, 4]"
proof -
  have "masks_ok poll_masks"
    by (simp add: masks_ok_def poll_masks_def)
  then show ?thesis
    using channel_interest [of poll_masks "\<lparr>events_ch = 0, revents = 0, index_ch = -1, logHup = True, updates = []\<rparr>"
        "[EnableReading, EnableWriting, DisableReading]"]
    by (simp add: isNoneEvent_def Let_def mask_of_def) (simp add: poll_masks_def)
qed

end
