(* ===== verification/Atomic.thy ===== *)
theory Atomic
  imports "HOL-Library.Word"
begin

text \<open>
  The counters of src/src/muduo/base/Atomic.h. A method makes one atomic access and may then add to
  what it returned: the accesses of any number of threads are a sequence, and the result of each is
  computed from its own. The access wraps around; the addition after it is one of signed integers,
  whose overflow is undefined, \<open>None\<close>.
\<close>

section \<open>Methods\<close>

text \<open>The builtins give the old value and the new one.\<close>

definition sync_val_compare_and_swap :: "'a::len word \<Rightarrow> 'a word \<Rightarrow> 'a word \<Rightarrow> 'a word \<times> 'a word" where
  "sync_val_compare_and_swap old new v = (v, if v = old then new else v)"

definition sync_fetch_and_add :: "'a::len word \<Rightarrow> 'a word \<Rightarrow> 'a word \<times> 'a word" where
  "sync_fetch_and_add x v = (v, v + x)"

definition sync_lock_test_and_set :: "'a::len word \<Rightarrow> 'a word \<Rightarrow> 'a word \<times> 'a word" where
  "sync_lock_test_and_set x v = (v, x)"

definition in_range :: "'a::len itself \<Rightarrow> int \<Rightarrow> bool" where
  "in_range a i \<longleftrightarrow> - (2 ^ (LENGTH('a) - 1)) \<le> i \<and> i < 2 ^ (LENGTH('a) - 1)"

definition signed_add :: "'a::len word \<Rightarrow> 'a word \<Rightarrow> 'a word option" where
  "signed_add x y = (if in_range TYPE('a) (sint x + sint y) then Some (x + y) else None)"

definition AtomicIntegerT_ctor :: "'a::len word" where
  "AtomicIntegerT_ctor = 0"

definition AtomicIntegerT_get :: "'a::len word \<Rightarrow> 'a word \<times> 'a word" where
  "AtomicIntegerT_get v = sync_val_compare_and_swap 0 0 v"

definition getAndAdd :: "'a::len word \<Rightarrow> 'a word \<Rightarrow> 'a word \<times> 'a word" where
  "getAndAdd x v = sync_fetch_and_add x v"

definition addAndGet :: "'a::len word \<Rightarrow> 'a word \<Rightarrow> 'a word option \<times> 'a word" where
  "addAndGet x v = (let (r, v) = getAndAdd x v in (signed_add r x, v))"

definition incrementAndGet :: "'a::len word \<Rightarrow> 'a word option \<times> 'a word" where
  "incrementAndGet v = addAndGet 1 v"

definition decrementAndGet :: "'a::len word \<Rightarrow> 'a word option \<times> 'a word" where
  "decrementAndGet v = addAndGet (- 1) v"

definition atomic_add :: "'a::len word \<Rightarrow> 'a word \<Rightarrow> 'a word" where
  "atomic_add x v = snd (getAndAdd x v)"

text \<open>These two drop the result, after it has been computed.\<close>

definition increment :: "'a::len word \<Rightarrow> 'a word option" where
  "increment v = (case incrementAndGet v of (None, _) \<Rightarrow> None | (Some _, v) \<Rightarrow> Some v)"

definition decrement :: "'a::len word \<Rightarrow> 'a word option" where
  "decrement v = (case decrementAndGet v of (None, _) \<Rightarrow> None | (Some _, v) \<Rightarrow> Some v)"

definition getAndSet :: "'a::len word \<Rightarrow> 'a word \<Rightarrow> 'a word \<times> 'a word" where
  "getAndSet newValue v = sync_lock_test_and_set newValue v"

section \<open>Sequences of accesses\<close>

text \<open>The results of \<open>addAndGet\<close> with the addends \<open>xs\<close>, in the order of the accesses, and the last value.\<close>

fun adds :: "'a::len word list \<Rightarrow> 'a word \<Rightarrow> 'a word option list \<times> 'a word" where
  "adds [] v = ([], v)"
| "adds (x # xs) v = (let (r, v) = addAndGet x v; (rs, v) = adds xs v in (r # rs, v))"

fun sums :: "int \<Rightarrow> int list \<Rightarrow> int list" where
  "sums s [] = []"
| "sums s (x # xs) = (s + x) # sums (s + x) xs"

lemma sint_in_range: "in_range TYPE('a) (sint (x :: 'a::len word))"
  unfolding in_range_def using sint_lt [of x] sint_ge [of x] by simp

lemma signed_add_Some:
  assumes "in_range TYPE('a) (sint x + sint (y :: 'a::len word))"
  shows "sint (x + y) = sint x + sint y"
proof -
  have "sint (x + y) = signed_take_bit (LENGTH('a) - 1) (sint x + sint y)"
    by (simp add: sint_word_add)
  then show ?thesis
    using assms by (simp add: in_range_def signed_take_bit_int_eq_self_iff)
qed

text \<open>Whatever the results are, the accesses lose nothing.\<close>

lemma adds_value: "snd (adds xs v) = v + sum_list xs"
  by (induction xs arbitrary: v)
    (auto simp: addAndGet_def getAndAdd_def sync_fetch_and_add_def split_beta Let_def add.assoc)

lemma addAndGet_in_range:
  assumes "in_range TYPE('a) (sint v + sint (x :: 'a::len word))"
  shows "addAndGet x v = (Some (v + x), v + x)" "sint (v + x) = sint v + sint x"
  using assms signed_add_Some [OF assms]
  by (simp_all add: addAndGet_def getAndAdd_def sync_fetch_and_add_def signed_add_def)

text \<open>
  While every sum is in the range of the type, each call returns the sum of all addends up to its own, in
  the order of the accesses, so that no two calls of \<open>incrementAndGet\<close> return the same number.
\<close>

theorem adds_sums:
  fixes xs :: "'a::len word list"
  assumes "\<forall>s \<in> set (sums (sint v) (map sint xs)). in_range TYPE('a) s"
  shows "map (map_option sint) (fst (adds xs v)) = map Some (sums (sint v) (map sint xs))"
  using assms
proof (induction xs arbitrary: v)
  case (Cons x xs)
  then have "in_range TYPE('a) (sint v + sint x)"
    by simp
  note step = addAndGet_in_range [OF this]
  then show ?case
    using Cons.IH [of "v + x"] Cons.prems by (simp add: split_beta Let_def)
qed simp

lemma adds_sums_witness:
  "map (map_option sint) (fst (adds [1, 1, - 1] (AtomicIntegerT_ctor :: 32 word))) = [Some 1, Some 2, Some 1]"
  using adds_sums [of AtomicIntegerT_ctor "[1, 1, - 1 :: 32 word]"]
  by (simp add: AtomicIntegerT_ctor_def in_range_def)

text \<open>
  The counter itself wraps, but \<open>increment\<close> at the greatest number is undefined: it adds again to
  compute a result that it drops.
\<close>

theorem increment_overflow:
  "increment (v :: 32 word) = (if sint v = 2 ^ 31 - 1 then None else Some (v + 1))"
  "atomic_add 1 v = v + 1"
proof -
  have "in_range TYPE(32) (sint v + 1) \<longleftrightarrow> sint v \<noteq> 2 ^ 31 - 1"
    using sint_in_range [of v] by (auto simp: in_range_def)
  then show "increment v = (if sint v = 2 ^ 31 - 1 then None else Some (v + 1))"
    by (simp add: increment_def incrementAndGet_def addAndGet_def getAndAdd_def sync_fetch_and_add_def signed_add_def)
qed (simp add: atomic_add_def getAndAdd_def sync_fetch_and_add_def)

end
