(* ===== verification/String_Piece.thy ===== *)
theory String_Piece
  imports Prelude "HOL-Library.List_Lexorder" "HOL-Library.Char_ord" "HOL-Library.Sublist"
begin

text \<open>
  src/src/muduo/base/StringPiece.h: a pointer and a signed length, without a check that they
  belong together. A piece holds the characters that can be read from its pointer on; \<open>None\<close> is a
  read beyond them. The comparisons are proved to be those of the texts.
\<close>

record StringPiece =
  ptr :: string          \<comment> \<open>what can be read from the pointer on; nothing for the null pointer\<close>
  length_of :: int

definition StringPiece_default :: StringPiece where
  "StringPiece_default = \<lparr>ptr = '''', length_of = 0\<rparr>"

text \<open>A C string is followed by its NUL character; \<open>strlen\<close> reads up to it.\<close>

definition strlen :: "string \<Rightarrow> int option" where
  "strlen s = (if CHR 0x00 \<in> set s then Some (int (length (takeWhile (\<lambda>c. c \<noteq> CHR 0x00) s))) else None)"

definition StringPiece_cstr :: "string \<Rightarrow> StringPiece option" where
  "StringPiece_cstr str = map_option (\<lambda>n. \<lparr>ptr = str, length_of = n\<rparr>) (strlen str)"

definition StringPiece_string :: "string \<Rightarrow> StringPiece" where
  "StringPiece_string str = \<lparr>ptr = str @ [CHR 0x00], length_of = int (length str)\<rparr>"

definition StringPiece_range :: "string \<Rightarrow> int \<Rightarrow> StringPiece" where
  "StringPiece_range offset len = \<lparr>ptr = offset, length_of = len\<rparr>"

definition piece_empty :: "StringPiece \<Rightarrow> bool" where
  "piece_empty p \<longleftrightarrow> length_of p = 0"

definition piece_clear :: "StringPiece \<Rightarrow> StringPiece" where
  "piece_clear p = \<lparr>ptr = '''', length_of = 0\<rparr>"

definition piece_set :: "string \<Rightarrow> int \<Rightarrow> StringPiece \<Rightarrow> StringPiece" where
  "piece_set buffer len p = \<lparr>ptr = buffer, length_of = len\<rparr>"

definition piece_set_cstr :: "string \<Rightarrow> StringPiece \<Rightarrow> StringPiece option" where
  "piece_set_cstr str p = map_option (\<lambda>n. \<lparr>ptr = str, length_of = n\<rparr>) (strlen str)"

definition piece_index :: "StringPiece \<Rightarrow> int \<Rightarrow> char option" where
  "piece_index p i = (if 0 \<le> i \<and> i < int (length (ptr p)) then Some (ptr p ! nat i) else None)"

definition remove_prefix :: "int \<Rightarrow> StringPiece \<Rightarrow> StringPiece option" where
  "remove_prefix n p =
    (if 0 \<le> n \<and> n \<le> int (length (ptr p))
     then Some \<lparr>ptr = drop (nat n) (ptr p), length_of = length_of p - n\<rparr> else None)"

definition remove_suffix :: "int \<Rightarrow> StringPiece \<Rightarrow> StringPiece" where
  "remove_suffix n p = p\<lparr>length_of := length_of p - n\<rparr>"

text \<open>\<open>memcmp\<close>: the sign of the first difference of the bytes; a negative count is a huge one.\<close>

fun first_diff :: "nat \<Rightarrow> string \<Rightarrow> string \<Rightarrow> int" where
  "first_diff (Suc n) (c # cs) (d # ds) =
    (if c = d then first_diff n cs ds else if (of_char c :: nat) < of_char d then -1 else 1)"
| "first_diff n cs ds = 0"

definition memcmp :: "string \<Rightarrow> string \<Rightarrow> int \<Rightarrow> int option" where
  "memcmp p q n =
    (if 0 \<le> n \<and> n \<le> int (length p) \<and> n \<le> int (length q) then Some (first_diff (nat n) p q) else None)"

definition piece_eq :: "StringPiece \<Rightarrow> StringPiece \<Rightarrow> bool option" where
  "piece_eq this x =
    (if length_of this = length_of x
     then map_option (\<lambda>r. r = 0) (memcmp (ptr this) (ptr x) (length_of this)) else Some False)"

definition piece_neq :: "StringPiece \<Rightarrow> StringPiece \<Rightarrow> bool option" where
  "piece_neq this x = map_option Not (piece_eq this x)"

text \<open>The macro the four order operators are made with.\<close>

definition STRINGPIECE_BINARY_PREDICATE ::
  "(int \<Rightarrow> int \<Rightarrow> bool) \<Rightarrow> (int \<Rightarrow> int \<Rightarrow> bool) \<Rightarrow> StringPiece \<Rightarrow> StringPiece \<Rightarrow> bool option" where
  "STRINGPIECE_BINARY_PREDICATE cmp auxcmp this x =
    map_option (\<lambda>r. auxcmp r 0 \<or> (r = 0 \<and> cmp (length_of this) (length_of x)))
      (memcmp (ptr this) (ptr x) (if length_of this < length_of x then length_of this else length_of x))"

definition piece_less :: "StringPiece \<Rightarrow> StringPiece \<Rightarrow> bool option" where
  "piece_less = STRINGPIECE_BINARY_PREDICATE (<) (<)"

definition piece_less_eq :: "StringPiece \<Rightarrow> StringPiece \<Rightarrow> bool option" where
  "piece_less_eq = STRINGPIECE_BINARY_PREDICATE (\<le>) (<)"

definition piece_greater_eq :: "StringPiece \<Rightarrow> StringPiece \<Rightarrow> bool option" where
  "piece_greater_eq = STRINGPIECE_BINARY_PREDICATE (\<ge>) (>)"

definition piece_greater :: "StringPiece \<Rightarrow> StringPiece \<Rightarrow> bool option" where
  "piece_greater = STRINGPIECE_BINARY_PREDICATE (>) (>)"

definition piece_compare :: "StringPiece \<Rightarrow> StringPiece \<Rightarrow> int option" where
  "piece_compare this x =
    map_option (\<lambda>r. if r = 0 then (if length_of this < length_of x then -1
                                 else if length_of this > length_of x then 1 else 0) else r)
      (memcmp (ptr this) (ptr x) (if length_of this < length_of x then length_of this else length_of x))"

definition as_string :: "StringPiece \<Rightarrow> string option" where
  "as_string p =
    (if 0 \<le> length_of p \<and> length_of p \<le> int (length (ptr p)) then Some (take (nat (length_of p)) (ptr p)) else None)"

definition CopyToString :: "StringPiece \<Rightarrow> string option" where
  "CopyToString p = as_string p"

definition starts_with :: "StringPiece \<Rightarrow> StringPiece \<Rightarrow> bool option" where
  "starts_with this x =
    (if length_of this \<ge> length_of x
     then map_option (\<lambda>r. r = 0) (memcmp (ptr this) (ptr x) (length_of x)) else Some False)"

lemmas piece_defs = StringPiece_default_def StringPiece_cstr_def StringPiece_string_def StringPiece_range_def
  piece_empty_def piece_clear_def piece_set_def piece_set_cstr_def piece_index_def remove_prefix_def
  remove_suffix_def as_string_def CopyToString_def

section \<open>Lemmas\<close>

lemma Nil_less_iff: "[] < t \<longleftrightarrow> t \<noteq> []" for t :: string
  by (cases t) auto

lemma first_diff_take:
  "n \<le> a \<Longrightarrow> n \<le> b \<Longrightarrow> first_diff n (take a p) (take b q) = first_diff n p q"
proof (induction n p q arbitrary: a b rule: first_diff.induct)
  case (1 n c cs d ds)
  then show ?case
    by (cases a; cases b) auto
qed (auto simp: take_Cons' split: nat.splits)

text \<open>The first difference within the shorter text and the lengths decide the order of two texts.\<close>

lemma first_diff_order:
  assumes "n = min (length s) (length t)"
  shows "first_diff n s t < 0 \<or> first_diff n s t = 0 \<and> length s < length t \<longleftrightarrow> s < t"
    "first_diff n s t = 0 \<and> length s = length t \<longleftrightarrow> s = t"
    "first_diff n s t > 0 \<or> first_diff n s t = 0 \<and> length s > length t \<longleftrightarrow> t < s"
  using assms
proof (induction n s t rule: first_diff.induct)
  case (1 n c cs d ds)
  {
    case 1
    then show ?case
      using "1.IH" by (auto simp: less_char_def)
  next
    case 2
    then show ?case
      using "1.IH" by (auto simp: less_char_def)
  next
    case 3
    then show ?case
      using "1.IH" linorder_less_linear [of c d] by (auto simp: less_char_def)
  }
qed (auto simp: min_def neq_Nil_conv Nil_less_iff split: if_splits)

lemma first_diff_prefix:
  "length t \<le> length s \<Longrightarrow> first_diff (length t) s t = 0 \<longleftrightarrow> prefix t s"
proof (induction t arbitrary: s)
  case (Cons d t)
  then show ?case
    by (cases s) auto
qed simp

text \<open>A piece whose length does not reach beyond its characters, and its text.\<close>

definition piece_ok :: "StringPiece \<Rightarrow> bool" where
  "piece_ok p \<longleftrightarrow> 0 \<le> length_of p \<and> length_of p \<le> int (length (ptr p))"

definition piece_text :: "StringPiece \<Rightarrow> string" where
  "piece_text p = take (nat (length_of p)) (ptr p)"

lemma piece_text_length: "piece_ok p \<Longrightarrow> int (length (piece_text p)) = length_of p"
  by (auto simp: piece_ok_def piece_text_def min_def)

lemma memcmp_text:
  assumes "piece_ok p" "piece_ok q" "0 \<le> n" "n \<le> length_of p" "n \<le> length_of q"
  shows "memcmp (ptr p) (ptr q) n = Some (first_diff (nat n) (piece_text p) (piece_text q))"
  using assms by (simp add: memcmp_def piece_ok_def piece_text_def first_diff_take)

lemma memcmp_shorter:
  assumes "piece_ok p" "piece_ok q"
  shows "memcmp (ptr p) (ptr q) (if length_of p < length_of q then length_of p else length_of q)
    = Some (first_diff (min (length (piece_text p)) (length (piece_text q))) (piece_text p) (piece_text q))"
proof -
  let ?n = "if length_of p < length_of q then length_of p else length_of q"
  have "nat ?n = min (length (piece_text p)) (length (piece_text q))"
    using piece_text_length [OF assms(1)] piece_text_length [OF assms(2)] by (auto simp: min_def)
  moreover have "memcmp (ptr p) (ptr q) ?n = Some (first_diff (nat ?n) (piece_text p) (piece_text q))"
    using assms by (intro memcmp_text) (auto simp: piece_ok_def)
  ultimately show ?thesis
    by simp
qed

text \<open>Shortening keeps a piece well formed as long as nothing is taken that is not there.\<close>

lemma remove_prefix_ok:
  assumes "piece_ok p" "0 \<le> n" "n \<le> length_of p"
  shows "\<exists>q. remove_prefix n p = Some q \<and> piece_ok q \<and> piece_text q = drop (nat n) (piece_text p)"
  using assms by (simp add: remove_prefix_def piece_ok_def piece_text_def take_drop nat_diff_distrib)

lemma remove_suffix_ok:
  assumes "piece_ok p" "0 \<le> n" "n \<le> length_of p"
  shows "piece_ok (remove_suffix n p)
    \<and> piece_text (remove_suffix n p) = take (length (piece_text p) - nat n) (piece_text p)"
proof -
  obtain m k where "length_of p = int m" "n = int k"
    using assms by (metis nonneg_int_cases piece_ok_def)
  then show ?thesis
    using assms by (auto simp: remove_suffix_def piece_ok_def piece_text_def nat_minus_as_int min_def)
qed

text \<open>The order of two texts, by their first difference and then by their lengths.\<close>

lemma piece_predicate:
  assumes "piece_ok x" "piece_ok y"
  shows "STRINGPIECE_BINARY_PREDICATE cmp auxcmp x y
    = (let s = piece_text x; t = piece_text y; d = first_diff (min (length s) (length t)) s t
       in Some (auxcmp d 0 \<or> (d = 0 \<and> cmp (int (length s)) (int (length t)))))"
  unfolding STRINGPIECE_BINARY_PREDICATE_def memcmp_shorter [OF assms]
  by (simp add: Let_def piece_text_length [OF assms(1)] piece_text_length [OF assms(2)])

lemma piece_less_text:
  assumes "piece_ok x" "piece_ok y"
  shows "piece_less x y = Some (piece_text x < piece_text y)"
    "piece_greater x y = Some (piece_text x > piece_text y)"
  using first_diff_order(1,3) [OF refl, of "piece_text x" "piece_text y"]
  by (simp_all add: piece_less_def piece_greater_def piece_predicate [OF assms] Let_def)

lemma piece_less_eq_text:
  assumes "piece_ok x" "piece_ok y"
  shows "piece_less_eq x y = Some (piece_text x \<le> piece_text y)"
    "piece_greater_eq x y = Some (piece_text x \<ge> piece_text y)"
proof -
  let ?s = "piece_text x" and ?t = "piece_text y"
  let ?d = "first_diff (min (length ?s) (length ?t)) ?s ?t"
  note order = first_diff_order [OF refl, of ?s ?t]
  have "(?d < 0 \<or> ?d = 0 \<and> length ?s \<le> length ?t) \<longleftrightarrow> ?s < ?t \<or> ?s = ?t"
    "(?d > 0 \<or> ?d = 0 \<and> length ?s \<ge> length ?t) \<longleftrightarrow> ?t < ?s \<or> ?s = ?t"
    unfolding order [symmetric] by auto
  then show "piece_less_eq x y = Some (?s \<le> ?t)" "piece_greater_eq x y = Some (?s \<ge> ?t)"
    by (simp_all add: piece_less_eq_def piece_greater_eq_def piece_predicate [OF assms] Let_def
        order_le_less eq_commute [of ?t])
qed

lemma piece_eq_text:
  assumes "piece_ok x" "piece_ok y"
  shows "piece_eq x y = Some (piece_text x = piece_text y)"
proof (cases "length (piece_text x) = length (piece_text y)")
  case True
  then show ?thesis
    using first_diff_order(2) [OF refl, of "piece_text x" "piece_text y"] memcmp_shorter [OF assms]
    by (simp add: piece_eq_def flip: piece_text_length [OF assms(1)] piece_text_length [OF assms(2)])
qed (auto simp: piece_eq_def simp flip: piece_text_length [OF assms(1)] piece_text_length [OF assms(2)])

lemma starts_with_text:
  assumes "piece_ok x" "piece_ok y"
  shows "starts_with x y = Some (prefix (piece_text y) (piece_text x))"
proof (cases "length (piece_text y) \<le> length (piece_text x)")
  case True
  then show ?thesis
    using memcmp_text [OF assms, of "length_of y"] first_diff_prefix [OF True]
    by (simp add: starts_with_def flip: piece_text_length [OF assms(1)] piece_text_length [OF assms(2)])
qed (auto simp: starts_with_def dest: prefix_length_le
      simp flip: piece_text_length [OF assms(1)] piece_text_length [OF assms(2)])

lemma piece_compare_text:
  assumes "piece_ok x" "piece_ok y"
  shows "\<exists>r. piece_compare x y = Some r \<and> (r < 0 \<longleftrightarrow> piece_text x < piece_text y)
    \<and> (r = 0 \<longleftrightarrow> piece_text x = piece_text y) \<and> (r > 0 \<longleftrightarrow> piece_text x > piece_text y)"
proof -
  let ?s = "piece_text x" and ?t = "piece_text y"
  let ?d = "first_diff (min (length ?s) (length ?t)) ?s ?t"
  let ?r = "if ?d = 0 then (if length ?s < length ?t then -1 else if length ?s > length ?t then 1 else 0) else ?d"
  have "piece_compare x y = Some ?r"
    unfolding piece_compare_def memcmp_shorter [OF assms]
    by (simp flip: piece_text_length [OF assms(1)] piece_text_length [OF assms(2)])
  moreover have "?r < 0 \<longleftrightarrow> ?d < 0 \<or> ?d = 0 \<and> length ?s < length ?t"
    "?r = 0 \<longleftrightarrow> ?d = 0 \<and> length ?s = length ?t" "?r > 0 \<longleftrightarrow> ?d > 0 \<or> ?d = 0 \<and> length ?s > length ?t"
    by auto
  ultimately show ?thesis
    unfolding first_diff_order [OF refl, of ?s ?t] by blast
qed

section \<open>Properties\<close>

text \<open>
  C31: the comparisons of pieces are those of their texts as sequences of unsigned bytes:
  equality, the four order operators, the sign of \<open>compare\<close>, and \<open>starts_with\<close> is the prefix
  relation. None of them reads beyond the pieces.
\<close>

theorem pieces_compare:
  assumes "piece_ok x" "piece_ok y"
  shows "piece_eq x y = Some (piece_text x = piece_text y)
    \<and> piece_less x y = Some (piece_text x < piece_text y)
    \<and> piece_less_eq x y = Some (piece_text x \<le> piece_text y)
    \<and> piece_greater_eq x y = Some (piece_text x \<ge> piece_text y)
    \<and> piece_greater x y = Some (piece_text x > piece_text y)
    \<and> (\<exists>r. piece_compare x y = Some r \<and> (r < 0 \<longleftrightarrow> piece_text x < piece_text y)
          \<and> (r = 0 \<longleftrightarrow> piece_text x = piece_text y) \<and> (r > 0 \<longleftrightarrow> piece_text x > piece_text y))
    \<and> starts_with x y = Some (prefix (piece_text y) (piece_text x))"
  using piece_eq_text [OF assms] piece_less_text [OF assms] piece_less_eq_text [OF assms]
    piece_compare_text [OF assms] starts_with_text [OF assms]
  by (intro conjI)

lemma pieces_compare_witness:
  "piece_less (StringPiece_string ''ab'') (StringPiece_range ''abc'' 3) = Some True
   \<and> starts_with (StringPiece_range ''abc'' 3) (StringPiece_string ''ab'') = Some True"
proof -
  have ok: "piece_ok (StringPiece_string ''ab'')" "piece_ok (StringPiece_range ''abc'' 3)"
    "piece_text (StringPiece_string ''ab'') = ''ab''" "piece_text (StringPiece_range ''abc'' 3) = ''abc''"
    by (simp_all add: piece_ok_def piece_text_def piece_defs)
  then show ?thesis
    using pieces_compare [OF ok(1,2)] pieces_compare [OF ok(2,1)] by simp
qed

end
