(* ===== verification/Logging.thy ===== *)
theory Logging
  imports String_Piece
begin

text \<open>
  The inline part of src/src/muduo/base/Logging.h: the levels with the conditions of the logging
  macros, and \<open>SourceFile\<close>, the part of a file name behind its last slash, computed in two ways.
\<close>

section \<open>Levels\<close>

datatype LogLevel = TRACE | DEBUG | INFO | WARN | ERROR | FATAL | NUM_LOG_LEVELS

primrec level_number :: "LogLevel \<Rightarrow> nat" where
  "level_number TRACE = 0"
| "level_number DEBUG = 1"
| "level_number INFO = 2"
| "level_number WARN = 3"
| "level_number ERROR = 4"
| "level_number FATAL = 5"
| "level_number NUM_LOG_LEVELS = 6"

text \<open>Whether a logging statement of a level makes a \<open>Logger\<close> at all, with the level \<open>g_logLevel\<close>.\<close>

definition log_statement :: "LogLevel \<Rightarrow> LogLevel \<Rightarrow> bool" where
  "log_statement g_logLevel l =
    (if l \<in> {TRACE, DEBUG, INFO} then level_number g_logLevel \<le> level_number l else True)"

section \<open>SourceFile\<close>

text \<open>The array and the place in it the pointer \<open>data_\<close> is at.\<close>

record SourceFile =
  file_array :: string
  data_at :: nat
  size_of :: int

text \<open>\<open>strrchr\<close>: the place of the last such character before the first NUL.\<close>

definition strrchr :: "string \<Rightarrow> char \<Rightarrow> nat option" where
  "strrchr s c =
    (let t = takeWhile (\<lambda>x. x \<noteq> CHR 0x00) s; js = filter (\<lambda>j. t ! j = c) [0..<length t] in
     if js = [] then None else Some (last js))"

text \<open>From an array, whose length the compiler knows, and from a pointer; \<open>None\<close> is a read behind the array.\<close>

definition SourceFile_array :: "string \<Rightarrow> SourceFile option" where
  "SourceFile_array arr =
    (if CHR 0x00 \<notin> set arr then None
     else case strrchr arr CHR ''/'' of
       None \<Rightarrow> Some \<lparr>file_array = arr, data_at = 0, size_of = int (length arr) - 1\<rparr>
     | Some slash \<Rightarrow> Some \<lparr>file_array = arr, data_at = slash + 1, size_of = int (length arr) - 1 - int (slash + 1)\<rparr>)"

definition SourceFile_pointer :: "string \<Rightarrow> SourceFile option" where
  "SourceFile_pointer filename =
    (if CHR 0x00 \<notin> set filename then None
     else let d = (case strrchr filename CHR ''/'' of None \<Rightarrow> 0 | Some slash \<Rightarrow> slash + 1) in
       map_option (\<lambda>n. \<lparr>file_array = filename, data_at = d, size_of = n\<rparr>) (strlen (drop d filename)))"

text \<open>The text a \<open>SourceFile\<close> stands for.\<close>

definition file_text :: "SourceFile \<Rightarrow> string" where
  "file_text f = take (nat (size_of f)) (drop (data_at f) (file_array f))"

text \<open>What it should be: the characters behind the last slash.\<close>

definition basename :: "string \<Rightarrow> string" where
  "basename s = rev (takeWhile (\<lambda>c. c \<noteq> CHR ''/'') (rev s))"

text \<open>The message of the fatal logger, if there is one, and the pointer.\<close>

definition CheckNotNull :: "SourceFile \<Rightarrow> int \<Rightarrow> string \<Rightarrow> 'a option \<Rightarrow> (SourceFile \<times> int \<times> LogLevel \<times> string) option \<times> 'a option" where
  "CheckNotNull f line names p = (if p = None then Some (f, line, FATAL, names) else None, p)"

lemma strrchr_text:
  assumes "CHR 0x00 \<notin> set s"
  shows "strrchr (s @ [CHR 0x00] @ r) c =
    (let js = filter (\<lambda>j. s ! j = c) [0..<length s] in if js = [] then None else Some (last js))"
proof -
  have "takeWhile (\<lambda>x. x \<noteq> CHR 0x00) (s @ [CHR 0x00] @ r) = s"
    using assms by (subst takeWhile_append2) auto
  then show ?thesis
    unfolding strrchr_def by simp
qed

lemma last_filter_split:
  assumes "filter (\<lambda>j. s ! j = c) [0..<length s] \<noteq> []"
  defines "k \<equiv> last (filter (\<lambda>j. s ! j = c) [0..<length s])"
  shows "k < length s" "s ! k = c" "c \<notin> set (drop (Suc k) s)"
proof -
  have "k \<in> set (filter (\<lambda>j. s ! j = c) [0..<length s])"
    unfolding k_def using assms(1) by (rule last_in_set)
  then show k: "k < length s" "s ! k = c"
    by simp_all
  show "c \<notin> set (drop (Suc k) s)"
  proof
    assume "c \<in> set (drop (Suc k) s)"
    then obtain i where "i < length s - Suc k" "drop (Suc k) s ! i = c"
      unfolding in_set_conv_nth by auto
    then have i: "Suc k + i < length s" "s ! (Suc k + i) = c"
      by simp_all
    let ?P = "\<lambda>j. s ! j = c"
    have "[0..<length s] = [0..<Suc k] @ [Suc k..<length s]"
      using k(1) by (metis Suc_leI le0 le_Suc_ex upt_add_eq_append)
    then have split: "filter ?P [0..<length s] = filter ?P [0..<Suc k] @ filter ?P [Suc k..<length s]"
      by (simp only: filter_append)
    have "Suc k + i \<in> set (filter ?P [Suc k..<length s])"
      using i by simp
    then have "filter ?P [Suc k..<length s] \<noteq> []"
      by (metis empty_iff empty_set)
    then have eq: "last (filter ?P [0..<length s]) = last (filter ?P [Suc k..<length s])"
      and *: "last (filter ?P [Suc k..<length s]) \<in> set (filter ?P [Suc k..<length s])"
      by (simp_all only: split last_appendR last_in_set simp_thms)
    have "k = last (filter ?P [Suc k..<length s])"
      by (rule trans [OF meta_eq_to_obj_eq [OF k_def] eq])
    moreover have "Suc k \<le> last (filter ?P [Suc k..<length s])"
      using * unfolding set_filter by simp
    ultimately show False
      by simp
  qed
qed

lemma basename_none: "CHR ''/'' \<notin> set s \<Longrightarrow> basename s = s"
proof -
  assume "CHR ''/'' \<notin> set s"
  then have "takeWhile (\<lambda>c. c \<noteq> CHR ''/'') (rev s) = rev s"
    unfolding takeWhile_eq_all_conv by auto
  then show ?thesis
    by (simp only: basename_def rev_rev_ident)
qed

lemma basename_drop:
  assumes "k < length s" "s ! k = CHR ''/''" "CHR ''/'' \<notin> set (drop (Suc k) s)"
  shows "basename s = drop (Suc k) s"
proof -
  define a b where "a = take k s" and "b = drop (Suc k) s"
  have s: "s = a @ CHR ''/'' # b"
    using id_take_nth_drop [OF assms(1)] assms(2) by (simp add: a_def b_def)
  have "CHR ''/'' \<notin> set (rev b)"
    using assms(3) by (simp add: b_def)
  then have "takeWhile (\<lambda>c. c \<noteq> CHR ''/'') (rev b @ CHR ''/'' # rev a) = rev b"
    by (subst takeWhile_append2) auto
  then have "basename s = b"
    by (simp add: basename_def s)
  then show ?thesis
    by (simp add: b_def)
qed

text \<open>
  Both constructors read a file name without NULs as its base name. They differ on an array with a NUL in
  it, where the first counts the characters behind it.
\<close>

theorem SourceFile_basename:
  assumes "CHR 0x00 \<notin> set s"
  shows "\<exists>f. SourceFile_array (s @ [CHR 0x00]) = Some f \<and> SourceFile_pointer (s @ [CHR 0x00]) = Some f
    \<and> file_text f = basename s"
proof -
  let ?js = "filter (\<lambda>j. s ! j = CHR ''/'') [0..<length s]"
  note st = strrchr_text [OF assms, of "[]" "CHR ''/''", unfolded Let_def, simplified]
  have len: "strlen (drop d (s @ [CHR 0x00])) = Some (int (length s - d))" if "d \<le> length s" for d
  proof -
    have "CHR 0x00 \<notin> set (drop d s)"
      using assms by (meson in_set_dropD)
    then have "takeWhile (\<lambda>c. c \<noteq> CHR 0x00) (drop d s @ [CHR 0x00]) = drop d s"
      by (subst takeWhile_append2) auto
    then show ?thesis
      using that by (simp add: strlen_def)
  qed
  show ?thesis
  proof (cases "?js = []")
    case True
    then have "CHR ''/'' \<notin> set s"
      by (auto simp: filter_empty_conv in_set_conv_nth)
    then show ?thesis
      using st True len [of 0] by (simp add: SourceFile_array_def SourceFile_pointer_def file_text_def basename_none)
  next
    case False
    note k = last_filter_split [OF False]
    then show ?thesis
      using st False len [of "Suc (last ?js)"]
      by (simp add: SourceFile_array_def SourceFile_pointer_def file_text_def basename_drop)
  qed
qed

lemma SourceFile_basename_witness:
  "\<exists>f. SourceFile_array (''src/main.cpp'' @ [CHR 0x00]) = Some f \<and> file_text f = ''main.cpp''"
proof -
  have "basename ''src/main.cpp'' = ''main.cpp''"
    by (simp add: basename_def)
  then show ?thesis
    using SourceFile_basename [of "''src/main.cpp''"] by auto
qed

end
