(* ===== verification/Timestamp.thy ===== *)
theory Timestamp
  imports Prelude
begin

text \<open>
  src/src/muduo/base/Timestamp.h and the inline part of Date.h: points in time as counts of
  microseconds, dates as Julian day numbers. An overflow of the signed counts is undefined and
  written out as \<open>None\<close>. The functions on doubles (\<open>timeDifference\<close>, \<open>addTime\<close>) are not modelled.
\<close>

section \<open>Timestamp\<close>

datatype Timestamp = Timestamp (microSecondsSinceEpoch: int)

definition int64 :: "int \<Rightarrow> int option" where
  "int64 i = (if - (2 ^ 63) \<le> i \<and> i < 2 ^ 63 then Some i else None)"

definition kMicroSecondsPerSecond :: int where
  "kMicroSecondsPerSecond = 1000 * 1000"

definition Timestamp_default :: Timestamp where
  "Timestamp_default = Timestamp 0"

definition Timestamp_swap :: "Timestamp \<Rightarrow> Timestamp \<Rightarrow> Timestamp \<times> Timestamp" where
  "Timestamp_swap this that = (that, this)"

definition Timestamp_valid :: "Timestamp \<Rightarrow> bool" where
  "Timestamp_valid t \<longleftrightarrow> microSecondsSinceEpoch t > 0"

text \<open>The division of C++ rounds towards zero.\<close>

definition secondsSinceEpoch :: "Timestamp \<Rightarrow> int" where
  "secondsSinceEpoch t =
    (let m = microSecondsSinceEpoch t
     in if 0 \<le> m then m div kMicroSecondsPerSecond else - (- m div kMicroSecondsPerSecond))"

definition Timestamp_invalid :: Timestamp where
  "Timestamp_invalid = Timestamp_default"

definition fromUnixTime :: "int \<Rightarrow> int \<Rightarrow> Timestamp option" where
  "fromUnixTime t microseconds =
    int64 (t * kMicroSecondsPerSecond) \<bind> (\<lambda>p.
    int64 (p + microseconds) \<bind> (\<lambda>s. Some (Timestamp s)))"

definition fromUnixTime_seconds :: "int \<Rightarrow> Timestamp option" where
  "fromUnixTime_seconds t = fromUnixTime t 0"

text \<open>\<open>operator<\<close> and \<open>operator==\<close>; the base classes of boost derive the other comparisons.\<close>

definition Timestamp_less :: "Timestamp \<Rightarrow> Timestamp \<Rightarrow> bool" where
  "Timestamp_less lhs rhs \<longleftrightarrow> microSecondsSinceEpoch lhs < microSecondsSinceEpoch rhs"

instantiation Timestamp :: linorder
begin

definition less_Timestamp :: "Timestamp \<Rightarrow> Timestamp \<Rightarrow> bool" where
  "less_Timestamp = Timestamp_less"

definition less_eq_Timestamp :: "Timestamp \<Rightarrow> Timestamp \<Rightarrow> bool" where
  "less_eq_Timestamp lhs rhs \<longleftrightarrow> \<not> (rhs < lhs)"

instance
  by standard (auto simp: less_Timestamp_def Timestamp_less_def less_eq_Timestamp_def Timestamp.expand)

end

lemma Timestamp_eq: "lhs = rhs \<longleftrightarrow> microSecondsSinceEpoch lhs = microSecondsSinceEpoch rhs"
  by (auto intro: Timestamp.expand)

lemma secondsSinceEpoch_fromUnixTime:
  assumes "fromUnixTime t u = Some s" "0 \<le> t" "0 \<le> u" "u < kMicroSecondsPerSecond"
  shows "secondsSinceEpoch s = t" "microSecondsSinceEpoch s mod kMicroSecondsPerSecond = u"
  using assms
  by (auto simp: fromUnixTime_def int64_def secondsSinceEpoch_def kMicroSecondsPerSecond_def split: if_splits)

text \<open>Times made of seconds and microseconds are ordered like the pairs.\<close>

lemma fromUnixTime_less:
  assumes "fromUnixTime t u = Some s" "fromUnixTime t' u' = Some s'"
    "0 \<le> u" "u < kMicroSecondsPerSecond" "0 \<le> u'" "u' < kMicroSecondsPerSecond"
  shows "s < s' \<longleftrightarrow> t < t' \<or> t = t' \<and> u < u'"
  using assms
  by (auto simp: fromUnixTime_def int64_def less_Timestamp_def Timestamp_less_def kMicroSecondsPerSecond_def split: if_splits)

section \<open>Date\<close>

datatype Date = Date (julianDayNumber: int)

definition kDaysPerWeek :: int where
  "kDaysPerWeek = 7"

definition Date_default :: Date where
  "Date_default = Date 0"

definition Date_swap :: "Date \<Rightarrow> Date \<Rightarrow> Date \<times> Date" where
  "Date_swap this that = (that, this)"

definition Date_valid :: "Date \<Rightarrow> bool" where
  "Date_valid d \<longleftrightarrow> julianDayNumber d > 0"

text \<open>The remainder of C++ has the sign of the dividend.\<close>

definition weekDay :: "Date \<Rightarrow> int" where
  "weekDay d = (let n = julianDayNumber d + 1 in if 0 \<le> n then n mod kDaysPerWeek else - (- n mod kDaysPerWeek))"

definition Date_less :: "Date \<Rightarrow> Date \<Rightarrow> bool" where
  "Date_less x y \<longleftrightarrow> julianDayNumber x < julianDayNumber y"

instantiation Date :: linorder
begin

definition less_Date :: "Date \<Rightarrow> Date \<Rightarrow> bool" where
  "less_Date = Date_less"

definition less_eq_Date :: "Date \<Rightarrow> Date \<Rightarrow> bool" where
  "less_eq_Date x y \<longleftrightarrow> \<not> (y < x)"

instance
  by standard (auto simp: less_Date_def Date_less_def less_eq_Date_def Date.expand)

end

lemma weekDay_bounds: "Date_valid d \<Longrightarrow> 0 \<le> weekDay d \<and> weekDay d < kDaysPerWeek"
  by (simp add: weekDay_def Date_valid_def kDaysPerWeek_def)

lemma weekDay_next: "Date_valid d \<Longrightarrow> weekDay (Date (julianDayNumber d + 1)) = (weekDay d + 1) mod kDaysPerWeek"
  by (simp add: weekDay_def Date_valid_def kDaysPerWeek_def mod_simps)

end
