(* ===== verification/Http.thy ===== *)
theory Http
  imports Timestamp
begin

text \<open>
  The inline parts of src/src/muduo/net/http: \<open>HttpRequest\<close>, \<open>HttpResponse\<close> and the state of
  \<open>HttpContext\<close>. A range of characters is the text between its two pointers; a failed assert and a
  range that ends before it begins are \<open>None\<close>.
\<close>

section \<open>HttpRequest\<close>

datatype Method = kInvalid | kGet | kPost | kHead | kPut | kDelete

datatype Version = kUnknown | kHttp10 | kHttp11

record HttpRequest =
  method_of :: Method
  version_of :: Version
  path_of :: string
  query_of :: string
  receiveTime_of :: Timestamp
  headers_of :: "string \<rightharpoonup> string"

definition HttpRequest_ctor :: HttpRequest where
  "HttpRequest_ctor = \<lparr>method_of = kInvalid, version_of = kUnknown, path_of = '''', query_of = '''',
     receiveTime_of = Timestamp_default, headers_of = Map.empty\<rparr>"

definition setVersion :: "Version \<Rightarrow> HttpRequest \<Rightarrow> HttpRequest" where
  "setVersion v req = req\<lparr>version_of := v\<rparr>"

definition setMethod :: "string \<Rightarrow> HttpRequest \<Rightarrow> (bool \<times> HttpRequest) option" where
  "setMethod m req =
    (if method_of req \<noteq> kInvalid then None
     else let k = (if m = ''GET'' then kGet
                   else if m = ''POST'' then kPost
                   else if m = ''HEAD'' then kHead
                   else if m = ''PUT'' then kPut
                   else if m = ''DELETE'' then kDelete
                   else kInvalid)
          in Some (k \<noteq> kInvalid, req\<lparr>method_of := k\<rparr>))"

definition methodString :: "HttpRequest \<Rightarrow> string" where
  "methodString req =
    (case method_of req of
       kGet \<Rightarrow> ''GET''
     | kPost \<Rightarrow> ''POST''
     | kHead \<Rightarrow> ''HEAD''
     | kPut \<Rightarrow> ''PUT''
     | kDelete \<Rightarrow> ''DELETE''
     | kInvalid \<Rightarrow> ''UNKNOWN'')"

definition setPath :: "string \<Rightarrow> HttpRequest \<Rightarrow> HttpRequest" where
  "setPath s req = req\<lparr>path_of := s\<rparr>"

definition setQuery :: "string \<Rightarrow> HttpRequest \<Rightarrow> HttpRequest" where
  "setQuery s req = req\<lparr>query_of := s\<rparr>"

definition setReceiveTime :: "Timestamp \<Rightarrow> HttpRequest \<Rightarrow> HttpRequest" where
  "setReceiveTime t req = req\<lparr>receiveTime_of := t\<rparr>"

text \<open>The two loops of \<open>addHeader\<close>: over the white space behind the colon, and off the end.\<close>

fun skip_spaces :: "string \<Rightarrow> string" where
  "skip_spaces [] = []"
| "skip_spaces (c # cs) = (if is_space c then skip_spaces cs else c # cs)"

function trim_end :: "string \<Rightarrow> string" where
  "trim_end v = (if v \<noteq> [] \<and> is_space (last v) then trim_end (butlast v) else v)"
  by auto
termination
  by (relation "measure length") auto

declare trim_end.simps [simp del]

text \<open>\<open>line\<close> is the text from \<open>start\<close> to \<open>end\<close>, \<open>colon\<close> the index of the colon in it.\<close>

definition addHeader :: "string \<Rightarrow> nat \<Rightarrow> HttpRequest \<Rightarrow> HttpRequest option" where
  "addHeader line colon req =
    (if colon < length line
     then let field = take colon line;
              v = trim_end (skip_spaces (drop (colon + 1) line))
          in Some (req\<lparr>headers_of := (headers_of req)(field \<mapsto> v)\<rparr>)
     else None)"

definition getHeader :: "string \<Rightarrow> HttpRequest \<Rightarrow> string" where
  "getHeader field req = (case headers_of req field of None \<Rightarrow> '''' | Some v \<Rightarrow> v)"

definition HttpRequest_swap :: "HttpRequest \<Rightarrow> HttpRequest \<Rightarrow> HttpRequest \<times> HttpRequest" where
  "HttpRequest_swap this that = (that, this)"

section \<open>HttpContext\<close>

datatype HttpRequestParseState = kExpectRequestLine | kExpectHeaders | kExpectBody | kGotAll

record HttpContext =
  state_of :: HttpRequestParseState
  request :: HttpRequest

definition HttpContext_ctor :: HttpContext where
  "HttpContext_ctor = \<lparr>state_of = kExpectRequestLine, request = HttpRequest_ctor\<rparr>"

definition gotAll :: "HttpContext \<Rightarrow> bool" where
  "gotAll c \<longleftrightarrow> state_of c = kGotAll"

definition reset :: "HttpContext \<Rightarrow> HttpContext" where
  "reset c = c\<lparr>state_of := kExpectRequestLine, request := fst (HttpRequest_swap (request c) HttpRequest_ctor)\<rparr>"

section \<open>HttpResponse\<close>

datatype HttpStatusCode = Code_Unknown | k200Ok | k301MovedPermanently | k400BadRequest | k404NotFound

fun status_number :: "HttpStatusCode \<Rightarrow> nat" where
  "status_number Code_Unknown = 0"
| "status_number k200Ok = 200"
| "status_number k301MovedPermanently = 301"
| "status_number k400BadRequest = 400"
| "status_number k404NotFound = 404"

record HttpResponse =
  resp_headers :: "string \<rightharpoonup> string"
  statusCode :: HttpStatusCode
  statusMessage :: string
  closeConnection :: bool
  body :: string

definition HttpResponse_ctor :: "bool \<Rightarrow> HttpResponse" where
  "HttpResponse_ctor close = \<lparr>resp_headers = Map.empty, statusCode = Code_Unknown, statusMessage = '''',
     closeConnection = close, body = ''''\<rparr>"

definition setStatusCode :: "HttpStatusCode \<Rightarrow> HttpResponse \<Rightarrow> HttpResponse" where
  "setStatusCode code r = r\<lparr>statusCode := code\<rparr>"

definition setStatusMessage :: "string \<Rightarrow> HttpResponse \<Rightarrow> HttpResponse" where
  "setStatusMessage message r = r\<lparr>statusMessage := message\<rparr>"

definition setCloseConnection :: "bool \<Rightarrow> HttpResponse \<Rightarrow> HttpResponse" where
  "setCloseConnection on r = r\<lparr>closeConnection := on\<rparr>"

definition response_addHeader :: "string \<Rightarrow> string \<Rightarrow> HttpResponse \<Rightarrow> HttpResponse" where
  "response_addHeader key v r = r\<lparr>resp_headers := (resp_headers r)(key \<mapsto> v)\<rparr>"

definition setContentType :: "string \<Rightarrow> HttpResponse \<Rightarrow> HttpResponse" where
  "setContentType contentType r = response_addHeader ''Content-Type'' contentType r"

definition setBody :: "string \<Rightarrow> HttpResponse \<Rightarrow> HttpResponse" where
  "setBody b r = r\<lparr>body := b\<rparr>"

section \<open>Lemmas\<close>

text \<open>The loops against their specifications.\<close>

lemma skip_spaces_spec: "skip_spaces s = dropWhile is_space s"
  by (induction s) auto

lemma trim_end_spec: "trim_end s = rev (dropWhile is_space (rev s))"
proof (induction s rule: rev_induct)
  case (snoc c s)
  then show ?case
    by (subst trim_end.simps) simp
qed (simp add: trim_end.simps)

lemma trim_both:
  assumes "\<forall>c \<in> set ws \<union> set us. is_space c" "v = [] \<or> \<not> is_space (hd v) \<and> \<not> is_space (last v)"
  shows "trim_end (skip_spaces (ws @ v @ us)) = v"
proof (cases v rule: rev_cases)
  case Nil
  have "skip_spaces (ws @ us) = []"
    using assms(1) by (simp add: skip_spaces_spec)
  then show ?thesis
    using Nil by (simp add: trim_end.simps)
next
  case (snoc t c)
  then have "dropWhile is_space (v @ us) = v @ us"
    using assms(2) by (cases t) auto
  then have "skip_spaces (ws @ v @ us) = v @ us"
    using assms(1) by (simp add: skip_spaces_spec)
  moreover have "trim_end (v @ us) = v"
    using assms snoc dropWhile_append2 [of "rev us" is_space "c # rev t"] by (auto simp: trim_end_spec)
  ultimately show ?thesis
    by simp
qed

lemma trim_end_no_space: "trim_end s = [] \<or> \<not> is_space (last (trim_end s))"
  using hd_dropWhile [of is_space "rev s"] by (auto simp: trim_end_spec last_rev)

lemma setMethod_methodString:
  assumes "method_of req = kInvalid" "method_of other \<noteq> kInvalid"
  shows "\<exists>r. setMethod (methodString other) req = Some (True, r) \<and> methodString r = methodString other"
  using assms by (cases "method_of other") (auto simp: setMethod_def methodString_def)

section \<open>Properties\<close>

text \<open>
  A header line \<open>name: value\<close> of any name without a colon at its index, with any white space
  around the value, is found again under the name with exactly the value; the other headers keep
  theirs. A line whose colon is behind its end is read outside.
\<close>

theorem header_roundtrip:
  assumes "\<forall>c \<in> set ws \<union> set us. is_space c" "v = [] \<or> \<not> is_space (hd v) \<and> \<not> is_space (last v)"
  shows "\<exists>r. addHeader (name @ CHR '':'' # ws @ v @ us) (length name) req = Some r
    \<and> getHeader name r = v \<and> (\<forall>k. k \<noteq> name \<longrightarrow> getHeader k r = getHeader k req)
    \<and> addHeader name (length name) req = None"
  using trim_both [OF assms] by (simp add: addHeader_def getHeader_def Let_def)

lemma header_roundtrip_witness:
  "\<exists>r. addHeader ''Host:  a b '' 4 HttpRequest_ctor = Some r \<and> getHeader ''Host'' r = ''a b''"
  using header_roundtrip [of "''  ''" "'' ''" "''a b''" "''Host''" HttpRequest_ctor]
  by (auto simp: is_space_def eval_nat_numeral)

end
