(* ===== verification/Log_Stream.thy ===== *)
theory Log_Stream
  imports String_Piece
begin

text \<open>
  The inline part of src/src/muduo/base/LogStream.h: the fixed buffer a log line is built in and
  the \<open><<\<close> operators that have their code in the header. \<open>None\<close> is a write or read outside the
  array. A sequence of operators is proved to be total and to implement a simple specification:
  a text is added whole or not at all.
\<close>

section \<open>FixedBuffer\<close>

datatype cookie = cookieStart | cookieEnd

text \<open>The array, whose length is the template parameter, and the index of the next character.\<close>

record FixedBuffer =
  cookie_of :: cookie
  data_of :: string
  cur :: nat

definition kSmallBuffer :: nat where
  "kSmallBuffer = 4000"

definition kLargeBuffer :: nat where
  "kLargeBuffer = 4000 * 1000"

definition setCookie :: "cookie \<Rightarrow> FixedBuffer \<Rightarrow> FixedBuffer" where
  "setCookie c b = b\<lparr>cookie_of := c\<rparr>"

text \<open>The array is not initialised: it holds whatever the memory held.\<close>

definition FixedBuffer_ctor :: "cookie \<Rightarrow> string \<Rightarrow> FixedBuffer" where
  "FixedBuffer_ctor junk memory = setCookie cookieStart \<lparr>cookie_of = junk, data_of = memory, cur = 0\<rparr>"

definition FixedBuffer_dtor :: "FixedBuffer \<Rightarrow> FixedBuffer" where
  "FixedBuffer_dtor b = setCookie cookieEnd b"

definition buffer_length :: "FixedBuffer \<Rightarrow> int" where
  "buffer_length b = int (cur b)"

definition avail :: "FixedBuffer \<Rightarrow> int" where
  "avail b = int (length (data_of b)) - int (cur b)"

text \<open>The test compares as \<open>size_t\<close>, in which a negative \<open>avail\<close> is huge.\<close>

definition buffer_append :: "string \<Rightarrow> FixedBuffer \<Rightarrow> FixedBuffer option" where
  "buffer_append buf b =
    (if nat (avail b mod 2 ^ 64) > length buf
     then if cur b + length buf \<le> length (data_of b)
          then Some (b\<lparr>data_of := take (cur b) (data_of b) @ buf @ drop (cur b + length buf) (data_of b),
                       cur := cur b + length buf\<rparr>)
          else None
     else Some b)"

definition buffer_add :: "nat \<Rightarrow> FixedBuffer \<Rightarrow> FixedBuffer" where
  "buffer_add len b = b\<lparr>cur := cur b + len\<rparr>"

definition buffer_reset :: "FixedBuffer \<Rightarrow> FixedBuffer" where
  "buffer_reset b = b\<lparr>cur := 0\<rparr>"

definition buffer_bzero :: "FixedBuffer \<Rightarrow> FixedBuffer" where
  "buffer_bzero b = b\<lparr>data_of := replicate (length (data_of b)) (CHR 0x00)\<rparr>"

definition buffer_toString :: "FixedBuffer \<Rightarrow> string option" where
  "buffer_toString b = (if cur b \<le> length (data_of b) then Some (take (cur b) (data_of b)) else None)"

definition buffer_toStringPiece :: "FixedBuffer \<Rightarrow> StringPiece" where
  "buffer_toStringPiece b = StringPiece_range (data_of b) (buffer_length b)"

section \<open>LogStream\<close>

text \<open>The stream is its buffer.\<close>

definition log_bool :: "bool \<Rightarrow> FixedBuffer \<Rightarrow> FixedBuffer option" where
  "log_bool v s = buffer_append (if v then ''1'' else ''0'') s"

definition log_char :: "char \<Rightarrow> FixedBuffer \<Rightarrow> FixedBuffer option" where
  "log_char v s = buffer_append [v] s"

text \<open>A pointer to a C string, given with what can be read from it on.\<close>

definition log_cstr :: "string pointer \<Rightarrow> FixedBuffer \<Rightarrow> FixedBuffer option" where
  "log_cstr str s =
    (case str of
       Indeterminate \<Rightarrow> None
     | Null \<Rightarrow> buffer_append ''(null)'' s
     | Object m \<Rightarrow> strlen m \<bind> (\<lambda>n. buffer_append (take (nat n) m) s))"

definition log_ucstr :: "string pointer \<Rightarrow> FixedBuffer \<Rightarrow> FixedBuffer option" where
  "log_ucstr str s = log_cstr str s"

definition log_string :: "string \<Rightarrow> FixedBuffer \<Rightarrow> FixedBuffer option" where
  "log_string v s = buffer_append v s"

definition log_piece :: "StringPiece \<Rightarrow> FixedBuffer \<Rightarrow> FixedBuffer option" where
  "log_piece v s = as_string v \<bind> (\<lambda>t. buffer_append t s)"

definition log_buffer :: "FixedBuffer \<Rightarrow> FixedBuffer \<Rightarrow> FixedBuffer option" where
  "log_buffer v s = log_piece (buffer_toStringPiece v) s"

definition log_append :: "string \<Rightarrow> FixedBuffer \<Rightarrow> FixedBuffer option" where
  "log_append d s = buffer_append d s"

definition resetBuffer :: "FixedBuffer \<Rightarrow> FixedBuffer" where
  "resetBuffer s = buffer_reset s"

section \<open>Sequences of operators\<close>

datatype log_item =
    Bool_item bool | Char_item char | Cstr_item "string pointer" | String_item string
  | Piece_item StringPiece | Buffer_item FixedBuffer

fun log_one :: "log_item \<Rightarrow> FixedBuffer \<Rightarrow> FixedBuffer option" where
  "log_one (Bool_item v) s = log_bool v s"
| "log_one (Char_item v) s = log_char v s"
| "log_one (Cstr_item v) s = log_cstr v s"
| "log_one (String_item v) s = log_string v s"
| "log_one (Piece_item v) s = log_piece v s"
| "log_one (Buffer_item v) s = log_buffer v s"

fun log_all :: "log_item list \<Rightarrow> FixedBuffer \<Rightarrow> FixedBuffer option" where
  "log_all [] s = Some s"
| "log_all (x # xs) s = log_one x s \<bind> log_all xs"

text \<open>The specification: the text of an item, and what becomes of the line so far.\<close>

fun item_text :: "log_item \<Rightarrow> string" where
  "item_text (Bool_item v) = (if v then ''1'' else ''0'')"
| "item_text (Char_item v) = [v]"
| "item_text (Cstr_item (Object m)) = takeWhile (\<lambda>c. c \<noteq> CHR 0x00) m"
| "item_text (Cstr_item p) = ''(null)''"
| "item_text (String_item v) = v"
| "item_text (Piece_item v) = piece_text v"
| "item_text (Buffer_item v) = take (cur v) (data_of v)"

definition accept :: "nat \<Rightarrow> string \<Rightarrow> string \<Rightarrow> string" where
  "accept room line t = (if length line + length t < room then line @ t else line)"

definition buffer_ok :: "FixedBuffer \<Rightarrow> bool" where
  "buffer_ok b \<longleftrightarrow> cur b < length (data_of b) \<and> length (data_of b) < 2 ^ 31"

fun item_ok :: "log_item \<Rightarrow> bool" where
  "item_ok (Cstr_item Indeterminate) = False"
| "item_ok (Cstr_item (Object m)) = (CHR 0x00 \<in> set m)"
| "item_ok (Piece_item v) = piece_ok v"
| "item_ok (Buffer_item v) = (cur v \<le> length (data_of v))"
| "item_ok x = True"

section \<open>Lemmas\<close>

lemma avail_unsigned: "buffer_ok b \<Longrightarrow> nat (avail b mod 2 ^ 64) = length (data_of b) - cur b"
  by (simp add: avail_def buffer_ok_def)

lemma buffer_append_ok:
  assumes "buffer_ok b"
  shows "\<exists>c. buffer_append t b = Some c \<and> buffer_ok c \<and> length (data_of c) = length (data_of b)
    \<and> take (cur c) (data_of c) = accept (length (data_of b)) (take (cur b) (data_of b)) t"
  unfolding buffer_append_def avail_unsigned [OF assms]
  using assms by (auto simp: buffer_ok_def accept_def min_def)

lemma takeWhile_take: "take (length (takeWhile P m)) m = takeWhile P m"
  by (metis append_eq_conv_conj takeWhile_dropWhile_id)

lemma log_one_append:
  assumes "item_ok x"
  shows "log_one x s = buffer_append (item_text x) s"
proof (cases x)
  case (Cstr_item p)
  then show ?thesis
    using assms by (cases p) (auto simp: log_cstr_def strlen_def takeWhile_take)
next
  case (Piece_item v)
  then show ?thesis
    using assms by (simp add: log_piece_def as_string_def piece_ok_def piece_text_def)
next
  case (Buffer_item v)
  then show ?thesis
    using assms by (simp add: log_buffer_def log_piece_def buffer_toStringPiece_def as_string_def
        StringPiece_range_def buffer_length_def)
qed (simp_all add: log_bool_def log_char_def log_string_def)

text \<open>Behind the end of the array, which \<open>add\<close> can reach, the test of \<open>append\<close> is always passed.\<close>

lemma append_past_end:
  assumes "length (data_of b) < cur b" "cur b < 2 ^ 63" "length t < 2 ^ 62"
  shows "buffer_append t b = None"
proof -
  have "avail b mod 2 ^ 64 = avail b + 2 ^ 64"
    using assms by (subst mod_pos_pos_trivial [symmetric, of "avail b + 2 ^ 64" "2 ^ 64"]) (auto simp: avail_def)
  then show ?thesis
    using assms by (simp add: buffer_append_def avail_def)
qed

section \<open>Properties\<close>

text \<open>
  C30: building a log line. From a well-formed buffer every sequence of \<open><<\<close> on valid operands
  returns, never writes outside the array, keeps the buffer well formed (at least one character of
  the array stays free), and the line is that of the specification: each text is appended whole if
  the line stays shorter than the array, and dropped otherwise.
\<close>

theorem log_line:
  assumes "buffer_ok s" "\<forall>x \<in> set items. item_ok x"
  shows "\<exists>t. log_all items s = Some t \<and> buffer_ok t \<and> length (data_of t) = length (data_of s)
    \<and> buffer_toString t = Some (fold (\<lambda>x line. accept (length (data_of s)) line (item_text x)) items
          (take (cur s) (data_of s)))"
  using assms
proof (induction items arbitrary: s)
  case Nil
  then show ?case
    by (simp add: buffer_toString_def buffer_ok_def)
next
  case (Cons x items)
  obtain c where c: "buffer_append (item_text x) s = Some c" "buffer_ok c"
    "length (data_of c) = length (data_of s)"
    "take (cur c) (data_of c) = accept (length (data_of s)) (take (cur s) (data_of s)) (item_text x)"
    using buffer_append_ok [OF Cons.prems(1)] by blast
  then show ?case
    using Cons.IH [OF c(2)] Cons.prems(2) by (simp add: log_one_append)
qed

lemma log_line_witness:
  "\<exists>t. log_all [String_item ''ab'', Cstr_item Null, Bool_item True] (FixedBuffer_ctor cookieEnd ''.....'') = Some t
     \<and> buffer_toString t = Some ''ab1''"
proof -
  have "buffer_ok (FixedBuffer_ctor cookieEnd ''.....'')"
    by (simp add: buffer_ok_def FixedBuffer_ctor_def setCookie_def)
  then show ?thesis
    using log_line [of "FixedBuffer_ctor cookieEnd ''.....''" "[String_item ''ab'', Cstr_item Null, Bool_item True]"]
    by (auto simp: accept_def FixedBuffer_ctor_def setCookie_def)
qed

end
