(* ===== verification/Ini_Text.thy ===== *)
theory Ini_Text
  imports Prelude
begin

text \<open>
  The parser of src/include/simpleIni/SimpleIni.h, as \<open>CSimpleIni\<close> instantiates it: characters are
  \<open>char\<close>, names are compared without regard to the case of ASCII letters. \<open>FindEntry\<close> and
  \<open>LoadMultiLineText\<close> work in place on the block of text, which they cut into C strings by writing
  NULs and moving lines: the block is a list of characters, a pointer into it an index, and a read
  or write outside it is \<open>None\<close>. The loops are partial functions, so \<open>None\<close> also stands for a loop
  that does not end; \<open>find_loop_total\<close> and \<open>LoadMultiLineText_total\<close> rule both out.
\<close>

section \<open>Settings\<close>

record ini_settings =
  m_bStoreIsUtf8 :: bool
  m_bAllowMultiKey :: bool
  m_bAllowMultiLine :: bool
  m_bSpaces :: bool
  m_bParseQuotes :: bool
  m_bAllowKeyOnly :: bool

section \<open>Characters\<close>

abbreviation NUL :: char where
  "NUL \<equiv> CHR 0x00"

abbreviation LF :: char where
  "LF \<equiv> CHR 0x0A"

abbreviation CR :: char where
  "CR \<equiv> CHR 0x0D"

definition IsSpace :: "char \<Rightarrow> bool" where
  "IsSpace ch \<longleftrightarrow> ch = CHR '' '' \<or> ch = CHR 0x09 \<or> ch = CR \<or> ch = LF"

definition IsComment :: "char \<Rightarrow> bool" where
  "IsComment ch \<longleftrightarrow> ch = CHR '';'' \<or> ch = CHR ''#''"

definition IsNewLineChar :: "char \<Rightarrow> bool" where
  "IsNewLineChar c \<longleftrightarrow> c = LF \<or> c = CR"

text \<open>\<open>char\<close> is signed.\<close>

definition char_val :: "char \<Rightarrow> int" where
  "char_val c = (let n = int (of_char c) in if n < 128 then n else n - 256)"

definition locase :: "char \<Rightarrow> char" where
  "locase ch = (if char_val ch < 65 \<or> char_val ch > 90 then ch else char_of (of_char ch - 65 + 97 :: nat))"

text \<open>The two comparison classes, on the texts up to their NUL.\<close>

fun text_less :: "(char \<Rightarrow> int) \<Rightarrow> string \<Rightarrow> string \<Rightarrow> bool" where
  "text_less f (l # ls) (r # rs) =
    (let cmp = f l - f r in if cmp \<noteq> 0 then cmp < 0 else text_less f ls rs)"
| "text_less f ls rs = (rs \<noteq> [])"

definition SI_GenericCase :: "string \<Rightarrow> string \<Rightarrow> bool" where
  "SI_GenericCase = text_less char_val"

definition SI_GenericNoCase :: "string \<Rightarrow> string \<Rightarrow> bool" where
  "SI_GenericNoCase = text_less (\<lambda>c. char_val (locase c))"

definition IsLess :: "string \<Rightarrow> string \<Rightarrow> bool" where
  "IsLess = SI_GenericNoCase"

section \<open>The block of text\<close>

definition char_at :: "string \<Rightarrow> nat \<Rightarrow> char option" where
  "char_at m i = (if i < length m then Some (m ! i) else None)"

definition put_char :: "string \<Rightarrow> nat \<Rightarrow> char \<Rightarrow> string option" where
  "put_char m i c = (if i < length m then Some (m[i := c]) else None)"

text \<open>The C string that begins at a position.\<close>

definition c_string :: "string \<Rightarrow> nat \<Rightarrow> string option" where
  "c_string m i = (if NUL \<in> set (drop i m) then Some (takeWhile (\<lambda>c. c \<noteq> NUL) (drop i m)) else None)"

text \<open>\<open>while (*p && P(*p)) ++p;\<close>\<close>

partial_function (option) skip_while :: "(char \<Rightarrow> bool) \<Rightarrow> string \<Rightarrow> nat \<Rightarrow> nat option" where
  "skip_while P m i = do {
     c \<leftarrow> char_at m i;
     if c \<noteq> NUL \<and> P c then skip_while P m (i + 1) else Some i
   }"

text \<open>
  \<open>pTrail = hi - 1; while (pTrail >= lo && IsSpace(*pTrail)) --pTrail; ++pTrail;\<close>, the place where
  a text from \<open>lo\<close> is cut so that it does not end with white space.
\<close>

fun rtrim :: "string \<Rightarrow> nat \<Rightarrow> nat \<Rightarrow> nat option" where
  "rtrim m lo 0 = Some 0"
| "rtrim m lo (Suc h) =
    (if lo \<le> h then do { c \<leftarrow> char_at m h; if IsSpace c then rtrim m lo h else Some (Suc h) }
     else Some (Suc h))"

definition SkipNewLine :: "string \<Rightarrow> nat \<Rightarrow> nat option" where
  "SkipNewLine m i = do {
     c \<leftarrow> char_at m i;
     if c = CR then do { d \<leftarrow> char_at m (i + 1); Some (if d = LF then i + 2 else i + 1) }
     else Some (i + 1)
   }"

section \<open>LoadMultiLineText\<close>

text \<open>Reading ahead over blank lines: where they end and how many line ends there are.\<close>

partial_function (option) blank_ahead :: "string \<Rightarrow> nat \<Rightarrow> nat \<Rightarrow> (nat \<times> nat) option" where
  "blank_ahead m p n = do {
     c \<leftarrow> char_at m p;
     if IsSpace c then
       if IsNewLineChar c then do { q \<leftarrow> SkipNewLine m p; blank_ahead m q (n + 1) }
       else blank_ahead m (p + 1) n
     else Some (p, n)
   }"

fun put_newlines :: "nat \<Rightarrow> string \<Rightarrow> nat \<Rightarrow> string option" where
  "put_newlines 0 m d = Some m"
| "put_newlines (Suc n) m d = do { m \<leftarrow> put_char m d LF; put_newlines n m (d + 1) }"

text \<open>Moving the line between \<open>a\<close> and \<open>e\<close> down to \<open>d\<close>.\<close>

definition move_line :: "string \<Rightarrow> nat \<Rightarrow> nat \<Rightarrow> nat \<Rightarrow> string option" where
  "move_line m d a e =
    (if d < a then
       let n = e - a in put_char (take d m @ take n (drop a m) @ drop (d + n) m) (d + n) NUL
     else Some m)"

text \<open>Comparing the line with the tag; the white space after it is cut off where the line was read.\<close>

definition check_tag :: "string \<Rightarrow> nat \<Rightarrow> nat \<Rightarrow> nat \<Rightarrow> (bool \<times> string) option" where
  "check_tag m d e tag = do {
     pc \<leftarrow> rtrim m (d + 1) e;
     ch \<leftarrow> char_at m pc;
     m' \<leftarrow> put_char m pc NUL;
     line \<leftarrow> c_string m' d;
     t \<leftarrow> c_string m' tag;
     if \<not> IsLess line t \<and> \<not> IsLess t line then Some (True, m')
     else do { m'' \<leftarrow> put_char m' pc ch; Some (False, m'') }
   }"

text \<open>
  The loop over the lines. The result says whether the end of the data was reached, and has the
  block, \<open>a_pData\<close>, \<open>pDataLine\<close> and \<open>cEndOfLineChar\<close>.
\<close>

partial_function (option) ml_loop ::
  "nat option \<Rightarrow> bool \<Rightarrow> string \<Rightarrow> nat \<Rightarrow> nat \<Rightarrow> char \<Rightarrow> (bool \<times> string \<times> nat \<times> nat \<times> char) option" where
  "ml_loop tag blank m a d eol = do {
     c \<leftarrow> char_at m a;
     if tag = None \<and> \<not> IsComment c then
       if \<not> blank then Some (False, m, a, d, eol)
       else do {
         (p, n) \<leftarrow> blank_ahead m a 0;
         c' \<leftarrow> char_at m p;
         if IsComment c' then do { m' \<leftarrow> put_newlines n m d; ml_loop tag blank m' p (d + n) eol }
         else Some (False, m, a, d, eol)
       }
     else do {
       e \<leftarrow> skip_while (\<lambda>c. \<not> IsNewLineChar c) m a;
       m \<leftarrow> move_line m d a e;
       eol \<leftarrow> char_at m e;
       m \<leftarrow> put_char m e NUL;
       (found, m) \<leftarrow> (case tag of None \<Rightarrow> Some (False, m) | Some t \<Rightarrow> check_tag m d e t);
       if found then Some (False, m, e, d, eol)
       else if eol = NUL then Some (True, m, e, d, eol)
       else do {
         m \<leftarrow> put_char m e eol;
         a' \<leftarrow> SkipNewLine m e;
         m \<leftarrow> put_char m (d + (e - a)) LF;
         ml_loop tag blank m a' (d + (e - a) + 1) eol
       }
     }
   }"

text \<open>
  The result, the block, \<open>a_pData\<close> and \<open>a_pVal\<close>. Without a tag a comment is read; \<open>tag\<close> is the
  position of the name that ends a value.
\<close>

definition LoadMultiLineText ::
  "string \<Rightarrow> nat \<Rightarrow> nat option \<Rightarrow> bool \<Rightarrow> (bool \<times> string \<times> nat \<times> nat option) option" where
  "LoadMultiLineText m a tag a_bAllowBlankLinesInComment = do {
     eol \<leftarrow> char_at m a;
     (ended, m, a', d, eol) \<leftarrow> ml_loop tag a_bAllowBlankLinesInComment m a a eol;
     if ended then Some (True, m, a', Some a)
     else if a = a' then Some (False, m, a', None)
     else if d = 0 then None
     else do {
       m \<leftarrow> put_char m (d - 1) NUL;
       if tag \<noteq> None \<and> eol \<noteq> NUL then do {
         m \<leftarrow> put_char m a' eol;
         q \<leftarrow> SkipNewLine m a';
         Some (True, m, q, Some a)
       } else Some (True, m, a', Some a)
     }
   }"

section \<open>FindEntry\<close>

text \<open>
  The reference parameters and the block. \<open>a_pSection\<close> is \<open>None\<close> while it points to the empty text
  outside the block.
\<close>

record parse =
  block :: string
  a_pData :: nat
  a_pSection :: "nat option"
  a_pKey :: "nat option"
  a_pVal :: "nat option"
  a_pComment :: "nat option"

text \<open>How one turn of the loop over the lines ends.\<close>

datatype outcome = Continue | Return bool

definition find_section :: "parse \<Rightarrow> (outcome \<times> parse) option" where
  "find_section w = do {
     p \<leftarrow> skip_while IsSpace (block w) (a_pData w + 1);
     q \<leftarrow> skip_while (\<lambda>c. c \<noteq> CHR '']'' \<and> \<not> IsNewLineChar c) (block w) p;
     c \<leftarrow> char_at (block w) q;
     if c \<noteq> CHR '']'' then Some (Continue, w\<lparr>a_pSection := Some p, a_pData := q\<rparr>)
     else do {
       t \<leftarrow> rtrim (block w) p q;
       m \<leftarrow> put_char (block w) t NUL;
       e \<leftarrow> skip_while (\<lambda>c. \<not> IsNewLineChar c) m (q + 1);
       Some (Return True, w\<lparr>block := m, a_pSection := Some p, a_pData := e, a_pKey := None, a_pVal := None\<rparr>)
     }
   }"

definition IsMultiLineTag :: "string \<Rightarrow> nat \<Rightarrow> bool option" where
  "IsMultiLineTag m v = do {
     c0 \<leftarrow> char_at m v;
     if c0 \<noteq> CHR ''<'' then Some False
     else do {
       c1 \<leftarrow> char_at m (v + 1);
       if c1 \<noteq> CHR ''<'' then Some False
       else do { c2 \<leftarrow> char_at m (v + 2); Some (c2 = CHR ''<'') }
     }
   }"

text \<open>The value and, behind it, the block, if quotes are taken off the value from \<open>v\<close> to \<open>t\<close>.\<close>

definition strip_quotes :: "string \<Rightarrow> nat \<Rightarrow> nat \<Rightarrow> (string \<times> nat) option" where
  "strip_quotes m v t =
    (if v + 1 < t then do {
       c \<leftarrow> char_at m v;
       c' \<leftarrow> char_at m (t - 1);
       if c = CHR 0x22 \<and> c' = CHR 0x22 then do { m \<leftarrow> put_char m (t - 1) NUL; Some (m, v + 1) }
       else Some (m, v)
     } else Some (m, v))"

text \<open>The value after the equals sign at \<open>q\<close>; the key ends at \<open>t\<close>.\<close>

definition find_value :: "'a ini_settings_scheme \<Rightarrow> parse \<Rightarrow> nat \<Rightarrow> nat \<Rightarrow> (outcome \<times> parse) option" where
  "find_value S w t q = do {
     m \<leftarrow> put_char (block w) t NUL;
     v \<leftarrow> skip_while (\<lambda>c. \<not> IsNewLineChar c \<and> IsSpace c) m (q + 1);
     e \<leftarrow> skip_while (\<lambda>c. \<not> IsNewLineChar c) m v;
     c \<leftarrow> char_at m e;
     p \<leftarrow> (if c \<noteq> NUL then SkipNewLine m e else Some e);
     t' \<leftarrow> rtrim m v e;
     m \<leftarrow> put_char m t' NUL;
     multi \<leftarrow> (if m_bAllowMultiLine S then IsMultiLineTag m v else Some False);
     if multi then do {
       (found, m, p, val) \<leftarrow> LoadMultiLineText m p (Some (v + 3)) False;
       Some (Return found, w\<lparr>block := m, a_pData := p, a_pVal := val\<rparr>)
     } else do {
       (m, v) \<leftarrow> (if m_bParseQuotes S then strip_quotes m v t' else Some (m, v));
       Some (Return True, w\<lparr>block := m, a_pData := p, a_pVal := Some v\<rparr>)
     }
   }"

definition find_key :: "'a ini_settings_scheme \<Rightarrow> parse \<Rightarrow> (outcome \<times> parse) option" where
  "find_key S w = do {
     let k = a_pData w;
     q \<leftarrow> skip_while (\<lambda>c. c \<noteq> CHR ''='' \<and> \<not> IsNewLineChar c) (block w) k;
     c \<leftarrow> char_at (block w) q;
     let w = w\<lparr>a_pKey := Some k, a_pData := q\<rparr>;
     if c \<noteq> CHR ''='' \<and> \<not> m_bAllowKeyOnly S then Some (Continue, w)
     else if c = CHR ''='' \<and> k = q then do {
       e \<leftarrow> skip_while (\<lambda>c. \<not> IsNewLineChar c) (block w) q;
       Some (Continue, w\<lparr>a_pData := e\<rparr>)
     }
     else do {
       t \<leftarrow> rtrim (block w) k q;
       if c = CHR ''='' then find_value S w t q
       else do {
         p \<leftarrow> (if c \<noteq> NUL then SkipNewLine (block w) q else Some q);
         m \<leftarrow> put_char (block w) t NUL;
         Some (Return True, w\<lparr>block := m, a_pData := p\<rparr>)
       }
     }
   }"

partial_function (option) find_loop :: "'a ini_settings_scheme \<Rightarrow> parse \<Rightarrow> (bool \<times> parse) option" where
  "find_loop S w = do {
     c \<leftarrow> char_at (block w) (a_pData w);
     if c = NUL then Some (False, w)
     else do {
       p \<leftarrow> skip_while IsSpace (block w) (a_pData w);
       c \<leftarrow> char_at (block w) p;
       if c = NUL then Some (False, w\<lparr>a_pData := p\<rparr>)
       else if IsComment c then do {
         (found, m, p, cm) \<leftarrow> LoadMultiLineText (block w) p None True;
         find_loop S (w\<lparr>block := m, a_pData := p, a_pComment := cm\<rparr>)
       }
       else do {
         (r, w) \<leftarrow> (if c = CHR ''['' then find_section (w\<lparr>a_pData := p\<rparr>) else find_key S (w\<lparr>a_pData := p\<rparr>));
         case r of Return b \<Rightarrow> Some (b, w) | Continue \<Rightarrow> find_loop S w
       }
     }
   }"

declare skip_while.simps [code] blank_ahead.simps [code] ml_loop.simps [code] find_loop.simps [code]

definition FindEntry :: "'a ini_settings_scheme \<Rightarrow> parse \<Rightarrow> (bool \<times> parse) option" where
  "FindEntry S w = find_loop S (w\<lparr>a_pComment := None\<rparr>)"

end
