(* ===== verification/Ini_Store.thy ===== *)
theory Ini_Store
  imports Ini_Text
begin

text \<open>
  The tables of src/include/simpleIni/SimpleIni.h, as \<open>CSimpleIni\<close> instantiates it. Names and
  values are pointers: into the block of text that was loaded, to a copy the object has made and
  owns (\<open>m_strings\<close>), to the two empty texts, or to memory of the caller. Reading a pointer whose
  text is gone is \<open>None\<close>. \<open>std::map\<close> and \<open>std::multimap\<close> are lists in the order of \<open>KeyOrder\<close>; they
  find the first entry that is not less than the key, and insert behind the entries with equal
  keys. \<open>new_ok n\<close> says whether the \<open>n\<close>th allocation succeeds. An overflow of \<open>m_nOrder\<close> is \<open>None\<close>.
\<close>

section \<open>Pointers and tables\<close>

datatype text_ptr =
    Data nat          \<comment> \<open>into the block of text\<close>
  | Copy nat          \<comment> \<open>to the copy made by this allocation\<close>
  | EmptyMember       \<comment> \<open>\<open>&m_cEmptyString\<close>\<close>
  | StaticEmpty       \<comment> \<open>the static \<open>empty\<close> of \<open>LoadData\<close>\<close>
  | Caller string     \<comment> \<open>to memory of the caller, that holds this text\<close>
  | TempBlock string  \<comment> \<open>to this text in the block of a \<open>LoadData\<close> that copies\<close>

record Entry =
  pItem :: text_ptr
  pComment :: "text_ptr option"
  nOrder :: int

type_synonym TKeyVal = "(Entry \<times> text_ptr) list"

record CSimpleIni = ini_settings +
  m_pData :: "string option"
  m_uDataLen :: nat
  m_pFileComment :: "text_ptr option"
  m_data :: "(Entry \<times> TKeyVal) list"
  m_strings :: "(nat \<times> string) list"
  m_nOrder :: int
  allocs :: nat

text \<open>\<open>SI_Error\<close>\<close>

abbreviation SI_OK :: int where "SI_OK \<equiv> 0"
abbreviation SI_UPDATED :: int where "SI_UPDATED \<equiv> 1"
abbreviation SI_INSERTED :: int where "SI_INSERTED \<equiv> 2"
abbreviation SI_FAIL :: int where "SI_FAIL \<equiv> - 1"
abbreviation SI_NOMEM :: int where "SI_NOMEM \<equiv> - 2"
abbreviation SI_FILE :: int where "SI_FILE \<equiv> - 3"

definition CSimpleIni_ctor :: "bool \<Rightarrow> bool \<Rightarrow> bool \<Rightarrow> CSimpleIni" where
  "CSimpleIni_ctor a_bIsUtf8 a_bAllowMultiKey a_bAllowMultiLine =
    \<lparr>m_bStoreIsUtf8 = a_bIsUtf8, m_bAllowMultiKey = a_bAllowMultiKey, m_bAllowMultiLine = a_bAllowMultiLine,
     m_bSpaces = True, m_bParseQuotes = False, m_bAllowKeyOnly = False, m_pData = None, m_uDataLen = 0,
     m_pFileComment = None, m_data = [], m_strings = [], m_nOrder = 0, allocs = 0\<rparr>"

definition Reset :: "CSimpleIni \<Rightarrow> CSimpleIni" where
  "Reset o' = o'\<lparr>m_pData := None, m_uDataLen := 0, m_pFileComment := None, m_data := [], m_strings := []\<rparr>"

definition IsEmpty :: "CSimpleIni \<Rightarrow> bool" where
  "IsEmpty o' \<longleftrightarrow> m_data o' = []"

definition SetUnicode :: "bool \<Rightarrow> CSimpleIni \<Rightarrow> CSimpleIni" where
  "SetUnicode a_bIsUtf8 o' = (if m_pData o' = None then o'\<lparr>m_bStoreIsUtf8 := a_bIsUtf8\<rparr> else o')"

definition IsUnicode :: "CSimpleIni \<Rightarrow> bool" where
  "IsUnicode o' = m_bStoreIsUtf8 o'"

definition SetMultiKey :: "bool \<Rightarrow> CSimpleIni \<Rightarrow> CSimpleIni" where
  "SetMultiKey a_bAllowMultiKey o' = o'\<lparr>m_bAllowMultiKey := a_bAllowMultiKey\<rparr>"

definition IsMultiKey :: "CSimpleIni \<Rightarrow> bool" where
  "IsMultiKey o' = m_bAllowMultiKey o'"

definition SetMultiLine :: "bool \<Rightarrow> CSimpleIni \<Rightarrow> CSimpleIni" where
  "SetMultiLine a_bAllowMultiLine o' = o'\<lparr>m_bAllowMultiLine := a_bAllowMultiLine\<rparr>"

definition IsMultiLine :: "CSimpleIni \<Rightarrow> bool" where
  "IsMultiLine o' = m_bAllowMultiLine o'"

definition SetSpaces :: "bool \<Rightarrow> CSimpleIni \<Rightarrow> CSimpleIni" where
  "SetSpaces a_bSpaces o' = o'\<lparr>m_bSpaces := a_bSpaces\<rparr>"

definition UsingSpaces :: "CSimpleIni \<Rightarrow> bool" where
  "UsingSpaces o' = m_bSpaces o'"

definition SetQuotes :: "bool \<Rightarrow> CSimpleIni \<Rightarrow> CSimpleIni" where
  "SetQuotes a_bParseQuotes o' = o'\<lparr>m_bParseQuotes := a_bParseQuotes\<rparr>"

definition UsingQuotes :: "CSimpleIni \<Rightarrow> bool" where
  "UsingQuotes o' = m_bParseQuotes o'"

definition SetAllowKeyOnly :: "bool \<Rightarrow> CSimpleIni \<Rightarrow> CSimpleIni" where
  "SetAllowKeyOnly a_bAllowKeyOnly o' = o'\<lparr>m_bAllowKeyOnly := a_bAllowKeyOnly\<rparr>"

definition GetAllowKeyOnly :: "CSimpleIni \<Rightarrow> bool" where
  "GetAllowKeyOnly o' = m_bAllowKeyOnly o'"

text \<open>The C string at a pointer.\<close>

fun ptr_text :: "CSimpleIni \<Rightarrow> text_ptr \<Rightarrow> string option" where
  "ptr_text o' (Data n) = (case m_pData o' of None \<Rightarrow> None | Some m \<Rightarrow> c_string m n)"
| "ptr_text o' (Copy n) = map_of (m_strings o') n"
| "ptr_text o' (Caller s) = Some s"
| "ptr_text o' (TempBlock s) = Some s"
| "ptr_text o' p = Some ''''"

text \<open>The position of the first entry that is not less than the key, and of the first one that is greater.\<close>

fun lower_bound :: "CSimpleIni \<Rightarrow> string \<Rightarrow> (Entry \<times> 'a) list \<Rightarrow> nat option" where
  "lower_bound o' k [] = Some 0"
| "lower_bound o' k (x # xs) = do {
     s \<leftarrow> ptr_text o' (pItem (fst x));
     if IsLess s k then do { n \<leftarrow> lower_bound o' k xs; Some (n + 1) } else Some 0
   }"

fun upper_bound :: "CSimpleIni \<Rightarrow> string \<Rightarrow> (Entry \<times> 'a) list \<Rightarrow> nat option" where
  "upper_bound o' k [] = Some 0"
| "upper_bound o' k (x # xs) = do {
     s \<leftarrow> ptr_text o' (pItem (fst x));
     if IsLess k s then Some 0 else do { n \<leftarrow> upper_bound o' k xs; Some (n + 1) }
   }"

text \<open>\<open>find\<close>: \<open>None\<close> inside the result is \<open>end()\<close>.\<close>

definition find_entry :: "CSimpleIni \<Rightarrow> string \<Rightarrow> (Entry \<times> 'a) list \<Rightarrow> nat option option" where
  "find_entry o' k xs = do {
     i \<leftarrow> lower_bound o' k xs;
     if i < length xs then do {
       s \<leftarrow> ptr_text o' (pItem (fst (xs ! i)));
       Some (if IsLess k s then None else Some i)
     } else Some None
   }"

definition insert_entry :: "CSimpleIni \<Rightarrow> Entry \<times> 'a \<Rightarrow> (Entry \<times> 'a) list \<Rightarrow> (nat \<times> (Entry \<times> 'a) list) option" where
  "insert_entry o' x xs = do {
     k \<leftarrow> ptr_text o' (pItem (fst x));
     i \<leftarrow> upper_bound o' k xs;
     Some (i, take i xs @ x # drop i xs)
   }"

section \<open>Copied strings\<close>

definition CopyString :: "(nat \<Rightarrow> bool) \<Rightarrow> text_ptr \<Rightarrow> CSimpleIni \<Rightarrow> (int \<times> text_ptr \<times> CSimpleIni) option" where
  "CopyString new_ok p o' = do {
     s \<leftarrow> ptr_text o' p;
     let n = allocs o';
     let o' = o'\<lparr>allocs := n + 1\<rparr>;
     if \<not> new_ok n then Some (SI_NOMEM, p, o')
     else Some (SI_OK, Copy n, o'\<lparr>m_strings := m_strings o' @ [(n, s)]\<rparr>)
   }"

text \<open>A string is given back if it is in the list of copies; the block of text is not touched.\<close>

fun DeleteString :: "text_ptr \<Rightarrow> CSimpleIni \<Rightarrow> CSimpleIni" where
  "DeleteString (Copy n) o' = o'\<lparr>m_strings := filter (\<lambda>(i, s). i \<noteq> n) (m_strings o')\<rparr>"
| "DeleteString p o' = o'"

definition DeleteString_opt :: "text_ptr option \<Rightarrow> CSimpleIni \<Rightarrow> CSimpleIni" where
  "DeleteString_opt p o' = (case p of None \<Rightarrow> o' | Some p \<Rightarrow> DeleteString p o')"

text \<open>\<open>!IsLess(a, b)\<close> on pointers.\<close>

definition not_less :: "CSimpleIni \<Rightarrow> text_ptr \<Rightarrow> text_ptr \<Rightarrow> bool option" where
  "not_less o' p q = do { s \<leftarrow> ptr_text o' p; t \<leftarrow> ptr_text o' q; Some (\<not> IsLess s t) }"

section \<open>DeleteValue\<close>

text \<open>
  The loop from the first entry with the key. The key is read again after the strings of an entry
  have been given back. The result says whether something was deleted and has what remains.
\<close>

fun delete_loop ::
  "text_ptr \<Rightarrow> text_ptr option \<Rightarrow> TKeyVal \<Rightarrow> CSimpleIni \<Rightarrow> (bool \<times> TKeyVal \<times> CSimpleIni) option" where
  "delete_loop key val [] o' = Some (False, [], o')"
| "delete_loop key val ((e, v) # xs) o' = do {
     hit \<leftarrow> (case val of None \<Rightarrow> Some True
            | Some u \<Rightarrow> do { a \<leftarrow> not_less o' u v; if a then not_less o' v u else Some False });
     let o' = (if hit then DeleteString v (DeleteString (pItem e) o') else o');
     more \<leftarrow> (case xs of [] \<Rightarrow> Some False | (e', v') # ys \<Rightarrow> not_less o' key (pItem e'));
     if more then do {
       (deleted, ys, o') \<leftarrow> delete_loop key val xs o';
       Some (hit \<or> deleted, if hit then ys else (e, v) # ys, o')
     } else Some (hit, if hit then xs else (e, v) # xs, o')
   }"

definition delete_strings :: "TKeyVal \<Rightarrow> CSimpleIni \<Rightarrow> CSimpleIni" where
  "delete_strings kv o' = fold (\<lambda>(e, v) o'. DeleteString v (DeleteString (pItem e) o')) kv o'"

definition delete_section :: "nat \<Rightarrow> CSimpleIni \<Rightarrow> CSimpleIni" where
  "delete_section i o' =
    (let o' = DeleteString (pItem (fst (m_data o' ! i))) o'
     in o'\<lparr>m_data := take i (m_data o') @ drop (i + 1) (m_data o')\<rparr>)"

definition DeleteValue ::
  "text_ptr option \<Rightarrow> text_ptr option \<Rightarrow> text_ptr option \<Rightarrow> bool \<Rightarrow> CSimpleIni \<Rightarrow> (bool \<times> CSimpleIni) option" where
  "DeleteValue pSection pKey pValue a_bRemoveEmpty o' = (case pSection of
     None \<Rightarrow> Some (False, o')
   | Some sec \<Rightarrow> do {
       s \<leftarrow> ptr_text o' sec;
       iSection \<leftarrow> find_entry o' s (m_data o');
       case iSection of
         None \<Rightarrow> Some (False, o')
       | Some i \<Rightarrow>
           let (e, kv) = m_data o' ! i in
           (case pKey of
              None \<Rightarrow> Some (True, delete_section i (delete_strings kv o'))
            | Some key \<Rightarrow> do {
                k \<leftarrow> ptr_text o' key;
                iKeyVal \<leftarrow> find_entry o' k kv;
                case iKeyVal of
                  None \<Rightarrow> Some (False, o')
                | Some j \<Rightarrow> do {
                    (bDeleted, rest, o') \<leftarrow> delete_loop key pValue (drop j kv) o';
                    let kv = take j kv @ rest;
                    let o' = o'\<lparr>m_data := (m_data o')[i := (e, kv)]\<rparr>;
                    if \<not> bDeleted then Some (False, o')
                    else if \<not> a_bRemoveEmpty \<or> kv \<noteq> [] then Some (True, o')
                    else Some (True, delete_section i o')
                  }
              })
     })"

definition Delete :: "text_ptr option \<Rightarrow> text_ptr option \<Rightarrow> bool \<Rightarrow> CSimpleIni \<Rightarrow> (bool \<times> CSimpleIni) option" where
  "Delete pSection pKey a_bRemoveEmpty = DeleteValue pSection pKey None a_bRemoveEmpty"

section \<open>AddEntry\<close>

definition next_order :: "CSimpleIni \<Rightarrow> CSimpleIni option" where
  "next_order o' = (if m_nOrder o' + 1 < 2 ^ 31 then Some (o'\<lparr>m_nOrder := m_nOrder o' + 1\<rparr>) else None)"

text \<open>\<open>if (a_bCopyStrings) { rc = CopyString(p); if (rc < 0) return rc; }\<close>\<close>

definition copy_if :: "(nat \<Rightarrow> bool) \<Rightarrow> bool \<Rightarrow> text_ptr \<Rightarrow> CSimpleIni \<Rightarrow> (int \<times> text_ptr \<times> CSimpleIni) option" where
  "copy_if new_ok a_bCopyStrings p o' = (if a_bCopyStrings then CopyString new_ok p o' else Some (SI_OK, p, o'))"

text \<open>The section that does not exist yet; the result has its position.\<close>

definition add_section ::
  "(nat \<Rightarrow> bool) \<Rightarrow> text_ptr \<Rightarrow> bool \<Rightarrow> text_ptr option \<Rightarrow> bool \<Rightarrow> CSimpleIni \<Rightarrow> (int \<times> nat \<times> CSimpleIni) option" where
  "add_section new_ok sec no_key com a_bCopyStrings o' = do {
     (rc, sec, o') \<leftarrow> copy_if new_ok a_bCopyStrings sec o';
     if rc < 0 then Some (rc, 0, o')
     else do {
       o' \<leftarrow> next_order o';
       let e = \<lparr>pItem = sec, pComment = (if no_key then com else None), nOrder = m_nOrder o'\<rparr>;
       (i, tab) \<leftarrow> insert_entry o' (e, []) (m_data o');
       Some (SI_OK, i, o'\<lparr>m_data := tab\<rparr>)
     }
   }"

text \<open>The load order and the comment that the entries with the key leave to the new one.\<close>

fun inherit :: "CSimpleIni \<Rightarrow> text_ptr \<Rightarrow> TKeyVal \<Rightarrow> int \<Rightarrow> text_ptr option \<Rightarrow> (int \<times> text_ptr option) option" where
  "inherit o' key [] n c = Some (n, c)"
| "inherit o' key ((e, v) # xs) n c = do {
     eq \<leftarrow> not_less o' key (pItem e);
     if eq then (if nOrder e < n then inherit o' key xs (nOrder e) (pComment e) else inherit o' key xs n c)
     else Some (n, c)
   }"

definition replace_key ::
  "(nat \<Rightarrow> bool) \<Rightarrow> text_ptr \<Rightarrow> text_ptr \<Rightarrow> text_ptr option \<Rightarrow> TKeyVal \<Rightarrow> CSimpleIni
    \<Rightarrow> (int \<times> text_ptr option \<times> CSimpleIni) option" where
  "replace_key new_ok sec key com kvs o' = do {
     (n, c) \<leftarrow> inherit o' key kvs (m_nOrder o') None;
     (com, o') \<leftarrow> (case c of
        None \<Rightarrow> Some (com, o')
      | Some p \<Rightarrow> do {
          (rc, p, o') \<leftarrow> CopyString new_ok p (DeleteString_opt com o');
          Some (Some p, o')
        });
     (deleted, o') \<leftarrow> Delete (Some sec) (Some key) False o';
     Some (n, com, o')
   }"

text \<open>Copying the key, if it is to be inserted, and the value, and storing them.\<close>

definition store_key ::
  "(nat \<Rightarrow> bool) \<Rightarrow> text_ptr \<Rightarrow> text_ptr \<Rightarrow> text_ptr option \<Rightarrow> bool \<Rightarrow> bool \<Rightarrow> nat option \<Rightarrow> bool \<Rightarrow> int \<Rightarrow> nat \<Rightarrow> CSimpleIni
    \<Rightarrow> (int \<times> CSimpleIni) option" where
  "store_key new_ok key val com copy create iKey inserted n i o' = do {
     (rc, key, o') \<leftarrow> copy_if new_ok (copy \<and> create) key o';
     if rc < 0 then Some (rc, o')
     else do {
       (rc, val, o') \<leftarrow> copy_if new_ok copy val o';
       if rc < 0 then Some (rc, o')
       else do {
         let (e, kv) = m_data o' ! i;
         kv \<leftarrow> (if create then do {
                   (j, kv) \<leftarrow> insert_entry o' (\<lparr>pItem = key, pComment = com, nOrder = n\<rparr>, val) kv;
                   Some kv
                 } else Some (kv[the iKey := (fst (kv ! the iKey), val)]));
         Some (if inserted then SI_INSERTED else SI_UPDATED, o'\<lparr>m_data := (m_data o')[i := (e, kv)]\<rparr>)
       }
     }
   }"

definition add_key ::
  "(nat \<Rightarrow> bool) \<Rightarrow> text_ptr \<Rightarrow> text_ptr \<Rightarrow> text_ptr option \<Rightarrow> text_ptr option \<Rightarrow> bool \<Rightarrow> bool \<Rightarrow> nat \<Rightarrow> CSimpleIni
    \<Rightarrow> (int \<times> CSimpleIni) option" where
  "add_key new_ok sec key val com a_bForceReplace a_bCopyStrings i o' = do {
     k \<leftarrow> ptr_text o' key;
     iKey \<leftarrow> find_entry o' k (snd (m_data o' ! i));
     let bInserted = (iKey = None);
     o' \<leftarrow> next_order o';
     (iKey, nLoadOrder, com, o') \<leftarrow>
       (if iKey \<noteq> None \<and> m_bAllowMultiKey o' \<and> a_bForceReplace then do {
          (n, com, o') \<leftarrow> replace_key new_ok sec key com (drop (the iKey) (snd (m_data o' ! i))) o';
          Some (None, n, com, o')
        } else Some (iKey, m_nOrder o', com, o'));
     let val = (case val of None \<Rightarrow> EmptyMember | Some p \<Rightarrow> p);
     let bForceCreateNewKey = (m_bAllowMultiKey o' \<and> \<not> a_bForceReplace);
     store_key new_ok key val com a_bCopyStrings (iKey = None \<or> bForceCreateNewKey) iKey bInserted nLoadOrder i o'
   }"

definition AddEntry ::
  "(nat \<Rightarrow> bool) \<Rightarrow> text_ptr \<Rightarrow> text_ptr option \<Rightarrow> text_ptr option \<Rightarrow> text_ptr option \<Rightarrow> bool \<Rightarrow> bool \<Rightarrow> CSimpleIni
    \<Rightarrow> (int \<times> CSimpleIni) option" where
  "AddEntry new_ok pSection pKey pValue pCom a_bForceReplace a_bCopyStrings o' = do {
     (rc, com, o') \<leftarrow> (case pCom of
        None \<Rightarrow> Some (SI_OK, None, o')
      | Some p \<Rightarrow> do { (rc, p, o') \<leftarrow> copy_if new_ok a_bCopyStrings p o'; Some (rc, Some p, o') });
     if rc < 0 then Some (rc, o')
     else do {
       s \<leftarrow> ptr_text o' pSection;
       iSection \<leftarrow> find_entry o' s (m_data o');
       (rc, i, o') \<leftarrow> (case iSection of
          Some i \<Rightarrow> Some (SI_OK, i, o')
        | None \<Rightarrow> add_section new_ok pSection (pKey = None) com a_bCopyStrings o');
       if rc < 0 then Some (rc, o')
       else (case pKey of
          None \<Rightarrow> Some (if iSection = None then SI_INSERTED else SI_UPDATED, o')
        | Some key \<Rightarrow> add_key new_ok pSection key pValue com a_bForceReplace a_bCopyStrings i o')
     }
   }"

definition SetValue ::
  "(nat \<Rightarrow> bool) \<Rightarrow> text_ptr \<Rightarrow> text_ptr option \<Rightarrow> text_ptr option \<Rightarrow> text_ptr option \<Rightarrow> bool \<Rightarrow> CSimpleIni
    \<Rightarrow> (int \<times> CSimpleIni) option" where
  "SetValue new_ok pSection pKey pValue pCom a_bForceReplace =
    AddEntry new_ok pSection pKey pValue pCom a_bForceReplace True"

end
