(* ===== verification/Ini_Get.thy ===== *)
theory Ini_Get
  imports Ini_Store
begin

text \<open>
  The queries of src/include/simpleIni/SimpleIni.h and the typed values. A query that finds nothing
  gives its default; \<open>has\<close> says whether the caller passed an \<open>a_pHasMultiple\<close>. The converter for
  \<open>char\<close> copies, so \<open>ConvertToStore\<close> only checks that the text fits.
\<close>

section \<open>Queries\<close>

text \<open>The section, and the entries from the first one with the key, if there are any.\<close>

definition GetSection :: "text_ptr option \<Rightarrow> CSimpleIni \<Rightarrow> TKeyVal option option" where
  "GetSection pSection o' = (case pSection of
     None \<Rightarrow> Some None
   | Some p \<Rightarrow> do {
       s \<leftarrow> ptr_text o' p;
       i \<leftarrow> find_entry o' s (m_data o');
       Some (map_option (\<lambda>i. snd (m_data o' ! i)) i)
     })"

definition find_keys :: "text_ptr option \<Rightarrow> text_ptr option \<Rightarrow> CSimpleIni \<Rightarrow> TKeyVal option" where
  "find_keys pSection pKey o' = (case (pSection, pKey) of
     (Some p, Some q) \<Rightarrow> do {
       kv \<leftarrow> GetSection (Some p) o';
       (case kv of None \<Rightarrow> Some [] | Some kv \<Rightarrow> do {
          k \<leftarrow> ptr_text o' q;
          j \<leftarrow> find_entry o' k kv;
          Some (case j of None \<Rightarrow> [] | Some j \<Rightarrow> drop j kv)
        })
     }
   | _ \<Rightarrow> Some [])"

definition GetValue ::
  "text_ptr option \<Rightarrow> text_ptr option \<Rightarrow> text_ptr option \<Rightarrow> bool \<Rightarrow> CSimpleIni \<Rightarrow> (text_ptr option \<times> bool) option" where
  "GetValue pSection pKey pDefault has o' = do {
     xs \<leftarrow> find_keys pSection pKey o';
     (case xs of
        [] \<Rightarrow> Some (pDefault, False)
      | (e, v) # ys \<Rightarrow> do {
          multi \<leftarrow> (if m_bAllowMultiKey o' \<and> has
                    then (case ys of [] \<Rightarrow> Some False | (e', v') # zs \<Rightarrow> not_less o' (the pKey) (pItem e'))
                    else Some False);
          Some (Some v, multi)
        })
   }"

definition SectionExists :: "text_ptr option \<Rightarrow> CSimpleIni \<Rightarrow> bool option" where
  "SectionExists pSection o' = do { kv \<leftarrow> GetSection pSection o'; Some (kv \<noteq> None) }"

definition KeyExists :: "text_ptr option \<Rightarrow> text_ptr option \<Rightarrow> CSimpleIni \<Rightarrow> bool option" where
  "KeyExists pSection pKey o' = do { (v, multi) \<leftarrow> GetValue pSection pKey None False o'; Some (v \<noteq> None) }"

fun same_keys :: "CSimpleIni \<Rightarrow> text_ptr \<Rightarrow> TKeyVal \<Rightarrow> Entry list option" where
  "same_keys o' key [] = Some []"
| "same_keys o' key ((e, v) # xs) = do {
     eq \<leftarrow> not_less o' key (pItem e);
     if eq then do {
       es \<leftarrow> same_keys o' key xs;
       Some (\<lparr>pItem = v, pComment = pComment e, nOrder = nOrder e\<rparr> # es)
     } else Some []
   }"

definition GetAllValues :: "text_ptr option \<Rightarrow> text_ptr option \<Rightarrow> CSimpleIni \<Rightarrow> (bool \<times> Entry list) option" where
  "GetAllValues pSection pKey o' = do {
     xs \<leftarrow> find_keys pSection pKey o';
     (case xs of
        [] \<Rightarrow> Some (False, [])
      | (e, v) # ys \<Rightarrow> do {
          es \<leftarrow> (if m_bAllowMultiKey o' then same_keys o' (the pKey) ys else Some []);
          Some (True, \<lparr>pItem = v, pComment = pComment e, nOrder = nOrder e\<rparr> # es)
        })
   }"

text \<open>The first entry of every key; \<open>pLastKey\<close> is the key before.\<close>

fun distinct_keys :: "CSimpleIni \<Rightarrow> text_ptr option \<Rightarrow> TKeyVal \<Rightarrow> Entry list option" where
  "distinct_keys o' pLastKey [] = Some []"
| "distinct_keys o' pLastKey ((e, v) # xs) = do {
     new \<leftarrow> (case pLastKey of None \<Rightarrow> Some True | Some p \<Rightarrow> map_option Not (not_less o' p (pItem e)));
     if new then do { es \<leftarrow> distinct_keys o' (Some (pItem e)) xs; Some (e # es) }
     else distinct_keys o' pLastKey xs
   }"

definition GetSectionSize :: "text_ptr option \<Rightarrow> CSimpleIni \<Rightarrow> int option" where
  "GetSectionSize pSection o' = do {
     kv \<leftarrow> GetSection pSection o';
     (case kv of
        None \<Rightarrow> Some (- 1)
      | Some kv \<Rightarrow>
          if \<not> m_bAllowMultiKey o' \<or> kv = [] then Some (int (length kv))
          else do { es \<leftarrow> distinct_keys o' None kv; Some (int (length es)) })
   }"

definition GetAllSections :: "CSimpleIni \<Rightarrow> Entry list" where
  "GetAllSections o' = map fst (m_data o')"

definition GetAllKeys :: "text_ptr option \<Rightarrow> CSimpleIni \<Rightarrow> (bool \<times> Entry list) option" where
  "GetAllKeys pSection o' = do {
     kv \<leftarrow> GetSection pSection o';
     (case kv of
        None \<Rightarrow> Some (False, [])
      | Some kv \<Rightarrow> do { es \<leftarrow> distinct_keys o' None kv; Some (True, es) })
   }"

section \<open>Typed values\<close>

text \<open>
  \<open>strtol\<close>: white space, a sign, for base 16 an optional prefix, digits; the result and the text
  from \<open>*endptr\<close>. A value outside a \<open>long\<close> becomes the nearest one.
\<close>

definition digit_of :: "char \<Rightarrow> nat" where
  "digit_of c = (let n = of_char c in
     if 48 \<le> n \<and> n \<le> 57 then n - 48 else if 97 \<le> n \<and> n \<le> 122 then n - 87
     else if 65 \<le> n \<and> n \<le> 90 then n - 55 else 36)"

definition strtol :: "nat \<Rightarrow> string \<Rightarrow> int \<times> string" where
  "strtol base s =
    (let t = dropWhile is_space s;
         neg = (t \<noteq> [] \<and> hd t = CHR ''-'');
         u = (if t \<noteq> [] \<and> (hd t = CHR ''-'' \<or> hd t = CHR ''+'') then tl t else t);
         prefixed = (base = 16 \<and> (take 2 u = ''0x'' \<or> take 2 u = ''0X'') \<and> drop 2 u \<noteq> [] \<and> digit_of (u ! 2) < 16);
         u = (if prefixed then drop 2 u else u);
         ds = takeWhile (\<lambda>c. digit_of c < base) u;
         n = int (foldl (\<lambda>a c. base * a + digit_of c) 0 ds);
         v = (if neg then - n else n)
     in if ds = [] then (0, s) else (max (- (2 ^ 63)) (min (2 ^ 63 - 1) v), drop (length ds) u))"

text \<open>The value of a key for the typed queries: \<open>None\<close> for no value or an empty one.\<close>

definition value_text ::
  "text_ptr option \<Rightarrow> text_ptr option \<Rightarrow> bool \<Rightarrow> CSimpleIni \<Rightarrow> (string option \<times> bool) option" where
  "value_text pSection pKey has o' = do {
     (v, multi) \<leftarrow> GetValue pSection pKey None has o';
     (case v of
        None \<Rightarrow> Some (None, multi)
      | Some p \<Rightarrow> do { s \<leftarrow> ptr_text o' p; Some (if s = [] then None else Some s, multi) })
   }"

definition parse_long :: "int \<Rightarrow> string \<Rightarrow> int" where
  "parse_long nDefault s =
    (if 64 < length s + 1 then nDefault
     else if take 2 s = ''0x'' \<or> take 2 s = ''0X'' then
       if drop 2 s = [] then nDefault
       else (let (nValue, rest) = strtol 16 (drop 2 s) in if rest \<noteq> [] then nDefault else nValue)
     else (let (nValue, rest) = strtol 10 s in if rest \<noteq> [] then nDefault else nValue))"

definition GetLongValue ::
  "text_ptr option \<Rightarrow> text_ptr option \<Rightarrow> int \<Rightarrow> bool \<Rightarrow> CSimpleIni \<Rightarrow> (int \<times> bool) option" where
  "GetLongValue pSection pKey nDefault has o' = do {
     (t, multi) \<leftarrow> value_text pSection pKey has o';
     Some (case t of None \<Rightarrow> nDefault | Some s \<Rightarrow> parse_long nDefault s, multi)
   }"

definition parse_bool :: "bool \<Rightarrow> string \<Rightarrow> bool" where
  "parse_bool bDefault s =
    (let c = s ! 0 in
     if c \<in> {CHR ''t'', CHR ''T'', CHR ''y'', CHR ''Y'', CHR ''1''} then True
     else if c \<in> {CHR ''f'', CHR ''F'', CHR ''n'', CHR ''N'', CHR ''0''} then False
     else if c \<in> {CHR ''o'', CHR ''O''} \<and> 1 < length s then
       if s ! 1 \<in> {CHR ''n'', CHR ''N''} then True
       else if s ! 1 \<in> {CHR ''f'', CHR ''F''} then False else bDefault
     else bDefault)"

definition GetBoolValue ::
  "text_ptr option \<Rightarrow> text_ptr option \<Rightarrow> bool \<Rightarrow> bool \<Rightarrow> CSimpleIni \<Rightarrow> (bool \<times> bool) option" where
  "GetBoolValue pSection pKey bDefault has o' = do {
     (t, multi) \<leftarrow> value_text pSection pKey has o';
     Some (case t of None \<Rightarrow> bDefault | Some s \<Rightarrow> parse_bool bDefault s, multi)
   }"

text \<open>\<open>%lx\<close> of a \<open>long\<close>\<close>

definition hex_digit :: "nat \<Rightarrow> char" where
  "hex_digit d = char_of (if d < 10 then 48 + d else 87 + d)"

fun hex_str :: "nat \<Rightarrow> string" where
  "hex_str n = (if n < 16 then [hex_digit n] else hex_str (n div 16) @ [hex_digit (n mod 16)])"

declare hex_str.simps [simp del]

definition long_text :: "bool \<Rightarrow> int \<Rightarrow> string" where
  "long_text bUseHex n = (if bUseHex then ''0x'' @ hex_str (nat (n mod 2 ^ 64)) else int_str n)"

definition SetLongValue ::
  "(nat \<Rightarrow> bool) \<Rightarrow> text_ptr option \<Rightarrow> text_ptr option \<Rightarrow> int \<Rightarrow> text_ptr option \<Rightarrow> bool \<Rightarrow> bool \<Rightarrow> CSimpleIni
    \<Rightarrow> (int \<times> CSimpleIni) option" where
  "SetLongValue new_ok pSection pKey nValue pCom bUseHex bForceReplace o' = (case pSection of
     None \<Rightarrow> Some (SI_FAIL, o')
   | Some sec \<Rightarrow>
       if pKey = None then Some (SI_FAIL, o')
       else AddEntry new_ok sec pKey (Some (Caller (long_text bUseHex nValue))) pCom bForceReplace True o')"

definition SetBoolValue ::
  "(nat \<Rightarrow> bool) \<Rightarrow> text_ptr option \<Rightarrow> text_ptr option \<Rightarrow> bool \<Rightarrow> text_ptr option \<Rightarrow> bool \<Rightarrow> CSimpleIni
    \<Rightarrow> (int \<times> CSimpleIni) option" where
  "SetBoolValue new_ok pSection pKey bValue pCom bForceReplace o' = (case pSection of
     None \<Rightarrow> Some (SI_FAIL, o')
   | Some sec \<Rightarrow>
       if pKey = None then Some (SI_FAIL, o')
       else AddEntry new_ok sec pKey (Some (Caller (if bValue then ''true'' else ''false''))) pCom bForceReplace True o')"

end
