(* ===== verification/Ini_Order.thy ===== *)
theory Ini_Order
  imports Ini_Get "HOL-Library.List_Lexorder" "HOL-Library.Multiset"
begin

text \<open>
  The order of the names. \<open>SI_STRLESS\<close> is a template parameter: what the tables need of it is the
  contract \<open>name_order\<close>, a comparison that compares the keys of two names in a linear order. Both
  comparison classes of SimpleIni.h satisfy it. The lemmas of the contract say what a search and an
  insertion do to a table that is in order, in terms of the values a name has (\<open>vals\<close>).
\<close>

section \<open>Tables of names\<close>

definition lower :: "(string \<Rightarrow> string \<Rightarrow> bool) \<Rightarrow> string \<Rightarrow> string list \<Rightarrow> nat" where
  "lower lt k ns = length (takeWhile (\<lambda>n. lt n k) ns)"

definition upper :: "(string \<Rightarrow> string \<Rightarrow> bool) \<Rightarrow> string \<Rightarrow> string list \<Rightarrow> nat" where
  "upper lt k ns = length (takeWhile (\<lambda>n. \<not> lt k n) ns)"

definition search :: "(string \<Rightarrow> string \<Rightarrow> bool) \<Rightarrow> string \<Rightarrow> string list \<Rightarrow> nat option" where
  "search lt k ns = (let i = lower lt k ns in if i < length ns \<and> \<not> lt k (ns ! i) then Some i else None)"

definition vals :: "(string \<Rightarrow> 'k) \<Rightarrow> 'k \<Rightarrow> (string \<times> 'a) list \<Rightarrow> 'a list" where
  "vals key k xs = map snd (filter (\<lambda>x. key (fst x) = k) xs)"

lemma vals_simps [simp]:
  "vals key k [] = []" "vals key k (x # xs) = (if key (fst x) = k then [snd x] else []) @ vals key k xs"
  "vals key k (xs @ ys) = vals key k xs @ vals key k ys"
  by (simp_all add: vals_def)

lemma vals_none: "(\<And>x. x \<in> set xs \<Longrightarrow> key (fst x) \<noteq> k) \<Longrightarrow> vals key k xs = []"
  by (auto simp: vals_def filter_empty_conv)

lemma vals_apart:
  fixes key :: "string \<Rightarrow> 'k :: linorder"
  shows "(\<And>x. x \<in> set xs \<Longrightarrow> key (fst x) < k) \<Longrightarrow> vals key k xs = []"
    "(\<And>x. x \<in> set xs \<Longrightarrow> k < key (fst x)) \<Longrightarrow> vals key k xs = []"
  by (rule vals_none, blast dest: less_imp_neq less_imp_neq [THEN not_sym])+

lemma insert_at:
  "i \<le> length xs \<Longrightarrow> map f (take i xs @ x # drop i xs) = take i (map f xs) @ f x # drop i (map f xs)"
  by (simp add: take_map drop_map)

locale name_order =
  fixes lt :: "string \<Rightarrow> string \<Rightarrow> bool" and key :: "string \<Rightarrow> 'k :: linorder"
  assumes lt_key: "lt s t \<longleftrightarrow> key s < key t"
begin

lemma lower_le: "lower lt k ns \<le> length ns"
  by (simp add: lower_def length_takeWhile_le)

lemma upper_le: "upper lt k ns \<le> length ns"
  by (simp add: upper_def length_takeWhile_le)

lemma before_lower: "n \<in> set (take (lower lt k ns) ns) \<Longrightarrow> key n < key k"
  unfolding lower_def takeWhile_eq_take [symmetric] using lt_key by (auto dest: set_takeWhileD)

lemma from_lower: "sorted (map key ns) \<Longrightarrow> n \<in> set (drop (lower lt k ns) ns) \<Longrightarrow> key k \<le> key n"
proof (induction ns)
  case (Cons m ns)
  show ?case
  proof (cases "lt m k")
    case True
    then show ?thesis
      using Cons by (simp add: lower_def)
  next
    case False
    then have "key k \<le> key m" "n \<in> set (m # ns)"
      using in_set_dropD [OF Cons.prems(2)] by (simp_all add: lt_key not_less)
    then show ?thesis
      using Cons.prems(1) by auto
  qed
qed (simp add: lower_def)

lemma before_upper: "n \<in> set (take (upper lt k ns) ns) \<Longrightarrow> key n \<le> key k"
  unfolding upper_def takeWhile_eq_take [symmetric] using lt_key by (auto dest: set_takeWhileD)

lemma from_upper: "sorted (map key ns) \<Longrightarrow> n \<in> set (drop (upper lt k ns) ns) \<Longrightarrow> key k < key n"
proof (induction ns)
  case (Cons m ns)
  show ?case
  proof (cases "\<not> lt k m")
    case True
    then show ?thesis
      using Cons by (simp add: upper_def)
  next
    case False
    then have "key k < key m" "n \<in> set (m # ns)"
      using in_set_dropD [OF Cons.prems(2)] by (simp_all add: lt_key not_less)
    then show ?thesis
      using Cons.prems(1) by auto
  qed
qed (simp add: upper_def)

lemma search_Some:
  assumes "sorted (map key ns)" "search lt k ns = Some i"
  shows "i < length ns" "i = lower lt k ns" "key (ns ! i) = key k"
proof -
  show i: "i < length ns" "i = lower lt k ns"
    using assms(2) by (auto simp: search_def Let_def split: if_splits)
  have "\<not> lt k (ns ! i)"
    using assms(2) by (auto simp: search_def Let_def split: if_splits)
  moreover have "ns ! i \<in> set (drop (lower lt k ns) ns)"
    using i by (simp add: Cons_nth_drop_Suc [symmetric])
  ultimately show "key (ns ! i) = key k"
    using from_lower [OF assms(1), of "ns ! i" k] lt_key by (simp add: not_less)
qed

lemma search_None:
  assumes "sorted (map key ns)"
  shows "search lt k ns = None \<longleftrightarrow> key k \<notin> key ` set ns"
proof
  assume none: "search lt k ns = None"
  show "key k \<notin> key ` set ns"
  proof
    assume "key k \<in> key ` set ns"
    then obtain n where n: "n \<in> set ns" "key n = key k"
      by auto
    let ?i = "lower lt k ns"
    have "n \<in> set (take ?i ns) \<union> set (drop ?i ns)"
      using n(1) by (metis append_take_drop_id set_append)
    then have drop: "n \<in> set (drop ?i ns)"
      using before_lower [of n k ns] n(2) by auto
    then have i: "?i < length ns"
      by (cases "?i < length ns") auto
    then have "lt k (ns ! ?i)"
      using none by (auto simp: search_def Let_def split: if_splits)
    then have "key k < key (ns ! ?i)"
      by (simp add: lt_key)
    moreover have "sorted (map key (drop ?i ns))"
      using assms by (simp add: drop_map [symmetric] sorted_wrt_drop)
    then have "key (ns ! ?i) \<le> key n"
      using drop i by (subst (asm) (1 2) Cons_nth_drop_Suc [symmetric, OF i]) auto
    ultimately show False
      using n(2) by simp
  qed
next
  assume "key k \<notin> key ` set ns"
  then show "search lt k ns = None"
    using search_Some(1,3) [OF assms, of k] by (cases "search lt k ns") (auto intro: image_eqI [OF sym] nth_mem)
qed

lemma insert_sorted:
  assumes "sorted (map key ns)" "i = upper lt k ns"
  shows "sorted (map key (take i ns @ k # drop i ns))"
proof -
  have "sorted (map key (take i ns))" "sorted (map key (drop i ns))"
    using assms(1) by (simp_all add: take_map [symmetric] drop_map [symmetric] sorted_wrt_take sorted_wrt_drop)
  moreover have "key n \<le> key k" if "n \<in> set (take i ns)" for n
    using before_upper that assms(2) by simp
  moreover have "key k < key n" if "n \<in> set (drop i ns)" for n
    using from_upper [OF assms(1)] that assms(2) by simp
  ultimately show ?thesis
    by (simp add: sorted_append) (meson less_imp_le order.trans)
qed

lemma insert_strict:
  assumes "sorted_wrt (<) (map key ns)" "i = upper lt k ns" "key k \<notin> key ` set ns"
  shows "sorted_wrt (<) (map key (take i ns @ k # drop i ns))"
proof -
  have "distinct (key k # map key ns)" "sorted (map key ns)"
    using assms(1,3) by (simp_all add: strict_sorted_iff)
  moreover have "mset (key k # map key ns) = mset (map key (take i ns @ k # drop i ns))"
    by (metis (no_types) append_take_drop_id list.simps(9) map_append mset.simps(2) mset_append union_mset_add_mset_right)
  ultimately have "distinct (map key (take i ns @ k # drop i ns))"
    using mset_eq_imp_distinct_iff by blast
  then show ?thesis
    using insert_sorted [OF \<open>sorted (map key ns)\<close> assms(2)] by (simp add: strict_sorted_iff)
qed

lemma find_split:
  assumes "sorted (map key (map fst xs))" "search lt k (map fst xs) = Some i"
  obtains A B where "xs = take i xs @ A @ B" "A \<noteq> []" "A = takeWhile (\<lambda>x. \<not> lt k (fst x)) (drop i xs)"
    "\<And>x. x \<in> set A \<Longrightarrow> key (fst x) = key k" "\<And>x. x \<in> set B \<Longrightarrow> key k < key (fst x)"
    "\<And>x. x \<in> set (take i xs) \<Longrightarrow> key (fst x) < key k"
proof -
  let ?A = "takeWhile (\<lambda>x. \<not> lt k (fst x)) (drop i xs)" and ?B = "dropWhile (\<lambda>x. \<not> lt k (fst x)) (drop i xs)"
  note found = search_Some [OF assms]
  have i: "i < length xs"
    using found(1) by simp
  have before: "key (fst x) < key k" if "x \<in> set (take i xs)" for x
    using before_lower [of "fst x" k "map fst xs"] that found(2) by (simp add: take_map)
  have ge: "key k \<le> key (fst x)" if "x \<in> set (drop i xs)" for x
    using from_lower [OF assms(1), of "fst x" k] that found(2) by (simp add: drop_map)
  have "?A \<noteq> []"
    using i found(3) by (simp add: Cons_nth_drop_Suc [symmetric] lt_key)
  moreover have "key (fst x) = key k" if "x \<in> set ?A" for x
    using ge [OF set_takeWhileD [OF that, THEN conjunct1]] set_takeWhileD [OF that] by (simp add: lt_key)
  moreover have "key k < key (fst x)" if "x \<in> set ?B" for x
  proof (cases "?B")
    case (Cons b B)
    have "lt k (fst b)"
      using hd_dropWhile [of "\<lambda>x. \<not> lt k (fst x)" "drop i xs"] Cons by simp
    moreover have "sorted (map key (map fst (?A @ b # B)))"
      using assms(1) unfolding Cons [symmetric] takeWhile_dropWhile_id by (simp add: drop_map [symmetric] sorted_wrt_drop)
    then have "key (fst b) \<le> key (fst x)"
      using that Cons by (auto simp: sorted_append)
    ultimately show ?thesis
      by (simp add: lt_key)
  qed (use that in \<open>simp only: list.set empty_iff\<close>)
  moreover have "xs = take i xs @ ?A @ ?B"
    by simp
  ultimately show thesis
    using that before by blast
qed

lemma vals_found:
  assumes "sorted (map key (map fst xs))"
  shows "search lt k (map fst xs) = Some i \<Longrightarrow> vals key (key k) xs = snd (xs ! i) # tl (vals key (key k) xs)"
    "search lt k (map fst xs) = None \<longleftrightarrow> vals key (key k) xs = []"
proof -
  assume found: "search lt k (map fst xs) = Some i"
  obtain A B where s: "xs = take i xs @ A @ B" "A \<noteq> []" "\<And>x. x \<in> set A \<Longrightarrow> key (fst x) = key k"
    "\<And>x. x \<in> set (take i xs) \<Longrightarrow> key (fst x) < key k"
    using find_split [OF assms found] by metis
  obtain a A' where a: "A = a # A'"
    using s(2) by (cases A) auto
  have "i < length xs"
    using search_Some(1) [OF assms found] by simp
  then have "xs ! i = a"
    using s(1) a by (metis append_Cons length_take less_imp_le_nat min.absorb2 nth_append_length)
  moreover have "vals key (key k) (take i xs) = []"
    by (rule vals_apart(1), rule s(4))
  moreover have "vals key (key k) xs = vals key (key k) (take i xs) @ vals key (key k) (a # A') @ vals key (key k) B"
    using s(1) a by (metis vals_simps(3))
  moreover have "key (fst a) = key k"
    using s(3) a by simp
  ultimately show "vals key (key k) xs = snd (xs ! i) # tl (vals key (key k) xs)"
    by simp
next
  show "search lt k (map fst xs) = None \<longleftrightarrow> vals key (key k) xs = []"
    unfolding search_None [OF assms] vals_def by (simp add: filter_empty_conv image_iff) metis
qed

lemma vals_insert:
  assumes "sorted (map key (map fst xs))" "i = upper lt (fst x) (map fst xs)"
  shows "vals key k (take i xs @ x # drop i xs) = vals key k xs @ (if key (fst x) = k then [snd x] else [])"
proof -
  have "vals key k (drop i xs) = []" if "key (fst x) = k"
  proof (rule vals_apart(2))
    fix y
    assume "y \<in> set (drop i xs)"
    then have "fst y \<in> set (drop (upper lt (fst x) (map fst xs)) (map fst xs))"
      by (simp add: drop_map assms(2))
    then show "k < key (fst y)"
      using from_upper [OF assms(1)] that by blast
  qed
  moreover have "vals key k xs = vals key k (take i xs) @ vals key k (drop i xs)"
    by (metis append_take_drop_id vals_simps(3))
  ultimately show ?thesis
    by simp
qed

lemma vals_update:
  assumes "sorted (map key (map fst xs))" "search lt k (map fst xs) = Some i"
  shows "vals key k' (xs[i := (fst (xs ! i), v)]) = (if k' = key k then v # tl (vals key k' xs) else vals key k' xs)"
proof -
  obtain A B where s: "xs = take i xs @ A @ B" "A \<noteq> []" "\<And>x. x \<in> set A \<Longrightarrow> key (fst x) = key k"
    "\<And>x. x \<in> set (take i xs) \<Longrightarrow> key (fst x) < key k"
    using find_split [OF assms] by metis
  have i: "i < length xs"
    using search_Some(1) [OF assms] by simp
  have "xs = take i xs @ (xs ! i) # drop (Suc i) xs"
    by (rule id_take_nth_drop [OF i])
  then have vs: "vals key k' xs = vals key k' (take i xs) @ vals key k' ((xs ! i) # drop (Suc i) xs)"
    by (metis vals_simps(3))
  have "vals key (key k) (take i xs) = []"
    by (rule vals_apart(1), rule s(4))
  moreover have "key (fst (xs ! i)) = key k"
    using search_Some(3) [OF assms] i by simp
  ultimately show ?thesis
    using vs i by (auto simp: upd_conv_take_nth_drop)
qed

lemma vals_delete:
  assumes "sorted (map key (map fst xs))" "search lt k (map fst xs) = Some i"
    "A = takeWhile (\<lambda>x. \<not> lt k (fst x)) (drop i xs)" "B = dropWhile (\<lambda>x. \<not> lt k (fst x)) (drop i xs)"
  shows "vals key k' (take i xs @ filter (\<lambda>x. P (snd x)) A @ B) = (if k' = key k then filter P (vals key k' xs) else vals key k' xs)"
proof -
  obtain A' B' where s: "xs = take i xs @ A' @ B'" "A' = A" "\<And>x. x \<in> set A' \<Longrightarrow> key (fst x) = key k"
    "\<And>x. x \<in> set B' \<Longrightarrow> key k < key (fst x)" "\<And>x. x \<in> set (take i xs) \<Longrightarrow> key (fst x) < key k"
    using find_split [OF assms(1,2)] assms(3) by metis
  have "xs = take i xs @ A @ B"
    using assms(3,4) by simp
  then have B: "B' = B"
    using s(1,2) by (metis same_append_eq)
  have vs: "vals key k' xs = vals key k' (take i xs) @ vals key k' A @ vals key k' B"
    using \<open>xs = take i xs @ A @ B\<close> by (metis vals_simps(3))
  show ?thesis
  proof (cases "k' = key k")
    case True
    have "vals key k' (take i xs) = []" "vals key k' B = []"
      unfolding True B [symmetric] by (rule vals_apart(1), erule s(5), rule vals_apart(2), erule s(4))
    moreover have "vals key k' (filter (\<lambda>x. P (snd x)) A) = filter P (vals key k' A)"
      unfolding vals_def by (induction A) auto
    ultimately show ?thesis
      using True vs by simp
  next
    case False
    then have "key (fst x) \<noteq> k'" if "x \<in> set A" for x
      using s(2,3) that by blast
    then have "vals key k' A = []" "vals key k' (filter (\<lambda>x. P (snd x)) A) = []"
      by (metis vals_none, metis filter_is_subset subsetD vals_none)
    then show ?thesis
      using False vs by simp
  qed
qed

end

section \<open>The two comparison classes\<close>

definition name_key :: "string \<Rightarrow> int list" where
  "name_key s = map (\<lambda>c. char_val (locase c)) s"

definition case_key :: "string \<Rightarrow> int list" where
  "case_key s = map char_val s"

lemma text_less_key: "text_less f s t \<longleftrightarrow> map f s < map f t"
  by (induction f s t rule: text_less.induct) (auto simp: Let_def neq_Nil_conv not_le less_le_not_le [of "[]"])

interpretation nocase: name_order IsLess name_key
  by unfold_locales (simp add: IsLess_def SI_GenericNoCase_def name_key_def text_less_key)

interpretation case_sensitive: name_order SI_GenericCase case_key
  by unfold_locales (simp add: SI_GenericCase_def case_key_def text_less_key)

text \<open>Names that differ at most in the case of ASCII letters.\<close>

lemma same_name: "\<not> IsLess s t \<and> \<not> IsLess t s \<longleftrightarrow> name_key s = name_key t"
  by (auto simp: nocase.lt_key)

lemma char_val_inject: "char_val c = char_val d \<longleftrightarrow> c = d"
proof
  assume "char_val c = char_val d"
  then have "(of_char c :: nat) = of_char d"
    using nat_of_char_less_256 [of c] nat_of_char_less_256 [of d] unfolding char_val_def Let_def
    by (simp del: of_char_eq_iff nat_of_char_less_256 split: if_splits)
  then show "c = d"
    by simp
qed simp

lemma case_key_inject: "case_key s = case_key t \<longleftrightarrow> s = t"
  unfolding case_key_def by (rule inj_eq [OF inj_mapI], rule injI) (simp add: char_val_inject)

end
