(* ===== verification/Ini_Memory.thy ===== *)
theory Ini_Memory
  imports Ini_Order
begin

text \<open>
  What keeps the pointers of a \<open>CSimpleIni\<close> valid. \<open>mem_ok S K\<close> speaks of the pointers the tables
  hold, \<open>S\<close> the names and values, with their multiplicity, \<open>K\<close> the comments: they can be read, are
  not to memory of a caller, and no copy is held twice as a name or value, or as a comment too, so
  that giving back the text of an entry leaves every other entry readable.
\<close>

section \<open>The pointers in the tables\<close>

definition kv_ptrs :: "TKeyVal \<Rightarrow> text_ptr multiset" where
  "kv_ptrs kv = mset (map (pItem \<circ> fst) kv) + mset (map snd kv)"

definition stored :: "(Entry \<times> TKeyVal) list \<Rightarrow> text_ptr multiset" where
  "stored D = sum_list (map (\<lambda>x. add_mset (pItem (fst x)) (kv_ptrs (snd x))) D)"

definition kv_comments :: "TKeyVal \<Rightarrow> text_ptr set" where
  "kv_comments kv = {p. Some p \<in> (pComment \<circ> fst) ` set kv}"

definition comments :: "(Entry \<times> TKeyVal) list \<Rightarrow> text_ptr set" where
  "comments D = {p. \<exists>x \<in> set D. pComment (fst x) = Some p \<or> p \<in> kv_comments (snd x)}"

fun lasting :: "text_ptr \<Rightarrow> bool" where
  "lasting (Caller s) = False"
| "lasting (TempBlock s) = False"
| "lasting p = True"

fun is_copy :: "text_ptr \<Rightarrow> bool" where
  "is_copy (Copy n) = True"
| "is_copy p = False"

definition mem_ok :: "text_ptr multiset \<Rightarrow> text_ptr set \<Rightarrow> CSimpleIni \<Rightarrow> bool" where
  "mem_ok S K o' \<longleftrightarrow>
     (\<forall>p. p \<in># S \<or> p \<in> K \<longrightarrow> lasting p \<and> ptr_text o' p \<noteq> None)
   \<and> (\<forall>p. m_pFileComment o' = Some p \<longrightarrow> ptr_text o' p \<noteq> None \<and> (\<forall>s. p \<noteq> Caller s))
   \<and> (\<forall>n. count S (Copy n) \<le> 1)
   \<and> (\<forall>n. Copy n \<in># S \<longrightarrow> Copy n \<notin> K \<and> m_pFileComment o' \<noteq> Some (Copy n))
   \<and> distinct (map fst (m_strings o')) \<and> (\<forall>n \<in> fst ` set (m_strings o'). n < allocs o')"

text \<open>\<open>C\<close> has comments that are to be stored.\<close>

definition safe_with :: "text_ptr set \<Rightarrow> CSimpleIni \<Rightarrow> bool" where
  "safe_with C o' \<longleftrightarrow> mem_ok (stored (m_data o')) (comments (m_data o') \<union> C) o'"

abbreviation safe :: "CSimpleIni \<Rightarrow> bool" where
  "safe \<equiv> safe_with {}"

lemma kv_ptrs_simps [simp]:
  "kv_ptrs [] = {#}" "kv_ptrs (x # kv) = {#pItem (fst x), snd x#} + kv_ptrs kv" "kv_ptrs (kv @ kv') = kv_ptrs kv + kv_ptrs kv'"
  by (simp_all add: kv_ptrs_def)

lemma stored_simps [simp]:
  "stored [] = {#}" "stored (x # D) = add_mset (pItem (fst x)) (kv_ptrs (snd x) + stored D)" "stored (D @ D') = stored D + stored D'"
  by (simp_all add: stored_def)

lemma kv_comments_simps [simp]:
  "kv_comments [] = {}" "kv_comments (x # kv) = set_option (pComment (fst x)) \<union> kv_comments kv"
  "kv_comments (kv @ kv') = kv_comments kv \<union> kv_comments kv'"
  by (auto simp: kv_comments_def image_iff)

lemma comments_simps [simp]:
  "comments [] = {}" "comments (x # D) = set_option (pComment (fst x)) \<union> kv_comments (snd x) \<union> comments D"
  "comments (D @ D') = comments D \<union> comments D'"
  by (auto simp: comments_def)

lemma kv_ptrs_member: "x \<in> set kv \<Longrightarrow> pItem (fst x) \<in># kv_ptrs kv \<and> snd x \<in># kv_ptrs kv"
  by (auto simp: kv_ptrs_def)

lemma stored_member: "x \<in> set D \<Longrightarrow> pItem (fst x) \<in># stored D \<and> (p \<in># kv_ptrs (snd x) \<longrightarrow> p \<in># stored D)"
  by (induction D) auto

lemma kv_ptrs_split: "j \<le> length kv \<Longrightarrow> kv_ptrs kv = kv_ptrs (take j kv) + kv_ptrs (drop j kv)"
  by (metis append_take_drop_id kv_ptrs_simps(3))

lemma stored_update:
  "i < length D \<Longrightarrow> stored D = add_mset (pItem (fst (D ! i))) (kv_ptrs (snd (D ! i)) + (stored (take i D) + stored (drop (Suc i) D)))"
  "i < length D \<Longrightarrow> stored (D[i := (e, kv)]) = add_mset (pItem e) (kv_ptrs kv + (stored (take i D) + stored (drop (Suc i) D)))"
  "i < length D \<Longrightarrow> comments D = set_option (pComment (fst (D ! i))) \<union> kv_comments (snd (D ! i)) \<union> (comments (take i D) \<union> comments (drop (Suc i) D))"
  "i < length D \<Longrightarrow> comments (D[i := (e, kv)]) = set_option (pComment e) \<union> kv_comments kv \<union> (comments (take i D) \<union> comments (drop (Suc i) D))"
proof -
  assume i: "i < length D"
  note D = id_take_nth_drop [OF i]
  show "stored D = add_mset (pItem (fst (D ! i))) (kv_ptrs (snd (D ! i)) + (stored (take i D) + stored (drop (Suc i) D)))"
    by (subst D) simp
  show "comments D = set_option (pComment (fst (D ! i))) \<union> kv_comments (snd (D ! i)) \<union> (comments (take i D) \<union> comments (drop (Suc i) D))"
    by (subst D) auto
  show "stored (D[i := (e, kv)]) = add_mset (pItem e) (kv_ptrs kv + (stored (take i D) + stored (drop (Suc i) D)))"
    using i by (simp add: upd_conv_take_nth_drop)
  show "comments (D[i := (e, kv)]) = set_option (pComment e) \<union> kv_comments kv \<union> (comments (take i D) \<union> comments (drop (Suc i) D))"
    using i by (auto simp: upd_conv_take_nth_drop)
qed

section \<open>Memory\<close>

lemma mem_ok_mono: "mem_ok S K o' \<Longrightarrow> S' \<subseteq># S \<Longrightarrow> K' \<subseteq> K \<Longrightarrow> mem_ok S' K' o'"
  unfolding mem_ok_def by (meson in_mono mset_subset_eqD mset_subset_eq_count order_trans)

lemma ptr_text_cong: "m_pData o'' = m_pData o' \<Longrightarrow> m_strings o'' = m_strings o' \<Longrightarrow> ptr_text o'' p = ptr_text o' p"
  by (cases p) simp_all

lemma mem_ok_cong:
  assumes "m_pData o'' = m_pData o'" "m_strings o'' = m_strings o'" "allocs o'' = allocs o'" "m_pFileComment o'' = m_pFileComment o'"
  shows "mem_ok S K o'' = mem_ok S K o'"
  unfolding mem_ok_def using assms ptr_text_cong [OF assms(1,2)] by simp

lemma mem_ok_readable: "mem_ok S K o' \<Longrightarrow> p \<in># S \<or> p \<in> K \<Longrightarrow> \<exists>s. ptr_text o' p = Some s"
  by (auto simp: mem_ok_def)

text \<open>A pointer that is not to a copy can be stored.\<close>

lemma mem_ok_add:
  assumes "mem_ok S K o'" "lasting p" "\<not> is_copy p" "ptr_text o' p \<noteq> None"
  shows "mem_ok (add_mset p S) K o'" "mem_ok S (insert p K) o'"
  using assms unfolding mem_ok_def by auto

text \<open>Copying.\<close>

definition same_but_strings :: "CSimpleIni \<Rightarrow> CSimpleIni \<Rightarrow> bool" where
  "same_but_strings o' o'' \<longleftrightarrow> (\<exists>st n. o'' = o'\<lparr>m_strings := st, allocs := n\<rparr>)
     \<and> (\<forall>p s. ptr_text o' p = Some s \<longrightarrow> ptr_text o'' p = Some s)"

lemma same_but_strings_refl [simp]: "same_but_strings o' o'"
  unfolding same_but_strings_def by (rule conjI, rule exI [of _ "m_strings o'"], rule exI [of _ "allocs o'"]) simp_all

lemma same_but_strings_trans: "same_but_strings o1 o2 \<Longrightarrow> same_but_strings o2 o3 \<Longrightarrow> same_but_strings o1 o3"
proof -
  assume "same_but_strings o1 o2" "same_but_strings o2 o3"
  then obtain st n sta na where "o2 = o1\<lparr>m_strings := st, allocs := n\<rparr>" "o3 = o2\<lparr>m_strings := sta, allocs := na\<rparr>"
    and reads: "\<And>p s. ptr_text o1 p = Some s \<Longrightarrow> ptr_text o2 p = Some s" "\<And>p s. ptr_text o2 p = Some s \<Longrightarrow> ptr_text o3 p = Some s"
    unfolding same_but_strings_def by blast
  then have "o3 = o1\<lparr>m_strings := sta, allocs := na\<rparr>"
    by simp
  then show ?thesis
    unfolding same_but_strings_def using reads by blast
qed

lemma same_but_strings_fields:
  assumes "same_but_strings o' o''"
  shows "m_data o'' = m_data o'" "m_nOrder o'' = m_nOrder o'" "m_pData o'' = m_pData o'" "m_pFileComment o'' = m_pFileComment o'"
    "m_bAllowMultiKey o'' = m_bAllowMultiKey o'" "ptr_text o' p = Some s \<Longrightarrow> ptr_text o'' p = Some s"
  using assms by (auto simp: same_but_strings_def)

lemma CopyString_ok:
  assumes "mem_ok S K o'" "ptr_text o' p = Some s"
  shows "\<exists>rc q o''. CopyString new_ok p o' = Some (rc, q, o'') \<and> same_but_strings o' o'' \<and> mem_ok S K o''
    \<and> (if new_ok (allocs o') then rc = SI_OK \<and> is_copy q \<and> ptr_text o'' q = Some s \<and> q \<notin> K \<and> m_pFileComment o' \<noteq> Some q
         \<and> mem_ok (add_mset q S) K o'' \<and> mem_ok S (insert q K) o''
       else rc = SI_NOMEM \<and> q = p)"
proof -
  let ?n = "allocs o'"
  have fresh: "map_of (m_strings o') ?n = None"
    using assms(1) by (force simp: mem_ok_def map_of_eq_None_iff)
  show ?thesis
  proof (cases "new_ok ?n")
    case False
    have reads: "ptr_text (o'\<lparr>allocs := Suc ?n\<rparr>) q = ptr_text o' q" for q
      by (rule ptr_text_cong) simp_all
    have "same_but_strings o' (o'\<lparr>allocs := Suc ?n\<rparr>)"
      unfolding same_but_strings_def reads
      by (rule conjI, rule exI [of _ "m_strings o'"], rule exI [of _ "Suc ?n"]) simp_all
    moreover have "mem_ok S K (o'\<lparr>allocs := Suc ?n\<rparr>)"
      using assms(1) unfolding mem_ok_def reads by auto
    ultimately show ?thesis
      using False assms(2) by (simp add: CopyString_def)
  next
    case True
    let ?o = "o'\<lparr>allocs := Suc ?n, m_strings := m_strings o' @ [(?n, s)]\<rparr>"
    have reads: "ptr_text ?o q = (if q = Copy ?n then Some s else ptr_text o' q)" for q
      using fresh by (cases q) (auto simp: map_add_def split: option.splits)
    have keep: "same_but_strings o' ?o"
      unfolding same_but_strings_def using fresh
      by (intro conjI exI [of _ "m_strings o' @ [(?n, s)]"] exI [of _ "Suc ?n"] allI impI) (simp, auto simp only: reads ptr_text.simps split: if_splits)
    have new: "Copy ?n \<notin># S" "Copy ?n \<notin> K" "m_pFileComment o' \<noteq> Some (Copy ?n)"
      using assms(1) fresh by (auto simp: mem_ok_def)
    have strings: "distinct (map fst (m_strings ?o))" "\<forall>n \<in> fst ` set (m_strings ?o). n < allocs ?o"
      using assms(1) by (force simp: mem_ok_def)+
    have "mem_ok S K ?o" "mem_ok (add_mset (Copy ?n) S) K ?o" "mem_ok S (insert (Copy ?n) K) ?o"
      using assms(1) new strings unfolding mem_ok_def reads
      by (auto simp: count_eq_zero_iff)
    then show ?thesis
      using True assms(2) keep new reads [of "Copy ?n"]
      by (intro exI [of _ SI_OK] exI [of _ "Copy ?n"] exI [of _ ?o]) (simp add: CopyString_def Let_def del: ptr_text.simps)
  qed
qed

lemma copy_if_ok:
  assumes "mem_ok S K o'" "ptr_text o' p = Some s" "\<not> copy \<longrightarrow> lasting p \<and> \<not> is_copy p"
  shows "\<exists>rc q o''. copy_if new_ok copy p o' = Some (rc, q, o'') \<and> same_but_strings o' o'' \<and> mem_ok S K o''
    \<and> (if copy \<longrightarrow> new_ok (allocs o') then rc = SI_OK \<and> ptr_text o'' q = Some s \<and> mem_ok (add_mset q S) K o'' \<and> mem_ok S (insert q K) o''
       else rc = SI_NOMEM)
    \<and> (copy \<and> rc = SI_OK \<longrightarrow> is_copy q \<and> q \<notin> K \<and> m_pFileComment o' \<noteq> Some q)"
proof (cases copy)
  case True
  obtain rc q o'' where "CopyString new_ok p o' = Some (rc, q, o'')" "same_but_strings o' o''" "mem_ok S K o''"
    "if new_ok (allocs o') then rc = SI_OK \<and> is_copy q \<and> ptr_text o'' q = Some s \<and> q \<notin> K \<and> m_pFileComment o' \<noteq> Some q
       \<and> mem_ok (add_mset q S) K o'' \<and> mem_ok S (insert q K) o'' else rc = SI_NOMEM \<and> q = p"
    using CopyString_ok [OF assms(1,2), of new_ok] by blast
  then show ?thesis
    using True by (intro exI [of _ rc] exI [of _ q] exI [of _ o'']) (simp add: copy_if_def split: if_splits)
next
  case False
  then show ?thesis
    using assms mem_ok_add [OF assms(1), of p] by (simp add: copy_if_def)
qed

text \<open>Giving back.\<close>

lemma map_of_without: "map_of (filter (\<lambda>(i, s). i \<noteq> n) xs) m = (if m = n then None else map_of xs m)"
  by (induction xs) auto

lemma ptr_text_DeleteString: "ptr_text (DeleteString p o') q = (if p = q \<and> is_copy p then None else ptr_text o' q)"
  by (cases p; cases q) (auto simp: map_of_without)

lemma DeleteString_fields [simp]:
  "m_data (DeleteString p o') = m_data o'" "m_nOrder (DeleteString p o') = m_nOrder o'" "m_pData (DeleteString p o') = m_pData o'"
  "m_pFileComment (DeleteString p o') = m_pFileComment o'" "m_bAllowMultiKey (DeleteString p o') = m_bAllowMultiKey o'"
  "allocs (DeleteString p o') = allocs o'"
  by (cases p; simp)+

lemma DeleteString_strings:
  "distinct (map fst (m_strings o')) \<Longrightarrow> distinct (map fst (m_strings (DeleteString p o')))"
  "set (m_strings (DeleteString p o')) \<subseteq> set (m_strings o')"
  by (cases p; auto simp: distinct_map_filter)+

lemma mem_ok_DeleteString:
  assumes "mem_ok S K o'" "\<And>q. q \<in># S \<or> q \<in> K \<or> m_pFileComment o' = Some q \<Longrightarrow> q \<noteq> p \<or> \<not> is_copy p"
  shows "mem_ok S K (DeleteString p o')"
proof -
  have "ptr_text (DeleteString p o') q = ptr_text o' q" if "q \<in># S \<or> q \<in> K \<or> m_pFileComment o' = Some q" for q
    using assms(2) [OF that] by (auto simp: ptr_text_DeleteString)
  moreover have "distinct (map fst (m_strings (DeleteString p o')))" "\<forall>n \<in> fst ` set (m_strings (DeleteString p o')). n < allocs o'"
    using assms(1) DeleteString_strings(1) subsetD [OF DeleteString_strings(2)] unfolding mem_ok_def by (blast, auto)
  ultimately show ?thesis
    using assms(1) by (simp add: mem_ok_def)
qed

text \<open>The text of an entry that leaves the tables.\<close>

lemma DeleteString_ok:
  assumes "mem_ok (add_mset p S) K o'"
  shows "mem_ok S K (DeleteString p o')"
proof (rule mem_ok_DeleteString)
  show "mem_ok S K o'"
    using assms by (rule mem_ok_mono) auto
  show "q \<noteq> p \<or> \<not> is_copy p" if "q \<in># S \<or> q \<in> K \<or> m_pFileComment o' = Some q" for q
  proof (cases p)
    case (Copy n)
    have "count (add_mset p S) (Copy n) \<le> 1"
      using assms by (simp only: mem_ok_def)
    moreover have "Copy n \<notin> K" "m_pFileComment o' \<noteq> Some (Copy n)"
      using assms Copy by (auto simp: mem_ok_def)
    ultimately show ?thesis
      using that Copy by (auto simp flip: count_greater_zero_iff)
  qed auto
qed

text \<open>A comment that was copied and is not kept.\<close>

lemma DeleteString_comment_ok:
  assumes "mem_ok S (insert p K) o'" "p \<notin> K" "m_pFileComment o' \<noteq> Some p"
  shows "mem_ok S K (DeleteString p o')"
proof (rule mem_ok_DeleteString)
  show "mem_ok S K o'"
    using assms(1) by (rule mem_ok_mono) auto
  show "q \<noteq> p \<or> \<not> is_copy p" if "q \<in># S \<or> q \<in> K \<or> m_pFileComment o' = Some q" for q
    using assms that by (cases p) (auto simp: mem_ok_def)
qed

section \<open>Searching\<close>

definition text_of :: "CSimpleIni \<Rightarrow> text_ptr \<Rightarrow> string" where
  "text_of o' p = (case ptr_text o' p of None \<Rightarrow> [] | Some s \<Rightarrow> s)"

definition names_of :: "CSimpleIni \<Rightarrow> (Entry \<times> 'a) list \<Rightarrow> string list" where
  "names_of o' xs = map (\<lambda>x. text_of o' (pItem (fst x))) xs"

definition readable :: "CSimpleIni \<Rightarrow> (Entry \<times> 'a) list \<Rightarrow> bool" where
  "readable o' xs \<longleftrightarrow> (\<forall>x \<in> set xs. ptr_text o' (pItem (fst x)) \<noteq> None)"

lemma text_of_Some [simp]: "ptr_text o' p = Some s \<Longrightarrow> text_of o' p = s"
  by (simp add: text_of_def)

lemma ptr_text_fields [simp]:
  "ptr_text (o'\<lparr>m_data := D\<rparr>) p = ptr_text o' p" "ptr_text (o'\<lparr>m_nOrder := n\<rparr>) p = ptr_text o' p"
  "text_of (o'\<lparr>m_data := D\<rparr>) p = text_of o' p" "text_of (o'\<lparr>m_nOrder := n\<rparr>) p = text_of o' p"
  by (simp_all add: text_of_def ptr_text_cong [of "o'\<lparr>m_data := D\<rparr>" o'] ptr_text_cong [of "o'\<lparr>m_nOrder := n\<rparr>" o'])

lemma mem_ok_fields [simp]:
  "mem_ok S K (o'\<lparr>m_data := D\<rparr>) = mem_ok S K o'" "mem_ok S K (o'\<lparr>m_nOrder := n\<rparr>) = mem_ok S K o'"
  by (rule mem_ok_cong; simp)+

lemma names_of_simps [simp]:
  "names_of o' [] = []" "names_of o' (x # xs) = text_of o' (pItem (fst x)) # names_of o' xs" "length (names_of o' xs) = length xs"
  "names_of o' (xs @ ys) = names_of o' xs @ names_of o' ys"
  by (simp_all add: names_of_def)

lemma readable_simps [simp]:
  "readable o' []" "readable o' (x # xs) \<longleftrightarrow> ptr_text o' (pItem (fst x)) \<noteq> None \<and> readable o' xs"
  by (simp_all add: readable_def)

lemma lower_bound_eq: "readable o' xs \<Longrightarrow> lower_bound o' k xs = Some (lower IsLess k (names_of o' xs))"
  by (induction xs) (auto simp: lower_def)

lemma upper_bound_eq: "readable o' xs \<Longrightarrow> upper_bound o' k xs = Some (upper IsLess k (names_of o' xs))"
  by (induction xs) (auto simp: upper_def)

lemma find_entry_eq:
  assumes "readable o' xs"
  shows "find_entry o' k xs = Some (search IsLess k (names_of o' xs))"
proof -
  have "ptr_text o' (pItem (fst (xs ! i))) = Some (names_of o' xs ! i)" if "i < length xs" for i
    using assms that by (fastforce simp: readable_def names_of_def text_of_def split: option.splits)
  then show ?thesis
    by (auto simp: find_entry_def lower_bound_eq [OF assms] search_def Let_def)
qed

lemma insert_entry_eq:
  "readable o' xs \<Longrightarrow> ptr_text o' (pItem (fst x)) = Some k \<Longrightarrow>
   insert_entry o' x xs = (let i = upper IsLess k (names_of o' xs) in Some (i, take i xs @ x # drop i xs))"
  by (simp add: insert_entry_def upper_bound_eq Let_def)

lemma search_valid: "search lt k ns = Some i \<Longrightarrow> i < length ns"
  by (auto simp: search_def Let_def split: if_splits)

lemma mem_ok_tables:
  assumes "mem_ok S K o'"
  shows "stored D \<subseteq># S \<Longrightarrow> readable o' D" "kv_ptrs kv \<subseteq># S \<Longrightarrow> readable o' kv"
    "stored D \<subseteq># S \<Longrightarrow> x \<in> set D \<Longrightarrow> readable o' (snd x)"
proof -
  have live: "ptr_text o' p \<noteq> None" if "T \<subseteq># S" "p \<in># T" for p T
    using assms mset_subset_eqD [OF that] by (auto simp: mem_ok_def)
  show "stored D \<subseteq># S \<Longrightarrow> readable o' D" "kv_ptrs kv \<subseteq># S \<Longrightarrow> readable o' kv"
    unfolding readable_def using live stored_member kv_ptrs_member by blast+
  show "stored D \<subseteq># S \<Longrightarrow> x \<in> set D \<Longrightarrow> readable o' (snd x)"
    unfolding readable_def using live [of "stored D"] stored_member [of x D] kv_ptrs_member [of _ "snd x"] by blast
qed

end
