(* ===== verification/Ini_Delete.thy ===== *)
theory Ini_Delete
  imports Ini_Memory
begin

text \<open>
  \<open>DeleteValue\<close> keeps the tables readable (\<open>safe\<close>) when the names it is given are not read from the
  tables themselves, and removes the entries with the key and the value.
\<close>

section \<open>Losing copies\<close>

definition shrinks :: "CSimpleIni \<Rightarrow> CSimpleIni \<Rightarrow> bool" where
  "shrinks o' o'' \<longleftrightarrow> (\<exists>st. o'' = o'\<lparr>m_strings := st\<rparr>) \<and> (\<forall>p s. ptr_text o'' p = Some s \<longrightarrow> ptr_text o' p = Some s)"

lemma shrinks_refl [simp]: "shrinks o' o'"
  unfolding shrinks_def by (rule conjI, rule exI [of _ "m_strings o'"]) simp_all

lemma shrinks_trans: "shrinks o1 o2 \<Longrightarrow> shrinks o2 o3 \<Longrightarrow> shrinks o1 o3"
proof -
  assume "shrinks o1 o2" "shrinks o2 o3"
  then obtain st st' where "o2 = o1\<lparr>m_strings := st\<rparr>" "o3 = o2\<lparr>m_strings := st'\<rparr>"
    and "\<forall>p s. ptr_text o3 p = Some s \<longrightarrow> ptr_text o1 p = Some s"
    unfolding shrinks_def by blast
  then show ?thesis
    unfolding shrinks_def by (intro conjI exI [of _ st']) simp_all
qed

lemma shrinks_DeleteString: "shrinks o' (DeleteString p o')"
proof -
  have "DeleteString p o' = o'\<lparr>m_strings := m_strings (DeleteString p o')\<rparr>"
    by (cases p) simp_all
  then show ?thesis
    unfolding shrinks_def ptr_text_DeleteString by (intro conjI exI) (assumption, simp split: if_splits)
qed

lemma shrinks_fields:
  assumes "shrinks o' o''"
  shows "m_data o'' = m_data o'" "m_nOrder o'' = m_nOrder o'" "m_pData o'' = m_pData o'" "m_pFileComment o'' = m_pFileComment o'"
    "m_bAllowMultiKey o'' = m_bAllowMultiKey o'" "allocs o'' = allocs o'"
  using assms by (auto simp: shrinks_def)

lemma shrinks_text: "shrinks o' o'' \<Longrightarrow> ptr_text o'' p \<noteq> None \<Longrightarrow> ptr_text o'' p = ptr_text o' p \<and> text_of o'' p = text_of o' p"
  by (auto simp: shrinks_def text_of_def)

lemma ptr_text_not_copy: "\<not> is_copy p \<Longrightarrow> m_pData o'' = m_pData o' \<Longrightarrow> ptr_text o'' p = ptr_text o' p"
  by (cases p) simp_all

lemma shrinks_not_copy: "shrinks o' o'' \<Longrightarrow> \<not> is_copy p \<Longrightarrow> ptr_text o'' p = ptr_text o' p"
  by (rule ptr_text_not_copy) (simp_all add: shrinks_fields)

section \<open>The loop\<close>

definition hits :: "string option \<Rightarrow> string \<Rightarrow> bool" where
  "hits t x = (case t of None \<Rightarrow> True | Some s \<Rightarrow> name_key s = name_key x)"

lemma not_less_eq:
  "ptr_text o' p = Some s \<Longrightarrow> ptr_text o' q \<noteq> None \<Longrightarrow> not_less o' p q = Some (\<not> IsLess s (text_of o' q))"
  "ptr_text o' p \<noteq> None \<Longrightarrow> ptr_text o' q = Some t \<Longrightarrow> not_less o' p q = Some (\<not> IsLess (text_of o' p) t)"
  by (auto simp: not_less_def)

definition reads_opt :: "CSimpleIni \<Rightarrow> text_ptr option \<Rightarrow> string option \<Rightarrow> bool" where
  "reads_opt o' p t \<longleftrightarrow> (case p of None \<Rightarrow> t = None | Some p \<Rightarrow> \<not> is_copy p \<and> ptr_text o' p \<noteq> None \<and> t = ptr_text o' p)"

lemma hit_test:
  assumes "reads_opt o' val t" "ptr_text o' v \<noteq> None"
  shows "(case val of None \<Rightarrow> Some True
      | Some u \<Rightarrow> do { a \<leftarrow> not_less o' u v; if a then not_less o' v u else Some False }) = Some (hits t (text_of o' v))"
  using assms same_name [of "the t" "text_of o' v"]
  by (auto simp: reads_opt_def hits_def not_less_eq split: option.splits)

lemma delete_loop_ok:
  assumes "mem_ok (S + kv_ptrs (x # xs)) K o'" "ptr_text o' key = Some k" "\<not> is_copy key" "reads_opt o' val t"
  defines "A \<equiv> x # takeWhile (\<lambda>y. \<not> IsLess k (text_of o' (pItem (fst y)))) xs"
    and "B \<equiv> dropWhile (\<lambda>y. \<not> IsLess k (text_of o' (pItem (fst y)))) xs"
  defines "ys \<equiv> filter (\<lambda>y. \<not> hits t (text_of o' (snd y))) A @ B"
  shows "\<exists>o''. delete_loop key val (x # xs) o' = Some (\<exists>y \<in> set A. hits t (text_of o' (snd y)), ys, o'')
    \<and> mem_ok (S + kv_ptrs ys) K o'' \<and> shrinks o' o''"
  using assms(1-4) unfolding ys_def A_def B_def
proof (induction xs arbitrary: x S o')
  case Nil
  obtain e v where x: "x = (e, v)"
    by (cases x)
  have v: "ptr_text o' v \<noteq> None"
    using Nil(1) x by (auto simp: mem_ok_def)
  note hit = hit_test [OF Nil(4) v]
  show ?case
  proof (cases "hits t (text_of o' v)")
    case True
    have "mem_ok (add_mset (pItem e) (add_mset v S)) K o'"
      using Nil(1) x by (simp add: add.commute)
    then have "mem_ok S K (DeleteString v (DeleteString (pItem e) o'))"
      by (intro DeleteString_ok)
    moreover have "shrinks o' (DeleteString v (DeleteString (pItem e) o'))"
      by (rule shrinks_trans [OF shrinks_DeleteString shrinks_DeleteString])
    ultimately show ?thesis
      using True x hit by simp
  next
    case False
    then show ?thesis
      using Nil(1) x hit by simp
  qed
next
  case (Cons y xs)
  obtain e v where x: "x = (e, v)"
    by (cases x)
  obtain e' v' where y: "y = (e', v')"
    by (cases y)
  have v: "ptr_text o' v \<noteq> None"
    using Cons.prems(1) x by (auto simp: mem_ok_def)
  note hit = hit_test [OF Cons.prems(4) v]
  let ?h = "hits t (text_of o' v)"
  define o1 where "o1 = (if ?h then DeleteString v (DeleteString (pItem e) o') else o')"
  define S1 where "S1 = (if ?h then S else S + {#pItem e, v#})"
  have "mem_ok (add_mset (pItem e) (add_mset v (S + kv_ptrs (y # xs)))) K o'"
    using Cons.prems(1) x by (simp add: ac_simps add_mset_commute)
  then have ok: "mem_ok (S1 + kv_ptrs (y # xs)) K o1"
    unfolding o1_def S1_def by (cases ?h) (simp_all add: ac_simps add_mset_commute DeleteString_ok)
  have shr: "shrinks o' o1"
    unfolding o1_def using shrinks_trans [OF shrinks_DeleteString shrinks_DeleteString] by simp
  have "ptr_text o1 p \<noteq> None" if "p \<in># kv_ptrs (y # xs)" for p
    using ok that by (auto simp: mem_ok_def)
  then have same: "text_of o1 p = text_of o' p" if "p \<in># kv_ptrs (y # xs)" for p
    using shrinks_text [OF shr] that by blast
  have y1: "ptr_text o1 (pItem e') \<noteq> None" "text_of o1 (pItem e') = text_of o' (pItem e')"
    using ok same [of "pItem e'"] y by (auto simp: mem_ok_def)
  have key: "ptr_text o1 key = Some k"
    using Cons.prems(2,3) shrinks_not_copy [OF shr] by simp
  have val: "reads_opt o1 val t"
    using Cons.prems(4) shrinks_not_copy [OF shr] by (auto simp: reads_opt_def split: option.splits)
  have again: "not_less o1 key (pItem e') = Some (\<not> IsLess k (text_of o' (pItem e')))"
    using not_less_eq(1) [OF key y1(1)] y1(2) by simp
  have run: "delete_loop key val (x # y # xs) o' =
    (if \<not> IsLess k (text_of o' (pItem e')) then do {
       (deleted, ys, o'') \<leftarrow> delete_loop key val (y # xs) o1;
       Some (?h \<or> deleted, if ?h then ys else x # ys, o'')
     } else Some (?h, if ?h then y # xs else x # y # xs, o1))"
    using again unfolding x y o1_def by (subst delete_loop.simps(2)) (simp add: hit del: delete_loop.simps)
  show ?case
  proof (cases "IsLess k (text_of o' (pItem e'))")
    case True
    then show ?thesis
      using run ok shr x y by (auto simp: S1_def ac_simps)
  next
    case False
    have tw: "takeWhile (\<lambda>y. \<not> IsLess k (text_of o1 (pItem (fst y)))) xs = takeWhile (\<lambda>y. \<not> IsLess k (text_of o' (pItem (fst y)))) xs"
      "dropWhile (\<lambda>y. \<not> IsLess k (text_of o1 (pItem (fst y)))) xs = dropWhile (\<lambda>y. \<not> IsLess k (text_of o' (pItem (fst y)))) xs"
      using same kv_ptrs_member by (auto intro!: takeWhile_cong dropWhile_cong)
    let ?A = "y # takeWhile (\<lambda>y. \<not> IsLess k (text_of o' (pItem (fst y)))) xs"
    let ?B = "dropWhile (\<lambda>y. \<not> IsLess k (text_of o' (pItem (fst y)))) xs"
    have A: "set ?A \<subseteq> set (y # xs)"
      by (auto dest: set_takeWhileD)
    have vs: "text_of o1 (snd z) = text_of o' (snd z)" if "z \<in> set ?A" for z
      using same kv_ptrs_member A that by blast
    have filt: "filter (\<lambda>y. \<not> hits t (text_of o1 (snd y))) ?A = filter (\<lambda>y. \<not> hits t (text_of o' (snd y))) ?A"
      by (rule filter_cong [OF refl]) (simp only: vs)
    have ex: "(\<exists>z \<in> set ?A. hits t (text_of o1 (snd z))) = (\<exists>z \<in> set ?A. hits t (text_of o' (snd z)))"
      using vs by metis
    let ?ys = "filter (\<lambda>y. \<not> hits t (text_of o' (snd y))) ?A @ ?B"
    obtain o'' where o'': "delete_loop key val (y # xs) o1 = Some (\<exists>z \<in> set ?A. hits t (text_of o' (snd z)), ?ys, o'')"
      "mem_ok (S1 + kv_ptrs ?ys) K o''" "shrinks o1 o''"
      using Cons.IH [OF ok key Cons.prems(3) val] unfolding tw filt ex by blast
    have tw': "takeWhile (\<lambda>y. \<not> IsLess k (text_of o' (pItem (fst y)))) (y # xs) = ?A"
      "dropWhile (\<lambda>y. \<not> IsLess k (text_of o' (pItem (fst y)))) (y # xs) = ?B"
      using False y by simp_all
    have ok'': "mem_ok (S + kv_ptrs (if ?h then ?ys else x # ?ys)) K o''"
      using o''(2) x by (cases ?h) (simp_all only: S1_def if_True if_False kv_ptrs_simps fst_conv snd_conv add.assoc)
    have zs: "filter (\<lambda>y. \<not> hits t (text_of o' (snd y))) (x # ?A) @ ?B = (if ?h then ?ys else x # ?ys)"
      "(\<exists>z \<in> set (x # ?A). hits t (text_of o' (snd z))) = (?h \<or> (\<exists>z \<in> set ?A. hits t (text_of o' (snd z))))"
      using x by simp_all
    have "delete_loop key val (x # y # xs) o' = Some (?h \<or> (\<exists>z \<in> set ?A. hits t (text_of o' (snd z))), if ?h then ?ys else x # ?ys, o'')"
      unfolding run o''(1) using False by (simp del: filter.simps)
    then show ?thesis
      unfolding tw' zs using shrinks_trans [OF shr o''(3)] ok'' by blast
  qed
qed

section \<open>The tables as lists of texts\<close>

type_synonym tab = "(string \<times> (string \<times> string) list) list"

definition abs_kv :: "CSimpleIni \<Rightarrow> TKeyVal \<Rightarrow> (string \<times> string) list" where
  "abs_kv o' kv = map (\<lambda>x. (text_of o' (pItem (fst x)), text_of o' (snd x))) kv"

definition abs_data :: "CSimpleIni \<Rightarrow> (Entry \<times> TKeyVal) list \<Rightarrow> tab" where
  "abs_data o' D = map (\<lambda>x. (text_of o' (pItem (fst x)), abs_kv o' (snd x))) D"

abbreviation tab_of :: "CSimpleIni \<Rightarrow> tab" where
  "tab_of o' \<equiv> abs_data o' (m_data o')"

lemma abs_kv_simps [simp]:
  "abs_kv o' [] = []" "abs_kv o' (x # kv) = (text_of o' (pItem (fst x)), text_of o' (snd x)) # abs_kv o' kv"
  "abs_kv o' (kv @ kv') = abs_kv o' kv @ abs_kv o' kv'" "length (abs_kv o' kv) = length kv"
  "abs_kv o' (take j kv) = take j (abs_kv o' kv)" "abs_kv o' (drop j kv) = drop j (abs_kv o' kv)"
  by (simp_all add: abs_kv_def take_map drop_map)

lemma abs_kv_Nil_iff [simp]: "abs_kv o' kv = [] \<longleftrightarrow> kv = []"
  by (simp add: abs_kv_def)

lemma abs_data_simps [simp]:
  "abs_data o' [] = []" "abs_data o' (x # D) = (text_of o' (pItem (fst x)), abs_kv o' (snd x)) # abs_data o' D"
  "abs_data o' (D @ D') = abs_data o' D @ abs_data o' D'" "length (abs_data o' D) = length D"
  "abs_data o' (take j D) = take j (abs_data o' D)" "abs_data o' (drop j D) = drop j (abs_data o' D)"
  "i < length D \<Longrightarrow> abs_data o' D ! i = (text_of o' (pItem (fst (D ! i))), abs_kv o' (snd (D ! i)))"
  "abs_data o' (D[i := (e, kv)]) = (abs_data o' D)[i := (text_of o' (pItem e), abs_kv o' kv)]"
  by (simp_all add: abs_data_def take_map drop_map map_update)

lemma names_of_abs: "names_of o' kv = map fst (abs_kv o' kv)" "names_of o' D = map fst (abs_data o' D)"
  by (simp_all add: names_of_def abs_kv_def abs_data_def)

lemma abs_kv_cong: "(\<And>p. p \<in># kv_ptrs kv \<Longrightarrow> text_of o'' p = text_of o' p) \<Longrightarrow> abs_kv o'' kv = abs_kv o' kv"
  by (induction kv) auto

lemma abs_data_cong: "(\<And>p. p \<in># stored D \<Longrightarrow> text_of o'' p = text_of o' p) \<Longrightarrow> abs_data o'' D = abs_data o' D"
  by (induction D) (auto intro: abs_kv_cong)

lemma abs_fields [simp]:
  "abs_data (o'\<lparr>m_data := D\<rparr>) X = abs_data o' X" "abs_data (o'\<lparr>m_nOrder := n\<rparr>) X = abs_data o' X"
  "abs_kv (o'\<lparr>m_data := D\<rparr>) kv = abs_kv o' kv" "abs_kv (o'\<lparr>m_nOrder := n\<rparr>) kv = abs_kv o' kv"
  by (simp_all add: abs_data_def abs_kv_def)

lemma abs_shrinks:
  assumes "shrinks o' o''" "mem_ok S K o''"
  shows "stored D \<subseteq># S \<Longrightarrow> abs_data o'' D = abs_data o' D" "kv_ptrs kv \<subseteq># S \<Longrightarrow> abs_kv o'' kv = abs_kv o' kv"
    "p \<in># S \<Longrightarrow> text_of o'' p = text_of o' p"
proof -
  show same: "text_of o'' p = text_of o' p" if "p \<in># S" for p
    using shrinks_text [OF assms(1)] mem_ok_readable [OF assms(2)] that by fastforce
  show "stored D \<subseteq># S \<Longrightarrow> abs_data o'' D = abs_data o' D" "kv_ptrs kv \<subseteq># S \<Longrightarrow> abs_kv o'' kv = abs_kv o' kv"
    using same by (auto intro!: abs_data_cong abs_kv_cong dest: mset_subset_eqD)
qed

lemma takeWhile_abs:
  "abs_kv o' (takeWhile (\<lambda>y. \<not> IsLess k (text_of o' (pItem (fst y)))) kv) = takeWhile (\<lambda>y. \<not> IsLess k (fst y)) (abs_kv o' kv)"
  "abs_kv o' (dropWhile (\<lambda>y. \<not> IsLess k (text_of o' (pItem (fst y)))) kv) = dropWhile (\<lambda>y. \<not> IsLess k (fst y)) (abs_kv o' kv)"
  "abs_kv o' (filter (\<lambda>y. P (text_of o' (snd y))) kv) = filter (\<lambda>y. P (snd y)) (abs_kv o' kv)"
  by (induction kv) auto

section \<open>DeleteValue\<close>

text \<open>What it does to the texts: the result and the tables.\<close>

definition del_keys :: "string \<Rightarrow> string option \<Rightarrow> (string \<times> string) list \<Rightarrow> bool \<times> (string \<times> string) list" where
  "del_keys k t kv = (case search IsLess k (map fst kv) of
     None \<Rightarrow> (False, kv)
   | Some j \<Rightarrow>
       let A = takeWhile (\<lambda>y. \<not> IsLess k (fst y)) (drop j kv); B = dropWhile (\<lambda>y. \<not> IsLess k (fst y)) (drop j kv)
       in (\<exists>y \<in> set A. hits t (snd y), take j kv @ filter (\<lambda>y. \<not> hits t (snd y)) A @ B))"

definition del_tab :: "string \<Rightarrow> string option \<Rightarrow> string option \<Rightarrow> bool \<Rightarrow> tab \<Rightarrow> bool \<times> tab" where
  "del_tab s k t rm X = (case search IsLess s (map fst X) of
     None \<Rightarrow> (False, X)
   | Some i \<Rightarrow> (case k of
       None \<Rightarrow> (True, take i X @ drop (i + 1) X)
     | Some k \<Rightarrow>
         let (b, kv) = del_keys k t (snd (X ! i))
         in if b \<and> rm \<and> kv = [] then (True, take i X @ drop (i + 1) X) else (b, X[i := (fst (X ! i), kv)])))"

lemma delete_strings_ok:
  "mem_ok (S + kv_ptrs kv) K o' \<Longrightarrow> mem_ok S K (delete_strings kv o') \<and> shrinks o' (delete_strings kv o')"
proof (induction kv arbitrary: o')
  case Nil
  then show ?case
    by (simp add: delete_strings_def)
next
  case (Cons x kv)
  obtain e v where x: "x = (e, v)"
    by (cases x)
  let ?o = "DeleteString v (DeleteString (pItem e) o')"
  have "mem_ok (add_mset (pItem e) (add_mset v (S + kv_ptrs kv))) K o'"
    using Cons.prems x by (simp add: ac_simps)
  then have "mem_ok (S + kv_ptrs kv) K ?o"
    by (intro DeleteString_ok)
  moreover have "shrinks o' ?o"
    by (rule shrinks_trans [OF shrinks_DeleteString shrinks_DeleteString])
  moreover have "delete_strings (x # kv) o' = delete_strings kv ?o"
    by (simp add: delete_strings_def x)
  ultimately show ?case
    using Cons.IH shrinks_trans by metis
qed

lemma stored_split: "i < length D \<Longrightarrow> stored D = add_mset (pItem (fst (D ! i))) (kv_ptrs (snd (D ! i)) + stored (take i D @ drop (i + 1) D))"
  using stored_update(1) [of i D] by simp

lemma comments_split: "i < length D \<Longrightarrow> comments (take i D @ drop (i + 1) D) \<subseteq> comments D"
  using stored_update(3) [of i D] by auto

lemma delete_section_ok:
  assumes "mem_ok (add_mset (pItem (fst (m_data o' ! i))) (stored (take i (m_data o') @ drop (i + 1) (m_data o')))) (comments (m_data o') \<union> C) o'"
    "i < length (m_data o')"
  shows "safe_with C (delete_section i o')" "tab_of (delete_section i o') = take i (tab_of o') @ drop (i + 1) (tab_of o')"
proof -
  let ?D = "take i (m_data o') @ drop (i + 1) (m_data o')"
  let ?o = "DeleteString (pItem (fst (m_data o' ! i))) o'"
  have ok: "mem_ok (stored ?D) (comments (m_data o') \<union> C) ?o"
    by (rule DeleteString_ok [OF assms(1)])
  have run: "delete_section i o' = ?o\<lparr>m_data := ?D\<rparr>"
    by (simp add: delete_section_def Let_def)
  have "mem_ok (stored ?D) (comments ?D \<union> C) ?o"
    by (rule mem_ok_mono [OF ok subset_mset.order_refl Un_mono [OF comments_split [OF assms(2)] order_refl]])
  then show "safe_with C (delete_section i o')"
    by (simp add: safe_with_def run)
  have "abs_data (?o\<lparr>m_data := ?D\<rparr>) ?D = abs_data ?o ?D"
    by (rule abs_data_cong) simp
  also have "\<dots> = abs_data o' ?D"
    by (rule abs_shrinks(1) [OF shrinks_DeleteString ok]) simp
  finally show "tab_of (delete_section i o') = take i (tab_of o') @ drop (i + 1) (tab_of o')"
    by (simp add: run)
qed

lemma find_keys_text:
  assumes "mem_ok S K o'" "stored (m_data o') \<subseteq># S" "search IsLess s (map fst (tab_of o')) = Some i"
  shows "i < length (m_data o')" "readable o' (snd (m_data o' ! i))" "fst (tab_of o' ! i) = text_of o' (pItem (fst (m_data o' ! i)))"
    "snd (tab_of o' ! i) = abs_kv o' (snd (m_data o' ! i))"
  using assms(3) search_valid [OF assms(3)] mem_ok_tables(3) [OF assms(1,2) nth_mem] by simp_all

lemma delete_keys_ok:
  assumes "mem_ok (S + kv_ptrs kv) K o'" "ptr_text o' key = Some k" "\<not> is_copy key" "reads_opt o' val t"
    "search IsLess k (map fst (abs_kv o' kv)) = Some j"
  shows "\<exists>b rest o''. delete_loop key val (drop j kv) o' = Some (b, rest, o'') \<and> mem_ok (S + kv_ptrs (take j kv @ rest)) K o''
    \<and> shrinks o' o'' \<and> del_keys k t (abs_kv o' kv) = (b, abs_kv o' (take j kv @ rest)) \<and> set rest \<subseteq> set kv"
proof -
  have j: "j < length kv"
    using search_valid [OF assms(5)] by simp
  obtain x xs where x: "drop j kv = x # xs"
    using j by (cases "drop j kv") auto
  let ?Q = "\<lambda>y. \<not> IsLess k (text_of o' (pItem (fst y)))"
  have "\<not> IsLess k (map fst (abs_kv o' kv) ! j)"
    using assms(5) by (auto simp: search_def Let_def split: if_splits)
  moreover have "map fst (abs_kv o' kv) ! j = text_of o' (pItem (fst x))"
    using x j by (simp add: Cons_nth_drop_Suc [symmetric] abs_kv_def)
  ultimately have Q: "?Q x"
    by simp
  have A: "takeWhile ?Q (x # xs) = x # takeWhile ?Q xs" "dropWhile ?Q (x # xs) = dropWhile ?Q xs"
    using Q by simp_all
  define rest where "rest = filter (\<lambda>y. \<not> hits t (text_of o' (snd y))) (takeWhile ?Q (drop j kv)) @ dropWhile ?Q (drop j kv)"
  have "kv_ptrs kv = kv_ptrs (take j kv) + kv_ptrs (x # xs)"
    using kv_ptrs_split [of j kv] j by (simp add: x)
  then have "mem_ok ((S + kv_ptrs (take j kv)) + kv_ptrs (x # xs)) K o'"
    using assms(1) by (simp only: add.assoc)
  from delete_loop_ok [OF this assms(2-4)] obtain o'' where o'':
    "delete_loop key val (drop j kv) o' = Some (\<exists>y \<in> set (takeWhile ?Q (drop j kv)). hits t (text_of o' (snd y)), rest, o'')"
    "mem_ok ((S + kv_ptrs (take j kv)) + kv_ptrs rest) K o''" "shrinks o' o''"
    unfolding rest_def A x by blast
  have "(\<exists>y \<in> set (takeWhile (\<lambda>y. \<not> IsLess k (fst y)) (drop j (abs_kv o' kv))). hits t (snd y))
    = (\<exists>y \<in> set (takeWhile ?Q (drop j kv)). hits t (text_of o' (snd y)))"
    unfolding abs_kv_simps(6) [symmetric] takeWhile_abs(1) [symmetric] by (auto simp: abs_kv_def)
  moreover have "abs_kv o' (take j kv @ rest) = take j (abs_kv o' kv) @ filter (\<lambda>y. \<not> hits t (snd y))
    (takeWhile (\<lambda>y. \<not> IsLess k (fst y)) (drop j (abs_kv o' kv))) @ dropWhile (\<lambda>y. \<not> IsLess k (fst y)) (drop j (abs_kv o' kv))"
    unfolding rest_def by (simp add: takeWhile_abs(1,2) takeWhile_abs(3) [where P = "\<lambda>x. \<not> hits t x"])
  ultimately have "del_keys k t (abs_kv o' kv)
      = (\<exists>y \<in> set (takeWhile ?Q (drop j kv)). hits t (text_of o' (snd y)), abs_kv o' (take j kv @ rest))"
    unfolding del_keys_def assms(5) by (simp add: Let_def)
  moreover have "set rest \<subseteq> set kv"
    unfolding rest_def by (auto dest!: set_takeWhileD set_dropWhileD in_set_dropD)
  ultimately show ?thesis
    using o'' by (simp add: add.assoc)
qed

lemma kv_comments_mono: "set kv \<subseteq> set kv' \<Longrightarrow> kv_comments kv \<subseteq> kv_comments kv'"
  by (auto simp: kv_comments_def)

definition settings :: "CSimpleIni \<Rightarrow> bool list" where
  "settings o' = [m_bStoreIsUtf8 o', m_bAllowMultiKey o', m_bAllowMultiLine o', m_bSpaces o', m_bParseQuotes o', m_bAllowKeyOnly o']"

lemma settings_DeleteString [simp]: "settings (DeleteString p o') = settings o'"
  by (cases p) (simp_all add: settings_def)

lemma settings_fields [simp]: "settings (o'\<lparr>m_data := D\<rparr>) = settings o'" "settings (o'\<lparr>m_nOrder := n\<rparr>) = settings o'"
  by (simp_all add: settings_def)

definition same_fields :: "CSimpleIni \<Rightarrow> CSimpleIni \<Rightarrow> bool" where
  "same_fields o' o'' \<longleftrightarrow> m_nOrder o'' = m_nOrder o' \<and> m_pFileComment o'' = m_pFileComment o' \<and> m_pData o'' = m_pData o'
     \<and> settings o'' = settings o'"

lemma delete_section_fields: "same_fields o' (delete_section i o')"
  by (simp add: same_fields_def delete_section_def Let_def)

lemma same_fields_trans: "same_fields o1 o2 \<Longrightarrow> same_fields o2 o3 \<Longrightarrow> same_fields o1 o3"
  by (simp add: same_fields_def)

lemma shrinks_same_fields: "shrinks o' o'' \<Longrightarrow> same_fields o' o''"
  by (auto simp: same_fields_def shrinks_def settings_def)

lemma DeleteValue_section_ok:
  assumes "safe_with C o'" "i < length (m_data o')"
  defines "o'' \<equiv> delete_section i (delete_strings (snd (m_data o' ! i)) o')"
  shows "safe_with C o''" "tab_of o'' = take i (tab_of o') @ drop (i + 1) (tab_of o')" "same_fields o' o''"
proof -
  let ?D = "m_data o'" and ?o = "delete_strings (snd (m_data o' ! i)) o'"
  let ?R = "take i ?D @ drop (i + 1) ?D"
  have "mem_ok (add_mset (pItem (fst (?D ! i))) (stored ?R) + kv_ptrs (snd (?D ! i))) (comments ?D \<union> C) o'"
    using assms(1) stored_split [OF assms(2)] by (simp add: safe_with_def ac_simps)
  then have o1: "mem_ok (add_mset (pItem (fst (?D ! i))) (stored ?R)) (comments ?D \<union> C) ?o" "shrinks o' ?o"
    using delete_strings_ok by blast+
  have D: "m_data ?o = ?D"
    by (rule shrinks_fields(1) [OF o1(2)])
  have sec: "safe_with C o''" "tab_of o'' = take i (tab_of ?o) @ drop (i + 1) (tab_of ?o)"
    using delete_section_ok [of ?o i] o1(1) assms(2) by (simp_all add: D o''_def)
  have "abs_data ?o ?R = abs_data o' ?R"
    by (rule abs_shrinks(1) [OF o1(2,1)]) simp
  then show "safe_with C o''" "tab_of o'' = take i (tab_of o') @ drop (i + 1) (tab_of o')" "same_fields o' o''"
    using sec same_fields_trans [OF shrinks_same_fields [OF o1(2)] delete_section_fields] by (simp_all add: D o''_def)
qed

text \<open>The entries of section \<open>i\<close> after the loop.\<close>

lemma DeleteValue_keys_ok:
  assumes "safe_with C o'" "i < length (m_data o')" "m_data o' ! i = (e, kv)" "set kv' \<subseteq> set kv" "shrinks o' o1"
    "mem_ok (add_mset (pItem e) (stored (take i (m_data o') @ drop (i + 1) (m_data o'))) + kv_ptrs kv') (comments (m_data o') \<union> C) o1"
  defines "o2 \<equiv> o1\<lparr>m_data := (m_data o')[i := (e, kv')]\<rparr>"
  shows "safe_with C o2" "tab_of o2 = (tab_of o')[i := (fst (tab_of o' ! i), abs_kv o' kv')]" "same_fields o' o2"
proof -
  let ?D = "m_data o'"
  let ?D2 = "?D[i := (e, kv')]"
  have st: "stored ?D2 = add_mset (pItem e) (stored (take i ?D @ drop (i + 1) ?D)) + kv_ptrs kv'"
    using stored_update(2) [OF assms(2), of e kv'] by (simp add: ac_simps)
  have "comments ?D2 \<subseteq> comments ?D"
    using stored_update(3) [OF assms(2)] stored_update(4) [OF assms(2), of e kv'] kv_comments_mono [OF assms(4)] assms(3) by auto
  then have ok: "mem_ok (stored ?D2) (comments ?D2 \<union> C) o1"
    using mem_ok_mono [OF assms(6), of "stored ?D2" "comments ?D2 \<union> C"] unfolding st by (simp add: le_supI1)
  then show "safe_with C o2"
    by (simp add: safe_with_def o2_def)
  have "tab_of o2 = abs_data o1 ?D2"
    by (simp add: o2_def)
  also have "\<dots> = abs_data o' ?D2"
    by (rule abs_shrinks(1) [OF assms(5) ok]) simp
  finally show "tab_of o2 = (tab_of o')[i := (fst (tab_of o' ! i), abs_kv o' kv')]"
    using assms(2,3) by simp
  show "same_fields o' o2"
    using shrinks_same_fields [OF assms(5)] by (simp add: same_fields_def o2_def)
qed

lemma DeleteValue_ok:
  assumes "safe_with C o'" "ptr_text o' sec = Some s" "reads_opt o' pKey k" "reads_opt o' pValue t"
  shows "\<exists>b o''. DeleteValue (Some sec) pKey pValue rm o' = Some (b, o'') \<and> safe_with C o'' \<and> same_fields o' o''
    \<and> (b, tab_of o'') = del_tab s k t rm (tab_of o')"
proof -
  let ?D = "m_data o'"
  have ok: "mem_ok (stored ?D) (comments ?D \<union> C) o'"
    using assms(1) by (simp add: safe_with_def)
  have "readable o' ?D"
    using mem_ok_tables(1) [OF ok, of ?D] by simp
  then have find: "find_entry o' s ?D = Some (search IsLess s (map fst (tab_of o')))"
    by (simp add: find_entry_eq names_of_abs)
  show ?thesis
  proof (cases "search IsLess s (map fst (tab_of o'))")
    case None
    then show ?thesis
      using assms(1,2) find by (simp add: DeleteValue_def del_tab_def same_fields_def) blast
  next
    case (Some i)
    note at = find_keys_text [OF ok _ Some, simplified]
    obtain e kv where x: "?D ! i = (e, kv)"
      by (cases "?D ! i")
    show ?thesis
    proof (cases pKey)
      case None
      then have "k = None"
        using assms(3) by (simp add: reads_opt_def)
      then show ?thesis
        using None assms(2) find Some x DeleteValue_section_ok [OF assms(1) at(1)]
        by (simp add: DeleteValue_def del_tab_def) blast
    next
      case key: (Some p)
      then obtain kt where k: "k = Some kt" "ptr_text o' p = Some kt" "\<not> is_copy p"
        using assms(3) by (auto simp: reads_opt_def)
      have findk: "find_entry o' kt kv = Some (search IsLess kt (map fst (abs_kv o' kv)))"
        using at(2) x by (simp add: find_entry_eq names_of_abs)
      have kv: "snd (tab_of o' ! i) = abs_kv o' kv"
        using at(4) x by simp
      show ?thesis
      proof (cases "search IsLess kt (map fst (abs_kv o' kv))")
        case none: None
        then have "del_keys kt t (snd (tab_of o' ! i)) = (False, snd (tab_of o' ! i))"
          unfolding kv by (simp add: del_keys_def)
        then have "(False, tab_of o') = del_tab s k t rm (tab_of o')"
          by (simp add: del_tab_def Some k(1) del: abs_data_simps)
        then show ?thesis
          using assms(1,2) find findk key k(2) Some x none by (simp add: DeleteValue_def same_fields_def) blast
      next
        case found: (Some j)
        let ?S = "add_mset (pItem e) (stored (take i ?D @ drop (i + 1) ?D))"
        have "mem_ok (?S + kv_ptrs kv) (comments ?D \<union> C) o'"
          using ok stored_split [OF at(1)] x by (simp add: ac_simps)
        from delete_keys_ok [OF this k(2,3) assms(4) found] obtain b rest o1 where loop:
          "delete_loop p pValue (drop j kv) o' = Some (b, rest, o1)" "mem_ok (?S + kv_ptrs (take j kv @ rest)) (comments ?D \<union> C) o1"
          "shrinks o' o1" "del_keys kt t (abs_kv o' kv) = (b, abs_kv o' (take j kv @ rest))" "set rest \<subseteq> set kv"
          by blast
        let ?kv = "take j kv @ rest"
        have sub: "set ?kv \<subseteq> set kv"
          using loop(5) by (auto dest: in_set_takeD)
        define o2 where "o2 = o1\<lparr>m_data := ?D[i := (e, ?kv)]\<rparr>"
        note o2 = DeleteValue_keys_ok [OF assms(1) at(1) x sub loop(3,2), folded o2_def]
        have D: "m_data o1 = ?D"
          by (rule shrinks_fields(1) [OF loop(3)])
        have run: "DeleteValue (Some sec) pKey pValue rm o' =
          (if \<not> b then Some (False, o2) else if \<not> rm \<or> ?kv \<noteq> [] then Some (True, o2) else Some (True, delete_section i o2))"
          using assms(2) find findk key k(2) Some x found loop(1) D
          by (simp add: DeleteValue_def o2_def Let_def)
        have tab: "del_tab s k t rm (tab_of o') = (if b \<and> rm \<and> ?kv = [] then (True, take i (tab_of o') @ drop (i + 1) (tab_of o'))
          else (b, tab_of o2))"
          by (simp only: del_tab_def Some k(1) option.case kv loop(4) Let_def prod.case o2(2) abs_kv_Nil_iff)
        show ?thesis
        proof (cases "b \<and> rm \<and> ?kv = []")
          case True
          then have "add_mset (pItem (fst (m_data o2 ! i))) (stored (take i (m_data o2) @ drop (i + 1) (m_data o2))) \<subseteq># stored (m_data o2)"
            using at(1) stored_split [of i "m_data o2"] by (simp add: o2_def)
          then have "mem_ok (add_mset (pItem (fst (m_data o2 ! i))) (stored (take i (m_data o2) @ drop (i + 1) (m_data o2)))) (comments (m_data o2) \<union> C) o2"
            using o2(1) mem_ok_mono unfolding safe_with_def by blast
          from delete_section_ok [OF this] have "safe_with C (delete_section i o2)"
            "tab_of (delete_section i o2) = take i (tab_of o2) @ drop (i + 1) (tab_of o2)"
            using at(1) by (simp_all add: o2_def)
          then show ?thesis
            using True run tab o2(2) same_fields_trans [OF o2(3) delete_section_fields] by simp blast
        next
          case False
          then show ?thesis
            using run tab o2(1,3) by auto
        qed
      qed
    qed
  qed
qed

end
