(* ===== verification/Ini_Add.thy ===== *)
theory Ini_Add
  imports Ini_Delete
begin

text \<open>
  \<open>AddEntry\<close> keeps the tables readable and, when it does not run out of memory, has the effect of
  \<open>set_tab\<close> on the texts.
\<close>

section \<open>The effect on the texts\<close>

definition ins_key :: "string \<Rightarrow> string \<Rightarrow> (string \<times> string) list \<Rightarrow> (string \<times> string) list" where
  "ins_key k v kv = (let j = upper IsLess k (map fst kv) in take j kv @ (k, v) # drop j kv)"

definition set_key :: "bool \<Rightarrow> bool \<Rightarrow> string \<Rightarrow> string \<Rightarrow> (string \<times> string) list \<Rightarrow> (string \<times> string) list" where
  "set_key multi force k v kv = (case search IsLess k (map fst kv) of
     None \<Rightarrow> ins_key k v kv
   | Some j \<Rightarrow>
       if multi then ins_key k v (if force then snd (del_keys k None kv) else kv)
       else kv[j := (fst (kv ! j), v)])"

definition open_section :: "string \<Rightarrow> tab \<Rightarrow> nat \<times> tab" where
  "open_section s X = (case search IsLess s (map fst X) of
     Some i \<Rightarrow> (i, X)
   | None \<Rightarrow> let i = upper IsLess s (map fst X) in (i, take i X @ (s, []) # drop i X))"

definition set_tab :: "bool \<Rightarrow> bool \<Rightarrow> string \<Rightarrow> (string \<times> string) option \<Rightarrow> tab \<Rightarrow> tab" where
  "set_tab multi force s item X = (let (i, Y) = open_section s X in
     case item of None \<Rightarrow> Y | Some (k, v) \<Rightarrow> Y[i := (fst (Y ! i), set_key multi force k v (snd (Y ! i)))])"

section \<open>Gaining copies\<close>

definition grows :: "CSimpleIni \<Rightarrow> CSimpleIni \<Rightarrow> bool" where
  "grows o' o'' \<longleftrightarrow> (\<forall>p s. ptr_text o' p = Some s \<longrightarrow> ptr_text o'' p = Some s)
     \<and> m_pData o'' = m_pData o' \<and> m_pFileComment o'' = m_pFileComment o' \<and> settings o'' = settings o'"

lemma grows_refl [simp]: "grows o' o'"
  by (simp add: grows_def)

lemma grows_trans: "grows o1 o2 \<Longrightarrow> grows o2 o3 \<Longrightarrow> grows o1 o3"
  by (simp add: grows_def)

lemma grows_fields [simp]: "grows o' (o''\<lparr>m_data := D\<rparr>) = grows o' o''" "grows o' (o''\<lparr>m_nOrder := n\<rparr>) = grows o' o''"
  by (simp_all add: grows_def)

lemma same_but_strings_grows: "same_but_strings o' o'' \<Longrightarrow> grows o' o''"
  unfolding grows_def same_but_strings_def settings_def by auto

lemma grows_text: "grows o' o'' \<Longrightarrow> ptr_text o' p = Some s \<Longrightarrow> ptr_text o'' p = Some s"
  by (simp add: grows_def)

lemma grows_text_of: "grows o' o'' \<Longrightarrow> ptr_text o' p \<noteq> None \<Longrightarrow> text_of o'' p = text_of o' p"
  by (auto simp: grows_def text_of_def)

lemma abs_grows:
  assumes "grows o' o''" "mem_ok S K o'"
  shows "stored D \<subseteq># S \<Longrightarrow> abs_data o'' D = abs_data o' D" "kv_ptrs kv \<subseteq># S \<Longrightarrow> abs_kv o'' kv = abs_kv o' kv"
proof -
  have same: "text_of o'' p = text_of o' p" if "p \<in># S" for p
    using grows_text_of [OF assms(1), of p] mem_ok_readable [OF assms(2), of p] that by simp
  show "stored D \<subseteq># S \<Longrightarrow> abs_data o'' D = abs_data o' D" "kv_ptrs kv \<subseteq># S \<Longrightarrow> abs_kv o'' kv = abs_kv o' kv"
    using same by (auto intro!: abs_data_cong abs_kv_cong dest: mset_subset_eqD)
qed

text \<open>What may be stored without copying.\<close>

definition keepable :: "bool \<Rightarrow> text_ptr \<Rightarrow> bool" where
  "keepable copy p \<longleftrightarrow> \<not> is_copy p \<and> (copy \<or> lasting p)"

lemma settings_multi: "settings o'' = settings o' \<Longrightarrow> m_bAllowMultiKey o'' = m_bAllowMultiKey o'"
  by (simp add: settings_def)

section \<open>The section\<close>

lemma take_ins_drop: "stored (take i D @ x # drop i D) = add_mset (pItem (fst x)) (kv_ptrs (snd x) + stored D)"
  "comments (take i D @ x # drop i D) = set_option (pComment (fst x)) \<union> kv_comments (snd x) \<union> comments D"
  by (metis add.assoc add.left_commute append_take_drop_id stored_simps(2,3) union_mset_add_mset_right)
    (metis (no_types, lifting) Un_assoc Un_left_commute append_take_drop_id comments_simps(2,3))

lemma add_section_ok:
  assumes "safe_with (set_option com) o'" "ptr_text o' sec = Some s" "keepable copy sec" "m_nOrder o' + 1 < 2 ^ 31"
    "search IsLess s (map fst (tab_of o')) = None"
  shows "\<exists>rc i o''. add_section new_ok sec no_key com copy o' = Some (rc, i, o'') \<and> safe_with (set_option com) o'' \<and> grows o' o''
    \<and> (rc = SI_NOMEM \<and> copy \<and> \<not> new_ok (allocs o') \<and> tab_of o'' = tab_of o' \<and> m_nOrder o'' = m_nOrder o'
       \<or> rc = SI_OK \<and> (i, tab_of o'') = open_section s (tab_of o') \<and> i < length (m_data o'') \<and> m_nOrder o'' = m_nOrder o' + 1
         \<and> (\<not> no_key \<longrightarrow> comments (m_data o'') = comments (m_data o')))"
proof -
  let ?K = "comments (m_data o') \<union> set_option com" and ?D = "m_data o'"
  have ok: "mem_ok (stored ?D) ?K o'"
    using assms(1) by (simp add: safe_with_def)
  obtain rc q o1 where cp: "copy_if new_ok copy sec o' = Some (rc, q, o1)" "same_but_strings o' o1" "mem_ok (stored ?D) ?K o1"
    "if copy \<longrightarrow> new_ok (allocs o') then rc = SI_OK \<and> ptr_text o1 q = Some s \<and> mem_ok (add_mset q (stored ?D)) ?K o1 \<and> mem_ok (stored ?D) (insert q ?K) o1
     else rc = SI_NOMEM"
    using copy_if_ok [OF ok assms(2), of copy new_ok] assms(3) by (auto simp: keepable_def)
  note fields = same_but_strings_fields [OF cp(2)]
  have grow: "grows o' o1"
    by (rule same_but_strings_grows [OF cp(2)])
  have tab: "abs_data o1 ?D = abs_data o' ?D"
    by (rule abs_grows(1) [OF grow ok]) simp
  show ?thesis
  proof (cases "copy \<longrightarrow> new_ok (allocs o')")
    case False
    then show ?thesis
      using cp grow tab fields by (simp add: add_section_def safe_with_def)
  next
    case True
    then have q: "rc = SI_OK" "ptr_text o1 q = Some s" "mem_ok (add_mset q (stored ?D)) ?K o1"
      using cp(4) by simp_all
    define o2 where "o2 = o1\<lparr>m_nOrder := m_nOrder o1 + 1\<rparr>"
    define e where "e = \<lparr>pItem = q, pComment = (if no_key then com else None), nOrder = m_nOrder o2\<rparr>"
    have D2: "m_data o2 = ?D"
      using fields(1) by (simp add: o2_def)
    have "readable o1 ?D"
      using mem_ok_tables(1) [OF cp(3), of ?D] by simp
    then have rd: "readable o2 ?D"
      by (simp add: o2_def readable_def)
    have names: "names_of o2 ?D = map fst (tab_of o')"
      using tab by (simp add: names_of_abs o2_def)
    let ?i = "upper IsLess s (map fst (tab_of o'))"
    have "ptr_text o2 (pItem (fst (e, []))) = Some s"
      using q(2) by (simp add: e_def o2_def)
    then have ins: "insert_entry o2 (e, []) ?D = Some (?i, take ?i ?D @ (e, []) # drop ?i ?D)"
      using insert_entry_eq [OF rd, of "(e, [])"] by (simp add: names Let_def)
    let ?D2 = "take ?i ?D @ (e, []) # drop ?i ?D"
    let ?o = "o2\<lparr>m_data := ?D2\<rparr>"
    have ord1: "next_order o1 = Some o2"
      using assms(4) fields(2) by (simp add: next_order_def o2_def)
    have "add_section new_ok sec no_key com copy o' = Some (SI_OK, ?i, ?o)"
      unfolding add_section_def cp(1) q(1)
      by (simp only: bind.bind_lunit prod.case less_irrefl if_False ord1 Let_def e_def [symmetric] D2 ins)
    moreover have "stored ?D2 = add_mset q (stored ?D)" "comments ?D2 \<union> set_option com \<subseteq> ?K"
      unfolding take_ins_drop by (auto simp: e_def split: if_splits)
    then have "mem_ok (stored ?D2) (comments ?D2 \<union> set_option com) o2"
      using mem_ok_mono [OF q(3), of "stored ?D2"] by (simp add: o2_def)
    then have "safe_with (set_option com) ?o"
      by (simp add: safe_with_def)
    moreover have "abs_data o2 ?D2 = snd (open_section s (tab_of o'))" "fst (open_section s (tab_of o')) = ?i"
      using assms(5) tab q(2) by (simp_all add: open_section_def o2_def e_def Let_def)
    moreover have "?i \<le> length ?D"
      using nocase.upper_le [of s "map fst (tab_of o')"] by simp
    moreover have "comments ?D2 = comments ?D" if "\<not> no_key"
      using that by (simp only: take_ins_drop) (simp add: e_def)
    ultimately show ?thesis
      using grow fields by (intro exI [of _ SI_OK] exI [of _ ?i] exI [of _ ?o]) (simp add: o2_def prod_eq_iff)
  qed
qed

section \<open>The key\<close>

lemma kv_ins_drop: "kv_ptrs (take j kv @ x # drop j kv) = {#pItem (fst x), snd x#} + kv_ptrs kv"
  "kv_comments (take j kv @ x # drop j kv) = set_option (pComment (fst x)) \<union> kv_comments kv"
proof -
  have "kv_ptrs kv = kv_ptrs (take j kv) + kv_ptrs (drop j kv)" "kv_comments kv = kv_comments (take j kv) \<union> kv_comments (drop j kv)"
    by (metis append_take_drop_id kv_ptrs_simps(3), metis append_take_drop_id kv_comments_simps(3))
  then show "kv_ptrs (take j kv @ x # drop j kv) = {#pItem (fst x), snd x#} + kv_ptrs kv"
    "kv_comments (take j kv @ x # drop j kv) = set_option (pComment (fst x)) \<union> kv_comments kv"
    by auto
qed

lemma kv_put:
  assumes "j < length kv"
  shows "kv_ptrs (kv[j := (fst (kv ! j), v)]) \<subseteq># add_mset v (kv_ptrs kv)" "kv_comments (kv[j := (fst (kv ! j), v)]) = kv_comments kv"
proof -
  let ?x = "kv ! j"
  have kv: "kv = take j kv @ ?x # drop (Suc j) kv"
    by (rule id_take_nth_drop [OF assms])
  have "kv_ptrs kv = kv_ptrs (take j kv @ ?x # drop (Suc j) kv)" "kv_comments kv = kv_comments (take j kv @ ?x # drop (Suc j) kv)"
    using kv by simp_all
  then show "kv_ptrs (kv[j := (fst (kv ! j), v)]) \<subseteq># add_mset v (kv_ptrs kv)" "kv_comments (kv[j := (fst (kv ! j), v)]) = kv_comments kv"
    using assms by (simp_all add: upd_conv_take_nth_drop)
qed

lemma put_section_ok:
  assumes "mem_ok (S + stored (m_data o')) (comments (m_data o') \<union> K) o'" "i < length (m_data o')" "m_data o' ! i = (e, kv)"
    "kv_ptrs kv' \<subseteq># S + kv_ptrs kv" "kv_comments kv' \<subseteq> kv_comments kv \<union> K"
  defines "o'' \<equiv> o'\<lparr>m_data := (m_data o')[i := (e, kv')]\<rparr>"
  shows "safe o''" "tab_of o'' = (tab_of o')[i := (fst (tab_of o' ! i), abs_kv o' kv')]"
proof -
  let ?D = "m_data o'"
  let ?D2 = "?D[i := (e, kv')]"
  have "stored ?D2 \<subseteq># S + stored ?D"
    using stored_update(1) [OF assms(2)] stored_update(2) [OF assms(2), of e kv'] assms(3,4)
    by (simp add: subset_mset.add_right_mono flip: add.assoc)
  moreover have "comments ?D2 \<subseteq> comments ?D \<union> K"
    using stored_update(3) [OF assms(2)] stored_update(4) [OF assms(2), of e kv'] assms(3,5) by auto
  ultimately have "mem_ok (stored ?D2) (comments ?D2) o'"
    by (rule mem_ok_mono [OF assms(1)])
  then show "safe o''"
    by (simp add: safe_with_def o''_def)
  show "tab_of o'' = (tab_of o')[i := (fst (tab_of o' ! i), abs_kv o' kv')]"
    using assms(2,3) by (simp add: o''_def)
qed

lemma inherit_ok:
  "readable o' kvs \<Longrightarrow> ptr_text o' key = Some k \<Longrightarrow>
   \<exists>n' c'. inherit o' key kvs n c = Some (n', c') \<and> (\<forall>p. c' = Some p \<longrightarrow> c = Some p \<or> p \<in> kv_comments kvs)"
proof (induction kvs arbitrary: n c)
  case (Cons x kvs)
  obtain e v where x: "x = (e, v)"
    by (cases x)
  have "not_less o' key (pItem e) = Some (\<not> IsLess k (text_of o' (pItem e)))"
    using Cons.prems x by (auto simp: not_less_eq)
  moreover have "\<exists>n' c'. inherit o' key kvs n2 c2 = Some (n', c') \<and> (\<forall>p. c' = Some p \<longrightarrow> c2 = Some p \<or> p \<in> kv_comments kvs)" for n2 c2
    using Cons.IH Cons.prems by simp
  ultimately show ?case
    using x by fastforce
qed simp

lemma replace_key_ok:
  assumes "safe_with (set_option com) o'" "ptr_text o' sec = Some s" "\<not> is_copy sec" "ptr_text o' key = Some k" "\<not> is_copy key"
    "x \<in> set (m_data o')" "set kvs \<subseteq> set (snd x)"
    "\<And>c. com = Some c \<Longrightarrow> c \<notin> comments (m_data o') \<and> m_pFileComment o' \<noteq> Some c"
  shows "\<exists>n com' o''. replace_key new_ok sec key com kvs o' = Some (n, com', o'') \<and> safe_with (set_option com') o'' \<and> same_fields o' o''
    \<and> tab_of o'' = snd (del_tab s (Some k) None False (tab_of o'))"
proof -
  let ?D = "m_data o'"
  have ok: "mem_ok (stored ?D) (comments ?D \<union> set_option com) o'"
    using assms(1) by (simp add: safe_with_def)
  have "readable o' (snd x)"
    using mem_ok_tables(3) [OF ok _ assms(6)] by simp
  then have "readable o' kvs"
    using assms(7) by (auto simp: readable_def)
  then obtain n c where inh: "inherit o' key kvs (m_nOrder o') None = Some (n, c)" "\<And>p. c = Some p \<Longrightarrow> p \<in> kv_comments kvs"
    using inherit_ok [OF _ assms(4), of kvs "m_nOrder o'" None] by auto
  have in_D: "kv_comments kvs \<subseteq> comments ?D"
    using assms(6,7) by (auto simp: comments_def kv_comments_def)
  have mid: "\<exists>com' o1. (case c of None \<Rightarrow> Some (com, o')
      | Some p \<Rightarrow> do { (rc, p, o') \<leftarrow> CopyString new_ok p (DeleteString_opt com o'); Some (Some p, o') }) = Some (com', o1)
    \<and> safe_with (set_option com') o1 \<and> same_fields o' o1 \<and> m_data o1 = ?D \<and> tab_of o1 = tab_of o'"
  proof (cases c)
    case None
    then show ?thesis
      using assms(1) by (simp add: same_fields_def)
  next
    case (Some p)
    let ?o = "DeleteString_opt com o'"
    have p: "p \<in> comments ?D"
      using inh(2) [OF Some] in_D by blast
    have del: "mem_ok (stored ?D) (comments ?D) ?o \<and> shrinks o' ?o"
      using ok assms(8) by (cases com) (auto simp: DeleteString_opt_def intro!: DeleteString_comment_ok shrinks_DeleteString)
    then obtain t where t: "ptr_text ?o p = Some t"
      using mem_ok_readable p by blast
    obtain rc q o1 where cp: "CopyString new_ok p ?o = Some (rc, q, o1)" "same_but_strings ?o o1" "mem_ok (stored ?D) (comments ?D) o1"
      "mem_ok (stored ?D) (insert q (comments ?D)) o1 \<or> q = p"
      using CopyString_ok [of "stored ?D" "comments ?D" ?o p t new_ok] del t by (auto split: if_splits)
    have f: "m_data o1 = ?D" "same_fields o' o1"
      using same_but_strings_fields [OF cp(2)] shrinks_fields [of o' ?o] shrinks_same_fields [of o' ?o] del
        same_but_strings_grows [OF cp(2)] by (simp_all add: same_fields_def grows_def)
    have "insert p (comments ?D) = comments ?D"
      using p by auto
    then have "safe_with {q} o1"
      using cp(3,4) f by (auto simp: safe_with_def)
    moreover have "tab_of o1 = tab_of o'"
      using abs_grows(1) [OF same_but_strings_grows [OF cp(2)], of "stored ?D" "comments ?D" ?D] abs_shrinks(1) [of o' ?o "stored ?D" "comments ?D" ?D]
        del f(1) by simp
    ultimately show ?thesis
      using Some cp(1) f by simp
  qed
  then obtain com' o1 where o1: "(case c of None \<Rightarrow> Some (com, o')
      | Some p \<Rightarrow> do { (rc, p, o') \<leftarrow> CopyString new_ok p (DeleteString_opt com o'); Some (Some p, o') }) = Some (com', o1)"
    "safe_with (set_option com') o1" "same_fields o' o1" "tab_of o1 = tab_of o'"
    by blast
  have texts: "ptr_text o1 sec = Some s" "ptr_text o1 key = Some k"
    using assms(2-5) o1(3) ptr_text_not_copy [of _ o1 o'] by (simp_all add: same_fields_def)
  obtain b o2 where "DeleteValue (Some sec) (Some key) None False o1 = Some (b, o2)" "safe_with (set_option com') o2" "same_fields o1 o2"
    "(b, tab_of o2) = del_tab s (Some k) None False (tab_of o1)"
    using DeleteValue_ok [OF o1(2) texts(1), of "Some key" "Some k" None None False] texts(2) assms(5) by (auto simp: reads_opt_def)
  then show ?thesis
    using inh(1) o1 same_fields_trans [OF o1(3)] by (simp add: replace_key_def Delete_def prod_eq_iff)
qed

text \<open>Whether the entries with the key are deleted first.\<close>

definition replacing :: "bool \<Rightarrow> bool \<Rightarrow> nat option \<Rightarrow> bool" where
  "replacing multi force j \<longleftrightarrow> j \<noteq> None \<and> multi \<and> force"

lemma del_tab_keys:
  assumes "search IsLess s (map fst X) = Some i"
  shows "snd (del_tab s (Some k) None False X) = X[i := (fst (X ! i), snd (del_keys k None (snd (X ! i))))]"
  using assms by (simp add: del_tab_def case_prod_beta)

lemma open_found: "search IsLess s (map fst X) = Some i \<Longrightarrow> open_section s X = (i, X)"
  by (simp add: open_section_def)

lemma add_key_clear:
  assumes "safe_with (set_option com) o'" "ptr_text o' sec = Some s" "\<not> is_copy sec" "ptr_text o' key = Some k" "\<not> is_copy key"
    "i < length (m_data o')" "replacing multi force j \<Longrightarrow> search IsLess s (map fst (tab_of o')) = Some i"
    "replacing multi force j \<Longrightarrow> \<forall>c. com = Some c \<longrightarrow> c \<notin> comments (m_data o') \<and> m_pFileComment o' \<noteq> Some c"
  shows "\<exists>n com' o''. (if replacing multi force j then do {
        (n, com, o') \<leftarrow> replace_key new_ok sec key com (drop (the j) (snd (m_data o' ! i))) o';
        Some (None, n, com, o')
      } else Some (j, m_nOrder o', com, o')) = Some (if replacing multi force j then None else j, n, com', o'')
    \<and> safe_with (set_option com') o'' \<and> same_fields o' o''
    \<and> tab_of o'' = (if replacing multi force j then (tab_of o')[i := (fst (tab_of o' ! i), snd (del_keys k None (snd (tab_of o' ! i))))] else tab_of o')"
proof (cases "replacing multi force j")
  case False
  then show ?thesis
    using assms(1) by (simp add: same_fields_def)
next
  case True
  obtain n com' o'' where "replace_key new_ok sec key com (drop (the j) (snd (m_data o' ! i))) o' = Some (n, com', o'')"
    "safe_with (set_option com') o''" "same_fields o' o''" "tab_of o'' = snd (del_tab s (Some k) None False (tab_of o'))"
    using replace_key_ok [OF assms(1-5) nth_mem [OF assms(6)] set_drop_subset] assms(8) [OF True] by blast
  then show ?thesis
    using True del_tab_keys [OF assms(7)] by simp
qed

lemma ins_key_abs:
  "ptr_text o' (pItem e) = Some k \<Longrightarrow> ptr_text o' v = Some t \<Longrightarrow> j = upper IsLess k (names_of o' kv) \<Longrightarrow>
   abs_kv o' (take j kv @ (e, v) # drop j kv) = ins_key k t (abs_kv o' kv)"
  by (simp add: ins_key_def names_of_abs Let_def)

lemma store_key_ok:
  assumes "safe_with (set_option com) o'" "ptr_text o' key = Some k" "keepable copy key" "ptr_text o' val = Some t" "keepable copy val"
    "i < length (m_data o')" "\<not> create \<Longrightarrow> iKey = Some j \<and> j < length (snd (m_data o' ! i))"
  shows "\<exists>rc o''. store_key new_ok key val com copy create iKey inserted n i o' = Some (rc, o'') \<and> safe o'' \<and> grows o' o''
    \<and> m_nOrder o'' = m_nOrder o'
    \<and> (rc = SI_NOMEM \<and> copy \<and> (\<exists>n. \<not> new_ok n) \<and> tab_of o'' = tab_of o' \<or> rc = (if inserted then SI_INSERTED else SI_UPDATED)
       \<and> tab_of o'' = (tab_of o')[i := (fst (tab_of o' ! i), let kv = snd (tab_of o' ! i) in
           if create then ins_key k t kv else kv[the iKey := (fst (kv ! the iKey), t)])])"
proof -
  let ?D = "m_data o'" and ?K = "comments (m_data o') \<union> set_option com"
  obtain e kv where x: "?D ! i = (e, kv)"
    by (cases "?D ! i")
  have ok: "mem_ok (stored ?D) ?K o'"
    using assms(1) by (simp add: safe_with_def)
  have early: ?thesis if "store_key new_ok key val com copy create iKey inserted n i o' = Some (SI_NOMEM, o1)"
    "grows o' o1" "m_data o1 = ?D" "m_nOrder o1 = m_nOrder o'" "mem_ok (stored ?D) ?K o1" "copy" "\<not> new_ok m" for o1 m
    using that mem_ok_mono [OF that(5), of "stored ?D" "comments ?D"] abs_grows(1) [OF that(2) ok, of ?D] by (auto simp: safe_with_def)
  obtain rc key' o1 where c1: "copy_if new_ok (copy \<and> create) key o' = Some (rc, key', o1)" "same_but_strings o' o1" "mem_ok (stored ?D) ?K o1"
    "if copy \<and> create \<longrightarrow> new_ok (allocs o') then rc = SI_OK \<and> ptr_text o1 key' = Some k \<and> (create \<longrightarrow> mem_ok (add_mset key' (stored ?D)) ?K o1)
     else rc = SI_NOMEM"
  proof (cases create)
    case True
    obtain rc q o1 where "copy_if new_ok copy key o' = Some (rc, q, o1)" "same_but_strings o' o1" "mem_ok (stored ?D) ?K o1"
      "if copy \<longrightarrow> new_ok (allocs o') then rc = SI_OK \<and> ptr_text o1 q = Some k \<and> mem_ok (add_mset q (stored ?D)) ?K o1
         \<and> mem_ok (stored ?D) (insert q ?K) o1 else rc = SI_NOMEM"
      using copy_if_ok [OF ok assms(2), of copy new_ok] assms(3) by (auto simp: keepable_def)
    then show thesis
      using True by (intro that [of rc q o1]) (simp_all split: if_splits)
  next
    case False
    then show thesis
      using that [of SI_OK key o'] ok assms(2) by (simp add: copy_if_def)
  qed
  note f1 = same_but_strings_fields [OF c1(2)]
  have g1: "grows o' o1"
    by (rule same_but_strings_grows [OF c1(2)])
  show ?thesis
  proof (cases "copy \<and> create \<longrightarrow> new_ok (allocs o')")
    case False
    then show ?thesis
      by (intro early [of o1 "allocs o'"]) (use c1 g1 f1 in \<open>simp_all add: store_key_def\<close>)
  next
    case True
    let ?S = "(if create then {#key'#} else {#}) + stored ?D"
    have rc: "rc = SI_OK" "ptr_text o1 key' = Some k" "mem_ok ?S ?K o1"
      using c1(3,4) True by (auto split: if_splits)
    have "ptr_text o1 val = Some t"
      by (rule f1(6) [OF assms(4)])
    then obtain rc2 val' o2 where c2: "copy_if new_ok copy val o1 = Some (rc2, val', o2)" "same_but_strings o1 o2" "mem_ok ?S ?K o2"
      "if copy \<longrightarrow> new_ok (allocs o1) then rc2 = SI_OK \<and> ptr_text o2 val' = Some t \<and> mem_ok (add_mset val' ?S) ?K o2
         \<and> mem_ok ?S (insert val' ?K) o2 else rc2 = SI_NOMEM"
      using copy_if_ok [OF rc(3), of val t copy new_ok] assms(5) by (auto simp: keepable_def)
    note f2 = same_but_strings_fields [OF c2(2)]
    have g2: "grows o' o2"
      by (rule grows_trans [OF g1 same_but_strings_grows [OF c2(2)]])
    have f: "m_data o2 = ?D" "m_nOrder o2 = m_nOrder o'"
      using f1 f2 by simp_all
    show ?thesis
    proof (cases "copy \<longrightarrow> new_ok (allocs o1)")
      case False
      then show ?thesis
        by (intro early [of o2 "allocs o1"] mem_ok_mono [OF c2(3)]) (use c1(1) c2 rc(1) g2 f in \<open>simp_all add: store_key_def\<close>)
    next
      case True
      then have rc2: "rc2 = SI_OK" "ptr_text o2 val' = Some t" "mem_ok (add_mset val' ?S) ?K o2"
        using c2(4) by simp_all
      define kv' where "kv' = (if create
        then let j = upper IsLess k (names_of o2 kv) in take j kv @ (\<lparr>pItem = key', pComment = com, nOrder = n\<rparr>, val') # drop j kv
        else kv[the iKey := (fst (kv ! the iKey), val')])"
      have rd: "readable o2 kv"
        using mem_ok_tables(3) [OF c2(3), of ?D "?D ! i"] nth_mem [OF assms(6)] x by simp
      have key2: "ptr_text o2 key' = Some k"
        by (rule f2(6) [OF rc(2)])
      have run: "store_key new_ok key val com copy create iKey inserted n i o' =
        Some (if inserted then SI_INSERTED else SI_UPDATED, o2\<lparr>m_data := ?D[i := (e, kv')]\<rparr>)"
        using c1(1) c2(1) rc(1) rc2(1) f(1) x insert_entry_eq [OF rd, of "(\<lparr>pItem = key', pComment = com, nOrder = n\<rparr>, val')" k] key2
        by (simp add: store_key_def kv'_def Let_def)
      have S: "mem_ok (((if create then {#key', val'#} else {#val'#})) + stored (m_data o2)) (comments (m_data o2) \<union> set_option com) o2"
        using rc2(3) f(1) by (cases create) (simp_all add: add_mset_commute)
      have "kv_ptrs kv' \<subseteq># (if create then {#key', val'#} else {#val'#}) + kv_ptrs kv" "kv_comments kv' \<subseteq> kv_comments kv \<union> set_option com"
      proof (atomize (full), cases create)
        case True
        then show "kv_ptrs kv' \<subseteq># (if create then {#key', val'#} else {#val'#}) + kv_ptrs kv \<and> kv_comments kv' \<subseteq> kv_comments kv \<union> set_option com"
          unfolding kv'_def Let_def if_P [OF True] kv_ins_drop by auto
      next
        case False
        then show "kv_ptrs kv' \<subseteq># (if create then {#key', val'#} else {#val'#}) + kv_ptrs kv \<and> kv_comments kv' \<subseteq> kv_comments kv \<union> set_option com"
          using kv_put [of "the iKey" kv val'] assms(7) x by (auto simp: kv'_def)
      qed
      note put = put_section_ok [OF S _ _ this, of i e, unfolded f(1), OF assms(6) x]
      have D: "tab_of o2 = tab_of o'"
        using abs_grows(1) [OF g2 ok, of ?D] f(1) by simp
      have kv: "abs_kv o2 kv = snd (tab_of o' ! i)"
        using D f(1) x assms(6) by (metis abs_data_simps(7) snd_conv)
      have "abs_kv o2 kv' = (let kv = snd (tab_of o' ! i) in if create then ins_key k t kv else kv[the iKey := (fst (kv ! the iKey), t)])"
        using ins_key_abs [of o2 "\<lparr>pItem = key', pComment = com, nOrder = n\<rparr>" k val' t] key2 rc2(2) assms(7) x
        unfolding kv [symmetric] by (auto simp: kv'_def Let_def abs_kv_def map_update)
      then show ?thesis
        using run put g2 f(2) D by (simp add: Let_def f(1))
    qed
  qed
qed

definition base_same :: "CSimpleIni \<Rightarrow> CSimpleIni \<Rightarrow> bool" where
  "base_same o' o'' \<longleftrightarrow> m_pFileComment o'' = m_pFileComment o' \<and> m_pData o'' = m_pData o' \<and> settings o'' = settings o'"

lemma base_sameI: "same_fields o' o'' \<Longrightarrow> base_same o' o''" "grows o' o'' \<Longrightarrow> base_same o' o''"
  by (simp_all add: base_same_def same_fields_def grows_def)

lemma base_same_trans: "base_same o1 o2 \<Longrightarrow> base_same o2 o3 \<Longrightarrow> base_same o1 o3"
  by (simp add: base_same_def)

definition key_code :: "string \<Rightarrow> (string \<times> string) list \<Rightarrow> int" where
  "key_code k kv = (if search IsLess k (map fst kv) = None then SI_INSERTED else SI_UPDATED)"

lemma add_key_ok:
  assumes "safe_with (set_option com) o'" "ptr_text o' sec = Some s" "\<not> is_copy sec" "ptr_text o' key = Some k" "keepable copy key"
    "case val of None \<Rightarrow> t = [] | Some p \<Rightarrow> ptr_text o' p = Some t \<and> keepable copy p" "i < length (m_data o')"
    "m_nOrder o' + 1 < 2 ^ 31"
  defines "kv \<equiv> snd (tab_of o' ! i)"
  defines "j \<equiv> search IsLess k (map fst kv)"
  assumes "replacing (m_bAllowMultiKey o') force j \<longrightarrow> search IsLess s (map fst (tab_of o')) = Some i"
    "replacing (m_bAllowMultiKey o') force j \<longrightarrow> (\<forall>c. com = Some c \<longrightarrow> c \<notin> comments (m_data o') \<and> m_pFileComment o' \<noteq> Some c)"
  shows "\<exists>rc o''. add_key new_ok sec key val com force copy i o' = Some (rc, o'') \<and> safe o'' \<and> base_same o' o''
    \<and> m_nOrder o'' = m_nOrder o' + 1
    \<and> (rc = SI_NOMEM \<and> copy \<and> (\<exists>n. \<not> new_ok n)
         \<and> (tab_of o'' = tab_of o' \<or> tab_of o'' = (tab_of o')[i := (fst (tab_of o' ! i), snd (del_keys k None kv))])
       \<or> rc = key_code k kv
       \<and> tab_of o'' = (tab_of o')[i := (fst (tab_of o' ! i), set_key (m_bAllowMultiKey o') force k t kv)])"
proof -
  let ?m = "m_bAllowMultiKey o'"
  define o1 where "o1 = o'\<lparr>m_nOrder := m_nOrder o' + 1\<rparr>"
  let ?R = "replacing ?m force j"
  have o1: "safe_with (set_option com) o1" "ptr_text o1 sec = Some s" "ptr_text o1 key = Some k" "abs_data o1 (m_data o') = tab_of o'" "m_data o1 = m_data o'"
    "m_pFileComment o1 = m_pFileComment o'" "m_bAllowMultiKey o1 = ?m" "base_same o' o1" "next_order o' = Some o1" "m_nOrder o1 = m_nOrder o' + 1"
    using assms(1,2,4,8) by (simp_all add: o1_def safe_with_def base_same_def next_order_def)
  have key: "\<not> is_copy key"
    using assms(5) by (simp add: keepable_def)
  obtain n com' o2 where clear: "(if ?R then do {
        (n, com, o') \<leftarrow> replace_key new_ok sec key com (drop (the j) (snd (m_data o1 ! i))) o1;
        Some (None, n, com, o')
      } else Some (j, m_nOrder o1, com, o1)) = Some (if ?R then None else j, n, com', o2)"
    "safe_with (set_option com') o2" "same_fields o1 o2"
    "tab_of o2 = (if ?R then (tab_of o')[i := (fst (tab_of o' ! i), snd (del_keys k None kv))] else tab_of o')"
    using add_key_clear [OF o1(1,2) assms(3) o1(3) key, of i ?m force j new_ok] assms(7,11,12) unfolding o1(4-6) kv_def by blast
  have len: "length (m_data o2) = length (m_data o')"
    using arg_cong [OF clear(4), of length] by (simp split: if_splits)
  define val' where "val' = (case val of None \<Rightarrow> EmptyMember | Some p \<Rightarrow> p)"
  have base: "base_same o' o2"
    by (rule base_same_trans [OF o1(8) base_sameI(1) [OF clear(3)]])
  then have texts: "ptr_text o2 key = Some k" "ptr_text o2 val' = Some t" "keepable copy val'"
    using assms(4,6) key ptr_text_not_copy [of _ o2 o'] by (auto simp: val'_def base_same_def keepable_def split: option.splits)
  have multi: "m_bAllowMultiKey o2 = ?m"
    using base settings_multi [of o2 o'] by (simp add: base_same_def)
  let ?create = "(if ?R then None else j) = None \<or> ?m \<and> \<not> force"
  have rd: "readable o' (snd (m_data o' ! i))"
    using mem_ok_tables(3) [of "stored (m_data o')" _ o' "m_data o'"] assms(1) nth_mem [OF assms(7)] unfolding safe_with_def by blast
  have find: "find_entry o' k (snd (m_data o' ! i)) = Some j"
    using find_entry_eq [OF rd, of k] assms(7) by (simp add: names_of_abs j_def kv_def)
  have run: "add_key new_ok sec key val com force copy i o' =
    store_key new_ok key val' com' copy ?create (if ?R then None else j) (j = None) n i o2"
  proof -
    have "add_key new_ok sec key val com force copy i o' = do {
        (iKey, nLoadOrder, com, o') \<leftarrow> (if ?R then do {
            (n, com, o') \<leftarrow> replace_key new_ok sec key com (drop (the j) (snd (m_data o1 ! i))) o1;
            Some (None, n, com, o')
          } else Some (j, m_nOrder o1, com, o1));
        store_key new_ok key val' com copy (iKey = None \<or> m_bAllowMultiKey o' \<and> \<not> force) iKey (j = None) nLoadOrder i o'
      }"
      unfolding add_key_def assms(4) bind.bind_lunit find o1(9) Let_def val'_def replacing_def o1(7) ..
    then show ?thesis
      unfolding clear(1) by (simp add: multi)
  qed
  have "\<not> ?create \<Longrightarrow> (if ?R then None else j) = Some (the j) \<and> the j < length (snd (m_data o2 ! i))"
  proof -
    assume nc: "\<not> ?create"
    then have "\<not> ?R" "j = Some (the j)"
      by (auto split: if_splits)
    moreover have "the j < length kv"
      using search_valid [of IsLess k "map fst kv" "the j"] \<open>j = Some (the j)\<close> by (simp add: j_def)
    moreover have "abs_kv o2 (snd (m_data o2 ! i)) = kv"
      using clear(4) \<open>\<not> ?R\<close> assms(7) len kv_def by (metis abs_data_simps(7) snd_conv)
    ultimately show ?thesis
      by (metis abs_kv_simps(4))
  qed
  from store_key_ok [OF clear(2) texts(1) assms(5) texts(2,3) assms(7) [folded len] this, where new_ok = new_ok and inserted = "j = None" and n = n]
  obtain rc o3 where o3: "add_key new_ok sec key val com force copy i o' = Some (rc, o3)" "safe o3" "grows o2 o3" "m_nOrder o3 = m_nOrder o2"
    "rc = SI_NOMEM \<and> copy \<and> (\<exists>n. \<not> new_ok n) \<and> tab_of o3 = tab_of o2 \<or> rc = (if j = None then SI_INSERTED else SI_UPDATED)
       \<and> tab_of o3 = (tab_of o2)[i := (fst (tab_of o2 ! i), let kv = snd (tab_of o2 ! i) in
           if ?create then ins_key k t kv else kv[the (if ?R then None else j) := (fst (kv ! the (if ?R then None else j)), t)])]"
    unfolding run by blast
  have at: "tab_of o2 ! i = (fst (tab_of o' ! i), if ?R then snd (del_keys k None kv) else kv)"
    using clear(4) assms(7) by (auto simp: kv_def)
  have "(let kv = snd (tab_of o2 ! i) in if ?create then ins_key k t kv
      else kv[the (if ?R then None else j) := (fst (kv ! the (if ?R then None else j)), t)]) = set_key ?m force k t kv"
    unfolding at by (auto simp: set_key_def j_def [symmetric] replacing_def Let_def split: option.splits)
  moreover have "(tab_of o2)[i := z] = (tab_of o')[i := z]" for z
    using clear(4) by simp
  moreover have "tab_of o2 = tab_of o' \<or> tab_of o2 = (tab_of o')[i := (fst (tab_of o' ! i), snd (del_keys k None kv))]"
    using clear(4) by (cases ?R) simp_all
  moreover have "m_nOrder o3 = m_nOrder o' + 1" "base_same o' o3"
    using o3(4) clear(3) o1(10) base_same_trans [OF base base_sameI(2) [OF o3(3)]] by (simp_all add: same_fields_def)
  moreover have "fst (tab_of o2 ! i) = fst (tab_of o' ! i)"
    by (simp add: at)
  moreover have "(if j = None then SI_INSERTED else SI_UPDATED) = key_code k kv"
    by (simp add: key_code_def j_def)
  ultimately show ?thesis
    using o3(1,2,5) by (intro exI [of _ rc] exI [of _ o3] conjI) (assumption | metis)+
qed

section \<open>AddEntry\<close>

definition add_code :: "string \<Rightarrow> string option \<Rightarrow> tab \<Rightarrow> int" where
  "add_code s k X = (case k of
     None \<Rightarrow> if search IsLess s (map fst X) = None then SI_INSERTED else SI_UPDATED
   | Some k \<Rightarrow> let (i, Y) = open_section s X in key_code k (snd (Y ! i)))"

text \<open>What there may be after an allocation has failed.\<close>

definition partial_tab :: "string \<Rightarrow> string option \<Rightarrow> tab \<Rightarrow> tab \<Rightarrow> bool" where
  "partial_tab s k X X' \<longleftrightarrow> (let (i, Y) = open_section s X in
     X' = X \<or> X' = Y \<or> (\<exists>k'. k = Some k' \<and> X' = Y[i := (fst (Y ! i), snd (del_keys k' None (snd (Y ! i))))]))"

lemma partial_tab_same [simp]: "partial_tab s k X X" "partial_tab s k X (snd (open_section s X))"
  by (simp_all add: partial_tab_def case_prod_beta)

lemma copy_comment_ok:
  assumes "safe o'" "case pCom of None \<Rightarrow> True | Some p \<Rightarrow> keepable copy p \<and> ptr_text o' p \<noteq> None"
  shows "\<exists>rc com o''. (case pCom of None \<Rightarrow> Some (SI_OK, None, o')
      | Some p \<Rightarrow> do { (rc, p, o') \<leftarrow> copy_if new_ok copy p o'; Some (rc, Some p, o') }) = Some (rc, com, o'')
    \<and> safe o'' \<and> grows o' o'' \<and> m_data o'' = m_data o' \<and> m_nOrder o'' = m_nOrder o'
    \<and> (rc = SI_NOMEM \<and> copy \<and> (\<exists>n. \<not> new_ok n)
       \<or> rc = SI_OK \<and> safe_with (set_option com) o'' \<and> (copy \<longrightarrow> (\<forall>c. com = Some c \<longrightarrow> c \<notin> comments (m_data o') \<and> m_pFileComment o' \<noteq> Some c)))"
proof (cases pCom)
  case None
  then show ?thesis
    using assms(1) by simp
next
  case (Some p)
  obtain t where p: "ptr_text o' p = Some t" "keepable copy p"
    using assms(2) Some by auto
  have ok: "mem_ok (stored (m_data o')) (comments (m_data o')) o'"
    using assms(1) by (simp add: safe_with_def)
  obtain rc q o'' where c: "copy_if new_ok copy p o' = Some (rc, q, o'')" "same_but_strings o' o''" "mem_ok (stored (m_data o')) (comments (m_data o')) o''"
    "if copy \<longrightarrow> new_ok (allocs o') then rc = SI_OK \<and> ptr_text o'' q = Some t \<and> mem_ok (add_mset q (stored (m_data o'))) (comments (m_data o')) o''
       \<and> mem_ok (stored (m_data o')) (insert q (comments (m_data o'))) o'' else rc = SI_NOMEM"
    "copy \<and> rc = SI_OK \<longrightarrow> is_copy q \<and> q \<notin> comments (m_data o') \<and> m_pFileComment o' \<noteq> Some q"
    using copy_if_ok [OF ok p(1), of copy new_ok] p(2) unfolding keepable_def by blast
  note f = same_but_strings_fields [OF c(2)]
  show ?thesis
    using Some c same_but_strings_grows [OF c(2)] f by (cases "copy \<longrightarrow> new_ok (allocs o')") (auto simp: safe_with_def)
qed

lemma AddEntry_ok:
  assumes "safe o'" "ptr_text o' sec = Some s" "keepable copy sec" "reads_opt o' pKey k" "\<forall>p. pKey = Some p \<longrightarrow> keepable copy p"
    "case pVal of None \<Rightarrow> t = [] | Some p \<Rightarrow> ptr_text o' p = Some t \<and> keepable copy p"
    "case pCom of None \<Rightarrow> True | Some p \<Rightarrow> keepable copy p \<and> ptr_text o' p \<noteq> None" "force \<longrightarrow> copy" "m_nOrder o' + 2 < 2 ^ 31"
  shows "\<exists>rc o''. AddEntry new_ok sec pKey pVal pCom force copy o' = Some (rc, o'') \<and> safe o'' \<and> base_same o' o''
    \<and> m_nOrder o' \<le> m_nOrder o'' \<and> m_nOrder o'' \<le> m_nOrder o' + 2
    \<and> (rc = SI_NOMEM \<and> copy \<and> (\<exists>n. \<not> new_ok n) \<and> partial_tab s k (tab_of o') (tab_of o'') \<or> rc = add_code s k (tab_of o')
       \<and> tab_of o'' = set_tab (m_bAllowMultiKey o') force s (map_option (\<lambda>k. (k, t)) k) (tab_of o'))"
proof -
  obtain rc com o1 where c: "(case pCom of None \<Rightarrow> Some (SI_OK, None, o')
      | Some p \<Rightarrow> do { (rc, p, o') \<leftarrow> copy_if new_ok copy p o'; Some (rc, Some p, o') }) = Some (rc, com, o1)"
    "safe o1" "grows o' o1" "m_data o1 = m_data o'" "m_nOrder o1 = m_nOrder o'"
    "rc = SI_NOMEM \<and> copy \<and> (\<exists>n. \<not> new_ok n) \<or> rc = SI_OK \<and> safe_with (set_option com) o1
       \<and> (copy \<longrightarrow> (\<forall>c. com = Some c \<longrightarrow> c \<notin> comments (m_data o') \<and> m_pFileComment o' \<noteq> Some c))"
    using copy_comment_ok [OF assms(1,7), of new_ok] by (elim exE conjE) (rule that)
  have tab1: "tab_of o1 = tab_of o'"
    using abs_grows(1) [OF c(3), of "stored (m_data o')" "comments (m_data o')" "m_data o'"] assms(1) c(4) by (simp add: safe_with_def)
  show ?thesis
  proof (cases "rc = SI_OK")
    case False
    then have "rc = SI_NOMEM \<and> copy \<and> (\<exists>n. \<not> new_ok n)"
      using c(6) by blast
    moreover have "AddEntry new_ok sec pKey pVal pCom force copy o' = (if rc < 0 then Some (rc, o1) else undefined)" if "rc < 0"
      unfolding AddEntry_def c(1) using that by simp
    ultimately show ?thesis
      using c(2,5) tab1 base_sameI(2) [OF c(3)] by (intro exI [of _ rc] exI [of _ o1]) simp
  next
    case True
    have fresh: "safe_with (set_option com) o1" "copy \<Longrightarrow> \<forall>c. com = Some c \<longrightarrow> c \<notin> comments (m_data o') \<and> m_pFileComment o' \<noteq> Some c"
      using c(6) True by auto
    have sec1: "ptr_text o1 sec = Some s"
      by (rule grows_text [OF c(3) assms(2)])
    have "mem_ok (stored (m_data o1)) (comments (m_data o1)) o1"
      using c(2) by (simp add: safe_with_def)
    then have "readable o1 (m_data o1)"
      using mem_ok_tables(1) [of "stored (m_data o1)" _ o1 "m_data o1"] by simp
    then have find: "find_entry o1 s (m_data o1) = Some (search IsLess s (map fst (tab_of o')))"
      by (simp add: find_entry_eq names_of_abs(2) tab1)
    let ?sec = "search IsLess s (map fst (tab_of o'))"
    let ?add = "add_section new_ok sec (pKey = None) com copy o1"
    obtain rc2 i o2 where a: "(case ?sec of Some i \<Rightarrow> Some (SI_OK, i, o1) | None \<Rightarrow> ?add) = Some (rc2, i, o2)"
      "safe_with (set_option com) o2" "grows o1 o2"
      "rc2 = SI_NOMEM \<and> copy \<and> (\<exists>n. \<not> new_ok n) \<and> m_nOrder o2 = m_nOrder o' \<and> tab_of o2 = tab_of o'
       \<or> rc2 = SI_OK \<and> (i, tab_of o2) = open_section s (tab_of o') \<and> i < length (m_data o2) \<and> m_nOrder o' \<le> m_nOrder o2
         \<and> m_nOrder o2 \<le> m_nOrder o' + 1 \<and> (pKey \<noteq> None \<longrightarrow> comments (m_data o2) = comments (m_data o'))"
    proof (cases ?sec)
      case None
      then show thesis
        using that add_section_ok [OF fresh(1) sec1 assms(3), of new_ok "pKey = None"] assms(9) c(4,5) unfolding tab1 by fastforce
    next
      case (Some i)
      have "i < length (m_data o1)"
        using search_valid [OF Some] c(4) by simp
      then show thesis
        using that [of SI_OK i o1] Some fresh(1) c(4,5) tab1 by (simp add: open_found)
    qed
    have base2: "base_same o' o2"
      by (rule base_same_trans [OF base_sameI(2) [OF c(3)] base_sameI(2) [OF a(3)]])
    have safe2: "safe o2"
      using a(2) unfolding safe_with_def by (rule mem_ok_mono) auto
    have run: "AddEntry new_ok sec pKey pVal pCom force copy o' = (if rc2 < 0 then Some (rc2, o2) else (case pKey of
        None \<Rightarrow> Some (if ?sec = None then SI_INSERTED else SI_UPDATED, o2)
      | Some key \<Rightarrow> add_key new_ok sec key pVal com force copy i o2))"
      unfolding AddEntry_def c(1) True using a(1) by (simp add: sec1 find)
    show ?thesis
    proof (cases "rc2 = SI_OK")
      case False
      then show ?thesis
        using run a(4) safe2 base2 by auto
    next
      case rc2: True
      then have o2: "(i, tab_of o2) = open_section s (tab_of o')" "i < length (m_data o2)" "m_nOrder o' \<le> m_nOrder o2" "m_nOrder o2 \<le> m_nOrder o' + 1"
        "pKey \<noteq> None \<Longrightarrow> comments (m_data o2) = comments (m_data o')"
        using a(4) by auto
      show ?thesis
      proof (cases pKey)
        case None
        then have "k = None"
          using assms(4) by (simp add: reads_opt_def)
        then show ?thesis
          using None run rc2 safe2 base2 o2 by (simp add: add_code_def set_tab_def flip: o2(1))
      next
        case (Some key)
        then obtain kt where k: "k = Some kt" "ptr_text o' key = Some kt" "keepable copy key"
          using assms(4,5) by (auto simp: reads_opt_def)
        have g: "grows o' o2"
          by (rule grows_trans [OF c(3) a(3)])
        have multi: "m_bAllowMultiKey o2 = m_bAllowMultiKey o'"
          by (rule settings_multi) (use g in \<open>simp add: grows_def\<close>)
        let ?kv = "snd (tab_of o2 ! i)"
        have val: "case pVal of None \<Rightarrow> t = [] | Some p \<Rightarrow> ptr_text o2 p = Some t \<and> keepable copy p"
          using assms(6) grows_text [OF g] by (auto split: option.splits)
        have old: "search IsLess s (map fst (tab_of o2)) = Some i" if "search IsLess kt (map fst ?kv) \<noteq> None"
        proof (cases ?sec)
          case None
          then have "?kv = []"
            using o2(1) nocase.upper_le [of s "map fst (tab_of o')"] by (simp add: open_section_def Let_def nth_append)
          then show ?thesis
            using that by (simp add: search_def lower_def)
        next
          case (Some i')
          then show ?thesis
            using o2(1) by (simp add: open_found)
        qed
        have fcom: "m_pFileComment o2 = m_pFileComment o'"
          using base2 by (simp add: base_same_def)
        let ?R = "replacing (m_bAllowMultiKey o2) force (search IsLess kt (map fst ?kv))"
        have keep: "\<not> is_copy sec" and order: "m_nOrder o2 + 1 < 2 ^ 31"
          using assms(3,9) o2(4) by (simp_all add: keepable_def)
        have rep: "?R \<longrightarrow> search IsLess s (map fst (tab_of o2)) = Some i"
          using old by (simp add: replacing_def)
        have fr: "?R \<longrightarrow> (\<forall>c. com = Some c \<longrightarrow> c \<notin> comments (m_data o2) \<and> m_pFileComment o2 \<noteq> Some c)"
          using fresh(2) o2(5) Some fcom assms(8) by (simp add: replacing_def)
        obtain rc3 o3 where r: "add_key new_ok sec key pVal com force copy i o2 = Some (rc3, o3)" "safe o3" "base_same o2 o3"
          "m_nOrder o3 = m_nOrder o2 + 1" "rc3 = SI_NOMEM \<and> copy \<and> (\<exists>n. \<not> new_ok n)
             \<and> (tab_of o3 = tab_of o2 \<or> tab_of o3 = (tab_of o2)[i := (fst (tab_of o2 ! i), snd (del_keys kt None ?kv))]) \<or> rc3 = key_code kt ?kv
             \<and> tab_of o3 = (tab_of o2)[i := (fst (tab_of o2 ! i), set_key (m_bAllowMultiKey o') force kt t ?kv)]"
          using add_key_ok [OF a(2) grows_text [OF g assms(2)] keep grows_text [OF g k(2)] k(3) val o2(2) order rep fr, where new_ok = new_ok]
          unfolding multi by (elim exE conjE) (rule that)
        have "AddEntry new_ok sec pKey pVal pCom force copy o' = Some (rc3, o3)"
          using run rc2 Some r(1) by simp
        moreover have "set_tab (m_bAllowMultiKey o') force s (Some (kt, t)) (tab_of o')
            = (tab_of o2)[i := (fst (tab_of o2 ! i), set_key (m_bAllowMultiKey o') force kt t ?kv)]"
          "add_code s (Some kt) (tab_of o') = key_code kt ?kv"
          by (simp_all only: set_tab_def add_code_def o2(1) [symmetric] Let_def prod.case option.case)
        moreover have "partial_tab s (Some kt) (tab_of o') (tab_of o2)"
          "partial_tab s (Some kt) (tab_of o') ((tab_of o2)[i := (fst (tab_of o2 ! i), snd (del_keys kt None ?kv))])"
          unfolding partial_tab_def o2(1) [symmetric] by simp_all
        ultimately show ?thesis
          using r(2,4,5) base_same_trans [OF base2 r(3)] o2(3,4) k(1) by auto
      qed
    qed
  qed
qed

end
