(* ===== verification/Ini_Spec.thy ===== *)
theory Ini_Spec
  imports Ini_Add "HOL-Library.Sublist"
begin

text \<open>
  What a \<open>CSimpleIni\<close> stores, as a function of names: the sections there are, and the values a key
  has in a section, in the order of their insertion. The operations on the texts of the tables are
  updates of this function, on tables that are in order.
\<close>

section \<open>The specification\<close>

definition has_section :: "tab \<Rightarrow> int list \<Rightarrow> bool" where
  "has_section X s \<longleftrightarrow> vals name_key s X \<noteq> []"

definition values_of :: "tab \<Rightarrow> int list \<Rightarrow> int list \<Rightarrow> string list" where
  "values_of X s k = (case vals name_key s X of [] \<Rightarrow> [] | kv # _ \<Rightarrow> vals name_key k kv)"

definition ordered_tab :: "tab \<Rightarrow> bool" where
  "ordered_tab X \<longleftrightarrow> sorted_wrt (<) (map name_key (map fst X)) \<and> (\<forall>x \<in> set X. sorted (map name_key (map fst (snd x))))"

lemma ordered_tab_Nil [simp]: "ordered_tab []"
  by (simp add: ordered_tab_def)

lemma ordered_sorted: "ordered_tab X \<Longrightarrow> sorted (map name_key (map fst X))"
  by (simp add: ordered_tab_def strict_sorted_iff)

lemma ordered_at: "ordered_tab X \<Longrightarrow> i < length X \<Longrightarrow> sorted (map name_key (map fst (snd (X ! i))))"
  unfolding ordered_tab_def using nth_mem by blast

section \<open>Keys\<close>

lemma ins_key_sorted: "sorted (map name_key (map fst kv)) \<Longrightarrow> sorted (map name_key (map fst (ins_key k v kv)))"
  using nocase.insert_sorted [of "map fst kv" _ k] by (simp add: ins_key_def Let_def take_map drop_map)

lemma vals_ins_key:
  "sorted (map name_key (map fst kv)) \<Longrightarrow>
   vals name_key k' (ins_key k v kv) = vals name_key k' kv @ (if name_key k = k' then [v] else [])"
  using nocase.vals_insert [of kv _ "(k, v)" k'] by (simp add: ins_key_def Let_def)

lemma sorted_wrt_subseq: "subseq xs ys \<Longrightarrow> sorted_wrt R ys \<Longrightarrow> sorted_wrt R xs"
  by (induction rule: list_emb.induct) (auto dest: list_emb_set)

lemma del_keys_subseq: "subseq (snd (del_keys k t kv)) kv"
proof (cases "search IsLess k (map fst kv)")
  case (Some j)
  let ?A = "takeWhile (\<lambda>y. \<not> IsLess k (fst y)) (drop j kv)" and ?B = "dropWhile (\<lambda>y. \<not> IsLess k (fst y)) (drop j kv)"
  have "subseq (take j kv @ filter (\<lambda>y. \<not> hits t (snd y)) ?A @ ?B) (take j kv @ ?A @ ?B)"
    by (intro list_emb_append_mono subseq_order.order_refl subseq_filter_left)
  then show ?thesis
    using Some by (simp add: del_keys_def Let_def)
qed (simp add: del_keys_def)

lemma del_keys_sorted:
  assumes "sorted (map name_key (map fst kv))"
  shows "sorted (map name_key (map fst (snd (del_keys k t kv))))"
  using sorted_wrt_subseq [OF del_keys_subseq] assms by (simp add: sorted_wrt_map)

lemma vals_del_keys:
  assumes "sorted (map name_key (map fst kv))"
  shows "vals name_key k' (snd (del_keys k t kv))
      = (if k' = name_key k then filter (\<lambda>v. \<not> hits t v) (vals name_key k' kv) else vals name_key k' kv)"
    "fst (del_keys k t kv) \<longleftrightarrow> (\<exists>v \<in> set (vals name_key (name_key k) kv). hits t v)"
proof -
  show "vals name_key k' (snd (del_keys k t kv))
      = (if k' = name_key k then filter (\<lambda>v. \<not> hits t v) (vals name_key k' kv) else vals name_key k' kv)"
  proof (cases "search IsLess k (map fst kv)")
    case None
    then have "vals name_key (name_key k) kv = []"
      using nocase.vals_found(2) [OF assms] by simp
    then show ?thesis
      using None by (simp add: del_keys_def)
  next
    case (Some j)
    then show ?thesis
      using nocase.vals_delete [OF assms Some refl refl, of k' "\<lambda>v. \<not> hits t v"] by (simp add: del_keys_def Let_def)
  qed
  show "fst (del_keys k t kv) \<longleftrightarrow> (\<exists>v \<in> set (vals name_key (name_key k) kv). hits t v)"
  proof (cases "search IsLess k (map fst kv)")
    case None
    then have "vals name_key (name_key k) kv = []"
      using nocase.vals_found(2) [OF assms] by simp
    then show ?thesis
      using None by (simp add: del_keys_def)
  next
    case (Some j)
    obtain A B where s: "kv = take j kv @ A @ B" "A = takeWhile (\<lambda>x. \<not> IsLess k (fst x)) (drop j kv)"
      "\<And>x. x \<in> set A \<Longrightarrow> name_key (fst x) = name_key k" "\<And>x. x \<in> set B \<Longrightarrow> name_key k < name_key (fst x)"
      "\<And>x. x \<in> set (take j kv) \<Longrightarrow> name_key (fst x) < name_key k"
      using nocase.find_split [OF assms Some] by metis
    have "vals name_key (name_key k) (take j kv) = []" "vals name_key (name_key k) B = []"
      by (rule vals_apart(1), erule s(5), rule vals_apart(2), erule s(4))
    moreover have "vals name_key (name_key k) kv = vals name_key (name_key k) (take j kv) @ vals name_key (name_key k) A @ vals name_key (name_key k) B"
      using s(1) by (metis vals_simps(3))
    moreover have "vals name_key (name_key k) A = map snd A"
      using s(3) unfolding vals_def by (subst filter_True) auto
    ultimately show ?thesis
      using Some by (simp add: del_keys_def Let_def s(2))
  qed
qed

lemma map_fst_update: "map fst (xs[j := (fst (xs ! j), v)]) = map fst xs"
proof (cases "j < length xs")
  case True
  then show ?thesis
    by (metis fst_conv list_update_id map_update nth_map)
qed (simp add: list_update_beyond not_less)

lemma set_key_sorted: "sorted (map name_key (map fst kv)) \<Longrightarrow> sorted (map name_key (map fst (set_key multi force k v kv)))"
proof -
  assume kv: "sorted (map name_key (map fst kv))"
  show ?thesis
    using map_fst_update [of kv] ins_key_sorted [OF kv] ins_key_sorted [OF del_keys_sorted [OF kv]] kv
    by (auto simp: set_key_def simp del: map_map split: option.splits)
qed

text \<open>What becomes of the values of a key.\<close>

definition new_values :: "bool \<Rightarrow> bool \<Rightarrow> string \<Rightarrow> string list \<Rightarrow> string list" where
  "new_values multi force v vs = (if multi \<and> \<not> force then vs @ [v] else if multi then [v] else v # tl vs)"

lemma vals_set_key:
  assumes "sorted (map name_key (map fst kv))"
  shows "vals name_key k' (set_key multi force k v kv)
    = (if k' = name_key k then new_values multi force v (vals name_key k' kv) else vals name_key k' kv)"
proof (cases "search IsLess k (map fst kv)")
  case None
  then have "vals name_key (name_key k) kv = []"
    using nocase.vals_found(2) [OF assms] by simp
  then show ?thesis
    using None vals_ins_key [OF assms] by (auto simp: set_key_def new_values_def)
next
  case (Some j)
  show ?thesis
    using Some vals_ins_key [OF assms] vals_ins_key [OF del_keys_sorted [OF assms]] vals_del_keys(1) [OF assms, of _ k None]
      nocase.vals_update [OF assms Some]
    by (auto simp: set_key_def new_values_def hits_def)
qed

section \<open>Sections\<close>

lemma search_strict:
  assumes "ordered_tab X" "i < length X"
  shows "search IsLess (fst (X ! i)) (map fst X) = Some i" "vals name_key (name_key (fst (X ! i))) X = [snd (X ! i)]"
proof -
  have strict: "sorted_wrt (<) (map name_key (map fst X))"
    using assms(1) by (simp add: ordered_tab_def)
  have less: "name_key (fst (X ! a)) < name_key (fst (X ! b))" if "a < b" "b < length X" for a b
    using sorted_wrt_nth_less [OF strict that(1)] that by simp
  let ?n = "fst (X ! i)"
  have "search IsLess ?n (map fst X) \<noteq> None"
    using nocase.search_None [OF ordered_sorted [OF assms(1)], of ?n] assms(2) by force
  then obtain j where j: "search IsLess ?n (map fst X) = Some j"
    by auto
  note found = nocase.search_Some [OF ordered_sorted [OF assms(1)] j]
  have "name_key (fst (X ! j)) = name_key ?n" "j < length X"
    using found by simp_all
  then have "\<not> j < i" "\<not> i < j"
    using less [of i j] less [of j i] assms(2) by force+
  then have "j = i"
    by simp
  then show "search IsLess ?n (map fst X) = Some i"
    using j by simp
  have X: "X = take i X @ X ! i # drop (Suc i) X"
    by (rule id_take_nth_drop [OF assms(2)])
  have "name_key (fst x) < name_key ?n" if "x \<in> set (take i X)" for x
    using that less [of _ i] assms(2) by (auto simp: in_set_conv_nth)
  moreover have "name_key ?n < name_key (fst x)" if "x \<in> set (drop (Suc i) X)" for x
    using that less [of i] assms(2) by (auto simp: in_set_conv_nth)
  ultimately have "vals name_key (name_key ?n) (take i X) = []" "vals name_key (name_key ?n) (drop (Suc i) X) = []"
    by (auto intro: vals_apart)
  then show "vals name_key (name_key ?n) X = [snd (X ! i)]"
    by (subst X) simp
qed

lemma search_key:
  assumes "ordered_tab X" "search IsLess s (map fst X) = Some i"
  shows "i < length X" "name_key (fst (X ! i)) = name_key s" "vals name_key (name_key s) X = [snd (X ! i)]"
  using nocase.search_Some(1,3) [OF ordered_sorted [OF assms(1)] assms(2)] search_strict(2) [OF assms(1), of i] by simp_all

lemma ordered_update:
  assumes "ordered_tab X" "i < length X" "sorted (map name_key (map fst kv))"
  shows "ordered_tab (X[i := (fst (X ! i), kv)])"
    "vals name_key s (X[i := (fst (X ! i), kv)]) = (if s = name_key (fst (X ! i)) then [kv] else vals name_key s X)"
proof -
  show "ordered_tab (X[i := (fst (X ! i), kv)])"
    using assms map_fst_update [of X i kv] by (auto simp: ordered_tab_def dest!: set_update_subset_insert [THEN subsetD])
  show "vals name_key s (X[i := (fst (X ! i), kv)]) = (if s = name_key (fst (X ! i)) then [kv] else vals name_key s X)"
    using nocase.vals_update [OF ordered_sorted [OF assms(1)] search_strict(1) [OF assms(1,2)], of s kv] search_strict(2) [OF assms(1,2)]
    by simp
qed

lemma ordered_remove:
  assumes "ordered_tab X" "i < length X"
  shows "ordered_tab (take i X @ drop (i + 1) X)"
    "vals name_key s (take i X @ drop (i + 1) X) = (if s = name_key (fst (X ! i)) then [] else vals name_key s X)"
proof -
  have X: "X = take i X @ X ! i # drop (Suc i) X"
    by (rule id_take_nth_drop [OF assms(2)])
  have "subseq (take i X @ drop (i + 1) X) (take i X @ X ! i # drop (Suc i) X)"
    by (intro list_emb_append_mono) (auto intro: list_emb_Cons)
  then have sub: "subseq (take i X @ drop (i + 1) X) X"
    using X by simp
  have "sorted_wrt (\<lambda>x y. name_key (fst x) < name_key (fst y)) X"
    using assms(1) by (simp add: ordered_tab_def sorted_wrt_map)
  then show "ordered_tab (take i X @ drop (i + 1) X)"
    using sorted_wrt_subseq [OF sub] assms(1) in_set_takeD [of _ i X] in_set_dropD [of _ "i + 1" X]
    unfolding ordered_tab_def sorted_wrt_map by auto
  have "vals name_key s X = vals name_key s (take i X) @ vals name_key s (X ! i # drop (Suc i) X)"
    by (subst X) (simp only: vals_simps(3))
  then show "vals name_key s (take i X @ drop (i + 1) X) = (if s = name_key (fst (X ! i)) then [] else vals name_key s X)"
    using search_strict(2) [OF assms] by (cases "s = name_key (fst (X ! i))") (auto simp: Cons_eq_append_conv)
qed

lemma open_section_ordered:
  assumes "ordered_tab X" "open_section s X = (i, Y)"
  shows "ordered_tab Y" "i < length Y" "name_key (fst (Y ! i)) = name_key s"
    "vals name_key s' Y = (if s' = name_key s \<and> vals name_key s' X = [] then [[]] else vals name_key s' X)"
proof -
  have "ordered_tab Y \<and> i < length Y \<and> name_key (fst (Y ! i)) = name_key s
    \<and> vals name_key s' Y = (if s' = name_key s \<and> vals name_key s' X = [] then [[]] else vals name_key s' X)"
  proof (cases "search IsLess s (map fst X)")
    case None
    let ?i = "upper IsLess s (map fst X)"
    have Y: "Y = take ?i X @ (s, []) # drop ?i X" "i = ?i" "?i \<le> length X"
      using assms(2) None nocase.upper_le [of s "map fst X"] by (auto simp: open_section_def Let_def)
    have "name_key s \<notin> name_key ` set (map fst X)"
      using None nocase.search_None [OF ordered_sorted [OF assms(1)]] by simp
    moreover have "sorted_wrt (<) (map name_key (map fst X))"
      using assms(1) by (simp add: ordered_tab_def)
    ultimately have "sorted_wrt (<) (map name_key (map fst Y))"
      using nocase.insert_strict [of "map fst X" ?i s] Y(1) by (simp add: take_map drop_map)
    then have "ordered_tab Y"
      using assms(1) Y(1) by (auto simp: ordered_tab_def dest: in_set_takeD in_set_dropD)
    moreover have "vals name_key (name_key s) X = []"
      using nocase.vals_found(2) [OF ordered_sorted [OF assms(1)]] None by blast
    ultimately show ?thesis
      using nocase.vals_insert [OF ordered_sorted [OF assms(1)], of ?i "(s, [])" s'] Y by (simp add: nth_append)
  next
    case (Some j)
    then show ?thesis
      using assms search_key [OF assms(1) Some] by (auto simp: open_found)
  qed
  then show "ordered_tab Y" "i < length Y" "name_key (fst (Y ! i)) = name_key s"
    "vals name_key s' Y = (if s' = name_key s \<and> vals name_key s' X = [] then [[]] else vals name_key s' X)"
    by simp_all
qed

text \<open>\<open>AddEntry\<close>\<close>

lemma set_tab_spec:
  assumes "ordered_tab X"
  shows "ordered_tab (set_tab multi force s item X)"
    "has_section (set_tab multi force s item X) s' \<longleftrightarrow> s' = name_key s \<or> has_section X s'"
    "values_of (set_tab multi force s None X) s' k' = values_of X s' k'"
    "values_of (set_tab multi force s (Some (k, v)) X) s' k' =
      (if s' = name_key s \<and> k' = name_key k then new_values multi force v (values_of X s' k') else values_of X s' k')"
proof -
  obtain i Y where o: "open_section s X = (i, Y)"
    by (cases "open_section s X")
  note Y = open_section_ordered [OF assms o]
  have at: "sorted (map name_key (map fst (snd (Y ! i))))"
    by (rule ordered_at [OF Y(1,2)])
  note upd = ordered_update [OF Y(1,2) set_key_sorted [OF at]]
  have old: "values_of Y s' k' = values_of X s' k'" for s' k'
    using Y(4) [of s'] by (auto simp: values_of_def)
  show "ordered_tab (set_tab multi force s item X)"
    using o Y(1) upd(1) by (auto simp: set_tab_def split: option.splits)
  show "has_section (set_tab multi force s item X) s' \<longleftrightarrow> s' = name_key s \<or> has_section X s'"
    using o Y(3,4) upd(2) by (auto simp: set_tab_def has_section_def split: option.splits)
  show "values_of (set_tab multi force s None X) s' k' = values_of X s' k'"
    using o old by (simp add: set_tab_def)
  have "vals name_key (name_key s) Y = [snd (Y ! i)]"
    using search_strict(2) [OF Y(1,2)] Y(3) by simp
  then have "values_of X (name_key s) k' = vals name_key k' (snd (Y ! i))" for k'
    using old [of "name_key s" k'] by (simp add: values_of_def)
  then show "values_of (set_tab multi force s (Some (k, v)) X) s' k' =
      (if s' = name_key s \<and> k' = name_key k then new_values multi force v (values_of X s' k') else values_of X s' k')"
    using o Y(3) upd(2) vals_set_key [OF at] old [of s' k'] by (auto simp: set_tab_def values_of_def)
qed

text \<open>\<open>DeleteValue\<close>\<close>

lemma no_section:
  assumes "ordered_tab X" "search IsLess s (map fst X) = None"
  shows "vals name_key (name_key s) X = []" "\<not> has_section X (name_key s)" "values_of X (name_key s) k = []"
proof -
  show "vals name_key (name_key s) X = []"
    using nocase.vals_found(2) [OF ordered_sorted [OF assms(1)]] assms(2) by blast
  then show "\<not> has_section X (name_key s)" "values_of X (name_key s) k = []"
    by (simp_all add: has_section_def values_of_def)
qed

lemma removed_section:
  assumes "ordered_tab X" "search IsLess s (map fst X) = Some i"
  defines "Y \<equiv> take i X @ drop (i + 1) X"
  shows "ordered_tab Y" "has_section Y s' \<longleftrightarrow> has_section X s' \<and> s' \<noteq> name_key s"
    "values_of Y s' k' = (if s' = name_key s then [] else values_of X s' k')"
  using ordered_remove [OF assms(1) search_key(1) [OF assms(1,2)]] search_key(2) [OF assms(1,2)]
  unfolding Y_def by (simp_all add: has_section_def values_of_def)

lemma del_tab_section_spec:
  assumes "ordered_tab X" "del_tab s None t rm X = (b, Y)"
  shows "ordered_tab Y" "b \<longleftrightarrow> has_section X (name_key s)"
    "values_of Y s' k' = (if s' = name_key s then [] else values_of X s' k')" "has_section Y s' \<longleftrightarrow> has_section X s' \<and> s' \<noteq> name_key s"
proof -
  have "ordered_tab Y \<and> (b \<longleftrightarrow> has_section X (name_key s)) \<and> values_of Y s' k' = (if s' = name_key s then [] else values_of X s' k')
    \<and> (has_section Y s' \<longleftrightarrow> has_section X s' \<and> s' \<noteq> name_key s)"
  proof (cases "search IsLess s (map fst X)")
    case None
    then show ?thesis
      using assms no_section [OF assms(1) None] by (auto simp: del_tab_def)
  next
    case (Some i)
    then show ?thesis
      using assms removed_section [OF assms(1) Some] search_key(3) [OF assms(1) Some] by (auto simp: del_tab_def has_section_def)
  qed
  then show "ordered_tab Y" "b \<longleftrightarrow> has_section X (name_key s)"
    "values_of Y s' k' = (if s' = name_key s then [] else values_of X s' k')" "has_section Y s' \<longleftrightarrow> has_section X s' \<and> s' \<noteq> name_key s"
    by simp_all
qed

lemma all_vals_Nil: "(\<forall>k. vals name_key k kv = []) \<longleftrightarrow> kv = []"
proof (cases kv)
  case (Cons x xs)
  then have "vals name_key (name_key (fst x)) kv \<noteq> []"
    by simp
  then show ?thesis
    using Cons by blast
qed simp

lemma del_tab_spec:
  assumes "ordered_tab X" "del_tab s (Some k) t rm X = (b, Y)"
  shows "ordered_tab Y" "b \<longleftrightarrow> (\<exists>v \<in> set (values_of X (name_key s) (name_key k)). hits t v)"
    "values_of Y s' k' = (if s' = name_key s \<and> k' = name_key k then filter (\<lambda>v. \<not> hits t v) (values_of X s' k') else values_of X s' k')"
    "has_section Y s' \<longleftrightarrow> has_section X s' \<and> \<not> (s' = name_key s \<and> b \<and> rm \<and> (\<forall>k. values_of Y s' k = []))"
proof -
  let ?V = "\<lambda>s' k'. values_of Y s' k' = (if s' = name_key s \<and> k' = name_key k then filter (\<lambda>v. \<not> hits t v) (values_of X s' k') else values_of X s' k')"
  have "ordered_tab Y \<and> (b \<longleftrightarrow> (\<exists>v \<in> set (values_of X (name_key s) (name_key k)). hits t v)) \<and> ?V s' k'
    \<and> (has_section Y s' \<longleftrightarrow> has_section X s' \<and> \<not> (s' = name_key s \<and> b \<and> rm \<and> (\<forall>k. values_of Y s' k = [])))"
  proof (cases "search IsLess s (map fst X)")
    case None
    then have "b = False" "Y = X"
      using assms(2) by (simp_all add: del_tab_def)
    then show ?thesis
      using assms(1) no_section(3) [OF assms(1) None] by auto
  next
    case (Some i)
    note key = search_key [OF assms(1) Some]
    let ?kv = "snd (X ! i)"
    have at: "sorted (map name_key (map fst ?kv))"
      by (rule ordered_at [OF assms(1) key(1)])
    obtain b' kv' where d: "del_keys k t ?kv = (b', kv')"
      by (cases "del_keys k t ?kv")
    have b: "b' \<longleftrightarrow> (\<exists>v \<in> set (vals name_key (name_key k) ?kv). hits t v)"
      using vals_del_keys(2) [OF at, of k t] d by simp
    have v: "vals name_key k' kv' = (if k' = name_key k then filter (\<lambda>v. \<not> hits t v) (vals name_key k' ?kv) else vals name_key k' ?kv)" for k'
      using vals_del_keys(1) [OF at, of k' k t] d by simp
    have old: "values_of X (name_key s) k' = vals name_key k' ?kv" for k'
      using key(3) by (simp add: values_of_def)
    have run: "(b, Y) = (if b' \<and> rm \<and> kv' = [] then (True, take i X @ drop (i + 1) X) else (b', X[i := (fst (X ! i), kv')]))"
      using assms(2) Some d by (simp add: del_tab_def)
    show ?thesis
    proof (cases "b' \<and> rm \<and> kv' = []")
      case True
      then have Y: "b = b'" "Y = take i X @ drop (i + 1) X"
        using run by simp_all
      have "(if k' = name_key k then filter (\<lambda>v. \<not> hits t v) (vals name_key k' ?kv) else vals name_key k' ?kv) = []"
        using v [of k'] True by simp
      then have "?V s' k'"
        using removed_section(3) [OF assms(1) Some] old [of k'] Y(2) by (auto split: if_splits)
      moreover have "values_of Y (name_key s) k = []" for k
        using removed_section(3) [OF assms(1) Some] Y(2) by simp
      ultimately show ?thesis
        using removed_section(1,2) [OF assms(1) Some] True Y b old by auto
    next
      case False
      then have Y: "b = b'" "Y = X[i := (fst (X ! i), kv')]"
        using run unfolding if_not_P [OF False] by simp_all
      have sorted: "sorted (map name_key (map fst kv'))"
        using del_keys_sorted [OF at, of k t] d by simp
      note upd = ordered_update [OF assms(1) key(1) sorted]
      have new: "values_of Y s' k' = (if s' = name_key s then vals name_key k' kv' else values_of X s' k')" for s' k'
        using upd(2) key(2) Y(2) by (simp add: values_of_def)
      have sec: "has_section Y s' \<longleftrightarrow> has_section X s'"
        using upd(2) key(2,3) Y(2) by (auto simp: has_section_def)
      have "\<not> (b \<and> rm \<and> (\<forall>k. values_of Y (name_key s) k = []))"
        using False Y(1) by (simp add: new all_vals_Nil)
      then show ?thesis
        using upd(1) Y b v old new sec by auto
    qed
  qed
  then show "ordered_tab Y" "b \<longleftrightarrow> (\<exists>v \<in> set (values_of X (name_key s) (name_key k)). hits t v)" "?V s' k'"
    "has_section Y s' \<longleftrightarrow> has_section X s' \<and> \<not> (s' = name_key s \<and> b \<and> rm \<and> (\<forall>k. values_of Y s' k = []))"
    by blast+
qed

end
