(* ===== verification/Ini_Object.thy ===== *)
theory Ini_Object
  imports Ini_Spec
begin

text \<open>
  \<open>CSimpleIni\<close> as its callers see it. \<open>ini_ok\<close> is the invariant of an object: every pointer in its
  tables can be read, no copy is held twice, and the tables are in order. Every operation returns,
  keeps it, and acts on the values of the keys (\<open>values_of\<close>) as its comment in the header says.
\<close>

section \<open>The invariant\<close>

definition ini_ok :: "CSimpleIni \<Rightarrow> bool" where
  "ini_ok o' \<longleftrightarrow> safe o' \<and> ordered_tab (tab_of o')"

definition texts :: "CSimpleIni \<Rightarrow> string \<Rightarrow> string \<Rightarrow> string list" where
  "texts o' s k = values_of (tab_of o') (name_key s) (name_key k)"

definition sections :: "CSimpleIni \<Rightarrow> string \<Rightarrow> bool" where
  "sections o' s \<longleftrightarrow> has_section (tab_of o') (name_key s)"

lemma mem_ok_empty: "m_pFileComment o' = None \<Longrightarrow> distinct (map fst (m_strings o')) \<Longrightarrow> \<forall>n \<in> fst ` set (m_strings o'). n < allocs o'
  \<Longrightarrow> mem_ok {#} {} o'"
  by (simp add: mem_ok_def)

lemma Reset_ok: "ini_ok (Reset o')" "texts (Reset o') s k = []" "\<not> sections (Reset o') s"
  by (simp_all add: ini_ok_def texts_def sections_def Reset_def safe_with_def values_of_def has_section_def mem_ok_empty)

lemma ctor_ok: "ini_ok (CSimpleIni_ctor u mk ml)" "texts (CSimpleIni_ctor u mk ml) s k = []"
  by (simp_all add: ini_ok_def texts_def CSimpleIni_ctor_def safe_with_def values_of_def mem_ok_empty)

text \<open>Setting a flag changes neither the tables nor the memory.\<close>

lemma flag_ok:
  assumes "m_data o'' = m_data o'" "m_pData o'' = m_pData o'" "m_strings o'' = m_strings o'" "allocs o'' = allocs o'"
    "m_pFileComment o'' = m_pFileComment o'"
  shows "ini_ok o'' = ini_ok o'" "texts o'' s k = texts o' s k" "sections o'' s = sections o' s"
proof -
  have "tab_of o'' = tab_of o'"
    unfolding assms(1) by (rule abs_data_cong) (simp add: text_of_def ptr_text_cong [OF assms(2,3)])
  then show "ini_ok o'' = ini_ok o'" "texts o'' s k = texts o' s k" "sections o'' s = sections o' s"
    using assms mem_ok_cong [OF assms(2,3,4,5)] by (simp_all add: ini_ok_def texts_def sections_def safe_with_def)
qed

section \<open>Updates\<close>

lemma partial_tab_ordered:
  assumes "ordered_tab X" "partial_tab s k X X'"
  shows "ordered_tab X'"
proof -
  obtain i Y where o: "open_section s X = (i, Y)"
    by (cases "open_section s X")
  note Y = open_section_ordered [OF assms(1) o]
  have "ordered_tab (Y[i := (fst (Y ! i), snd (del_keys k' None (snd (Y ! i))))])" for k'
    by (rule ordered_update(1) [OF Y(1,2) del_keys_sorted [OF ordered_at [OF Y(1,2)]]])
  then show ?thesis
    using assms o Y(1) by (auto simp: partial_tab_def)
qed

lemma add_code_nonneg: "0 \<le> add_code s k X"
  by (auto simp: add_code_def key_code_def split: option.splits prod.splits)

text \<open>The text arguments of \<open>SetValue\<close> come from the caller.\<close>

lemma reads_caller [simp]: "reads_opt o' (map_option Caller k) k"
  by (cases k) (simp_all add: reads_opt_def)

lemma SetValue_ok:
  assumes "ini_ok o'" "m_nOrder o' + 2 < 2 ^ 31"
  shows "\<exists>rc o''. SetValue new_ok (Caller s) (map_option Caller k) (map_option Caller v) (map_option Caller c) force o' = Some (rc, o'')
    \<and> ini_ok o'' \<and> base_same o' o'' \<and> m_nOrder o'' \<le> m_nOrder o' + 2 \<and> (rc < 0 \<longrightarrow> rc = SI_NOMEM \<and> (\<exists>n. \<not> new_ok n))
    \<and> (0 \<le> rc \<longrightarrow> rc = add_code s k (tab_of o') \<and> tab_of o'' = set_tab (m_bAllowMultiKey o') force s (map_option (\<lambda>k. (k, case v of None \<Rightarrow> '''' | Some v \<Rightarrow> v)) k) (tab_of o'))"
proof -
  have "safe o'" "ordered_tab (tab_of o')"
    using assms(1) by (simp_all add: ini_ok_def)
  have args: "ptr_text o' (Caller s) = Some s" "keepable True (Caller s)" "\<forall>p. map_option Caller k = Some p \<longrightarrow> keepable True p"
    "case map_option Caller v of None \<Rightarrow> (case v of None \<Rightarrow> '''' | Some v \<Rightarrow> v) = []
      | Some p \<Rightarrow> ptr_text o' p = Some (case v of None \<Rightarrow> '''' | Some v \<Rightarrow> v) \<and> keepable True p"
    "case map_option Caller c of None \<Rightarrow> True | Some p \<Rightarrow> keepable True p \<and> ptr_text o' p \<noteq> None"
    by (auto simp: keepable_def split: option.splits)
  note add = AddEntry_ok [where sec = "Caller s" and s = s and copy = True and pKey = "map_option Caller k" and k = k
      and pVal = "map_option Caller v" and t = "case v of None \<Rightarrow> '''' | Some v \<Rightarrow> v" and pCom = "map_option Caller c"
      and force = force and new_ok = new_ok,
      OF \<open>safe o'\<close> args(1,2) reads_caller args(3-5)]
  obtain rc o'' where a: "AddEntry new_ok (Caller s) (map_option Caller k) (map_option Caller v) (map_option Caller c) force True o' = Some (rc, o'')"
    "safe o''" "base_same o' o''" "m_nOrder o'' \<le> m_nOrder o' + 2"
    "rc = SI_NOMEM \<and> (\<exists>n. \<not> new_ok n) \<and> partial_tab s k (tab_of o') (tab_of o'')
     \<or> rc = add_code s k (tab_of o') \<and> tab_of o'' = set_tab (m_bAllowMultiKey o') force s
         (map_option (\<lambda>k. (k, case v of None \<Rightarrow> '''' | Some v \<Rightarrow> v)) k) (tab_of o')"
    using add assms(2) by auto
  have "ordered_tab (tab_of o'')"
    using a(5) partial_tab_ordered [OF \<open>ordered_tab (tab_of o')\<close>] set_tab_spec(1) [OF \<open>ordered_tab (tab_of o')\<close>] by auto
  then show ?thesis
    using a add_code_nonneg [of s k "tab_of o'"] by (auto simp: SetValue_def ini_ok_def)
qed

lemma DeleteValue_caller_ok:
  assumes "ini_ok o'"
  shows "\<exists>b o''. DeleteValue (Some (Caller s)) (map_option Caller k) (map_option Caller v) rm o' = Some (b, o'')
    \<and> ini_ok o'' \<and> same_fields o' o'' \<and> (b, tab_of o'') = del_tab s k v rm (tab_of o')"
proof -
  have "safe o'" "ordered_tab (tab_of o')"
    using assms by (simp_all add: ini_ok_def)
  obtain b o'' where d: "DeleteValue (Some (Caller s)) (map_option Caller k) (map_option Caller v) rm o' = Some (b, o'')" "safe o''" "same_fields o' o''"
    "(b, tab_of o'') = del_tab s k v rm (tab_of o')"
    using DeleteValue_ok [OF \<open>safe o'\<close>, of "Caller s" s "map_option Caller k" k "map_option Caller v" v rm] by auto
  have "ordered_tab (tab_of o'')"
    using del_tab_spec(1) [OF \<open>ordered_tab (tab_of o')\<close>, of s _ v rm b "tab_of o''"]
      del_tab_section_spec(1) [OF \<open>ordered_tab (tab_of o')\<close>, of s v rm b "tab_of o''"] d(4) by (cases k) auto
  then show ?thesis
    using d by (simp add: ini_ok_def)
qed

section \<open>Queries\<close>

lemma find_section_entry:
  assumes "safe o'" "ptr_text o' sec = Some s"
  shows "GetSection (Some sec) o' = Some (map_option (\<lambda>i. snd (m_data o' ! i)) (search IsLess s (map fst (tab_of o'))))"
proof -
  have "mem_ok (stored (m_data o')) (comments (m_data o')) o'"
    using assms(1) by (simp add: safe_with_def)
  then have "readable o' (m_data o')"
    using mem_ok_tables(1) [of "stored (m_data o')" _ o' "m_data o'"] by simp
  then show ?thesis
    using assms(2) by (simp add: GetSection_def find_entry_eq names_of_abs)
qed

lemma find_keys_eq:
  assumes "ini_ok o'" "ptr_text o' sec = Some s" "ptr_text o' key = Some k"
  shows "\<exists>xs. find_keys (Some sec) (Some key) o' = Some xs \<and> readable o' xs \<and> (\<forall>x \<in> set xs. ptr_text o' (snd x) \<noteq> None)
    \<and> texts o' s k = map (\<lambda>x. text_of o' (snd x)) (takeWhile (\<lambda>x. \<not> IsLess k (text_of o' (pItem (fst x)))) xs)
    \<and> (xs \<noteq> [] \<longrightarrow> \<not> IsLess k (text_of o' (pItem (fst (hd xs)))))"
proof -
  have ok: "safe o'" "ordered_tab (tab_of o')" "mem_ok (stored (m_data o')) (comments (m_data o')) o'"
    using assms(1) by (simp_all add: ini_ok_def safe_with_def)
  note sec = find_section_entry [OF ok(1) assms(2)]
  show ?thesis
  proof (cases "search IsLess s (map fst (tab_of o'))")
    case None
    then show ?thesis
      using sec no_section(3) [OF ok(2) None] by (simp add: find_keys_def texts_def)
  next
    case (Some i)
    note at = find_keys_text [OF ok(3) _ Some, simplified]
    let ?kv = "snd (m_data o' ! i)"
    have kv: "abs_kv o' ?kv = snd (tab_of o' ! i)"
      using at(4) by simp
    have sorted: "sorted (map name_key (map fst (abs_kv o' ?kv)))"
      unfolding kv by (rule ordered_at [OF ok(2)]) (simp add: at(1))
    have vals: "texts o' s k = vals name_key (name_key k) (abs_kv o' ?kv)"
      using search_key(3) [OF ok(2) Some] unfolding kv by (simp add: texts_def values_of_def)
    have find: "find_entry o' k ?kv = Some (search IsLess k (map fst (abs_kv o' ?kv)))"
      using at(2) by (simp add: find_entry_eq names_of_abs)
    have ptrs: "ptr_text o' (snd x) \<noteq> None" if "x \<in> set ?kv" for x
    proof -
      have "snd x \<in># stored (m_data o')"
        using stored_member [OF nth_mem [OF at(1)]] kv_ptrs_member [OF that] by blast
      then show ?thesis
        using ok(3) by (auto simp: mem_ok_def)
    qed
    show ?thesis
    proof (cases "search IsLess k (map fst (abs_kv o' ?kv))")
      case none: None
      then show ?thesis
        using sec Some find assms(3) vals nocase.vals_found(2) [OF sorted, of k] by (simp add: find_keys_def)
    next
      case found: (Some j)
      obtain A B where s: "abs_kv o' ?kv = take j (abs_kv o' ?kv) @ A @ B" "A \<noteq> []"
        "A = takeWhile (\<lambda>x. \<not> IsLess k (fst x)) (drop j (abs_kv o' ?kv))"
        "\<And>x. x \<in> set A \<Longrightarrow> name_key (fst x) = name_key k" "\<And>x. x \<in> set B \<Longrightarrow> name_key k < name_key (fst x)"
        "\<And>x. x \<in> set (take j (abs_kv o' ?kv)) \<Longrightarrow> name_key (fst x) < name_key k"
        using nocase.find_split [OF sorted found] by metis
      have "vals name_key (name_key k) (take j (abs_kv o' ?kv)) = []" "vals name_key (name_key k) B = []"
        by (rule vals_apart(1), erule s(6), rule vals_apart(2), erule s(5))
      moreover have "vals name_key (name_key k) A = map snd A"
        using s(4) unfolding vals_def by (subst filter_True) auto
      ultimately have "texts o' s k = map snd A"
        unfolding vals using s(1) by (metis append_Nil append_Nil2 vals_simps(3))
      also have "\<dots> = map (\<lambda>x. text_of o' (snd x)) (takeWhile (\<lambda>x. \<not> IsLess k (text_of o' (pItem (fst x)))) (drop j ?kv))"
        unfolding s(3) abs_kv_simps(6) [symmetric] takeWhile_abs(1) [symmetric] by (simp add: abs_kv_def)
      finally have t: "texts o' s k = map (\<lambda>x. text_of o' (snd x)) (takeWhile (\<lambda>x. \<not> IsLess k (text_of o' (pItem (fst x)))) (drop j ?kv))" .
      have "\<not> IsLess k (text_of o' (pItem (fst (hd (drop j ?kv)))))" if "drop j ?kv \<noteq> []"
        using s(2) that unfolding s(3) abs_kv_simps(6) [symmetric] takeWhile_abs(1) [symmetric] by (cases "drop j ?kv") auto
      moreover have "readable o' (drop j ?kv)" "\<forall>x \<in> set (drop j ?kv). ptr_text o' (snd x) \<noteq> None"
        using at(2) ptrs by (auto simp: readable_def dest: in_set_dropD)
      ultimately show ?thesis
        using sec Some find found assms(3) t by (simp add: find_keys_def)
    qed
  qed
qed

text \<open>The text that \<open>GetValue\<close> gives to a caller.\<close>

definition get_text :: "CSimpleIni \<Rightarrow> string \<Rightarrow> string \<Rightarrow> string option option" where
  "get_text o' s k = do {
     (p, multi) \<leftarrow> GetValue (Some (Caller s)) (Some (Caller k)) None False o';
     (case p of None \<Rightarrow> Some None | Some p \<Rightarrow> do { t \<leftarrow> ptr_text o' p; Some (Some t) })
   }"

lemma GetValue_spec:
  assumes "ini_ok o'"
  shows "\<exists>p multi. GetValue (Some (Caller s)) (Some (Caller k)) def has o' = Some (p, multi)
    \<and> (case texts o' s k of [] \<Rightarrow> p = def | t # ts \<Rightarrow> \<exists>q. p = Some q \<and> ptr_text o' q = Some t)
    \<and> (multi \<longleftrightarrow> has \<and> m_bAllowMultiKey o' \<and> 1 < length (texts o' s k))"
proof -
  obtain xs where xs: "find_keys (Some (Caller s)) (Some (Caller k)) o' = Some xs" "readable o' xs" "\<forall>x \<in> set xs. ptr_text o' (snd x) \<noteq> None"
    "texts o' s k = map (\<lambda>x. text_of o' (snd x)) (takeWhile (\<lambda>x. \<not> IsLess k (text_of o' (pItem (fst x)))) xs)"
    "xs \<noteq> [] \<longrightarrow> \<not> IsLess k (text_of o' (pItem (fst (hd xs))))"
    using find_keys_eq [OF assms, of "Caller s" s "Caller k" k] by auto
  show ?thesis
  proof (cases xs)
    case Nil
    then show ?thesis
      using xs by (auto simp: GetValue_def)
  next
    case (Cons x ys)
    obtain e v where x: "x = (e, v)"
      by (cases x)
    obtain t where t: "ptr_text o' v = Some t"
      using xs(3) Cons x by auto
    show ?thesis
    proof (cases ys)
      case Nil
      then show ?thesis
        using xs(1,4,5) Cons x t by (auto simp: GetValue_def)
    next
      case (Cons y zs)
      obtain e' v' where y: "y = (e', v')"
        by (cases y)
      have "not_less o' (Caller k) (pItem e') = Some (\<not> IsLess k (text_of o' (pItem e')))"
        using xs(2) \<open>xs = x # ys\<close> Cons y by (intro not_less_eq(1)) simp_all
      then show ?thesis
        using xs(1,4,5) \<open>xs = x # ys\<close> Cons x y t by (simp add: GetValue_def)
    qed
  qed
qed

lemma get_text_spec: "ini_ok o' \<Longrightarrow> get_text o' s k = Some (case texts o' s k of [] \<Rightarrow> None | t # ts \<Rightarrow> Some t)"
  using GetValue_spec [of o' s k None False] by (auto simp: get_text_def split: list.splits)

lemma same_keys_eq:
  "readable o' xs \<Longrightarrow> ptr_text o' key = Some k \<Longrightarrow>
   same_keys o' key xs = Some (map (\<lambda>x. \<lparr>pItem = snd x, pComment = pComment (fst x), nOrder = nOrder (fst x)\<rparr>)
     (takeWhile (\<lambda>x. \<not> IsLess k (text_of o' (pItem (fst x)))) xs))"
  by (induction xs) (auto simp: not_less_eq)

lemma GetAllValues_spec:
  assumes "ini_ok o'"
  shows "\<exists>es. GetAllValues (Some (Caller s)) (Some (Caller k)) o' = Some (texts o' s k \<noteq> [], es)
    \<and> map (\<lambda>e. text_of o' (pItem e)) es = (if m_bAllowMultiKey o' then texts o' s k else take 1 (texts o' s k))"
proof -
  obtain xs where xs: "find_keys (Some (Caller s)) (Some (Caller k)) o' = Some xs" "readable o' xs"
    "texts o' s k = map (\<lambda>x. text_of o' (snd x)) (takeWhile (\<lambda>x. \<not> IsLess k (text_of o' (pItem (fst x)))) xs)"
    "xs \<noteq> [] \<longrightarrow> \<not> IsLess k (text_of o' (pItem (fst (hd xs))))"
    using find_keys_eq [OF assms, of "Caller s" s "Caller k" k] by auto
  show ?thesis
  proof (cases xs)
    case Nil
    then show ?thesis
      using xs by (simp add: GetAllValues_def)
  next
    case (Cons x ys)
    then show ?thesis
      using xs same_keys_eq [of o' ys "Caller k" k] by (cases x) (simp add: GetAllValues_def comp_def)
  qed
qed

lemma SectionExists_spec: "ini_ok o' \<Longrightarrow> SectionExists (Some (Caller s)) o' = Some (sections o' s)"
  using find_section_entry [of o' "Caller s" s] nocase.vals_found(2) [OF ordered_sorted, of "tab_of o'" s]
  by (auto simp: SectionExists_def sections_def has_section_def ini_ok_def)

section \<open>Setting and deleting\<close>

lemma set_section_codes:
  assumes "ordered_tab X"
  shows "add_code s (Some k) X = (if values_of X (name_key s) (name_key k) = [] then SI_INSERTED else SI_UPDATED)"
proof -
  obtain i Y where o: "open_section s X = (i, Y)"
    by (cases "open_section s X")
  note Y = open_section_ordered [OF assms o]
  have "vals name_key (name_key s) Y = [snd (Y ! i)]"
    using search_strict(2) [OF Y(1,2)] Y(3) by simp
  then have "values_of X (name_key s) (name_key k) = vals name_key (name_key k) (snd (Y ! i))"
    using Y(4) [of "name_key s"] by (auto simp: values_of_def split: if_splits)
  then show ?thesis
    using o nocase.vals_found(2) [OF ordered_at [OF Y(1,2)], of k] by (simp add: add_code_def key_code_def)
qed

lemma SetValue_effect:
  assumes "ini_ok o'" "m_nOrder o' + 2 < 2 ^ 31" "\<forall>n. new_ok n"
  shows "\<exists>o''. SetValue new_ok (Caller s) (Some (Caller k)) (Some (Caller v)) (map_option Caller c) force o'
      = Some (if texts o' s k = [] then SI_INSERTED else SI_UPDATED, o'') \<and> ini_ok o''
    \<and> (\<forall>s' k'. texts o'' s' k' = (if name_key s' = name_key s \<and> name_key k' = name_key k
        then new_values (m_bAllowMultiKey o') force v (texts o' s' k') else texts o' s' k'))
    \<and> (\<forall>s'. sections o'' s' \<longleftrightarrow> sections o' s' \<or> name_key s' = name_key s)
    \<and> (\<not> m_bAllowMultiKey o' \<or> force \<longrightarrow> get_text o'' s k = Some (Some v))"
proof -
  obtain rc o'' where r: "SetValue new_ok (Caller s) (Some (Caller k)) (Some (Caller v)) (map_option Caller c) force o' = Some (rc, o'')"
    "ini_ok o''" "rc = add_code s (Some k) (tab_of o')" "tab_of o'' = set_tab (m_bAllowMultiKey o') force s (Some (k, v)) (tab_of o')"
    using SetValue_ok [OF assms(1,2), of new_ok s "Some k" "Some v" c force] assms(3) by force
  have ord: "ordered_tab (tab_of o')"
    using assms(1) by (simp add: ini_ok_def)
  have vals: "texts o'' s' k' = (if name_key s' = name_key s \<and> name_key k' = name_key k
      then new_values (m_bAllowMultiKey o') force v (texts o' s' k') else texts o' s' k')" for s' k'
    using set_tab_spec(4) [OF ord] r(4) by (simp add: texts_def)
  have "get_text o'' s k = Some (Some v)" if "\<not> m_bAllowMultiKey o' \<or> force"
    using get_text_spec [OF r(2), of s k] vals [of s k] that by (auto simp: new_values_def)
  moreover have "sections o'' s' \<longleftrightarrow> sections o' s' \<or> name_key s' = name_key s" for s'
    using set_tab_spec(2) [OF ord] r(4) by (auto simp: sections_def)
  ultimately show ?thesis
    using r vals set_section_codes [OF ord, of s k] by (simp add: texts_def)
qed

text \<open>
  C21: setting a value. When no allocation fails, \<open>SetValue\<close> says whether the key was new and
  changes the values of this key in this section, and nothing else: without multiple keys the new
  value takes the place of the first one; with them it replaces all, if this is forced, or is added
  behind them. Section and key are found again under any spelling that differs in the case of letters.
\<close>

theorem SetValue_values:
  assumes "ini_ok o'" "m_nOrder o' + 2 < 2 ^ 31" "\<forall>n. new_ok n"
  shows "\<exists>o''. SetValue new_ok (Caller s) (Some (Caller k)) (Some (Caller v)) (map_option Caller c) force o'
      = Some (if texts o' s k = [] then SI_INSERTED else SI_UPDATED, o'') \<and> ini_ok o''
    \<and> (\<forall>s' k'. texts o'' s' k' = (if name_key s' = name_key s \<and> name_key k' = name_key k
        then new_values (m_bAllowMultiKey o') force v (texts o' s' k') else texts o' s' k'))
    \<and> (\<forall>s'. sections o'' s' \<longleftrightarrow> sections o' s' \<or> name_key s' = name_key s)
    \<and> (\<not> m_bAllowMultiKey o' \<or> force \<longrightarrow> get_text o'' s k = Some (Some v))"
  by (rule SetValue_effect [OF assms])

lemma SetValue_values_witness:
  "\<exists>o''. SetValue (\<lambda>_. True) (Caller ''ftp'') (Some (Caller ''PORT'')) (Some (Caller ''21'')) None False (CSimpleIni_ctor True False False)
      = Some (SI_INSERTED, o'') \<and> ini_ok o'' \<and> texts o'' ''FTP'' ''port'' = [''21'']"
proof -
  let ?o = "CSimpleIni_ctor True False False"
  have names: "name_key ''FTP'' = name_key ''ftp''" "name_key ''port'' = name_key ''PORT''"
    by (simp_all add: name_key_def char_val_def locase_def)
  have "m_nOrder ?o + 2 < 2 ^ 31" "\<not> m_bAllowMultiKey ?o"
    by (simp_all add: CSimpleIni_ctor_def)
  then show ?thesis
    using SetValue_values [OF ctor_ok(1) [of True False False], of "\<lambda>_. True" "''ftp''" "''PORT''" "''21''" None False] names
    by (auto simp: ctor_ok(2) new_values_def)
qed

lemma DeleteValue_both:
  assumes "ini_ok o'"
  shows "\<exists>o''. DeleteValue (Some (Caller s)) (Some (Caller k)) (map_option Caller v) rm o' = Some (\<exists>t \<in> set (texts o' s k). hits v t, o'')
      \<and> ini_ok o''
      \<and> (\<forall>s' k'. texts o'' s' k' = (if name_key s' = name_key s \<and> name_key k' = name_key k
            then filter (\<lambda>t. \<not> hits v t) (texts o' s' k') else texts o' s' k'))
      \<and> (\<forall>s'. sections o'' s' \<longleftrightarrow> sections o' s' \<and> \<not> (name_key s' = name_key s \<and> (\<exists>t \<in> set (texts o' s k). hits v t) \<and> rm
            \<and> (\<forall>k. values_of (tab_of o'') (name_key s) k = [])))"
    "\<exists>o''. DeleteValue (Some (Caller s)) None (map_option Caller v) rm o' = Some (sections o' s, o'') \<and> ini_ok o''
      \<and> (\<forall>s' k'. texts o'' s' k' = (if name_key s' = name_key s then [] else texts o' s' k'))
      \<and> (\<forall>s'. sections o'' s' \<longleftrightarrow> sections o' s' \<and> name_key s' \<noteq> name_key s)"
proof -
  have ord: "ordered_tab (tab_of o')"
    using assms by (simp add: ini_ok_def)
  obtain b o'' where d: "DeleteValue (Some (Caller s)) (Some (Caller k)) (map_option Caller v) rm o' = Some (b, o'')" "ini_ok o''"
    "del_tab s (Some k) v rm (tab_of o') = (b, tab_of o'')"
    using DeleteValue_caller_ok [OF assms, of s "Some k" v rm] by auto
  note spec = del_tab_spec [OF ord d(3)]
  show "\<exists>o''. DeleteValue (Some (Caller s)) (Some (Caller k)) (map_option Caller v) rm o' = Some (\<exists>t \<in> set (texts o' s k). hits v t, o'')
      \<and> ini_ok o''
      \<and> (\<forall>s' k'. texts o'' s' k' = (if name_key s' = name_key s \<and> name_key k' = name_key k
            then filter (\<lambda>t. \<not> hits v t) (texts o' s' k') else texts o' s' k'))
      \<and> (\<forall>s'. sections o'' s' \<longleftrightarrow> sections o' s' \<and> \<not> (name_key s' = name_key s \<and> (\<exists>t \<in> set (texts o' s k). hits v t) \<and> rm
            \<and> (\<forall>k. values_of (tab_of o'') (name_key s) k = [])))"
    using d(1,2) spec(2-4) unfolding texts_def sections_def by (intro exI [of _ o'']) auto
  obtain b o'' where d: "DeleteValue (Some (Caller s)) None (map_option Caller v) rm o' = Some (b, o'')" "ini_ok o''"
    "del_tab s None v rm (tab_of o') = (b, tab_of o'')"
    using DeleteValue_caller_ok [OF assms, of s None v rm] by auto
  show "\<exists>o''. DeleteValue (Some (Caller s)) None (map_option Caller v) rm o' = Some (sections o' s, o'') \<and> ini_ok o''
      \<and> (\<forall>s' k'. texts o'' s' k' = (if name_key s' = name_key s then [] else texts o' s' k'))
      \<and> (\<forall>s'. sections o'' s' \<longleftrightarrow> sections o' s' \<and> name_key s' \<noteq> name_key s)"
    using d(1,2) del_tab_section_spec [OF ord d(3)] unfolding texts_def sections_def by (intro exI [of _ o'']) auto
qed

text \<open>
  C22: deleting. \<open>DeleteValue\<close> with names of the caller says whether there was something to delete,
  removes exactly the values of this key that it was given (all without a value; values are compared
  without regard to case too), and the section with them when it is to go and has become empty.
  Without a key it removes the section.
\<close>

theorem DeleteValue_values:
  assumes "ini_ok o'"
  shows "(\<exists>o''. DeleteValue (Some (Caller s)) (Some (Caller k)) (map_option Caller v) rm o' = Some (\<exists>t \<in> set (texts o' s k). hits v t, o'')
      \<and> ini_ok o''
      \<and> (\<forall>s' k'. texts o'' s' k' = (if name_key s' = name_key s \<and> name_key k' = name_key k
            then filter (\<lambda>t. \<not> hits v t) (texts o' s' k') else texts o' s' k'))
      \<and> (\<forall>s'. sections o'' s' \<longleftrightarrow> sections o' s' \<and> \<not> (name_key s' = name_key s \<and> (\<exists>t \<in> set (texts o' s k). hits v t) \<and> rm
            \<and> (\<forall>k. values_of (tab_of o'') (name_key s) k = []))))
    \<and> (\<exists>o''. DeleteValue (Some (Caller s)) None (map_option Caller v) rm o' = Some (sections o' s, o'') \<and> ini_ok o''
      \<and> (\<forall>s' k'. texts o'' s' k' = (if name_key s' = name_key s then [] else texts o' s' k'))
      \<and> (\<forall>s'. sections o'' s' \<longleftrightarrow> sections o' s' \<and> name_key s' \<noteq> name_key s))"
  using DeleteValue_both [OF assms] by (rule conjI)

lemma DeleteValue_values_witness:
  "\<exists>o1 o2. SetValue (\<lambda>_. True) (Caller ''a'') (Some (Caller ''k'')) (Some (Caller ''V'')) None False (CSimpleIni_ctor True True False)
      = Some (SI_INSERTED, o1)
    \<and> DeleteValue (Some (Caller ''a'')) (Some (Caller ''k'')) (Some (Caller ''v'')) True o1 = Some (True, o2)
    \<and> texts o2 ''a'' ''k'' = []"
proof -
  let ?o = "CSimpleIni_ctor True True False"
  have "m_nOrder ?o + 2 < 2 ^ 31" "m_bAllowMultiKey ?o"
    by (simp_all add: CSimpleIni_ctor_def)
  then obtain o1 where o1: "SetValue (\<lambda>_. True) (Caller ''a'') (Some (Caller ''k'')) (Some (Caller ''V'')) None False ?o = Some (SI_INSERTED, o1)"
    "ini_ok o1" "texts o1 ''a'' ''k'' = [''V'']"
    using SetValue_effect [OF ctor_ok(1) [of True True False], of "\<lambda>_. True" "''a''" "''k''" "''V''" None False]
    by (auto simp: ctor_ok(2) new_values_def)
  have "hits (Some ''v'') ''V''"
    by (simp add: hits_def name_key_def char_val_def locase_def)
  then show ?thesis
    using o1 DeleteValue_values [OF o1(2), of "''a''" "''k''" "Some ''v''" True] by auto
qed

text \<open>
  C8: the invariant of an object. A new or emptied object satisfies \<open>ini_ok\<close>, and \<open>SetValue\<close>,
  \<open>DeleteValue\<close> and the setters keep it, whichever allocations fail and whatever texts the caller
  passes: they return, every pointer in the tables can still be read, no text is owned twice, and the
  tables stay in order. When an allocation fails, \<open>SetValue\<close> says so.
\<close>

theorem ini_invariant:
  assumes "ini_ok o'" "m_nOrder o' + 2 < 2 ^ 31"
  shows "ini_ok (CSimpleIni_ctor u mk ml) \<and> ini_ok (Reset o')
    \<and> (\<exists>rc o''. SetValue new_ok (Caller s) (map_option Caller k) (map_option Caller v) (map_option Caller c) force o' = Some (rc, o'')
         \<and> ini_ok o'' \<and> m_nOrder o'' \<le> m_nOrder o' + 2 \<and> (rc < 0 \<longrightarrow> rc = SI_NOMEM \<and> (\<exists>n. \<not> new_ok n)))
    \<and> (\<exists>b o''. DeleteValue (Some (Caller s)) (map_option Caller k) (map_option Caller v) rm o' = Some (b, o'') \<and> ini_ok o'' \<and> m_nOrder o'' = m_nOrder o')
    \<and> (\<forall>f \<in> {SetUnicode b, SetMultiKey b, SetMultiLine b, SetSpaces b, SetQuotes b, SetAllowKeyOnly b}.
         ini_ok (f o') \<and> texts (f o') = texts o' \<and> sections (f o') = sections o')"
proof -
  have "ini_ok (f o') \<and> texts (f o') = texts o' \<and> sections (f o') = sections o'"
    if "f \<in> {SetUnicode b, SetMultiKey b, SetMultiLine b, SetSpaces b, SetQuotes b, SetAllowKeyOnly b}" for f
  proof -
    have "m_data (f o') = m_data o'" "m_pData (f o') = m_pData o'" "m_strings (f o') = m_strings o'" "allocs (f o') = allocs o'"
      "m_pFileComment (f o') = m_pFileComment o'"
      using that by (auto simp: SetUnicode_def SetMultiKey_def SetMultiLine_def SetSpaces_def SetQuotes_def SetAllowKeyOnly_def)
    from flag_ok [OF this] show ?thesis
      using assms(1) by (auto intro!: ext)
  qed
  moreover have "\<exists>b o''. DeleteValue (Some (Caller s)) (map_option Caller k) (map_option Caller v) rm o' = Some (b, o'') \<and> ini_ok o'' \<and> m_nOrder o'' = m_nOrder o'"
    using DeleteValue_caller_ok [OF assms(1), of s k v rm] by (auto simp: same_fields_def)
  ultimately show ?thesis
    using ctor_ok(1) Reset_ok(1) SetValue_ok [OF assms, of new_ok s k v c force] by blast
qed

lemma ini_invariant_witness:
  "\<exists>rc o''. SetValue (\<lambda>n. n = 0) (Caller ''a'') (Some (Caller ''k'')) (Some (Caller ''v'')) None True (CSimpleIni_ctor True True True) = Some (rc, o'')
    \<and> ini_ok o''"
proof -
  have "m_nOrder (CSimpleIni_ctor True True True) + 2 < 2 ^ 31"
    by (simp add: CSimpleIni_ctor_def)
  note inv = ini_invariant [OF ctor_ok(1) this, where new_ok = "\<lambda>n. n = 0" and s = "''a''" and k = "Some ''k''" and v = "Some ''v''"
      and c = None and force = True]
  then show ?thesis
    unfolding option.map by blast
qed

end
