(* ===== verification/Ini_Long.thy ===== *)
theory Ini_Long
  imports Ini_Object
begin

text \<open>
  Numbers: what \<open>SetLongValue\<close> writes and \<open>GetLongValue\<close> reads back.
\<close>

section \<open>Digits\<close>

lemma length_nat_str: "m < 10 ^ Suc k \<Longrightarrow> length (nat_str m) \<le> Suc k"
proof (induction k arbitrary: m)
  case 0
  then show ?case
    by (simp add: nat_str.simps [of m])
next
  case (Suc k)
  then show ?case
    using Suc.IH [of "m div 10"] by (subst nat_str.simps) (simp add: less_mult_imp_div_less mult.commute)
qed

lemma length_hex_str: "m < 16 ^ Suc k \<Longrightarrow> length (hex_str m) \<le> Suc k"
proof (induction k arbitrary: m)
  case 0
  then show ?case
    by (simp add: hex_str.simps [of m])
next
  case (Suc k)
  then show ?case
    using Suc.IH [of "m div 16"] by (subst hex_str.simps) (simp add: less_mult_imp_div_less mult.commute)
qed

lemma digit_of_digit: "is_digit c \<Longrightarrow> digit_of c = digit_val c \<and> digit_of c < 10"
  by (auto simp: is_digit_def digit_of_def digit_val_def)

lemma digit_of_hex: "d < 16 \<Longrightarrow> digit_of (hex_digit d) = d"
  by (auto simp: digit_of_def hex_digit_def)

lemma hex_str_digits: "c \<in> set (hex_str n) \<Longrightarrow> digit_of c < 16"
proof (induction n rule: hex_str.induct)
  case (1 n)
  then show ?case
    by (subst (asm) (2) hex_str.simps) (auto simp: digit_of_hex split: if_splits)
qed

lemma hex_str_nonempty [simp]: "hex_str n \<noteq> []"
  by (subst hex_str.simps) simp

lemma hex_str_value: "foldl (\<lambda>a c. 16 * a + digit_of c) 0 (hex_str n) = n"
proof (induction n rule: hex_str.induct)
  case (1 n)
  then show ?case
    by (subst hex_str.simps) (simp add: digit_of_hex)
qed

lemma nat_str_value: "foldl (\<lambda>a c. 10 * a + digit_of c) 0 (nat_str n) = n"
proof -
  have "foldl (\<lambda>a c. 10 * a + digit_of c) a s = foldl (\<lambda>a c. 10 * a + digit_val c) a s" if "\<forall>c \<in> set s. is_digit c" for a s
    using that by (induction s arbitrary: a) (simp_all add: digit_of_digit)
  then show ?thesis
    using nat_str_digits digits_val_nat_str [of n] by (simp add: digits_val_def)
qed

lemma digit_not_sign: "digit_of c < 16 \<Longrightarrow> \<not> is_space c \<and> c \<noteq> CHR ''-'' \<and> c \<noteq> CHR ''+'' \<and> c \<noteq> CHR ''x'' \<and> c \<noteq> CHR ''X''"
  by (auto simp: digit_of_def is_space_def Let_def split: if_splits)

section \<open>strtol\<close>

lemma strtol_digits:
  assumes "base \<le> 16" "ds \<noteq> []" "\<forall>c \<in> set ds. digit_of c < base"
  defines "n \<equiv> int (foldl (\<lambda>a c. base * a + digit_of c) 0 ds)"
  shows "strtol base ds = (min (2 ^ 63 - 1) n, [])" "strtol base (CHR ''-'' # ds) = (max (- (2 ^ 63)) (- n), [])"
proof -
  obtain c cs where c: "ds = c # cs"
    using assms(2) by (cases ds) auto
  have small: "digit_of d < 16" if "d \<in> set ds" for d
    using assms(1,3) that by fastforce
  then have first: "\<not> is_space c" "c \<noteq> CHR ''-''" "c \<noteq> CHR ''+''"
    using digit_not_sign [of c] c by simp_all
  have pre: "\<not> (take 2 ds = ''0x'' \<or> take 2 ds = ''0X'')"
  proof
    assume "take 2 ds = ''0x'' \<or> take 2 ds = ''0X''"
    then have "CHR ''x'' \<in> set (take 2 ds) \<or> CHR ''X'' \<in> set (take 2 ds)"
      by auto
    then have "CHR ''x'' \<in> set ds \<or> CHR ''X'' \<in> set ds"
      using in_set_takeD by metis
    then show False
      using digit_not_sign small by blast
  qed
  have all: "takeWhile (\<lambda>c. digit_of c < base) ds = ds"
    using assms(3) by (simp add: takeWhile_eq_all_conv)
  have "0 \<le> n"
    by (simp add: n_def)
  show "strtol base ds = (min (2 ^ 63 - 1) n, [])"
  proof -
    have "dropWhile is_space ds = ds" "hd ds \<noteq> CHR ''-''" "hd ds \<noteq> CHR ''+''"
      using first c by simp_all
    then show ?thesis
      using pre assms(2) \<open>0 \<le> n\<close> by (simp add: strtol_def Let_def n_def all)
  qed
  show "strtol base (CHR ''-'' # ds) = (max (- (2 ^ 63)) (- n), [])"
    using pre assms(2) \<open>0 \<le> n\<close> by (simp add: strtol_def Let_def n_def is_space_def all)
qed

text \<open>Decimal numbers are read back; hexadecimal ones are, when they are not negative.\<close>

lemma parse_decimal:
  assumes "- (2 ^ 63) \<le> n" "n < 2 ^ 63"
  shows "parse_long d (long_text False n) = n"
proof -
  let ?m = "nat (abs n)"
  have "?m < 10 ^ Suc 18"
    using assms by (simp add: nat_less_iff)
  then have len: "length (nat_str ?m) \<le> 19"
    using length_nat_str [of ?m 18] by simp
  have "\<forall>c \<in> set (nat_str ?m). digit_of c < 10"
    by (meson digit_of_digit nat_str_digits)
  then have digits: "nat_str ?m \<noteq> []" "\<forall>c \<in> set (nat_str ?m). digit_of c < 10"
    by simp_all
  obtain c cs where c: "nat_str ?m = c # cs"
    using digits(1) by (cases "nat_str ?m") auto
  have val: "int (foldl (\<lambda>a c. 10 * a + digit_of c) 0 (nat_str ?m)) = abs n"
    by (simp add: nat_str_value)
  have x: "CHR ''x'' \<notin> set (nat_str ?m)" "CHR ''X'' \<notin> set (nat_str ?m)"
    using nat_str_digits [of "CHR ''x''" ?m] nat_str_digits [of "CHR ''X''" ?m] by (auto simp: is_digit_def)
  have pre: "take 2 (int_str n) \<noteq> ''0x'' \<and> take 2 (int_str n) \<noteq> ''0X''"
  proof -
    have "CHR ''x'' \<notin> set (take 2 (int_str n))" "CHR ''X'' \<notin> set (take 2 (int_str n))"
      using x by (auto simp: int_str_def dest!: in_set_takeD)
    then show ?thesis
      by auto
  qed
  show ?thesis
  proof (cases "n < 0")
    case True
    then have "int_str n = CHR ''-'' # nat_str ?m"
      by (simp add: int_str_def)
    then show ?thesis
      using strtol_digits(2) [of 10, OF _ digits] val len pre True assms(1) by (simp add: parse_long_def long_text_def)
  next
    case False
    then have "int_str n = nat_str ?m"
      by (simp add: int_str_def)
    then show ?thesis
      using strtol_digits(1) [of 10, OF _ digits] val len pre False assms(2) by (simp add: parse_long_def long_text_def)
  qed
qed

lemma parse_hex:
  assumes "- (2 ^ 63) \<le> n" "n < 2 ^ 63"
  shows "parse_long d (long_text True n) = (if n < 0 then 2 ^ 63 - 1 else n)"
proof -
  let ?m = "nat (n mod 2 ^ 64)"
  have "?m < 16 ^ Suc 15"
    by (simp add: nat_less_iff)
  then have len: "length (hex_str ?m) \<le> 16"
    using length_hex_str [of ?m 15] by simp
  have digits: "hex_str ?m \<noteq> []" "\<forall>c \<in> set (hex_str ?m). digit_of c < 16"
    using hex_str_digits by auto
  have "strtol 16 (hex_str ?m) = (min (2 ^ 63 - 1) (int ?m), [])"
    using strtol_digits(1) [of 16, OF _ digits] by (simp only: hex_str_value)
  moreover have "int ?m = (if n < 0 then n + 2 ^ 64 else n)"
  proof (cases "n < 0")
    case True
    have "n mod 2 ^ 64 = (n + 2 ^ 64) mod 2 ^ 64"
      by simp
    also have "\<dots> = n + 2 ^ 64"
      using True assms by (intro mod_pos_pos_trivial) simp_all
    finally show ?thesis
      using True assms by simp
  next
    case False
    then show ?thesis
      using assms by simp
  qed
  ultimately show ?thesis
    using len assms by (simp add: parse_long_def long_text_def)
qed

lemma value_text_spec:
  assumes "ini_ok o'"
  shows "value_text (Some (Caller s)) (Some (Caller k)) has o' =
    Some (case texts o' s k of [] \<Rightarrow> None | t # ts \<Rightarrow> if t = [] then None else Some t, has \<and> m_bAllowMultiKey o' \<and> 1 < length (texts o' s k))"
  using GetValue_spec [OF assms, of s k None has] by (auto simp: value_text_def split: list.splits)

lemma long_text_nonempty: "long_text h n \<noteq> []"
  by (cases "n < 0") (simp_all add: long_text_def int_str_def)

section \<open>Setting and reading a number\<close>

text \<open>
  C24: numbers. When the value is set (no multiple keys, or by force) and no allocation fails,
  \<open>GetLongValue\<close> reads back what \<open>SetLongValue\<close> wrote for every \<open>long\<close> in decimal and every
  non-negative one in hexadecimal; a negative one written in hexadecimal is read as the greatest
  \<open>long\<close>.
\<close>

theorem SetLongValue_GetLongValue:
  assumes "ini_ok o'" "m_nOrder o' + 2 < 2 ^ 31" "\<forall>n. new_ok n" "- (2 ^ 63) \<le> n" "n < 2 ^ 63" "\<not> m_bAllowMultiKey o' \<or> force"
  shows "\<exists>rc o''. SetLongValue new_ok (Some (Caller s)) (Some (Caller k)) n (map_option Caller c) h force o' = Some (rc, o'')
    \<and> 0 \<le> rc \<and> ini_ok o''
    \<and> (\<exists>multi. GetLongValue (Some (Caller s)) (Some (Caller k)) d has o'' = Some (if h \<and> n < 0 then 2 ^ 63 - 1 else n, multi))"
proof -
  obtain o'' where r: "SetValue new_ok (Caller s) (Some (Caller k)) (Some (Caller (long_text h n))) (map_option Caller c) force o'
      = Some (if texts o' s k = [] then SI_INSERTED else SI_UPDATED, o'')" "ini_ok o''" "get_text o'' s k = Some (Some (long_text h n))"
    using SetValue_effect [OF assms(1-3), of s k "long_text h n" c force] assms(6) by auto
  have "\<exists>ts. texts o'' s k = long_text h n # ts"
    using get_text_spec [OF r(2), of s k] r(3) by (simp split: list.splits)
  then have "\<exists>multi. GetLongValue (Some (Caller s)) (Some (Caller k)) d has o'' = Some (parse_long d (long_text h n), multi)"
    using value_text_spec [OF r(2), of s k has] long_text_nonempty by (auto simp: GetLongValue_def)
  moreover have "parse_long d (long_text h n) = (if h \<and> n < 0 then 2 ^ 63 - 1 else n)"
    using parse_hex [OF assms(4,5)] parse_decimal [OF assms(4,5)] by (cases h) simp_all
  ultimately show ?thesis
    using r(1,2) by (simp add: SetLongValue_def SetValue_def)
qed

lemma SetLongValue_GetLongValue_witness:
  "\<exists>rc o''. SetLongValue (\<lambda>_. True) (Some (Caller ''DMSYS'')) (Some (Caller ''CONNECT_NUMBER'')) (- 20) None True False (CSimpleIni_ctor True False False) = Some (rc, o'')
    \<and> (\<exists>multi. GetLongValue (Some (Caller ''DMSYS'')) (Some (Caller ''CONNECT_NUMBER'')) 0 False o'' = Some (2 ^ 63 - 1, multi))"
proof -
  have "m_nOrder (CSimpleIni_ctor True False False) + 2 < 2 ^ 31" "\<not> m_bAllowMultiKey (CSimpleIni_ctor True False False)"
    by (simp_all add: CSimpleIni_ctor_def)
  then show ?thesis
    using SetLongValue_GetLongValue [OF ctor_ok(1) [of True False False], where new_ok = "\<lambda>_. True" and n = "- 20" and force = False
        and s = "''DMSYS''" and k = "''CONNECT_NUMBER''" and c = None and h = True and d = 0 and has = False] by auto
qed

end
