(* ===== verification/Ini_File.thy ===== *)
theory Ini_File
  imports Ini_Store
begin

text \<open>
  Loading: \<open>LoadFile\<close>, \<open>LoadData\<close> and \<open>FindFileComment\<close> of src/include/simpleIni/SimpleIni.h. The
  first text that is loaded stays in memory and the tables point into it; the texts loaded after it
  are copied piece by piece. What the C library answers about the file is an argument.
\<close>

section \<open>SI_ConvertA\<close>

definition SizeFromStore :: "string \<Rightarrow> nat option" where
  "SizeFromStore s = Some (length s)"

definition ConvertFromStore :: "string \<Rightarrow> string \<Rightarrow> nat \<Rightarrow> string option" where
  "ConvertFromStore s out n = (if n < length s then None else Some (s @ drop (length s) out))"

section \<open>LoadData\<close>

definition SI_UTF8_SIGNATURE :: string where
  "SI_UTF8_SIGNATURE = [CHR 0xEF, CHR 0xBB, CHR 0xBF]"

text \<open>
  A pointer of the parser as \<open>AddEntry\<close> gets it. A text that is copied lies in a block of its own,
  not in \<open>m_pData\<close>.
\<close>

definition parse_ptr :: "bool \<Rightarrow> string \<Rightarrow> nat \<Rightarrow> text_ptr option" where
  "parse_ptr bCopyStrings m p =
    (if bCopyStrings then do { s \<leftarrow> c_string m p; Some (TempBlock s) } else Some (Data p))"

definition parse_ptr_opt :: "bool \<Rightarrow> string \<Rightarrow> nat option \<Rightarrow> text_ptr option option" where
  "parse_ptr_opt bCopyStrings m p = (case p of
     None \<Rightarrow> Some None
   | Some p \<Rightarrow> do { q \<leftarrow> parse_ptr bCopyStrings m p; Some (Some q) })"

text \<open>
  Without copying, \<open>m_pData\<close> already has the block while it is parsed, for the pointers into it to be
  readable; the code sets it at the end. In between it is only asked for whether it contains a string
  to be deleted, and none is.
\<close>

definition hold_block :: "bool \<Rightarrow> string \<Rightarrow> CSimpleIni \<Rightarrow> CSimpleIni" where
  "hold_block bCopyStrings m o' = (if bCopyStrings then o' else o'\<lparr>m_pData := Some m\<rparr>)"

definition FindFileComment ::
  "(nat \<Rightarrow> bool) \<Rightarrow> bool \<Rightarrow> parse \<Rightarrow> CSimpleIni \<Rightarrow> (int \<times> parse \<times> CSimpleIni) option" where
  "FindFileComment new_ok a_bCopyStrings w o' =
    (if m_pFileComment o' \<noteq> None then Some (SI_OK, w, o')
     else do {
       (found, m, p, com) \<leftarrow> LoadMultiLineText (block w) (a_pData w) None False;
       let w = w\<lparr>block := m, a_pData := p\<rparr>;
       com \<leftarrow> parse_ptr_opt a_bCopyStrings m com;
       let o' = (hold_block a_bCopyStrings m o')\<lparr>m_pFileComment := com\<rparr>;
       if found \<and> a_bCopyStrings then do {
         q \<leftarrow> com;
         (rc, q, o') \<leftarrow> CopyString new_ok q o';
         if rc < 0 then Some (rc, w, o') else Some (SI_OK, w, o'\<lparr>m_pFileComment := Some q\<rparr>)
       } else Some (SI_OK, w, o')
     })"

text \<open>\<open>AddEntry(pSection, pItem, pVal, pComment, false, bCopyStrings)\<close> with the pointers of the parser\<close>

definition add_found :: "(nat \<Rightarrow> bool) \<Rightarrow> bool \<Rightarrow> parse \<Rightarrow> CSimpleIni \<Rightarrow> (int \<times> CSimpleIni) option" where
  "add_found new_ok bCopyStrings w o' = do {
     sec \<leftarrow> (case a_pSection w of None \<Rightarrow> Some StaticEmpty | Some p \<Rightarrow> parse_ptr bCopyStrings (block w) p);
     key \<leftarrow> parse_ptr_opt bCopyStrings (block w) (a_pKey w);
     val \<leftarrow> parse_ptr_opt bCopyStrings (block w) (a_pVal w);
     com \<leftarrow> parse_ptr_opt bCopyStrings (block w) (a_pComment w);
     AddEntry new_ok sec key val com False bCopyStrings o'
   }"

text \<open>\<open>while (FindEntry(...)) { rc = AddEntry(...); if (rc < 0) return rc; }\<close>\<close>

partial_function (option) load_loop ::
  "(nat \<Rightarrow> bool) \<Rightarrow> bool \<Rightarrow> parse \<Rightarrow> CSimpleIni \<Rightarrow> (int \<times> CSimpleIni) option" where
  "load_loop new_ok bCopyStrings w o' = do {
     (found, w) \<leftarrow> FindEntry o' w;
     let o' = hold_block bCopyStrings (block w) o';
     if \<not> found then Some (SI_OK, o')
     else do {
       (rc, o') \<leftarrow> add_found new_ok bCopyStrings w o';
       if rc < 0 then Some (rc, o') else load_loop new_ok bCopyStrings w o'
     }
   }"

declare load_loop.simps [code]

definition load_block :: "(nat \<Rightarrow> bool) \<Rightarrow> string \<Rightarrow> nat \<Rightarrow> CSimpleIni \<Rightarrow> (int \<times> CSimpleIni) option" where
  "load_block new_ok pData len o' = do {
     let bCopyStrings = (m_pData o' \<noteq> None);
     let w = \<lparr>block = pData, a_pData = 0, a_pSection = None, a_pKey = None, a_pVal = None, a_pComment = None\<rparr>;
     (rc, w, o') \<leftarrow> FindFileComment new_ok bCopyStrings w (hold_block bCopyStrings pData o');
     if rc < 0 then Some (rc, o')
     else do {
       (rc, o') \<leftarrow> load_loop new_ok bCopyStrings w o';
       if rc < 0 then Some (rc, o')
       else Some (SI_OK, if bCopyStrings then o' else o'\<lparr>m_uDataLen := len\<rparr>)
     }
   }"

definition skip_signature :: "string \<Rightarrow> CSimpleIni \<Rightarrow> string \<times> CSimpleIni" where
  "skip_signature s o' =
    (if take 3 s = SI_UTF8_SIGNATURE then (drop 3 s, SetUnicode True o') else (s, o'))"

definition LoadData :: "(nat \<Rightarrow> bool) \<Rightarrow> string option \<Rightarrow> CSimpleIni \<Rightarrow> (int \<times> CSimpleIni) option" where
  "LoadData new_ok src o' = (case src of
     None \<Rightarrow> Some (SI_OK, o')
   | Some s \<Rightarrow>
       let (s, o') = skip_signature s o' in
       if s = [] then Some (SI_OK, o')
       else (case SizeFromStore s of
          None \<Rightarrow> Some (SI_FAIL, o')
        | Some uLen \<Rightarrow>
            let n = allocs o'; o' = o'\<lparr>allocs := n + 1\<rparr> in
            if \<not> new_ok n then Some (SI_NOMEM, o')
            else (case ConvertFromStore s (replicate (uLen + 1) NUL) uLen of
               None \<Rightarrow> Some (SI_FAIL, o')
             | Some pData \<Rightarrow> load_block new_ok pData (uLen + 1) o')))"

section \<open>LoadFile\<close>

text \<open>What \<open>fseek\<close> to the end returns, what \<open>ftell\<close> says, and what \<open>fread\<close> delivers.\<close>

record file_state =
  seek :: int
  tell :: int
  contents :: string

definition LoadFile_fp :: "(nat \<Rightarrow> bool) \<Rightarrow> file_state \<Rightarrow> CSimpleIni \<Rightarrow> (int \<times> CSimpleIni) option" where
  "LoadFile_fp new_ok f o' =
    (let lSize = tell f in
     if seek f \<noteq> 0 then Some (SI_FILE, o')
     else if lSize < 0 then Some (SI_FILE, o')
     else if lSize = 0 then Some (SI_OK, o')
     else (let n = allocs o'; o' = o'\<lparr>allocs := n + 1\<rparr> in
       if \<not> new_ok n then Some (SI_NOMEM, o')
       else (let data = take (nat lSize) (contents f) in
         if int (length data) \<noteq> lSize then Some (SI_FILE, o')
         else LoadData new_ok (Some data) o')))"

definition LoadFile :: "(nat \<Rightarrow> bool) \<Rightarrow> file_state option \<Rightarrow> CSimpleIni \<Rightarrow> (int \<times> CSimpleIni) option" where
  "LoadFile new_ok fp o' = (case fp of None \<Rightarrow> Some (SI_FILE, o') | Some f \<Rightarrow> LoadFile_fp new_ok f o')"

end
