(* ===== verification/Ini_Save.thy ===== *)
theory Ini_Save
  imports Ini_File Ini_Get
begin

text \<open>
  Saving: \<open>Save\<close>, \<open>SaveFile\<close> and what they use, of src/include/simpleIni/SimpleIni.h. The text that
  is written and the scratch buffer of the converter are the state of the output; every step says
  whether it succeeded. \<open>std::list::sort\<close> is a stable sort; a comparison reads the names it needs.
\<close>

section \<open>The output\<close>

text \<open>\<open>OutputWriter\<close> and \<open>Converter\<close>: what was written, the size of \<open>m_scratch\<close> and the C string in it.\<close>

record save_state =
  written :: string
  scratch_size :: nat
  scratch :: string

definition Converter_ctor :: save_state where
  "Converter_ctor = \<lparr>written = [], scratch_size = 1024, scratch = []\<rparr>"

definition Write :: "string \<Rightarrow> save_state \<Rightarrow> save_state" where
  "Write s w = w\<lparr>written := written w @ s\<rparr>"

definition SI_NEWLINE_A :: string where
  "SI_NEWLINE_A = [LF]"

definition SizeToStore :: "string \<Rightarrow> nat option" where
  "SizeToStore s = Some (length s + 1)"

text \<open>\<open>while (uLen > m_scratch.size()) m_scratch.resize(m_scratch.size() * 2);\<close>\<close>

partial_function (option) grow_scratch :: "nat \<Rightarrow> nat \<Rightarrow> nat option" where
  "grow_scratch uLen n = (if n < uLen then grow_scratch uLen (n * 2) else Some n)"

declare grow_scratch.simps [code]

definition ConvertToStore :: "string \<Rightarrow> save_state \<Rightarrow> (bool \<times> save_state) option" where
  "ConvertToStore s w = (case SizeToStore s of
     None \<Rightarrow> Some (False, w)
   | Some uLen \<Rightarrow> do {
       n \<leftarrow> grow_scratch uLen (scratch_size w);
       let w = w\<lparr>scratch_size := n\<rparr>;
       if n < length s + 1 then Some (False, w) else Some (True, w\<lparr>scratch := s\<rparr>)
     })"

text \<open>The lines that \<open>OutputMultiLineText\<close> finds; a line feed at the end is followed by one more, empty, line.\<close>

fun lf_lines :: "string \<Rightarrow> string list" where
  "lf_lines [] = [[]]"
| "lf_lines (c # cs) = (case lf_lines cs of
     [] \<Rightarrow> []
   | l # ls \<Rightarrow> if c = LF then [] # l # ls else (c # l) # ls)"

fun output_lines :: "string list \<Rightarrow> save_state \<Rightarrow> (bool \<times> save_state) option" where
  "output_lines [] w = Some (True, w)"
| "output_lines (l # ls) w = do {
     (ok, w) \<leftarrow> ConvertToStore l w;
     if \<not> ok then Some (False, w) else output_lines ls (Write SI_NEWLINE_A (Write (scratch w) w))
   }"

definition OutputMultiLineText :: "string \<Rightarrow> save_state \<Rightarrow> (bool \<times> save_state) option" where
  "OutputMultiLineText t w = (if t = [] then Some (True, w) else output_lines (lf_lines t) w)"

definition IsMultiLineData :: "string \<Rightarrow> bool" where
  "IsMultiLineData t \<longleftrightarrow> t \<noteq> [] \<and> (IsSpace (hd t) \<or> (\<exists>c \<in> set t. IsNewLineChar c) \<or> IsSpace (List.last t))"

definition IsSingleLineQuotedValue :: "string \<Rightarrow> bool" where
  "IsSingleLineQuotedValue t \<longleftrightarrow> t \<noteq> [] \<and> (IsSpace (hd t) \<or> \<not> (\<exists>c \<in> set t. IsNewLineChar c) \<and> IsSpace (List.last t))"

section \<open>Load order\<close>

definition LoadOrder :: "CSimpleIni \<Rightarrow> Entry \<Rightarrow> Entry \<Rightarrow> bool option" where
  "LoadOrder o' lhs rhs =
    (if nOrder lhs \<noteq> nOrder rhs then Some (nOrder lhs < nOrder rhs)
     else do { s \<leftarrow> ptr_text o' (pItem lhs); t \<leftarrow> ptr_text o' (pItem rhs); Some (IsLess s t) })"

fun sort_insert :: "CSimpleIni \<Rightarrow> Entry \<Rightarrow> Entry list \<Rightarrow> Entry list option" where
  "sort_insert o' x [] = Some [x]"
| "sort_insert o' x (y # ys) = do {
     b \<leftarrow> LoadOrder o' y x;
     if b then do { zs \<leftarrow> sort_insert o' x ys; Some (y # zs) } else Some (x # y # ys)
   }"

fun sort_entries :: "CSimpleIni \<Rightarrow> Entry list \<Rightarrow> Entry list option" where
  "sort_entries o' [] = Some []"
| "sort_entries o' (x # xs) = do { ys \<leftarrow> sort_entries o' xs; sort_insert o' x ys }"

text \<open>The section with the empty name goes first.\<close>

fun split_empty :: "CSimpleIni \<Rightarrow> Entry list \<Rightarrow> (Entry list \<times> Entry list) option" where
  "split_empty o' [] = Some ([], [])"
| "split_empty o' (e # es) = do {
     s \<leftarrow> ptr_text o' (pItem e);
     if s = [] then Some ([], e # es) else do { (xs, ys) \<leftarrow> split_empty o' es; Some (e # xs, ys) }
   }"

definition empty_first :: "CSimpleIni \<Rightarrow> Entry list \<Rightarrow> Entry list option" where
  "empty_first o' es = do {
     (xs, ys) \<leftarrow> split_empty o' es;
     Some (case ys of [] \<Rightarrow> xs | e # zs \<Rightarrow> e # xs @ zs)
   }"

section \<open>Save\<close>

definition save_comment :: "CSimpleIni \<Rightarrow> text_ptr \<Rightarrow> save_state \<Rightarrow> (bool \<times> save_state) option" where
  "save_comment o' p w = do { t \<leftarrow> ptr_text o' p; OutputMultiLineText t w }"

text \<open>The value behind the key.\<close>

definition save_text :: "CSimpleIni \<Rightarrow> string \<Rightarrow> save_state \<Rightarrow> (bool \<times> save_state) option" where
  "save_text o' t w = do {
     (ok, w) \<leftarrow> ConvertToStore t w;
     if \<not> ok then Some (False, w)
     else (let w = Write (if m_bSpaces o' then '' = '' else ''='') w in
       if m_bParseQuotes o' \<and> IsSingleLineQuotedValue t then
         Some (True, Write [CHR 0x22] (Write (scratch w) (Write [CHR 0x22] w)))
       else if m_bAllowMultiLine o' \<and> IsMultiLineData t then do {
         (ok, w) \<leftarrow> OutputMultiLineText t (Write (''<<<END_OF_TEXT'' @ SI_NEWLINE_A) w);
         if \<not> ok then Some (False, w) else Some (True, Write ''END_OF_TEXT'' w)
       } else Some (True, Write (scratch w) w))
   }"

definition save_value :: "CSimpleIni \<Rightarrow> Entry \<Rightarrow> Entry \<Rightarrow> save_state \<Rightarrow> (bool \<times> save_state) option" where
  "save_value o' iKey iValue w = do {
     (ok, w) \<leftarrow> (case pComment iValue of
        None \<Rightarrow> Some (True, w)
      | Some p \<Rightarrow> save_comment o' p (Write SI_NEWLINE_A w));
     if \<not> ok then Some (False, w)
     else do {
       k \<leftarrow> ptr_text o' (pItem iKey);
       (ok, w) \<leftarrow> ConvertToStore k w;
       if \<not> ok then Some (False, w)
       else do {
         let w = Write (scratch w) w;
         t \<leftarrow> ptr_text o' (pItem iValue);
         (ok, w) \<leftarrow> (if t \<noteq> [] \<or> \<not> m_bAllowKeyOnly o' then save_text o' t w else Some (True, w));
         if \<not> ok then Some (False, w) else Some (True, Write SI_NEWLINE_A w)
       }
     }
   }"

fun save_values :: "CSimpleIni \<Rightarrow> Entry \<Rightarrow> Entry list \<Rightarrow> save_state \<Rightarrow> (bool \<times> save_state) option" where
  "save_values o' iKey [] w = Some (True, w)"
| "save_values o' iKey (v # vs) w = do {
     (ok, w) \<leftarrow> save_value o' iKey v w;
     if \<not> ok then Some (False, w) else save_values o' iKey vs w
   }"

fun save_keys :: "CSimpleIni \<Rightarrow> Entry \<Rightarrow> Entry list \<Rightarrow> save_state \<Rightarrow> (bool \<times> save_state) option" where
  "save_keys o' iSection [] w = Some (True, w)"
| "save_keys o' iSection (k # ks) w = do {
     (found, oValues) \<leftarrow> GetAllValues (Some (pItem iSection)) (Some (pItem k)) o';
     (ok, w) \<leftarrow> save_values o' k oValues w;
     if \<not> ok then Some (False, w) else save_keys o' iSection ks w
   }"

definition blank_lines :: "bool \<Rightarrow> save_state \<Rightarrow> save_state" where
  "blank_lines bNeedNewLine w = (if bNeedNewLine then Write SI_NEWLINE_A (Write SI_NEWLINE_A w) else w)"

definition save_section :: "CSimpleIni \<Rightarrow> bool \<Rightarrow> Entry \<Rightarrow> save_state \<Rightarrow> (bool \<times> save_state) option" where
  "save_section o' bNeedNewLine iSection w = do {
     (ok, bNeedNewLine, w) \<leftarrow> (case pComment iSection of
        None \<Rightarrow> Some (True, bNeedNewLine, w)
      | Some p \<Rightarrow> do { (ok, w) \<leftarrow> save_comment o' p (blank_lines bNeedNewLine w); Some (ok, False, w) });
     if \<not> ok then Some (False, w)
     else do {
       let w = blank_lines bNeedNewLine w;
       s \<leftarrow> ptr_text o' (pItem iSection);
       (ok, w) \<leftarrow> (if s = [] then Some (True, w)
         else do {
           (ok, w) \<leftarrow> ConvertToStore s w;
           Some (ok, if ok then Write SI_NEWLINE_A (Write '']'' (Write (scratch w) (Write ''['' w))) else w)
         });
       if \<not> ok then Some (False, w)
       else do {
         (found, oKeys) \<leftarrow> GetAllKeys (Some (pItem iSection)) o';
         oKeys \<leftarrow> sort_entries o' oKeys;
         save_keys o' iSection oKeys w
       }
     }
   }"

fun save_sections :: "CSimpleIni \<Rightarrow> bool \<Rightarrow> Entry list \<Rightarrow> save_state \<Rightarrow> (bool \<times> save_state) option" where
  "save_sections o' bNeedNewLine [] w = Some (True, w)"
| "save_sections o' bNeedNewLine (s # ss) w = do {
     (ok, w) \<leftarrow> save_section o' bNeedNewLine s w;
     if \<not> ok then Some (False, w) else save_sections o' True ss w
   }"

definition Save :: "bool \<Rightarrow> CSimpleIni \<Rightarrow> save_state \<Rightarrow> (int \<times> save_state) option" where
  "Save a_bAddSignature o' w = do {
     let w = (if m_bStoreIsUtf8 o' \<and> a_bAddSignature then Write SI_UTF8_SIGNATURE w else w);
     oSections \<leftarrow> sort_entries o' (GetAllSections o');
     oSections \<leftarrow> empty_first o' oSections;
     (ok, w) \<leftarrow> (case m_pFileComment o' of None \<Rightarrow> Some (True, w) | Some p \<Rightarrow> save_comment o' p w);
     if \<not> ok then Some (SI_FAIL, w)
     else do {
       (ok, w) \<leftarrow> save_sections o' (m_pFileComment o' \<noteq> None) oSections w;
       Some (if ok then SI_OK else SI_FAIL, w)
     }
   }"

text \<open>Saving to a string, to a stream that is open, and to a file, of which \<open>fopen\<close> says whether it can be written.\<close>

definition Save_string :: "bool \<Rightarrow> CSimpleIni \<Rightarrow> string \<Rightarrow> (int \<times> string) option" where
  "Save_string a_bAddSignature o' a_sBuffer = do {
     (rc, w) \<leftarrow> Save a_bAddSignature o' Converter_ctor;
     Some (rc, a_sBuffer @ written w)
   }"

definition SaveFile_fp :: "bool \<Rightarrow> CSimpleIni \<Rightarrow> (int \<times> string) option" where
  "SaveFile_fp a_bAddSignature o' = do { (rc, w) \<leftarrow> Save a_bAddSignature o' Converter_ctor; Some (rc, written w) }"

definition SaveFile :: "bool \<Rightarrow> bool \<Rightarrow> CSimpleIni \<Rightarrow> (int \<times> string option) option" where
  "SaveFile fopen_ok a_bAddSignature o' =
    (if \<not> fopen_ok then Some (SI_FILE, None)
     else do { (rc, s) \<leftarrow> SaveFile_fp a_bAddSignature o'; Some (rc, Some s) })"

end
