(* ===== verification/Ini_Parse.thy ===== *)
theory Ini_Parse
  imports Ini_Text "HOL-Library.Sublist"
begin

text \<open>
  What the parser of \<open>Ini_Text\<close> does. The specification reads a text as a list of lines
  (\<open>items\<close>); the in-place parser is related to it by writing the block as the part before the
  current position, the text still to be read, and what follows its NUL.
\<close>

section \<open>The text as a list of lines\<close>

datatype ini_item = Section string | Pair string string

definition rstrip :: "string \<Rightarrow> string" where
  "rstrip s = rev (dropWhile IsSpace (rev s))"

fun lines_of :: "string \<Rightarrow> string list" where
  "lines_of [] = [[]]"
| "lines_of (c # cs) =
    (if IsNewLineChar c then [] # lines_of cs else (c # hd (lines_of cs)) # tl (lines_of cs))"

definition item_of_line :: "string \<Rightarrow> ini_item list" where
  "item_of_line l =
    (let t = dropWhile IsSpace l in
     if t = [] \<or> IsComment (hd t) then []
     else if hd t = CHR ''['' then
       if CHR '']'' \<in> set t
       then [Section (rstrip (takeWhile (\<lambda>c. c \<noteq> CHR '']'') (dropWhile IsSpace (tl t))))] else []
     else if CHR ''='' \<in> set t \<and> hd t \<noteq> CHR ''='' then
       [Pair (rstrip (takeWhile (\<lambda>c. c \<noteq> CHR ''='') t))
             (rstrip (dropWhile IsSpace (tl (dropWhile (\<lambda>c. c \<noteq> CHR ''='') t))))]
     else [])"

definition items :: "string \<Rightarrow> ini_item list" where
  "items s = concat (map item_of_line (lines_of s))"

text \<open>Every line that begins a section name also ends it.\<close>

definition clean_line :: "string \<Rightarrow> bool" where
  "clean_line l \<longleftrightarrow> (\<forall>t. dropWhile IsSpace l = CHR ''['' # t \<longrightarrow> CHR '']'' \<in> set t)"

definition clean :: "string \<Rightarrow> bool" where
  "clean s \<longleftrightarrow> (\<forall>l \<in> set (lines_of s). clean_line l)"

abbreviation this_line :: "string \<Rightarrow> string" where
  "this_line \<equiv> takeWhile (\<lambda>c. \<not> IsNewLineChar c)"

abbreviation line_end :: "string \<Rightarrow> string" where
  "line_end \<equiv> dropWhile (\<lambda>c. \<not> IsNewLineChar c)"

fun after_newline :: "string \<Rightarrow> string" where
  "after_newline (c # d # r) = (if c = CR \<and> d = LF then r else d # r)"
| "after_newline r = []"

lemma char_classes [simp]:
  "\<not> IsSpace NUL" "\<not> IsNewLineChar NUL" "\<not> IsComment NUL" "IsNewLineChar LF" "IsNewLineChar CR"
  "IsSpace LF" "IsSpace CR" "\<not> IsSpace (CHR ''['')" "\<not> IsSpace (CHR '']'')" "\<not> IsSpace (CHR ''='')"
  "\<not> IsNewLineChar (CHR ''['')" "\<not> IsNewLineChar (CHR '']'')" "\<not> IsNewLineChar (CHR ''='')"
  by (auto simp: IsSpace_def IsNewLineChar_def IsComment_def)

lemma newline_space: "IsNewLineChar c \<Longrightarrow> IsSpace c"
  by (auto simp: IsSpace_def IsNewLineChar_def)

lemma comment_not_space: "IsComment c \<Longrightarrow> \<not> IsSpace c" "IsComment c \<Longrightarrow> \<not> IsNewLineChar c"
  by (auto simp: IsSpace_def IsNewLineChar_def IsComment_def)

lemma lines_of_nonempty [simp]: "lines_of s \<noteq> []"
  by (cases s) auto

lemma lines_of_split:
  "lines_of s = this_line s # (case line_end s of [] \<Rightarrow> [] | c # r \<Rightarrow> lines_of r)"
  by (induction s) (auto split: list.splits)

lemma item_of_line_space: "IsSpace c \<Longrightarrow> item_of_line (c # l) = item_of_line l"
  by (simp add: item_of_line_def)

lemma item_of_line_Nil [simp]: "item_of_line [] = []"
  by (simp add: item_of_line_def)

lemma items_Nil [simp]: "items [] = []"
  by (simp add: items_def)

lemma items_line: "items s = item_of_line (this_line s) @ items (line_end s)"
proof (cases "line_end s")
  case Nil
  show ?thesis
    unfolding items_def lines_of_split [of s] Nil by simp
next
  case (Cons c r)
  then have "IsNewLineChar c"
    by (metis dropWhile_eq_Cons_conv)
  then show ?thesis
    using Cons by (simp add: items_def lines_of_split [of s])
qed

lemma items_space: "IsSpace c \<Longrightarrow> items (c # s) = items s"
  by (auto simp: items_def item_of_line_space lines_of_split [of s])

lemma items_skip_spaces: "items (dropWhile IsSpace s) = items s"
  by (induction s) (auto simp: items_space)

lemma items_after_newline: "line_end s = c # r \<Longrightarrow> items (after_newline (c # r)) = items (c # r)"
proof -
  assume "line_end s = c # r"
  then have "IsNewLineChar c"
    by (metis dropWhile_eq_Cons_conv)
  then show ?thesis
    by (cases r) (auto simp: items_space newline_space)
qed

lemma clean_line_space: "IsSpace c \<Longrightarrow> clean_line (c # l) = clean_line l"
  by (simp add: clean_line_def)

lemma clean_Nil [simp]: "clean []"
  by (simp add: clean_def clean_line_def)

lemma clean_line_end: "clean s \<Longrightarrow> clean_line (this_line s) \<and> clean (line_end s)"
proof (cases "line_end s")
  case (Cons c r)
  assume "clean s"
  moreover have "IsNewLineChar c"
    using Cons by (metis dropWhile_eq_Cons_conv)
  ultimately show ?thesis
    using Cons by (auto simp: clean_def lines_of_split [of s] clean_line_def)
next
  case Nil
  assume "clean s"
  then show ?thesis
    unfolding clean_def lines_of_split [of s] Nil by (simp add: clean_line_def)
qed

lemma clean_space: "IsSpace c \<Longrightarrow> clean (c # s) = clean s"
  by (auto simp: clean_def clean_line_space lines_of_split [of s] clean_line_def)

lemma clean_skip_spaces: "clean (dropWhile IsSpace s) = clean s"
  by (induction s) (auto simp: clean_space)

lemma clean_after_newline: "line_end s = c # r \<Longrightarrow> clean (after_newline (c # r)) = clean (c # r)"
proof -
  assume "line_end s = c # r"
  then have "IsNewLineChar c"
    by (metis dropWhile_eq_Cons_conv)
  then show ?thesis
    by (cases r) (auto simp: clean_space newline_space)
qed

section \<open>The elementary loops\<close>

lemma char_at_block: "char_at (pre @ c # rest) (length pre) = Some c"
  by (simp add: char_at_def)

lemma put_char_block: "put_char (pre @ c # rest) (length pre) d = Some (pre @ d # rest)"
  by (simp add: put_char_def)

lemma c_string_block: "NUL \<notin> set s \<Longrightarrow> c_string (pre @ s @ NUL # rest) (length pre) = Some s"
  unfolding c_string_def by (induction s) auto

lemma skip_while_block:
  assumes "NUL \<notin> set s"
  shows "skip_while P (pre @ s @ NUL # rest) (length pre) = Some (length pre + length (takeWhile P s))"
  using assms
proof (induction s arbitrary: pre)
  case Nil
  then show ?case
    by (simp add: skip_while.simps char_at_def)
next
  case (Cons c s)
  show ?case
  proof (cases "P c")
    case True
    then have "skip_while P (pre @ (c # s) @ NUL # rest) (length pre)
        = skip_while P ((pre @ [c]) @ s @ NUL # rest) (length (pre @ [c]))"
      using Cons.prems by (subst skip_while.simps) (auto simp: char_at_def)
    also have "\<dots> = Some (length (pre @ [c]) + length (takeWhile P s))"
      using Cons by (intro Cons.IH) simp
    finally show ?thesis
      using True by simp
  next
    case False
    then show ?thesis
      by (subst skip_while.simps) (simp add: char_at_def)
  qed
qed

lemma rstrip_snoc: "rstrip (s @ [c]) = (if IsSpace c then rstrip s else s @ [c])"
  by (simp add: rstrip_def)

lemma rstrip_prefix: "prefix (rstrip s) s"
  unfolding rstrip_def by (metis suffix_dropWhile suffix_to_prefix rev_rev_ident)

lemma rtrim_block: "rtrim (pre @ s @ rest) (length pre) (length pre + length s) = Some (length pre + length (rstrip s))"
proof (induction s arbitrary: rest rule: rev_induct)
  case Nil
  then show ?case
    by (cases "length pre") (simp_all add: rstrip_def)
next
  case (snoc c s)
  have "rtrim (pre @ s @ c # rest) (length pre) (length pre + length s) = Some (length pre + length (rstrip s))"
    by (rule snoc.IH)
  then show ?case
    by (simp add: rstrip_snoc char_at_def nth_append)
qed

lemma SkipNewLine_block:
  assumes "r \<noteq> []" "NUL \<notin> set r"
  shows "SkipNewLine (pre @ r @ NUL # rest) (length pre) = Some (length pre + (length r - length (after_newline r)))"
  using assms by (cases r rule: after_newline.cases) (auto simp: SkipNewLine_def char_at_def nth_append)

lemma after_newline_suffix: "r \<noteq> [] \<Longrightarrow> \<exists>u. u \<noteq> [] \<and> r = u @ after_newline r"
  by (cases r rule: after_newline.cases) auto

lemma bind_eq: "Option.bind m f = (case m of None \<Rightarrow> None | Some x \<Rightarrow> f x)"
  by (cases m) simp_all

lemma blank_ahead_block:
  assumes "NUL \<notin> set s"
  shows "\<exists>k \<le> length (takeWhile IsSpace s).
    blank_ahead (pre @ s @ NUL # rest) (length pre) n = Some (length pre + length (takeWhile IsSpace s), n + k)"
  using assms
proof (induction s arbitrary: pre n rule: length_induct)
  case (1 s)
  show ?case
  proof (cases s)
    case Nil
    then show ?thesis
      by (subst blank_ahead.simps) (simp add: char_at_def)
  next
    case (Cons c t)
    have first: "char_at (pre @ s @ NUL # rest) (length pre) = Some c"
      using Cons by (simp add: char_at_def)
    consider "\<not> IsSpace c" | "IsSpace c" "\<not> IsNewLineChar c" | "IsNewLineChar c"
      by (auto dest: newline_space)
    then show ?thesis
    proof cases
      case 1
      then have "takeWhile IsSpace s = []"
        using Cons by simp
      then show ?thesis
        using 1 by (subst blank_ahead.simps) (simp add: first)
    next
      case 2
      then obtain k where "k \<le> length (takeWhile IsSpace t)"
        "blank_ahead ((pre @ [c]) @ t @ NUL # rest) (length (pre @ [c])) n
          = Some (length (pre @ [c]) + length (takeWhile IsSpace t), n + k)"
        using "1.IH"[rule_format, of t "pre @ [c]" n] "1.prems" Cons by auto
      moreover have "blank_ahead (pre @ s @ NUL # rest) (length pre) n
          = blank_ahead (pre @ s @ NUL # rest) (length pre + 1) n"
        using 2 by (subst blank_ahead.simps) (simp add: first)
      ultimately show ?thesis
        using 2 Cons by auto
    next
      case 3
      let ?r = "after_newline s"
      obtain u where u: "u \<noteq> []" "s = u @ ?r"
        using after_newline_suffix [of s] Cons by auto
      have "takeWhile IsSpace s = u @ takeWhile IsSpace ?r"
        using Cons 3 u(2) by (cases s rule: after_newline.cases) (auto simp: newline_space)
      moreover obtain k where "k \<le> length (takeWhile IsSpace ?r)"
        "blank_ahead ((pre @ u) @ ?r @ NUL # rest) (length (pre @ u)) (n + 1)
          = Some (length (pre @ u) + length (takeWhile IsSpace ?r), n + 1 + k)"
        using "1.IH"[rule_format, of ?r "pre @ u" "n + 1"] "1.prems" u
        by (metis Un_iff add_strict_increasing length_append length_greater_0_conv order_refl set_append)
      moreover have "length s - length ?r = length u"
        using u(2) by (metis add_diff_cancel_right' length_append)
      then have "SkipNewLine (pre @ s @ NUL # rest) (length pre) = Some (length (pre @ u))"
        using SkipNewLine_block [of s pre rest] Cons "1.prems" by simp
      moreover have same: "(pre @ u) @ ?r @ NUL # rest = pre @ s @ NUL # rest"
        using u(2) by (metis append_assoc)
      moreover have "blank_ahead (pre @ s @ NUL # rest) (length pre) n
          = (case SkipNewLine (pre @ s @ NUL # rest) (length pre) of None \<Rightarrow> None
             | Some q \<Rightarrow> blank_ahead (pre @ s @ NUL # rest) q (n + 1))"
        using 3 newline_space [OF 3] by (subst blank_ahead.simps) (simp add: first bind_eq split: option.split)
      ultimately have "blank_ahead (pre @ s @ NUL # rest) (length pre) n
          = Some (length pre + length (takeWhile IsSpace s), n + (k + 1))"
        by (simp only: same) simp
      moreover have "k + 1 \<le> length (takeWhile IsSpace s)"
        using \<open>takeWhile IsSpace s = _\<close> \<open>k \<le> _\<close> u(1) by (cases u) simp_all
      ultimately show ?thesis
        by blast
    qed
  qed
qed

lemma put_newlines_block:
  "n \<le> length xs \<Longrightarrow> put_newlines n (pre @ xs @ rest) (length pre) = Some (pre @ replicate n LF @ drop n xs @ rest)"
proof (induction n arbitrary: pre xs)
  case (Suc n)
  then obtain x ys where "xs = x # ys"
    by (cases xs) auto
  then show ?case
    using Suc.IH [of ys "pre @ [LF]"] Suc.prems by (simp add: put_char_def)
qed simp

lemma move_line_block:
  "\<exists>junk2. move_line (pre @ junk @ l @ rest) (length pre) (length pre + length junk) (length pre + length junk + length l)
      = Some (pre @ l @ junk2 @ rest) \<and> length junk2 = length junk"
proof (cases "junk = []")
  case False
  define j where "j = drop (length l) (junk @ l)"
  have j: "length j = length junk"
    by (simp add: j_def)
  then obtain c cs where "j = c # cs"
    using False by (cases j) auto
  let ?m = "pre @ junk @ l @ rest"
  have "drop (length pre + length l) ?m = j @ rest"
    by (simp add: j_def)
  moreover have "take (length pre) ?m = pre" "take (length l) (drop (length pre + length junk) ?m) = l"
    "length pre + length junk + length l - (length pre + length junk) = length l"
    by simp_all
  ultimately have "move_line ?m (length pre) (length pre + length junk) (length pre + length junk + length l)
      = put_char (pre @ l @ j @ rest) (length pre + length l) NUL"
    using False by (simp only: move_line_def Let_def) simp
  also have "\<dots> = put_char (pre @ l @ c # cs @ rest) (length pre + length l) NUL"
    using \<open>j = c # cs\<close> by simp
  also have "\<dots> = Some (pre @ l @ (NUL # cs) @ rest)"
    using put_char_block [of "pre @ l" c "cs @ rest" NUL] by simp
  finally show ?thesis
    using j \<open>j = c # cs\<close> by (intro exI [of _ "NUL # cs"]) simp
qed (simp add: move_line_def)

section \<open>The loop of LoadMultiLineText\<close>

lemma first_rest: "r @ y # rest = x # xs \<Longrightarrow> x = hd (r @ [y]) \<and> xs = tl (r @ y # rest)"
  by (cases r) auto

text \<open>One line: it is moved down, cut off with a NUL, and compared with the tag if there is one.\<close>

lemma ml_line:
  assumes "tag \<noteq> None \<or> IsComment (hd (s @ [NUL]))" "NUL \<notin> set s"
  shows "\<exists>junk2. length junk2 = length junk \<and>
    ml_loop tag blank (pre @ junk @ s @ NUL # rest) (length pre + length junk) (length pre) eol = do {
      (found, m) \<leftarrow> (let m = pre @ this_line s @ junk2 @ NUL # tl (line_end s @ NUL # rest)
        in case tag of None \<Rightarrow> Some (False, m)
           | Some t \<Rightarrow> check_tag m (length pre) (length pre + length junk + length (this_line s)) t);
      let e = length pre + length junk + length (this_line s); eol = hd (line_end s @ [NUL]) in
      if found then Some (False, m, e, length pre, eol)
      else if eol = NUL then Some (True, m, e, length pre, eol)
      else do {
        m \<leftarrow> put_char m e eol;
        a' \<leftarrow> SkipNewLine m e;
        m \<leftarrow> put_char m (length pre + length (this_line s)) LF;
        ml_loop tag blank m a' (length pre + length (this_line s) + 1) eol
      }
    }"
proof -
  let ?m = "pre @ junk @ s @ NUL # rest" and ?l = "this_line s" and ?r = "line_end s"
  let ?e = "length pre + length junk + length ?l"
  obtain x xs where x: "?r @ NUL # rest = x # xs"
    by (cases "?r @ NUL # rest") auto
  have x': "x = hd (?r @ [NUL])" "xs = tl (?r @ NUL # rest)"
    using first_rest [OF x] by blast+
  have m: "?m = pre @ junk @ ?l @ x # xs"
    using x by (metis append_assoc takeWhile_dropWhile_id)
  obtain junk2 where junk2: "move_line ?m (length pre) (length pre + length junk) ?e = Some (pre @ ?l @ junk2 @ x # xs)"
    "length junk2 = length junk"
    using move_line_block [of pre junk ?l "x # xs"] unfolding m by auto
  have c: "char_at ?m (length pre + length junk) = Some (hd (s @ [NUL]))"
    by (cases s) (simp_all add: char_at_def nth_append)
  have e: "skip_while (\<lambda>c. \<not> IsNewLineChar c) ?m (length pre + length junk) = Some ?e"
    using skip_while_block [OF assms(2), of "\<lambda>c. \<not> IsNewLineChar c" "pre @ junk" rest] by simp
  have at: "char_at (pre @ ?l @ junk2 @ x # xs) ?e = Some x"
    "put_char (pre @ ?l @ junk2 @ x # xs) ?e NUL = Some (pre @ ?l @ junk2 @ NUL # xs)"
    using char_at_block [of "pre @ ?l @ junk2" x xs] put_char_block [of "pre @ ?l @ junk2" x xs NUL] junk2(2)
    by (simp_all add: ac_simps)
  have n: "?e - (length pre + length junk) = length ?l"
    by simp
  have line: "(tag = None \<and> \<not> IsComment (hd (s @ [NUL]))) = False"
    using assms(1) by blast
  have "ml_loop tag blank ?m (length pre + length junk) (length pre) eol = do {
      (found, m) \<leftarrow> (let m = pre @ ?l @ junk2 @ NUL # xs
        in case tag of None \<Rightarrow> Some (False, m) | Some t \<Rightarrow> check_tag m (length pre) ?e t);
      if found then Some (False, m, ?e, length pre, x)
      else if x = NUL then Some (True, m, ?e, length pre, x)
      else do {
        m \<leftarrow> put_char m ?e x;
        a' \<leftarrow> SkipNewLine m ?e;
        m \<leftarrow> put_char m (length pre + length ?l) LF;
        ml_loop tag blank m a' (length pre + length ?l + 1) x
      }
    }"
    by (subst ml_loop.simps)
      (simp only: c e at junk2(1) n line if_False bind.bind_lunit Let_def cong: option.case_cong)
  then show ?thesis
    using junk2(2) unfolding x' Let_def by blast
qed

text \<open>The end of a line becomes one newline, and the next line follows.\<close>

lemma ml_continue:
  assumes "r \<noteq> []" "NUL \<notin> set r" "e = length pre + length junk + length l"
  shows "\<exists>junk2. length junk2 + 1 + length (after_newline r) = length junk + length r \<and>
    do {
      m \<leftarrow> put_char (pre @ l @ junk @ NUL # tl (r @ NUL # rest)) e (hd (r @ [NUL]));
      a' \<leftarrow> SkipNewLine m e;
      m \<leftarrow> put_char m (length pre + length l) LF;
      K m a'
    } = K ((pre @ l @ [LF]) @ junk2 @ after_newline r @ NUL # rest) (length (pre @ l @ [LF]) + length junk2)"
proof -
  obtain u where u: "u \<noteq> []" "r = u @ after_newline r"
    using after_newline_suffix [OF assms(1)] by blast
  obtain x junk2 where x: "junk @ u = x # junk2"
    using u(1) by (cases "junk @ u") auto
  obtain y ys where y: "r = y # ys"
    using assms(1) by (cases r) auto
  have len: "length r = length u + length (after_newline r)"
    using arg_cong [OF u(2), of length] by simp
  have "length junk + length u = 1 + length junk2"
    using arg_cong [OF x, of length] by simp
  then have len2: "length junk2 + 1 + length (after_newline r) = length junk + length r"
    using len by simp
  have "put_char (pre @ l @ junk @ NUL # tl (r @ NUL # rest)) e (hd (r @ [NUL])) = Some (pre @ l @ junk @ r @ NUL # rest)"
    using put_char_block [of "pre @ l @ junk" NUL "tl (r @ NUL # rest)" y] assms(3) y by (simp add: ac_simps)
  moreover have "SkipNewLine (pre @ l @ junk @ r @ NUL # rest) e = Some (length (pre @ l @ [LF]) + length junk2)"
    using SkipNewLine_block [OF assms(1,2), of "pre @ l @ junk" rest] assms(3) len2 len
    by (simp add: ac_simps)
  moreover have block: "pre @ l @ junk @ r @ NUL # rest = (pre @ l) @ x # junk2 @ after_newline r @ NUL # rest"
    using u(2) x by (metis append_Cons append_assoc)
  have "put_char (pre @ l @ junk @ r @ NUL # rest) (length pre + length l) LF
      = Some ((pre @ l @ [LF]) @ junk2 @ after_newline r @ NUL # rest)"
    unfolding block using put_char_block [of "pre @ l" x "junk2 @ after_newline r @ NUL # rest" LF] by simp
  ultimately show ?thesis
    using len2 by (intro exI [of _ junk2]) simp
qed

lemma NUL_line_end: "NUL \<notin> set s \<Longrightarrow> NUL \<notin> set (line_end s)"
  by (meson set_dropWhileD)

lemma NUL_after_newline: "NUL \<notin> set r \<Longrightarrow> NUL \<notin> set (after_newline r)"
  by (cases r rule: after_newline.cases) auto

lemma length_line_end: "length (line_end s) \<le> length s"
  by (rule length_dropWhile_le)

lemma length_after_newline: "r \<noteq> [] \<Longrightarrow> length (after_newline r) < length r"
  by (cases r rule: after_newline.cases) auto

lemma line_end_hd: "line_end s = c # r \<Longrightarrow> IsNewLineChar c"
  by (metis dropWhile_eq_Cons_conv)

text \<open>
  The result of the loop when it reads a comment: what was collected grows, what is left is a part
  of the text that holds the same items.
\<close>

definition comment_read :: "string \<Rightarrow> nat \<Rightarrow> string \<Rightarrow> string \<Rightarrow> string \<Rightarrow> bool \<times> string \<times> nat \<times> nat \<times> char \<Rightarrow> bool" where
  "comment_read pre n s rest s' res \<longleftrightarrow> (\<exists>f pre' junk' eol'.
     res = (f, pre' @ junk' @ s' @ NUL # rest, length pre' + length junk', length pre', eol')
     \<and> prefix pre pre' \<and> length pre' + length junk' + length s' = length pre + n + length s
     \<and> (f \<longrightarrow> s' = []) \<and> (IsComment (hd (s @ [NUL])) \<longrightarrow> f \<or> length pre < length pre'))"

lemma comment_read_step:
  assumes "comment_read (pre @ q) n t rest s' res" "IsComment (hd (s @ [NUL])) \<longrightarrow> q \<noteq> []" "length q + n + length t = k + length s"
  shows "comment_read pre k s rest s' res"
proof -
  obtain f pre' junk' eol' where "res = (f, pre' @ junk' @ s' @ NUL # rest, length pre' + length junk', length pre', eol')"
    "prefix (pre @ q) pre'" "length pre' + length junk' + length s' = length (pre @ q) + n + length t" "f \<longrightarrow> s' = []"
    using assms(1) by (auto simp: comment_read_def)
  moreover have "prefix pre pre'" "IsComment (hd (s @ [NUL])) \<longrightarrow> length pre < length pre'"
    using \<open>prefix (pre @ q) pre'\<close> assms(2) prefix_length_le [of "pre @ q" pre']
    by (auto dest: append_prefixD simp: neq_Nil_conv)
  ultimately show ?thesis
    unfolding comment_read_def using assms(3)
    by (intro exI [of _ f] exI [of _ pre'] exI [of _ junk'] exI [of _ eol']) simp
qed

lemma comment_loop:
  assumes "NUL \<notin> set s"
  shows "\<exists>s' res. ml_loop None blank (pre @ junk @ s @ NUL # rest) (length pre + length junk) (length pre) eol = Some res
    \<and> comment_read pre (length junk) s rest s' res \<and> suffix s' s \<and> items s' = items s \<and> (clean s \<longrightarrow> clean s')
    \<and> (IsComment (hd (s @ [NUL])) \<longrightarrow> length s' < length s)"
  using assms
proof (induction s arbitrary: pre junk eol rule: length_induct)
  case (1 s)
  let ?sp = "takeWhile IsSpace s" and ?t = "dropWhile IsSpace s"
  have first: "char_at (pre @ junk @ s @ NUL # rest) (length pre + length junk) = Some (hd (s @ [NUL]))"
    by (cases s) (simp_all add: char_at_def nth_append)
  have stop: ?case if "ml_loop None blank (pre @ junk @ s @ NUL # rest) (length pre + length junk) (length pre) eol
      = Some (False, pre @ junk @ s @ NUL # rest, length pre + length junk, length pre, eol)" "\<not> IsComment (hd (s @ [NUL]))"
    using that by (intro exI [of _ s] exI conjI) (auto simp: comment_read_def)
  show ?case
  proof (cases "IsComment (hd (s @ [NUL]))")
    case True
    define l r where "l = this_line s" and "r = line_end s"
    have lr: "s = l @ r" "NUL \<notin> set r"
      using "1.prems" NUL_line_end [of s] by (simp_all add: l_def r_def)
    have "item_of_line l = []" "l \<noteq> []"
      using True by (cases s; auto simp: item_of_line_def comment_not_space l_def)+
    then have items: "items r = items s" "clean s \<longrightarrow> clean r"
      using items_line [of s] clean_line_end [of s] by (simp_all add: l_def r_def)
    obtain junk2 where junk2: "length junk2 = length junk"
      and step: "ml_loop None blank (pre @ junk @ s @ NUL # rest) (length pre + length junk) (length pre) eol = (
        let m = pre @ l @ junk2 @ NUL # tl (r @ NUL # rest);
          e = length pre + length junk + length l; eol = hd (r @ [NUL]) in
        if eol = NUL then Some (True, m, e, length pre, eol)
        else do {
          m \<leftarrow> put_char m e eol;
          a' \<leftarrow> SkipNewLine m e;
          m \<leftarrow> put_char m (length pre + length l) LF;
          ml_loop None blank m a' (length pre + length l + 1) eol
        })"
      using ml_line [of None s junk blank pre rest eol] True "1.prems" by (auto simp: Let_def l_def r_def)
    show ?thesis
    proof (cases "r = []")
      case nil: True
      have "comment_read pre (length junk) s rest []
          (True, pre @ l @ junk2 @ NUL # rest, length pre + length junk + length l, length pre, NUL)"
        unfolding comment_read_def
        by (intro exI [of _ True] exI [of _ pre] exI [of _ "l @ junk2"] exI [of _ NUL])
          (use junk2 lr nil in simp)
      then show ?thesis
        using step items lr nil \<open>l \<noteq> []\<close> by (intro exI [of _ "[]"]) (auto simp: Let_def)
    next
      case False
      let ?p = "pre @ l @ [LF]" and ?t = "after_newline r" and ?e = "hd (r @ [NUL])"
      have nul: "NUL \<notin> set ?t" "?e \<noteq> NUL"
        using lr(2) NUL_after_newline [OF lr(2)] False by (cases r; auto)+
      obtain junk3 where junk3: "length junk3 + 1 + length ?t = length junk + length r"
        "ml_loop None blank (pre @ junk @ s @ NUL # rest) (length pre + length junk) (length pre) eol
          = ml_loop None blank (?p @ junk3 @ ?t @ NUL # rest) (length ?p + length junk3) (length ?p) ?e"
        using ml_continue [OF False lr(2), of "length pre + length junk + length l" pre junk2 l
            rest "\<lambda>m a'. ml_loop None blank m a' (length pre + length l + 1) ?e"] junk2 nul(2)
        by (auto simp: step Let_def)
      have "length ?t < length s"
        using length_after_newline [OF False] lr by simp
      then obtain s' res where loop: "ml_loop None blank (?p @ junk3 @ ?t @ NUL # rest) (length ?p + length junk3) (length ?p) ?e = Some res"
        "comment_read ?p (length junk3) ?t rest s' res" "suffix s' ?t" "items s' = items ?t" "clean ?t \<longrightarrow> clean s'"
        using "1.IH"[rule_format, of ?t ?p junk3 ?e] nul(1) by blast
      have "comment_read pre (length junk) s rest s' res"
      proof (rule comment_read_step [OF loop(2)])
        show "length (l @ [LF]) + length junk3 + length ?t = length junk + length s"
          using junk3(1) arg_cong [OF lr(1), of length] by simp
      qed simp
      moreover have "suffix ?t s"
        using lr(1) after_newline_suffix [OF False] unfolding suffix_def by (metis append_assoc)
      moreover have "items ?t = items s" "clean s \<longrightarrow> clean ?t"
        using items items_after_newline [of s] clean_after_newline [of s] False by (cases r; simp add: r_def)+
      ultimately show ?thesis
        using loop junk3(2) suffix_length_le [OF loop(3)] \<open>length ?t < length s\<close>
        by (intro exI [of _ s'] exI [of _ res]) (auto dest: suffix_order.trans)
    qed
  next
    case False
    note not_comment = this
    define sp t where "sp = takeWhile IsSpace s" and "t = dropWhile IsSpace s"
    have s: "s = sp @ t" "NUL \<notin> set t"
      using "1.prems" by (simp_all add: sp_def t_def) (meson set_dropWhileD)
    obtain k where k: "k \<le> length sp"
      "blank_ahead (pre @ junk @ s @ NUL # rest) (length pre + length junk) 0 = Some (length pre + length junk + length sp, k)"
      using blank_ahead_block [OF "1.prems", of "pre @ junk" rest 0] by (auto simp: sp_def)
    have head: "char_at (pre @ junk @ s @ NUL # rest) (length pre + length junk + length sp) = Some (hd (t @ [NUL]))"
      using char_at_block [of "pre @ junk @ sp" "hd (t @ [NUL])" "tl (t @ NUL # rest)"] unfolding s(1)
      by (cases t) (simp_all add: ac_simps)
    show ?thesis
    proof (cases "blank \<and> IsComment (hd (t @ [NUL]))")
      case True
      then have shorter: "length t < length s"
        using not_comment by (cases s) (auto simp: t_def le_imp_less_Suc length_dropWhile_le split: if_splits)
      let ?p = "pre @ replicate k LF" and ?j = "drop k (junk @ sp)"
      have put: "put_newlines k (pre @ junk @ s @ NUL # rest) (length pre) = Some (?p @ ?j @ t @ NUL # rest)"
        using put_newlines_block [of k "junk @ sp" pre "t @ NUL # rest"] k(1) s by simp
      have len: "length pre + length junk + length sp = length ?p + length ?j" "length ?p = length pre + k"
        using k(1) by simp_all
      have "ml_loop None blank (pre @ junk @ s @ NUL # rest) (length pre + length junk) (length pre) eol
          = ml_loop None blank (?p @ ?j @ t @ NUL # rest) (length pre + length junk + length sp) (length pre + k) eol"
        using True not_comment
        by (subst ml_loop.simps) (simp only: first k(2) head put bind.bind_lunit prod.case if_True if_False simp_thms)
      moreover obtain s' res where loop:
        "ml_loop None blank (?p @ ?j @ t @ NUL # rest) (length ?p + length ?j) (length ?p) eol = Some res"
        "comment_read ?p (length ?j) t rest s' res" "suffix s' t" "items s' = items t" "clean t \<longrightarrow> clean s'"
        using "1.IH"[rule_format, of t ?p ?j eol] shorter s(2) by blast
      moreover have "comment_read pre (length junk) s rest s' res"
        using not_comment k(1) arg_cong [OF s(1), of length] by (intro comment_read_step [OF loop(2)]) simp_all
      moreover have "suffix s' s"
        using loop(3) s(1) by (metis suffix_appendI)
      moreover have "items t = items s" "clean t = clean s"
        by (simp_all add: t_def items_skip_spaces clean_skip_spaces)
      ultimately show ?thesis
        using not_comment unfolding len by (intro exI [of _ s'] exI [of _ res] conjI) simp_all
    next
      case False
      show ?thesis
        by (rule stop [OF _ not_comment], subst ml_loop.simps)
          (use False not_comment in \<open>auto simp: first k(2) head\<close>)
    qed
  qed
qed

lemma load_comment:
  assumes "NUL \<notin> set s" "s \<noteq> []" "IsComment (hd s)"
  shows "\<exists>v s'. LoadMultiLineText (pre @ s @ NUL # rest) (length pre) None blank
      = Some (True, pre @ v @ s' @ NUL # rest, length pre + length v, Some (length pre))
    \<and> length v + length s' = length s \<and> length s' < length s \<and> suffix s' s
    \<and> items s' = items s \<and> (clean s \<longrightarrow> clean s')"
proof -
  let ?m = "pre @ s @ NUL # rest"
  have "IsComment (hd (s @ [NUL]))"
    using assms(2,3) by (cases s) simp_all
  then obtain s' res where loop: "ml_loop None blank ?m (length pre) (length pre) (hd s) = Some res"
    and read: "comment_read pre 0 s rest s' res"
    and s': "suffix s' s" "items s' = items s" "clean s \<longrightarrow> clean s'" "length s' < length s"
    using comment_loop [OF assms(1), of blank pre "[]" rest "hd s"] by auto
  obtain f pre' junk eol where res: "res = (f, pre' @ junk @ s' @ NUL # rest, length pre' + length junk, length pre', eol)"
    and pre': "prefix pre pre'" "length pre' + length junk + length s' = length pre + length s" "f \<longrightarrow> s' = []"
      "f \<or> length pre < length pre'"
    using read \<open>IsComment (hd (s @ [NUL]))\<close> by (auto simp: comment_read_def)
  obtain q where q: "pre' = pre @ q"
    using pre'(1) by (auto simp: prefix_def)
  have at: "char_at ?m (length pre) = Some (hd s)"
    using assms(2) by (cases s) (simp_all add: char_at_def)
  show ?thesis
  proof (cases f)
    case True
    then show ?thesis
      using s' pre' q by (intro exI [of _ "q @ junk"] exI [of _ s']) (simp add: LoadMultiLineText_def at loop res)
  next
    case False
    then obtain u x where "q = u @ [x]"
      using pre'(4) q by (cases q rule: rev_cases) auto
    then show ?thesis
      using False s' pre' q put_char_block [of "pre @ u" x "junk @ s' @ NUL # rest" NUL]
      by (intro exI [of _ "u @ [NUL] @ junk"] exI [of _ s']) (auto simp: LoadMultiLineText_def at loop res)
  qed
qed

lemma load_no_comment:
  assumes "\<not> IsComment (hd (s @ [NUL]))"
  shows "LoadMultiLineText (pre @ s @ NUL # rest) (length pre) None False
    = Some (False, pre @ s @ NUL # rest, length pre, None)"
proof -
  have "char_at (pre @ s @ NUL # rest) (length pre) = Some (hd (s @ [NUL]))"
    by (cases s) (simp_all add: char_at_def)
  then show ?thesis
    using assms unfolding LoadMultiLineText_def by (subst ml_loop.simps) simp
qed

text \<open>The loop when it looks for the tag that ends a value.\<close>

lemma rtrim_total: "hi \<le> length m \<Longrightarrow> \<exists>p. rtrim m lo hi = Some p \<and> p \<le> hi \<and> (lo \<le> hi \<longrightarrow> lo \<le> p) \<and> (hi < lo \<longrightarrow> p = hi)"
  by (induction m lo hi rule: rtrim.induct) (auto simp: char_at_def le_Suc_eq)

lemma c_string_before:
  assumes "m ! k = NUL" "k < length m" "i \<le> k"
  shows "\<exists>t. c_string m i = Some t"
proof -
  have "drop i m ! (k - i) = NUL" "k - i < length (drop i m)"
    using assms by simp_all
  then have "NUL \<in> set (drop i m)"
    by (metis nth_mem)
  then show ?thesis
    by (simp add: c_string_def)
qed

lemma check_tag_total:
  assumes "d \<le> e" "e < length m" "t \<le> d"
  shows "check_tag m d e t = Some (False, m) \<or> (\<exists>pc. d \<le> pc \<and> pc \<le> e \<and> check_tag m d e t = Some (True, m[pc := NUL]))"
proof -
  obtain pc where pc: "rtrim m (d + 1) e = Some pc" "pc \<le> e" "d \<le> pc"
    using rtrim_total [of e m "d + 1"] assms by (cases "d = e") auto
  obtain l where "c_string (m[pc := NUL]) d = Some l"
    using c_string_before [of "m[pc := NUL]" pc d] pc assms by auto
  moreover obtain u where "c_string (m[pc := NUL]) t = Some u"
    using c_string_before [of "m[pc := NUL]" pc t] pc assms by auto
  ultimately show ?thesis
    using pc assms by (auto simp: check_tag_def char_at_def put_char_def)
qed

definition tag_read :: "string \<Rightarrow> nat \<Rightarrow> string \<Rightarrow> string \<Rightarrow> bool \<times> string \<times> nat \<times> nat \<times> char \<Rightarrow> bool" where
  "tag_read pre n s rest res \<longleftrightarrow> (\<exists>f q r d eol.
     res = (f, pre @ q @ NUL # tl (r @ NUL # rest), length pre + length q, d, eol)
     \<and> length q + length r = n \<and> suffix r s \<and> eol = hd (r @ [NUL])
     \<and> length pre \<le> d \<and> d \<le> length pre + length q \<and> (f \<longrightarrow> r = []))"

lemma tag_read_step:
  assumes "tag_read (pre @ p) n t rest res" "suffix t s" "length p + n = k"
  shows "tag_read pre k s rest res"
proof -
  obtain f q r d eol where "res = (f, (pre @ p) @ q @ NUL # tl (r @ NUL # rest), length (pre @ p) + length q, d, eol)"
    "length q + length r = n" "suffix r t" "eol = hd (r @ [NUL])" "length (pre @ p) \<le> d" "d \<le> length (pre @ p) + length q"
    "f \<longrightarrow> r = []"
    using assms(1) by (auto simp: tag_read_def)
  then show ?thesis
    using assms(2,3) unfolding tag_read_def
    by (intro exI [of _ f] exI [of _ "p @ q"] exI [of _ r] exI [of _ d] exI [of _ eol]) (auto dest: suffix_order.trans)
qed

lemma update_NUL: "i \<le> length q \<Longrightarrow> (q @ NUL # xs)[i := NUL] = q[i := NUL] @ NUL # xs"
  by (auto simp: list_update_append list_update_beyond)

lemma tag_loop:
  assumes "NUL \<notin> set s" "t \<le> length pre"
  shows "\<exists>res. ml_loop (Some t) blank (pre @ junk @ s @ NUL # rest) (length pre + length junk) (length pre) eol = Some res
    \<and> tag_read pre (length junk + length s) s rest res"
  using assms
proof (induction s arbitrary: pre junk eol rule: length_induct)
  case (1 s)
  define l r where "l = this_line s" and "r = line_end s"
  have lr: "s = l @ r" "NUL \<notin> set r" "suffix r s"
    using "1.prems"(1) NUL_line_end [of s] by (simp_all add: l_def r_def suffix_dropWhile)
  let ?e = "length pre + length junk + length l" and ?eol = "hd (r @ [NUL])"
  obtain junk2 where junk2: "length junk2 = length junk"
    and step: "ml_loop (Some t) blank (pre @ junk @ s @ NUL # rest) (length pre + length junk) (length pre) eol = do {
        (found, m) \<leftarrow> check_tag (pre @ l @ junk2 @ NUL # tl (r @ NUL # rest)) (length pre) ?e t;
        if found then Some (False, m, ?e, length pre, ?eol)
        else if ?eol = NUL then Some (True, m, ?e, length pre, ?eol)
        else do {
          m \<leftarrow> put_char m ?e ?eol;
          a' \<leftarrow> SkipNewLine m ?e;
          m \<leftarrow> put_char m (length pre + length l) LF;
          ml_loop (Some t) blank m a' (length pre + length l + 1) ?eol
        }
      }"
    using ml_line [of "Some t" s junk blank pre rest eol] "1.prems"(1)
    unfolding Let_def l_def r_def option.case by blast
  let ?m = "pre @ l @ junk2 @ NUL # tl (r @ NUL # rest)"
  consider "check_tag ?m (length pre) ?e t = Some (False, ?m)"
    | pc where "length pre \<le> pc" "pc \<le> ?e" "check_tag ?m (length pre) ?e t = Some (True, ?m[pc := NUL])"
    using check_tag_total [of "length pre" ?e ?m t] "1.prems"(2) junk2 by auto
  then show ?case
  proof cases
    case 1
    show ?thesis
    proof (cases "r = []")
      case True
      then have "tag_read pre (length junk + length s) s rest (True, ?m, ?e, length pre, NUL)"
        using junk2 lr(1) unfolding tag_read_def
        by (intro exI [of _ True] exI [of _ "l @ junk2"] exI [of _ r] exI [of _ "length pre"] exI [of _ NUL]) auto
      then show ?thesis
        using True step 1 by simp
    next
      case False
      let ?p = "l @ [LF]" and ?t = "after_newline r"
      have nul: "NUL \<notin> set ?t" "?eol \<noteq> NUL"
        using lr(2) NUL_after_newline [OF lr(2)] False by (cases r; auto)+
      obtain junk3 where junk3: "length junk3 + 1 + length ?t = length junk + length r"
        "ml_loop (Some t) blank (pre @ junk @ s @ NUL # rest) (length pre + length junk) (length pre) eol
          = ml_loop (Some t) blank ((pre @ ?p) @ junk3 @ ?t @ NUL # rest) (length (pre @ ?p) + length junk3) (length (pre @ ?p)) ?eol"
        using ml_continue [OF False lr(2), of ?e pre junk2 l rest
            "\<lambda>m a'. ml_loop (Some t) blank m a' (length pre + length l + 1) ?eol"] junk2 nul(2) 1
        by (auto simp: step)
      have "length ?t < length s"
        using length_after_newline [OF False] lr(1) by simp
      then obtain res where "ml_loop (Some t) blank ((pre @ ?p) @ junk3 @ ?t @ NUL # rest)
          (length (pre @ ?p) + length junk3) (length (pre @ ?p)) ?eol = Some res"
        "tag_read (pre @ ?p) (length junk3 + length ?t) ?t rest res"
        using "1.IH"[rule_format, of ?t "pre @ ?p" junk3 ?eol] nul(1) "1.prems"(2) by auto
      moreover have "suffix ?t s"
        using lr(1) after_newline_suffix [OF False] unfolding suffix_def by (metis append_assoc)
      moreover have "length ?p + (length junk3 + length ?t) = length junk + length s"
        using junk3(1) arg_cong [OF lr(1), of length] by simp
      ultimately show ?thesis
        unfolding junk3(2) using tag_read_step by blast
    qed
  next
    case (2 pc)
    let ?q = "(l @ junk2)[pc - length pre := NUL]"
    have "?m[pc := NUL] = pre @ ?q @ NUL # tl (r @ NUL # rest)"
      using 2(1,2) junk2 update_NUL [of "pc - length pre" "l @ junk2" "tl (r @ NUL # rest)"]
      by (simp add: list_update_append)
    then have "tag_read pre (length junk + length s) s rest (False, ?m[pc := NUL], ?e, length pre, ?eol)"
      using junk2 lr unfolding tag_read_def
      by (intro exI [of _ False] exI [of _ ?q] exI [of _ r] exI [of _ "length pre"] exI [of _ ?eol]) auto
    then show ?thesis
      using step 2(3) by simp
  qed
qed

text \<open>
  Reading a value up to a tag always ends, whatever the text: it changes at most the last character
  before the value, and what is left is a part of the text.
\<close>

lemma load_value_total:
  assumes "NUL \<notin> set s" "t \<le> length pre" "pre \<noteq> []"
  shows "\<exists>found pre' q s' rest' val. LoadMultiLineText (pre @ s @ NUL # rest) (length pre) (Some t) blank
      = Some (found, pre' @ q @ s' @ NUL # rest', length pre + length q, val)
    \<and> length pre' = length pre \<and> butlast pre' = butlast pre \<and> suffix s' s
    \<and> length q + length s' + length rest' = length s + length rest \<and> val \<in> {None, Some (length pre)}"
proof -
  let ?m = "pre @ s @ NUL # rest"
  have at: "char_at ?m (length pre) = Some (hd (s @ [NUL]))"
    by (cases s) (simp_all add: char_at_def)
  obtain f q r d where loop: "ml_loop (Some t) blank ?m (length pre) (length pre) (hd (s @ [NUL]))
      = Some (f, pre @ q @ NUL # tl (r @ NUL # rest), length pre + length q, d, hd (r @ [NUL]))"
    and read: "length q + length r = length s" "suffix r s" "length pre \<le> d" "d \<le> length pre + length q" "f \<longrightarrow> r = []"
    using tag_loop [OF assms(1,2), of blank "[]" rest "hd (s @ [NUL])"] unfolding tag_read_def by auto
  let ?xs = "tl (r @ NUL # rest)"
  have len: "length ?xs = length r + length rest"
    by simp
  show ?thesis
  proof (cases "f \<or> q = []")
    case True
    have "LoadMultiLineText ?m (length pre) (Some t) blank
        = Some (f, pre @ q @ [] @ NUL # ?xs, length pre + length q, if f then Some (length pre) else None)"
      using True by (auto simp: LoadMultiLineText_def at loop)
    moreover have "length q + length ([] :: string) + length ?xs = length s + length rest"
      using len read(1) by simp
    ultimately show ?thesis
      by - (intro exI conjI, assumption, simp_all)
  next
    case False
    define b where "b = (pre @ q)[d - 1 := NUL]"
    define pre' q' where "pre' = take (length pre) b" and "q' = drop (length pre) b"
    have "0 < d"
      using read(3) assms(3) by (cases pre) auto
    have b: "length b = length pre + length q" "b = pre' @ q'" "length pre' = length pre" "length q' = length q"
      by (simp_all add: b_def pre'_def q'_def)
    have before: "butlast pre' = butlast pre"
      using read(3) assms(3) unfolding pre'_def b_def by (auto simp: butlast_conv_take list_update_append)
    have put: "put_char (pre @ q @ NUL # ?xs) (d - 1) NUL = Some (b @ NUL # ?xs)"
    proof -
      have i: "d - 1 < length (pre @ q)"
        using read(4) \<open>0 < d\<close> by simp
      have "put_char ((pre @ q) @ NUL # ?xs) (d - 1) NUL = Some (b @ NUL # ?xs)"
        unfolding b_def list_update_append1 [OF i, symmetric] using i by (simp add: put_char_def)
      then show ?thesis
        by simp
    qed
    show ?thesis
    proof (cases "r = []")
      case True
      then show ?thesis
        using False read b before put \<open>0 < d\<close>
        by (intro exI [of _ True] exI [of _ pre'] exI [of _ q'] exI [of _ "[]"] exI [of _ rest] exI [of _ "Some (length pre)"])
          (auto simp: LoadMultiLineText_def at loop)
    next
      case r: False
      obtain u where u: "u \<noteq> []" "r = u @ after_newline r"
        using after_newline_suffix [OF r] by blast
      have nul: "NUL \<notin> set r"
        using assms(1) set_mono_suffix [OF read(2)] by blast
      then have "hd (r @ [NUL]) \<noteq> NUL"
        using r by (cases r) auto
      have "r @ NUL # rest = hd (r @ [NUL]) # ?xs"
        using r by (cases r) auto
      then have "put_char (b @ NUL # ?xs) (length pre + length q) (hd (r @ [NUL])) = Some (b @ r @ NUL # rest)"
        using put_char_block [of b NUL ?xs "hd (r @ [NUL])"] b(1) by simp
      moreover have "SkipNewLine (b @ r @ NUL # rest) (length pre + length q) = Some (length pre + length (q' @ u))"
        using SkipNewLine_block [OF r nul, of b rest] b arg_cong [OF u(2), of length] by simp
      ultimately have "LoadMultiLineText ?m (length pre) (Some t) blank
          = Some (True, b @ r @ NUL # rest, length pre + length (q' @ u), Some (length pre))"
        using False put \<open>0 < d\<close> \<open>hd (r @ [NUL]) \<noteq> NUL\<close> by (simp add: LoadMultiLineText_def at loop)
      also have "b @ r @ NUL # rest = pre' @ (q' @ u) @ after_newline r @ NUL # rest"
        using b(2) u(2) by (metis append_assoc)
      finally have "LoadMultiLineText ?m (length pre) (Some t) blank
          = Some (True, pre' @ (q' @ u) @ after_newline r @ NUL # rest, length pre + length (q' @ u), Some (length pre))" .
      moreover have "suffix (after_newline r) s"
        using read(2) suffixI [OF u(2)] suffix_order.trans by blast
      moreover have "length (q' @ u) + length (after_newline r) + length rest = length s + length rest"
        using read(1) b(4) arg_cong [OF u(2), of length] by simp
      ultimately show ?thesis
        using b(3) before by - (intro exI conjI, assumption, simp_all)
    qed
  qed
qed

end
