(* ===== verification/Ini_Find.thy ===== *)
theory Ini_Find
  imports Ini_Parse
begin

text \<open>
  \<open>FindEntry\<close> always returns, whatever the text and the settings, reads and writes only inside the
  block and gives pointers into it (\<open>FindEntry_total\<close>); with the settings the program uses it
  delivers the items of the text, one per call (\<open>FindEntry_item\<close>).
\<close>

section \<open>What is left to read\<close>

definition opened :: "string \<Rightarrow> nat \<Rightarrow> bool" where
  "opened m i \<longleftrightarrow> NUL \<in> set (drop i m)"

definition left :: "string \<Rightarrow> nat \<Rightarrow> string" where
  "left m i = takeWhile (\<lambda>c. c \<noteq> NUL) (drop i m)"

lemma left_split:
  assumes "opened m i"
  shows "m = take i m @ left m i @ NUL # drop (i + length (left m i) + 1) m" "NUL \<notin> set (left m i)"
    "i + length (left m i) < length m" "length (take i m) = i"
proof -
  obtain x xs where x: "dropWhile (\<lambda>c. c \<noteq> NUL) (drop i m) = x # xs"
    using assms by (cases "dropWhile (\<lambda>c. c \<noteq> NUL) (drop i m)") (auto simp: opened_def)
  then have "x = NUL"
    using hd_dropWhile [of "\<lambda>c. c \<noteq> NUL" "drop i m"] by simp
  then have d: "drop i m = left m i @ NUL # xs"
    using x unfolding left_def by (metis takeWhile_dropWhile_id)
  have "xs = drop (length (left m i) + 1) (drop i m)"
    unfolding d by simp
  also have "\<dots> = drop (i + length (left m i) + 1) m"
    by (simp add: add.commute)
  finally show "m = take i m @ left m i @ NUL # drop (i + length (left m i) + 1) m"
    using d by (metis append_take_drop_id)
  show "NUL \<notin> set (left m i)"
    by (auto simp: left_def dest: set_takeWhileD)
  have "length (drop i m) = length (left m i) + 1 + length xs"
    unfolding d by simp
  then show "i + length (left m i) < length m" "length (take i m) = i"
    by auto
qed

lemma left_block: "NUL \<notin> set s \<Longrightarrow> left (pre @ s @ NUL # rest) (length pre) = s"
  unfolding left_def by (induction s) auto

lemma opened_block: "opened (pre @ s @ NUL # rest) (length pre)"
  by (simp add: opened_def)

lemma opened_valid: "opened m i \<Longrightarrow> i < length m"
  using left_split(3) [of m i] by simp

lemma char_at_left: "opened m i \<Longrightarrow> char_at m i = Some (hd (left m i @ [NUL]))"
proof -
  assume "opened m i"
  note split = left_split [OF this]
  show ?thesis
    using char_at_block [of "take i m" "hd (left m i @ [NUL])" "tl (left m i @ NUL # drop (i + length (left m i) + 1) m)"]
      split(1,4) by (cases "left m i") (metis append_Nil list.sel(1,3), metis append_Cons list.sel(1,3))
qed

lemma left_forward:
  assumes "opened m i" "left m i = u @ v"
  shows "opened m (i + length u)" "left m (i + length u) = v"
proof -
  note split = left_split [OF assms(1)]
  have m: "m = (take i m @ u) @ v @ NUL # drop (i + length (left m i) + 1) m"
    using split(1) assms(2) by simp
  have len: "length (take i m @ u) = i + length u"
    using split(4) by simp
  show "opened m (i + length u)"
    using opened_block [of "take i m @ u" v] m len by metis
  have "NUL \<notin> set v"
    using split(2) assms(2) by simp
  then show "left m (i + length u) = v"
    using left_block [of v "take i m @ u" "drop (i + length (left m i) + 1) m"] m len by metis
qed

lemma skip_while_left:
  assumes "opened m i"
  shows "skip_while P m i = Some (i + length (takeWhile P (left m i)))"
    "opened m (i + length (takeWhile P (left m i)))"
    "left m (i + length (takeWhile P (left m i))) = dropWhile P (left m i)"
proof -
  note split = left_split [OF assms]
  show "skip_while P m i = Some (i + length (takeWhile P (left m i)))"
    using skip_while_block [OF split(2), of P "take i m" "drop (i + length (left m i) + 1) m"] split(1,4) by metis
  show "opened m (i + length (takeWhile P (left m i)))"
    "left m (i + length (takeWhile P (left m i))) = dropWhile P (left m i)"
    using left_forward [OF assms, of "takeWhile P (left m i)" "dropWhile P (left m i)"] by simp_all
qed

lemma SkipNewLine_left:
  assumes "opened m i" "left m i \<noteq> []"
  shows "\<exists>j > i. SkipNewLine m i = Some j \<and> opened m j \<and> left m j = after_newline (left m i)"
proof -
  note split = left_split [OF assms(1)]
  obtain u where u: "u \<noteq> []" "left m i = u @ after_newline (left m i)"
    using after_newline_suffix [OF assms(2)] by blast
  have "SkipNewLine m i = Some (i + (length (left m i) - length (after_newline (left m i))))"
    using SkipNewLine_block [OF assms(2) split(2), of "take i m" "drop (i + length (left m i) + 1) m"] split(1,4) by metis
  also have "length (left m i) - length (after_newline (left m i)) = length u"
    using arg_cong [OF u(2), of length] by simp
  finally show ?thesis
    using left_forward [OF assms(1) u(2)] u(1) by (intro exI [of _ "i + length u"]) simp
qed

lemma put_char_left:
  assumes "opened m i" "t < i \<or> t = i \<and> left m i = []"
  shows "\<exists>m'. put_char m t NUL = Some m' \<and> length m' = length m \<and> opened m' i \<and> left m' i = left m i"
proof (cases "t < i")
  case True
  then have "drop i (m[t := NUL]) = drop i m"
    by simp
  then show ?thesis
    using True opened_valid [OF assms(1)] assms(1) by (simp add: put_char_def opened_def left_def)
next
  case False
  then have "m ! i = NUL" "t = i" "i < length m"
    using assms char_at_left [OF assms(1)] opened_valid [OF assms(1)] by (auto simp: char_at_def)
  then have "m[t := NUL] = m"
    by (metis list_update_id)
  then show ?thesis
    using assms(1) \<open>t = i\<close> \<open>i < length m\<close> by (simp add: put_char_def)
qed

section \<open>The parser always returns\<close>

definition ptrs_ok :: "parse \<Rightarrow> bool" where
  "ptrs_ok w \<longleftrightarrow> (\<forall>p. Some p \<in> {a_pSection w, a_pKey w, a_pVal w, a_pComment w} \<longrightarrow> p \<le> a_pData w)"

text \<open>The parser has moved on: the block has its size, less is left to read, and the pointers are valid.\<close>

definition advanced :: "parse \<Rightarrow> parse \<Rightarrow> bool" where
  "advanced w w' \<longleftrightarrow> length (block w') = length (block w) \<and> opened (block w') (a_pData w') \<and> a_pData w \<le> a_pData w'
     \<and> length (left (block w') (a_pData w')) < length (left (block w) (a_pData w)) \<and> (ptrs_ok w \<longrightarrow> ptrs_ok w')"

lemma ptrs_okI:
  "ptrs_ok w \<Longrightarrow> a_pData w \<le> a_pData w' \<Longrightarrow>
   (\<And>p. Some p \<in> {a_pSection w', a_pKey w', a_pVal w', a_pComment w'} \<Longrightarrow>
      Some p \<in> {a_pSection w, a_pKey w, a_pVal w, a_pComment w} \<or> p \<le> a_pData w') \<Longrightarrow> ptrs_ok w'"
  unfolding ptrs_ok_def by (meson order_trans)

lemma advancedI:
  "length (block w') = length (block w) \<Longrightarrow> opened (block w') (a_pData w') \<Longrightarrow> a_pData w \<le> a_pData w' \<Longrightarrow>
   length (left (block w') (a_pData w')) < length (left (block w) (a_pData w)) \<Longrightarrow>
   (\<And>p. Some p \<in> {a_pSection w', a_pKey w', a_pVal w', a_pComment w'} \<Longrightarrow>
      Some p \<in> {a_pSection w, a_pKey w, a_pVal w, a_pComment w} \<or> p \<le> a_pData w') \<Longrightarrow> advanced w w'"
  unfolding advanced_def by (metis ptrs_okI)

lemma advanced_trans: "advanced w w' \<Longrightarrow> advanced w' w'' \<Longrightarrow> advanced w w''"
  by (auto simp: advanced_def)

lemma length_dropWhile_less: "s \<noteq> [] \<Longrightarrow> P (hd s) \<Longrightarrow> length (dropWhile P s) < length s"
  by (cases s) (simp_all add: le_imp_less_Suc length_dropWhile_le)

lemma find_section_total:
  assumes "opened (block w) (a_pData w)" "left (block w) (a_pData w) = CHR ''['' # t"
  shows "\<exists>r w'. find_section w = Some (r, w') \<and> advanced w w' \<and> r \<noteq> Return False"
proof -
  let ?m = "block w" and ?nl = "\<lambda>c. \<not> IsNewLineChar c" and ?br = "\<lambda>c. c \<noteq> CHR '']'' \<and> \<not> IsNewLineChar c"
  define p where "p = a_pData w + 1 + length (takeWhile IsSpace t)"
  have start: "opened ?m (a_pData w + 1)" "left ?m (a_pData w + 1) = t"
    using left_forward [OF assms(1), of "''[''" t] assms(2) by simp_all
  have p: "skip_while IsSpace ?m (a_pData w + 1) = Some p" "opened ?m p" "left ?m p = dropWhile IsSpace t"
    using skip_while_left [OF start(1), of IsSpace] start(2) by (simp_all add: p_def)
  define q where "q = p + length (takeWhile ?br (left ?m p))"
  have q: "skip_while ?br ?m p = Some q" "opened ?m q" "left ?m q = dropWhile ?br (left ?m p)"
    using skip_while_left [OF p(2), of ?br] by (simp_all add: q_def)
  have le: "a_pData w \<le> p" "p \<le> q"
    by (simp_all add: p_def q_def)
  have shorter: "length (left ?m q) \<le> length t"
    using length_dropWhile_le [of ?br "left ?m p"] length_dropWhile_le [of IsSpace t] by (simp add: p(3) q(3))
  show ?thesis
  proof (cases "left ?m q \<noteq> [] \<and> hd (left ?m q) = CHR '']''")
    case False
    then have "hd (left ?m q @ [NUL]) \<noteq> CHR '']''"
      by (cases "left ?m q") simp_all
    then show ?thesis
      using shorter assms(2) q p(1) le
      by (auto simp: find_section_def char_at_left intro!: advancedI)
  next
    case True
    then obtain z where z: "left ?m q = CHR '']'' # z"
      by (cases "left ?m q") auto
    have q1: "opened ?m (q + 1)" "left ?m (q + 1) = z"
      using left_forward [OF q(2), of "'']''" z] z by simp_all
    obtain u where u: "rtrim ?m p q = Some u" "u \<le> q"
      using rtrim_total [of q ?m p] opened_valid [OF q(2)] by auto
    obtain m where m: "put_char ?m u NUL = Some m" "length m = length ?m" "opened m (q + 1)" "left m (q + 1) = z"
      using put_char_left [OF q1(1), of u] q1(2) u(2) by auto
    have "length (dropWhile ?nl z) \<le> length t"
      using shorter z length_dropWhile_le [of ?nl z] by simp
    then show ?thesis
      using z q p(1) u m skip_while_left [OF m(3), of ?nl] le assms(2)
      by (auto simp: find_section_def char_at_left intro!: advancedI)
  qed
qed

lemma opened_put: "put_char m t NUL = Some m' \<Longrightarrow> v \<le> t \<Longrightarrow> opened m' v \<and> m' ! t = NUL \<and> t < length m'"
  unfolding opened_def put_char_def
  by (auto split: if_splits simp: in_set_conv_nth intro!: exI [of _ "t - v"])

lemma IsMultiLineTag_total:
  assumes "opened m v"
  shows "\<exists>b. IsMultiLineTag m v = Some b \<and> (b \<longrightarrow> (\<forall>i < 3. m ! (v + i) \<noteq> NUL))"
proof -
  have next_char: "opened m (i + 1)" if "opened m i" "char_at m i = Some c" "c \<noteq> NUL" for i c
    using that left_forward(1) [of m i "[c]" "tl (left m i)"] char_at_left [of m i] by (cases "left m i") auto
  obtain c0 where c0: "char_at m v = Some c0"
    using char_at_left [OF assms] by blast
  show ?thesis
  proof (cases "c0 = CHR ''<''")
    case True
    then obtain c1 where c1: "char_at m (v + 1) = Some c1" "opened m (v + 1)"
      using next_char [OF assms c0] char_at_left by auto
    show ?thesis
    proof (cases "c1 = CHR ''<''")
      case True
      then obtain c2 where c2: "char_at m (v + 2) = Some c2"
        using next_char [OF c1(2,1)] char_at_left [of m "v + 2"] by auto
      then show ?thesis
        using c0 c1(1) True \<open>c0 = _\<close>
        by (auto simp: IsMultiLineTag_def char_at_def numeral_eq_Suc less_Suc_eq split: if_splits)
    qed (use c0 c1 in \<open>auto simp: IsMultiLineTag_def\<close>)
  qed (use c0 in \<open>auto simp: IsMultiLineTag_def\<close>)
qed

lemma load_value_left:
  assumes "opened m p" "t \<le> p" "0 < p"
  shows "\<exists>found m' p' val. LoadMultiLineText m p (Some t) False = Some (found, m', p', val)
    \<and> length m' = length m \<and> opened m' p' \<and> p \<le> p' \<and> length (left m' p') \<le> length (left m p) \<and> val \<in> {None, Some p}"
proof -
  note split = left_split [OF assms(1)]
  let ?rest = "drop (p + length (left m p) + 1) m"
  have m: "take p m @ left m p @ NUL # ?rest = m" and lp: "length (take p m) = p"
    using split(1,4) by simp_all
  have "take p m \<noteq> []"
    using assms(3) lp by (metis length_0_conv less_not_refl)
  then obtain found pre' q s' rest' val where load: "LoadMultiLineText m p (Some t) False
      = Some (found, pre' @ q @ s' @ NUL # rest', p + length q, val)"
    and res: "length pre' = p" "suffix s' (left m p)"
      "length q + length s' + length rest' = length (left m p) + length ?rest" "val \<in> {None, Some p}"
    using load_value_total [OF split(2), of t "take p m" ?rest False] assms(2) unfolding m lp by blast
  let ?m' = "pre' @ q @ s' @ NUL # rest'"
  have "length ?m' = length m"
    using res(1,3) lp arg_cong [OF m, of length] by simp
  moreover have "NUL \<notin> set s'"
    using res(2) split(2) by (auto dest: set_mono_suffix)
  then have "opened ?m' (p + length q)" "left ?m' (p + length q) = s'"
    using opened_block [of "pre' @ q" s' rest'] left_block [of s' "pre' @ q" rest'] res(1) by simp_all
  ultimately show ?thesis
    using load res(4) suffix_length_le [OF res(2)] by - (intro exI conjI, assumption, simp_all)
qed

lemma strip_quotes_left:
  assumes "opened m p" "t \<le> p" "v \<le> t"
  shows "\<exists>m' v'. strip_quotes m v t = Some (m', v') \<and> length m' = length m \<and> opened m' p \<and> left m' p = left m p \<and> v' \<le> t"
proof (cases "v + 1 < t")
  case True
  then have "t - 1 < p" "t - 1 < length m" "v < length m"
    using assms opened_valid [OF assms(1)] by linarith+
  moreover obtain m' where "put_char m (t - 1) NUL = Some m'" "length m' = length m" "opened m' p" "left m' p = left m p"
    using put_char_left [OF assms(1), of "t - 1"] \<open>t - 1 < p\<close> by auto
  ultimately show ?thesis
    using True assms(1) by (auto simp: strip_quotes_def char_at_def)
qed (use assms in \<open>auto simp: strip_quotes_def\<close>)

text \<open>The end of a line is skipped, if there is one, and what is before it may be cut off.\<close>

lemma next_line:
  assumes "opened m e"
  shows "\<exists>p. (if hd (left m e @ [NUL]) \<noteq> NUL then SkipNewLine m e else Some e) = Some p \<and> opened m p
    \<and> length (left m p) \<le> length (left m e) \<and> (e < p \<or> p = e \<and> left m p = [])"
proof (cases "left m e")
  case Nil
  then show ?thesis
    using assms by simp
next
  case (Cons c s)
  moreover have "c \<noteq> NUL"
    using left_split(2) [OF assms] Cons by auto
  moreover obtain p where "p > e" "SkipNewLine m e = Some p" "opened m p" "left m p = after_newline (left m e)"
    using SkipNewLine_left [OF assms] Cons by auto
  ultimately show ?thesis
    using length_after_newline [of "left m e"] by (intro exI [of _ p]) auto
qed

lemma cut_line:
  assumes "opened m p" "t \<le> e" "e < p \<or> p = e \<and> left m p = []"
  shows "\<exists>m'. put_char m t NUL = Some m' \<and> length m' = length m \<and> opened m' p \<and> left m' p = left m p"
proof -
  have "t < p \<or> t = p \<and> left m p = []"
    using assms(2,3) by auto
  then show ?thesis
    using put_char_left [OF assms(1)] by blast
qed

lemma find_value_total:
  assumes "opened (block w) q" "left (block w) q = CHR ''='' # x" "t \<le> q"
    "length x < length (left (block w) (a_pData w))" "a_pData w \<le> q"
  shows "\<exists>r w'. find_value S w t q = Some (r, w') \<and> advanced w w' \<and> r \<noteq> Continue"
proof -
  let ?nl = "\<lambda>c. \<not> IsNewLineChar c" and ?ns = "\<lambda>c. \<not> IsNewLineChar c \<and> IsSpace c"
  have q1: "opened (block w) (q + 1)" "left (block w) (q + 1) = x"
    using left_forward [OF assms(1), of "''=''" x] assms(2) by simp_all
  obtain m where m: "put_char (block w) t NUL = Some m" "length m = length (block w)" "opened m (q + 1)" "left m (q + 1) = x"
    using put_char_left [OF q1(1), of t] q1(2) assms(3) by auto
  define v where "v = q + 1 + length (takeWhile ?ns x)"
  have v: "skip_while ?ns m (q + 1) = Some v" "opened m v" "left m v = dropWhile ?ns x"
    using skip_while_left [OF m(3), of ?ns] m(4) by (simp_all add: v_def)
  define e where "e = v + length (takeWhile ?nl (left m v))"
  have e: "skip_while ?nl m v = Some e" "opened m e" "left m e = dropWhile ?nl (left m v)" "v \<le> e"
    using skip_while_left [OF v(2), of ?nl] by (simp_all add: e_def)
  have "length (left m e) \<le> length x"
    unfolding e(3) v(3) by (meson length_dropWhile_le le_trans)
  moreover obtain p where p: "(if hd (left m e @ [NUL]) \<noteq> NUL then SkipNewLine m e else Some e) = Some p" "opened m p"
    "length (left m p) \<le> length (left m e)" "e < p \<or> p = e \<and> left m p = []"
    using next_line [OF e(2)] by blast
  moreover obtain t' where t': "rtrim m v e = Some t'" "t' \<le> e" "v \<le> t'"
    using rtrim_total [of e m v] opened_valid [OF e(2)] e(4) by auto
  moreover obtain m2 where m2: "put_char m t' NUL = Some m2" "length m2 = length m" "opened m2 p" "left m2 p = left m p"
    using cut_line [OF p(2) t'(2) p(4)] by blast
  ultimately have small: "length (left m2 p) < length (left (block w) (a_pData w))" "t' \<le> p" "0 < p"
    "a_pData w \<le> p"
    using assms(4,5) v_def e(4) by auto
  have at: "char_at m e = Some (hd (left m e @ [NUL]))"
    by (rule char_at_left [OF e(2)])
  have v2: "opened m2 v" "m2 ! t' = NUL"
    using opened_put [OF m2(1) t'(3)] by simp_all
  obtain b where b: "IsMultiLineTag m2 v = Some b" "b \<longrightarrow> (\<forall>i < 3. m2 ! (v + i) \<noteq> NUL)"
    using IsMultiLineTag_total [OF v2(1)] by blast
  define multi where "multi = (m_bAllowMultiLine S \<and> b)"
  have multi: "(if m_bAllowMultiLine S then IsMultiLineTag m2 v else Some False) = Some multi"
    by (simp add: multi_def b(1))
  have run: "find_value S w t q =
      (if multi then do {
         (found, m, p, val) \<leftarrow> LoadMultiLineText m2 p (Some (v + 3)) False;
         Some (Return found, w\<lparr>block := m, a_pData := p, a_pVal := val\<rparr>)
       } else do {
         (m, v) \<leftarrow> (if m_bParseQuotes S then strip_quotes m2 v t' else Some (m2, v));
         Some (Return True, w\<lparr>block := m, a_pData := p, a_pVal := Some v\<rparr>)
       })"
    by (simp only: find_value_def m(1) v(1) e(1) at p(1) t'(1) m2(1) multi bind.bind_lunit)
  show ?thesis
  proof (cases multi)
    case True
    then have "v + i \<noteq> t'" if "i < 3" for i
      using b(2) v2(2) that by (auto simp: multi_def)
    from this [of 0] this [of 1] this [of 2] have "v + 3 \<le> p"
      using t'(3) small(2) by simp
    then obtain found m' p' val where "LoadMultiLineText m2 p (Some (v + 3)) False = Some (found, m', p', val)"
      "length m' = length m2" "opened m' p'" "p \<le> p'" "length (left m' p') \<le> length (left m2 p)" "val \<in> {None, Some p}"
      using load_value_left [OF m2(3) _ small(3)] by blast
    then show ?thesis
      using True m(2) m2(2) small opened_valid [OF m2(3)] by (auto simp: run intro!: advancedI)
  next
    case False
    obtain m' v' where "(if m_bParseQuotes S then strip_quotes m2 v t' else Some (m2, v)) = Some (m', v')"
      "length m' = length m2" "opened m' p" "left m' p = left m2 p" "v' \<le> t'"
      using strip_quotes_left [OF m2(3) small(2) t'(3)] m2 t'(3) by (cases "m_bParseQuotes S") auto
    then show ?thesis
      using False m(2) m2(2) small opened_valid [OF m2(3)] by (auto simp: run intro!: advancedI)
  qed
qed

lemma find_key_total:
  assumes "opened (block w) (a_pData w)" "left (block w) (a_pData w) = c # s" "\<not> IsNewLineChar c"
  shows "\<exists>r w'. find_key S w = Some (r, w') \<and> advanced w w'"
proof -
  let ?m = "block w" and ?k = "a_pData w"
  let ?nl = "\<lambda>c. \<not> IsNewLineChar c" and ?ne = "\<lambda>c. c \<noteq> CHR ''='' \<and> \<not> IsNewLineChar c"
  define q where "q = ?k + length (takeWhile ?ne (left ?m ?k))"
  have q: "skip_while ?ne ?m ?k = Some q" "opened ?m q" "left ?m q = dropWhile ?ne (left ?m ?k)" "?k \<le> q"
    using skip_while_left [OF assms(1), of ?ne] by (simp_all add: q_def)
  have at: "char_at ?m q = Some (hd (left ?m q @ [NUL]))"
    by (rule char_at_left [OF q(2)])
  have k: "?k < length ?m"
    by (rule opened_valid [OF assms(1)])
  define w1 where "w1 = w\<lparr>a_pKey := Some ?k, a_pData := q\<rparr>"
  have ptrs: "ptrs_ok w \<longrightarrow> ptrs_ok w1"
    using q(4) ptrs_okI [of w w1] by (auto simp: w1_def)
  have run: "find_key S w = (let c = hd (left ?m q @ [NUL]) in
      if c \<noteq> CHR ''='' \<and> \<not> m_bAllowKeyOnly S then Some (Continue, w1)
      else if c = CHR ''='' \<and> ?k = q then do {
        e \<leftarrow> skip_while ?nl ?m q;
        Some (Continue, w1\<lparr>a_pData := e\<rparr>)
      }
      else do {
        t \<leftarrow> rtrim ?m ?k q;
        if c = CHR ''='' then find_value S w1 t q
        else do {
          p \<leftarrow> (if c \<noteq> NUL then SkipNewLine ?m q else Some q);
          m \<leftarrow> put_char ?m t NUL;
          Some (Return True, w1\<lparr>block := m, a_pData := p\<rparr>)
        }
      })"
    by (simp add: find_key_def Let_def q(1) at w1_def cong: if_cong)
  consider (eq) x where "left ?m q = CHR ''='' # x" "?k = q" | (val) x where "left ?m q = CHR ''='' # x" "?k \<noteq> q"
    | (none) "hd (left ?m q @ [NUL]) \<noteq> CHR ''=''"
    by (cases "left ?m q") auto
  then show ?thesis
  proof cases
    case eq
    define e where "e = q + length (takeWhile ?nl (left ?m q))"
    have e: "skip_while ?nl ?m q = Some e" "opened ?m e" "left ?m e = dropWhile ?nl (left ?m q)"
      using skip_while_left [OF q(2), of ?nl] by (simp_all add: e_def)
    have "length (left ?m e) < length (left ?m ?k)"
      using eq e(3) length_dropWhile_less [of "left ?m q" ?nl] by simp
    moreover have "?k \<le> e"
      using eq by (simp add: e_def)
    ultimately show ?thesis
      using eq e by (auto simp: run w1_def intro!: advancedI)
  next
    case val
    obtain t where t: "rtrim ?m ?k q = Some t" "t \<le> q"
      using rtrim_total [of q ?m ?k] opened_valid [OF q(2)] by auto
    have "length (left ?m q) \<le> length (left ?m ?k)"
      unfolding q(3) by (rule length_dropWhile_le)
    moreover obtain r w' where "find_value S w1 t q = Some (r, w')" "advanced w1 w'"
      using find_value_total [of w1 q x t S] q(2) val t(2) by (auto simp: w1_def)
    ultimately show ?thesis
      using val t(1) ptrs q(4) by (auto simp: run w1_def advanced_def)
  next
    case none
    have ne: "?ne c"
      using none assms(2,3) q(2,3) by auto
    then have shorter: "length (left ?m q) < length (left ?m ?k)"
      unfolding q(3) assms(2) by (intro length_dropWhile_less) simp_all
    obtain t where t: "rtrim ?m ?k q = Some t" "t \<le> q"
      using rtrim_total [of q ?m ?k] opened_valid [OF q(2)] by auto
    obtain p where p: "(if hd (left ?m q @ [NUL]) \<noteq> NUL then SkipNewLine ?m q else Some q) = Some p" "opened ?m p"
      "length (left ?m p) \<le> length (left ?m q)" "q < p \<or> p = q \<and> left ?m p = []"
      using next_line [OF q(2)] by blast
    obtain m where m: "put_char ?m t NUL = Some m" "length m = length ?m" "opened m p" "left m p = left ?m p"
      using cut_line [OF p(2) t(2) p(4)] by blast
    have "?k \<le> p"
      using p(4) q(4) by auto
    show ?thesis
    proof (cases "m_bAllowKeyOnly S")
      case True
      then show ?thesis
        using none t(1) p(1,3) m shorter \<open>?k \<le> p\<close> by (auto simp: run w1_def intro!: advancedI)
    next
      case False
      then show ?thesis
        using none shorter ptrs q(2,4) by (auto simp: run w1_def advanced_def)
    qed
  qed
qed

lemma load_comment_left:
  assumes "opened m p" "left m p = c # s" "IsComment c"
  shows "\<exists>m' p'. LoadMultiLineText m p None blank = Some (True, m', p', Some p)
    \<and> length m' = length m \<and> opened m' p' \<and> p \<le> p' \<and> length (left m' p') < length (left m p)"
proof -
  note split = left_split [OF assms(1)]
  let ?rest = "drop (p + length (left m p) + 1) m"
  have m: "take p m @ left m p @ NUL # ?rest = m" and lp: "length (take p m) = p"
    using split(1,4) by simp_all
  obtain v s' where v: "LoadMultiLineText m p None blank = Some (True, take p m @ v @ s' @ NUL # ?rest, p + length v, Some p)"
    "length v + length s' = length (left m p)" "length s' < length (left m p)" "suffix s' (left m p)"
    using load_comment [OF split(2), of "take p m" ?rest blank] assms(2,3) unfolding m lp by auto
  let ?m' = "take p m @ v @ s' @ NUL # ?rest"
  have "NUL \<notin> set s'"
    using v(4) split(2) by (auto dest: set_mono_suffix)
  then have "opened ?m' (p + length v)" "left ?m' (p + length v) = s'"
    using opened_block [of "take p m @ v" s' ?rest] left_block [of s' "take p m @ v" ?rest] lp by simp_all
  moreover have "length ?m' = length m"
    using v(2) arg_cong [OF m, of length] by simp
  ultimately show ?thesis
    using v(1,3) by - (intro exI conjI, assumption, simp_all)
qed

lemma find_loop_total:
  assumes "opened (block w) (a_pData w)"
  shows "\<exists>b w'. find_loop S w = Some (b, w') \<and> (if b then advanced w w' else
    length (block w') = length (block w) \<and> opened (block w') (a_pData w') \<and> a_pData w \<le> a_pData w' \<and> (ptrs_ok w \<longrightarrow> ptrs_ok w'))"
  using assms
proof (induction "length (left (block w) (a_pData w))" arbitrary: w rule: less_induct)
  case less
  let ?m = "block w" and ?i = "a_pData w"
  define p where "p = ?i + length (takeWhile IsSpace (left ?m ?i))"
  have p: "skip_while IsSpace ?m ?i = Some p" "opened ?m p" "left ?m p = dropWhile IsSpace (left ?m ?i)"
    using skip_while_left [OF less.prems, of IsSpace] by (simp_all add: p_def)
  define w1 where "w1 = w\<lparr>a_pData := p\<rparr>"
  have shorter: "length (left (block w1) (a_pData w1)) \<le> length (left ?m ?i)" and w1: "opened (block w1) (a_pData w1)"
    unfolding w1_def using p(2) by (simp_all add: p(3) length_dropWhile_le)
  have le: "?i \<le> p"
    by (simp add: p_def)
  then have ptrs: "ptrs_ok w \<longrightarrow> ptrs_ok w1"
    using ptrs_okI [of w w1] by (auto simp: w1_def)
  have again: ?case if "advanced w1 w2" "find_loop S w = find_loop S w2" for w2
  proof -
    have "advanced w w2"
      using that(1) shorter ptrs le by (auto simp: advanced_def w1_def)
    then show ?thesis
      using less.hyps [of w2] that(2) by (fastforce simp: advanced_def)
  qed
  note at = char_at_left [OF less.prems] char_at_left [OF p(2)]
  show ?case
  proof (cases "left ?m p")
    case Nil
    then show ?thesis
      using less.prems p ptrs le
      by (subst find_loop.simps, cases "hd (left ?m ?i @ [NUL]) = NUL") (auto simp: at w1_def)
  next
    case (Cons c s)
    have "\<not> IsSpace c"
      using Cons unfolding p(3) by (metis dropWhile_eq_Cons_conv)
    then have "\<not> IsNewLineChar c" "c \<noteq> NUL"
      using newline_space left_split(2) [OF p(2)] Cons by auto
    have "left ?m ?i \<noteq> []"
      using Cons p(3) by auto
    then have first: "hd (left ?m ?i @ [NUL]) \<noteq> NUL"
      using left_split(2) [OF less.prems] by (cases "left ?m ?i") auto
    note run = find_loop.simps [of S w] at first p(1) Cons \<open>c \<noteq> NUL\<close>
    show ?thesis
    proof (cases "IsComment c")
      case True
      obtain m' p' where load: "LoadMultiLineText ?m p None True = Some (True, m', p', Some p)"
        "length m' = length ?m" "opened m' p'" "p \<le> p'" "length (left m' p') < length (left ?m p)"
        using load_comment_left [OF p(2) Cons True] by blast
      show ?thesis
      proof (rule again)
        show "advanced w1 (w\<lparr>block := m', a_pData := p', a_pComment := Some p\<rparr>)"
          using load(2-5) by (auto simp: w1_def intro!: advancedI)
        show "find_loop S w = find_loop S (w\<lparr>block := m', a_pData := p', a_pComment := Some p\<rparr>)"
          using True load(1) by (simp add: run)
      qed
    next
      case False
      obtain r w2 where turn: "(if c = CHR ''['' then find_section w1 else find_key S w1) = Some (r, w2)" "advanced w1 w2"
        "r \<noteq> Return False \<or> c \<noteq> CHR ''[''"
        using find_section_total [OF w1, of s] find_key_total [OF w1, of c s S] Cons \<open>\<not> IsNewLineChar c\<close>
        by (cases "c = CHR ''[''") (auto simp: w1_def)
      have step: "find_loop S w = (case r of Return b \<Rightarrow> Some (b, w2) | Continue \<Rightarrow> find_loop S w2)"
        using False by (simp add: run turn(1) [unfolded w1_def])
      show ?thesis
      proof (cases r)
        case Continue
        then show ?thesis
          using again [OF turn(2)] step by simp
      next
        case (Return b)
        have "advanced w w2"
          using turn(2) shorter ptrs le by (auto simp: advanced_def w1_def)
        then show ?thesis
          using Return step by (auto simp: advanced_def)
      qed
    qed
  qed
qed

lemma FindEntry_total:
  assumes "opened (block w) (a_pData w)"
  shows "\<exists>b w'. FindEntry S w = Some (b, w') \<and> (if b then advanced w w' else
    length (block w') = length (block w) \<and> opened (block w') (a_pData w') \<and> a_pData w \<le> a_pData w' \<and> (ptrs_ok w \<longrightarrow> ptrs_ok w'))"
  using find_loop_total [of "w\<lparr>a_pComment := None\<rparr>" S] assms
  unfolding FindEntry_def by (fastforce simp: advanced_def ptrs_ok_def split: if_splits)

end
