(* ===== verification/Ini_Items.thy ===== *)
theory Ini_Items
  imports Ini_Find
begin

text \<open>
  With the settings of the program, \<open>FindEntry\<close> delivers the items of the text, one per call
  (\<open>FindEntry_item\<close>), and the C strings it has cut out stay as they are.
\<close>

section \<open>C strings that are finished\<close>

text \<open>
  A string that ends before the position of the parser, or at the end of the data, is not touched
  any more. \<open>u\<close> is what the parser has passed, \<open>s\<close> what is left.
\<close>

definition held :: "string \<Rightarrow> string \<Rightarrow> nat \<Rightarrow> string \<Rightarrow> bool" where
  "held u s p x \<longleftrightarrow> c_string (u @ (if s = [] then [NUL] else [])) p = Some x"

lemma c_string_append: "c_string m p = Some x \<Longrightarrow> c_string (m @ y) p = Some x"
  by (auto simp: c_string_def split: if_splits)

lemma held_c_string: "held u s p x \<Longrightarrow> c_string (u @ s @ NUL # rest) p = Some x"
  using c_string_append [of "u @ (if s = [] then [NUL] else [])" p x "if s = [] then rest else s @ NUL # rest"]
  by (auto simp: held_def split: if_splits)

lemma held_mono: "held u s p x \<Longrightarrow> (s = [] \<Longrightarrow> v = [] \<and> s' = []) \<Longrightarrow> held (u @ v) s' p x"
  unfolding held_def by (cases "s = []") (auto dest: c_string_append)

lemma c_string_at:
  "NUL \<notin> set x \<Longrightarrow> c_string (u @ x @ NUL # y) (length u) = Some x"
  by (rule c_string_block)

section \<open>A section line\<close>

lemma line_end_append: "\<forall>c \<in> set l. \<not> IsNewLineChar c \<Longrightarrow> line_end (l @ line_end t) = line_end t"
  by (induction l) (auto simp: dropWhile_idem)

lemma section_split:
  assumes "CHR '']'' \<in> set (this_line t)"
  shows "\<exists>sp n z. t = sp @ n @ CHR '']'' # z \<and> (\<forall>c \<in> set sp. IsSpace c) \<and> (n = [] \<or> \<not> IsSpace (hd n))
    \<and> (\<forall>c \<in> set (sp @ n). c \<noteq> CHR '']'' \<and> \<not> IsNewLineChar c)
    \<and> n = takeWhile (\<lambda>c. c \<noteq> CHR '']'') (dropWhile IsSpace (this_line t)) \<and> line_end z = line_end t"
proof -
  define l where "l = this_line t"
  have nl: "\<forall>c \<in> set l. \<not> IsNewLineChar c"
    unfolding l_def by (auto dest: set_takeWhileD)
  obtain l1 l2 where l: "l = l1 @ CHR '']'' # l2" "CHR '']'' \<notin> set l1"
    using assms split_list_first unfolding l_def by metis
  define sp n where "sp = takeWhile IsSpace l1" and "n = dropWhile IsSpace l1"
  have l1: "l1 = sp @ n"
    by (simp add: sp_def n_def)
  have "dropWhile IsSpace l = n @ CHR '']'' # l2"
    unfolding l(1) n_def by (induction l1) auto
  moreover have "takeWhile (\<lambda>c. c \<noteq> CHR '']'') (n @ CHR '']'' # l2) = n"
    using l(2) l1 by (subst takeWhile_append2) auto
  ultimately have "n = takeWhile (\<lambda>c. c \<noteq> CHR '']'') (dropWhile IsSpace l)"
    by simp
  moreover have "t = sp @ n @ CHR '']'' # l2 @ line_end t"
    using l(1) l1 unfolding l_def by (metis append_Cons append_assoc takeWhile_dropWhile_id)
  moreover have "\<forall>c \<in> set sp. IsSpace c"
    unfolding sp_def by (auto dest: set_takeWhileD)
  moreover have "n = [] \<or> \<not> IsSpace (hd n)"
    unfolding n_def using hd_dropWhile by blast
  moreover have "\<forall>c \<in> set (sp @ n). c \<noteq> CHR '']'' \<and> \<not> IsNewLineChar c"
    using l l1 nl by auto
  moreover have "line_end (l2 @ line_end t) = line_end t"
    using nl l(1) by (intro line_end_append) auto
  ultimately show ?thesis
    unfolding l_def [symmetric]
    by - (rule exI [of _ sp], rule exI [of _ n], rule exI [of _ "l2 @ line_end t"], intro conjI; assumption)
qed

lemma length_line_parts: "length (this_line z) + length (line_end z) = length z"
  by (metis length_append takeWhile_dropWhile_id)

lemma find_section_plain:
  assumes "block w = pre @ CHR ''['' # t @ NUL # rest" "a_pData w = length pre" "NUL \<notin> set t"
    "CHR '']'' \<in> set (this_line t)"
  shows "\<exists>v w' p. find_section w = Some (Return True, w') \<and> block w' = pre @ v @ line_end t @ NUL # rest
    \<and> a_pData w' = length pre + length v \<and> length v + length (line_end t) = Suc (length t)
    \<and> a_pKey w' = None \<and> a_pVal w' = None \<and> a_pSection w' = Some p
    \<and> c_string (pre @ v) p = Some (rstrip (takeWhile (\<lambda>c. c \<noteq> CHR '']'') (dropWhile IsSpace (this_line t))))"
proof -
  let ?nl = "\<lambda>c. \<not> IsNewLineChar c" and ?br = "\<lambda>c. c \<noteq> CHR '']'' \<and> \<not> IsNewLineChar c"
  obtain sp n z where t: "t = sp @ n @ CHR '']'' # z" "\<forall>c \<in> set sp. IsSpace c" "n = [] \<or> \<not> IsSpace (hd n)"
    "\<forall>c \<in> set (sp @ n). c \<noteq> CHR '']'' \<and> \<not> IsNewLineChar c"
    "n = takeWhile (\<lambda>c. c \<noteq> CHR '']'') (dropWhile IsSpace (this_line t))" "line_end z = line_end t"
    using section_split [OF assms(4)] by (elim exE conjE) (rule that; assumption)
  obtain y where y: "n = rstrip n @ y"
    using rstrip_prefix [of n] by (auto simp: prefix_def)
  define x xs where "x = hd (y @ [CHR '']''])" and "xs = tl (y @ [CHR '']''])"
  have xs: "y @ [CHR '']''] = x # xs"
    by (cases y) (simp_all add: x_def xs_def)
  have nul: "NUL \<notin> set sp" "NUL \<notin> set n" "NUL \<notin> set z"
    using assms(3) t(1) by auto
  let ?p = "length pre + 1 + length sp"
  have "takeWhile IsSpace t = sp"
    unfolding t(1) using t(2,3) by (cases n) (simp_all add: takeWhile_append2)
  then have p: "skip_while IsSpace (block w) (a_pData w + 1) = Some ?p"
    using skip_while_block [OF assms(3), of IsSpace "pre @ ''[''" rest] assms(1,2) by simp
  have "takeWhile ?br (n @ CHR '']'' # z) = n"
    using t(4) by (subst takeWhile_append2) auto
  then have q: "skip_while ?br (block w) ?p = Some (?p + length n)"
    using skip_while_block [of "n @ CHR '']'' # z" ?br "pre @ ''['' @ sp" rest] nul assms(1) t(1) by simp
  have c: "char_at (block w) (?p + length n) = Some (CHR '']'')"
    using char_at_block [of "pre @ ''['' @ sp @ n" "CHR '']''" "z @ NUL # rest"] assms(1) t(1) by (simp add: add.assoc)
  have u: "rtrim (block w) ?p (?p + length n) = Some (?p + length (rstrip n))"
    using rtrim_block [of "pre @ ''['' @ sp" n "CHR '']'' # z @ NUL # rest"] assms(1) t(1) by (simp add: add.assoc)
  let ?v = "''['' @ sp @ rstrip n @ NUL # xs"
  have "block w = (pre @ ''['' @ sp @ rstrip n) @ x # xs @ z @ NUL # rest"
  proof -
    have "n @ [CHR '']''] = rstrip n @ x # xs"
      using y xs by (metis append_assoc)
    then have "n @ CHR '']'' # z = (rstrip n @ x # xs) @ z"
      by (metis append_Cons append_Nil append_assoc)
    then show ?thesis
      unfolding assms(1) t(1) by simp
  qed
  then have m: "put_char (block w) (?p + length (rstrip n)) NUL = Some (pre @ ?v @ z @ NUL # rest)"
    using put_char_block [of "pre @ ''['' @ sp @ rstrip n" x "xs @ z @ NUL # rest" NUL] by (simp add: add.assoc)
  have len: "length n = length (rstrip n) + length xs"
    using arg_cong [OF y, of length] arg_cong [OF xs, of length] by simp
  have e: "skip_while ?nl (pre @ ?v @ z @ NUL # rest) (?p + length n + 1) = Some (?p + length n + 1 + length (this_line z))"
    using skip_while_block [OF nul(3), of ?nl "pre @ ?v" rest] len by (simp add: add.assoc)
  let ?w = "w\<lparr>block := pre @ ?v @ z @ NUL # rest, a_pSection := Some ?p, a_pData := ?p + length n + 1 + length (this_line z),
    a_pKey := None, a_pVal := None\<rparr>"
  have "find_section w = Some (Return True, ?w)"
    by (simp only: find_section_def p q c u m e bind.bind_lunit if_False simp_thms)
  moreover have "block ?w = pre @ (?v @ this_line z) @ line_end t @ NUL # rest"
    unfolding t(6) [symmetric] by simp
  moreover have "a_pData ?w = length pre + length (?v @ this_line z)"
    using len by simp
  moreover have "length (?v @ this_line z) + length (line_end t) = Suc (length t)"
    using len arg_cong [OF t(1), of length] length_line_parts [of z] t(6) by simp
  moreover have "c_string (pre @ ?v @ this_line z) ?p = Some (rstrip n)"
  proof -
    have "NUL \<notin> set (rstrip n)"
      using nul(2) y by (metis Un_iff set_append)
    then show ?thesis
      using c_string_at [of "rstrip n" "pre @ ''['' @ sp" "xs @ this_line z"] by simp
  qed
  ultimately show ?thesis
    using t(5) by - (intro exI conjI, assumption, simp_all)
qed

section \<open>A line with a key\<close>

definition plain :: "'a ini_settings_scheme \<Rightarrow> bool" where
  "plain S \<longleftrightarrow> \<not> m_bAllowMultiLine S \<and> \<not> m_bParseQuotes S \<and> \<not> m_bAllowKeyOnly S"

text \<open>The text after the end of the line, and how far behind the line it begins.\<close>

definition next_text :: "string \<Rightarrow> string" where
  "next_text r = (if r = [] then [] else after_newline r)"

lemma next_text_split: "\<exists>u. r = u @ next_text r \<and> (u = [] \<longleftrightarrow> r = [])"
  using after_newline_suffix [of r] by (auto simp: next_text_def)

lemma skip_newline_block:
  assumes "NUL \<notin> set r"
  shows "(if hd (r @ [NUL]) \<noteq> NUL then SkipNewLine (pre @ val @ r @ NUL # rest) (length pre + length val)
      else Some (length pre + length val)) = Some (length pre + length val + (length r - length (next_text r)))"
  using SkipNewLine_block [of r "pre @ val" rest] assms by (cases r) (auto simp: next_text_def)

text \<open>Cutting the value off behind its last character that is no space.\<close>

lemma cut_value:
  assumes "NUL \<notin> set val"
  shows "\<exists>a. put_char (P @ val @ r @ NUL # rest) (length P + length (rstrip val)) NUL = Some (P @ a @ next_text r @ NUL # rest)
    \<and> length a + length (next_text r) = length val + length r \<and> held (P @ a) (next_text r) (length P) (rstrip val)"
proof -
  obtain y where y: "val = rstrip val @ y"
    using rstrip_prefix [of val] by (auto simp: prefix_def)
  obtain u where u: "r = u @ next_text r" "u = [] \<longleftrightarrow> r = []"
    using next_text_split by blast
  have nul: "NUL \<notin> set (rstrip val)"
    using assms y by (metis Un_iff set_append)
  have len: "length val = length (rstrip val) + length y" "length r = length u + length (next_text r)"
    using arg_cong [OF y, of length] arg_cong [OF u(1), of length] by simp_all
  have block: "P @ val @ r @ NUL # rest = (P @ rstrip val) @ (y @ u) @ next_text r @ NUL # rest"
    using y u(1) by (metis append_assoc)
  show ?thesis
  proof (cases "y @ u")
    case Nil
    then have "next_text r = []"
      using u(2) by (simp add: next_text_def)
    moreover have "put_char (P @ val @ r @ NUL # rest) (length P + length (rstrip val)) NUL
        = Some (P @ rstrip val @ next_text r @ NUL # rest)"
      unfolding block using Nil calculation put_char_block [of "P @ rstrip val" NUL rest NUL] by simp
    moreover have "held (P @ rstrip val) [] (length P) (rstrip val)"
      using c_string_at [OF nul, of P "[]"] by (simp add: held_def)
    ultimately show ?thesis
      using Nil len by (intro exI [of _ "rstrip val"]) simp
  next
    case (Cons x xs)
    have "put_char (P @ val @ r @ NUL # rest) (length P + length (rstrip val)) NUL
        = Some (P @ (rstrip val @ NUL # xs) @ next_text r @ NUL # rest)"
      unfolding block using Cons put_char_block [of "P @ rstrip val" x "xs @ next_text r @ NUL # rest" NUL] by simp
    moreover have "held (P @ rstrip val @ NUL # xs) (next_text r) (length P) (rstrip val)"
      using c_string_at [OF nul, of P "xs @ (if next_text r = [] then [NUL] else [])"] by (simp add: held_def)
    moreover have "length (rstrip val @ NUL # xs) + length (next_text r) = length val + length r"
      using len arg_cong [OF Cons, of length] by simp
    ultimately show ?thesis
      by blast
  qed
qed

lemma hd_line_end:
  "line_end s = [] \<or> IsNewLineChar (hd (line_end s))"
  "hd (line_end s @ [NUL]) = NUL \<or> IsNewLineChar (hd (line_end s @ [NUL]))"
  by (induction s) auto

text \<open>A line without a key or without an equals sign is skipped.\<close>

lemma find_key_skip:
  assumes "block w = pre @ s @ NUL # rest" "a_pData w = length pre" "NUL \<notin> set s" "plain S"
    "CHR ''='' \<notin> set (this_line s) \<or> (s \<noteq> [] \<and> hd s = CHR ''='')"
  shows "\<exists>w'. find_key S w = Some (Continue, w') \<and> block w' = block w \<and> a_pSection w' = a_pSection w
    \<and> a_pData w' = length pre + length (this_line s)"
proof -
  let ?nl = "\<lambda>c. \<not> IsNewLineChar c" and ?ne = "\<lambda>c. c \<noteq> CHR ''='' \<and> \<not> IsNewLineChar c"
  define k where "k = takeWhile ?ne s"
  have q: "skip_while ?ne (block w) (a_pData w) = Some (length pre + length k)"
    using skip_while_block [OF assms(3), of ?ne pre rest] assms(1,2) by (simp add: k_def)
  show ?thesis
  proof (cases "s \<noteq> [] \<and> hd s = CHR ''=''")
    case True
    then obtain s' where s: "s = CHR ''='' # s'"
      by (cases s) auto
    have "skip_while ?nl (block w) (length pre) = Some (length pre + length (this_line s))"
      using skip_while_block [OF assms(3), of ?nl pre rest] assms(1) by simp
    moreover have "char_at (block w) (length pre) = Some (CHR ''='')"
      using assms(1) s by (simp add: char_at_def)
    ultimately show ?thesis
      using q s assms(2) by (simp add: find_key_def k_def Let_def)
  next
    case False
    then have none: "CHR ''='' \<notin> set (this_line s)"
      using assms(5) by blast
    then have k: "k = this_line s"
      unfolding k_def by (induction s) auto
    obtain z zs where z: "line_end s @ NUL # rest = z # zs" "z = hd (line_end s @ [NUL])"
      using first_rest [of "line_end s" NUL rest] by (cases "line_end s @ NUL # rest") auto
    have "block w = (pre @ this_line s) @ z # zs"
      unfolding assms(1) z(1) [symmetric] by simp
    then have "char_at (block w) (length pre + length k) = Some (hd (line_end s @ [NUL]))"
      using char_at_block [of "pre @ this_line s" z zs] z(2) k by simp
    moreover have "hd (line_end s @ [NUL]) \<noteq> CHR ''=''"
      using hd_line_end(2) [of s] by auto
    ultimately show ?thesis
      using q assms(2,4) k by (simp add: find_key_def plain_def Let_def)
  qed
qed

lemma find_value_plain:
  assumes "block w = P @ y # ys @ x @ r @ NUL # rest" "q = length P + length ys" "t = length P"
    "NUL \<notin> set (x @ r)" "\<forall>c \<in> set x. \<not> IsNewLineChar c" "r = [] \<or> IsNewLineChar (hd r)" "plain S"
  shows "\<exists>v w' p. find_value S w t q = Some (Return True, w') \<and> block w' = P @ NUL # v @ next_text r @ NUL # rest
    \<and> a_pData w' = length P + 1 + length v \<and> length v + length (next_text r) = length ys + length x + length r
    \<and> a_pSection w' = a_pSection w \<and> a_pKey w' = a_pKey w \<and> a_pVal w' = Some p
    \<and> held (P @ NUL # v) (next_text r) p (rstrip (dropWhile IsSpace x))"
proof -
  let ?nl = "\<lambda>c. \<not> IsNewLineChar c" and ?ns = "\<lambda>c. \<not> IsNewLineChar c \<and> IsSpace c"
  define sp val where "sp = takeWhile IsSpace x" and "val = dropWhile IsSpace x"
  have x: "x = sp @ val" "\<forall>c \<in> set sp. IsSpace c"
    by (auto simp: sp_def val_def dest: set_takeWhileD)
  have val: "val = [] \<or> \<not> IsSpace (hd val)"
    unfolding val_def using hd_dropWhile by blast
  have nul: "NUL \<notin> set sp" "NUL \<notin> set val" "NUL \<notin> set r"
    using assms(4) x(1) by auto
  let ?P = "P @ NUL # ys @ sp"
  have m: "put_char (block w) t NUL = Some (?P @ val @ r @ NUL # rest)"
    using put_char_block [of P y "ys @ x @ r @ NUL # rest" NUL] assms(1,3) x(1) by simp
  have "takeWhile ?ns (x @ r) = sp"
    using x val assms(5,6) by (cases val; cases r) (auto simp: takeWhile_append2)
  then have v: "skip_while ?ns (?P @ val @ r @ NUL # rest) (q + 1) = Some (length ?P)"
    using skip_while_block [OF assms(4), of ?ns "P @ NUL # ys" rest] assms(2) x(1) by simp
  have "takeWhile ?nl (val @ r) = val"
    using x(1) assms(5,6) by (cases r) (auto simp: takeWhile_append2)
  then have e: "skip_while ?nl (?P @ val @ r @ NUL # rest) (length ?P) = Some (length ?P + length val)"
    using skip_while_block [of "val @ r" ?nl ?P rest] nul by simp
  have c: "char_at (?P @ val @ r @ NUL # rest) (length ?P + length val) = Some (hd (r @ [NUL]))"
    using char_at_block [of "?P @ val" "hd (r @ [NUL])" "tl (r @ NUL # rest)"] by (cases r) (simp_all add: add.assoc)
  have p: "(if hd (r @ [NUL]) \<noteq> NUL then SkipNewLine (?P @ val @ r @ NUL # rest) (length ?P + length val)
      else Some (length ?P + length val)) = Some (length ?P + length val + (length r - length (next_text r)))"
    by (rule skip_newline_block [OF nul(3)])
  have u: "rtrim (?P @ val @ r @ NUL # rest) (length ?P) (length ?P + length val) = Some (length ?P + length (rstrip val))"
    by (rule rtrim_block)
  obtain a where a: "put_char (?P @ val @ r @ NUL # rest) (length ?P + length (rstrip val)) NUL = Some (?P @ a @ next_text r @ NUL # rest)"
    "length a + length (next_text r) = length val + length r" "held (?P @ a) (next_text r) (length ?P) (rstrip val)"
    using cut_value [OF nul(2), of ?P r rest] by blast
  let ?w = "w\<lparr>block := ?P @ a @ next_text r @ NUL # rest,
    a_pData := length ?P + length val + (length r - length (next_text r)), a_pVal := Some (length ?P)\<rparr>"
  have "find_value S w t q = Some (Return True, ?w)"
    using assms(7)
    by (simp only: find_value_def m v e c p u a(1) plain_def bind.bind_lunit if_False prod.case)
  moreover have "length (next_text r) \<le> length r"
    using next_text_split [of r] by (metis le_add2 length_append)
  then have "a_pData ?w = length P + 1 + length (ys @ sp @ a)"
    using a(2) by simp
  moreover have "length (ys @ sp @ a) + length (next_text r) = length ys + length x + length r"
    using a(2) x(1) by simp
  ultimately show ?thesis
    using a(3) unfolding val_def
    by - (rule exI [of _ "ys @ sp @ a"], intro exI conjI, assumption, simp_all)
qed

lemma find_key_pair:
  assumes "block w = pre @ s @ NUL # rest" "a_pData w = length pre" "NUL \<notin> set s" "plain S"
    "this_line s = k @ CHR ''='' # x" "k \<noteq> []" "CHR ''='' \<notin> set k"
  shows "\<exists>v w' p. find_key S w = Some (Return True, w') \<and> block w' = pre @ v @ next_text (line_end s) @ NUL # rest
    \<and> a_pData w' = length pre + length v \<and> length v + length (next_text (line_end s)) = length s \<and> v \<noteq> []
    \<and> a_pSection w' = a_pSection w \<and> a_pKey w' = Some (length pre) \<and> a_pVal w' = Some p
    \<and> c_string (pre @ v) (length pre) = Some (rstrip k) \<and> held (pre @ v) (next_text (line_end s)) p (rstrip (dropWhile IsSpace x))"
proof -
  let ?ne = "\<lambda>c. c \<noteq> CHR ''='' \<and> \<not> IsNewLineChar c"
  define r where "r = line_end s"
  have s: "s = k @ CHR ''='' # x @ r"
    using assms(5) unfolding r_def by (metis append_Cons append_assoc takeWhile_dropWhile_id)
  have nl: "\<forall>c \<in> set (this_line s). \<not> IsNewLineChar c"
    by (auto dest: set_takeWhileD)
  have r: "r = [] \<or> IsNewLineChar (hd r)"
    unfolding r_def by (rule hd_line_end)
  have nul: "NUL \<notin> set k" "NUL \<notin> set (x @ r)"
    using assms(3) s by auto
  have "takeWhile ?ne s = k"
    unfolding s using assms(5,7) nl by (subst takeWhile_append2) auto
  then have q: "skip_while ?ne (block w) (length pre) = Some (length pre + length k)"
    using skip_while_block [OF assms(3), of ?ne pre rest] assms(1) by simp
  have c: "char_at (block w) (length pre + length k) = Some (CHR ''='')"
    using char_at_block [of "pre @ k" "CHR ''=''" "x @ r @ NUL # rest"] assms(1) s by simp
  have t: "rtrim (block w) (length pre) (length pre + length k) = Some (length pre + length (rstrip k))"
    using rtrim_block [of pre k "CHR ''='' # x @ r @ NUL # rest"] assms(1) s by simp
  let ?w = "w\<lparr>a_pKey := Some (length pre), a_pData := length pre + length k\<rparr>"
  have key: "find_key S w = find_value S ?w (length pre + length (rstrip k)) (length pre + length k)"
    using assms(2,6) q c t by (simp add: find_key_def Let_def)
  obtain z where z: "k = rstrip k @ z"
    using rstrip_prefix [of k] by (auto simp: prefix_def)
  obtain y ys where y: "z @ [CHR ''=''] = y # ys"
    by (cases "z @ [CHR ''='']") auto
  have ys: "length ys = length z" "length k = length (rstrip k) + length z"
    using arg_cong [OF y, of length] arg_cong [OF z, of length] by simp_all
  have "k @ CHR ''='' # x @ r = rstrip k @ (y # ys) @ x @ r"
    using z y by (metis append_Cons append_Nil append_assoc)
  then have "block ?w = (pre @ rstrip k) @ y # ys @ x @ r @ NUL # rest"
    using assms(1) unfolding s by simp
  then obtain v w' p where res: "find_value S ?w (length (pre @ rstrip k)) (length pre + length k) = Some (Return True, w')"
    "block w' = (pre @ rstrip k) @ NUL # v @ next_text r @ NUL # rest" "a_pData w' = length (pre @ rstrip k) + 1 + length v"
    "length v + length (next_text r) = length ys + length x + length r" "a_pSection w' = a_pSection ?w" "a_pKey w' = a_pKey ?w"
    "a_pVal w' = Some p" "held ((pre @ rstrip k) @ NUL # v) (next_text r) p (rstrip (dropWhile IsSpace x))"
    using find_value_plain [of ?w "pre @ rstrip k" y ys x r rest "length pre + length k" "length (pre @ rstrip k)" S]
      ys nul(2) nl assms(4,5) r by auto
  have "NUL \<notin> set (rstrip k)"
    using nul(1) z by (metis Un_iff set_append)
  then have "c_string (pre @ rstrip k @ NUL # v) (length pre) = Some (rstrip k)"
    by (rule c_string_at)
  then show ?thesis
    using res key ys unfolding r_def [symmetric]
    by - (rule exI [of _ "rstrip k @ NUL # v"], rule exI [of _ w'], rule exI [of _ p], simp add: s)
qed

section \<open>One item per call\<close>

definition item_found :: "string \<Rightarrow> string \<Rightarrow> ini_item \<Rightarrow> parse \<Rightarrow> parse \<Rightarrow> bool" where
  "item_found u s i w w' \<longleftrightarrow> (case i of
     Section n \<Rightarrow> a_pKey w' = None \<and> a_pVal w' = None \<and> (\<exists>p. a_pSection w' = Some p \<and> held u s p n)
   | Pair k x \<Rightarrow> a_pSection w' = a_pSection w
       \<and> (\<exists>p q. a_pKey w' = Some p \<and> a_pVal w' = Some q \<and> held u s p k \<and> held u s q x))"

definition yields_item :: "string \<Rightarrow> string \<Rightarrow> string \<Rightarrow> parse \<Rightarrow> bool \<Rightarrow> parse \<Rightarrow> bool" where
  "yields_item pre s rest w b w' \<longleftrightarrow> (\<exists>v s'.
     block w' = pre @ v @ s' @ NUL # rest \<and> a_pData w' = length pre + length v
     \<and> length v + length s' = length s \<and> NUL \<notin> set s' \<and> clean s'
     \<and> (if b then \<exists>i. items s = i # items s' \<and> item_found (pre @ v) s' i w w' \<and> v \<noteq> [] else items s = []))"

lemma yields_step:
  assumes "yields_item (pre @ v) t rest w b w'" "items t = items s" "length v + length t = length s" "a_pSection w = a_pSection w0"
  shows "yields_item pre s rest w0 b w'"
proof -
  obtain v' s' where d: "block w' = (pre @ v) @ v' @ s' @ NUL # rest" "a_pData w' = length (pre @ v) + length v'"
    "length v' + length s' = length t" "NUL \<notin> set s'" "clean s'"
    "if b then \<exists>i. items t = i # items s' \<and> item_found ((pre @ v) @ v') s' i w w' \<and> v' \<noteq> [] else items t = []"
    using assms(1) by (auto simp: yields_item_def)
  have "item_found (pre @ v @ v') s' i w0 w'" if "item_found ((pre @ v) @ v') s' i w w'" for i
    using that assms(4) by (simp add: item_found_def split: ini_item.splits)
  then show ?thesis
    unfolding yields_item_def using d assms(2,3)
    by (intro exI [of _ "v @ v'"] exI [of _ s']) (auto split: if_splits)
qed

lemma item_of_line_simps:
  assumes "\<not> IsSpace c"
  shows "IsComment c \<Longrightarrow> item_of_line (c # l) = []"
    "item_of_line (CHR ''['' # l) = (if CHR '']'' \<in> set l
      then [Section (rstrip (takeWhile (\<lambda>c. c \<noteq> CHR '']'') (dropWhile IsSpace l)))] else [])"
    "\<not> IsComment c \<Longrightarrow> c \<noteq> CHR ''['' \<Longrightarrow> CHR ''='' \<notin> set (c # l) \<or> c = CHR ''='' \<Longrightarrow> item_of_line (c # l) = []"
    "\<not> IsComment c \<Longrightarrow> c \<noteq> CHR ''['' \<Longrightarrow> c # l = k @ CHR ''='' # x \<Longrightarrow> k \<noteq> [] \<Longrightarrow> CHR ''='' \<notin> set k \<Longrightarrow>
      item_of_line (c # l) = [Pair (rstrip k) (rstrip (dropWhile IsSpace x))]"
proof -
  have br: "\<not> IsComment (CHR ''['')"
    by (simp add: IsComment_def)
  show "IsComment c \<Longrightarrow> item_of_line (c # l) = []"
    "item_of_line (CHR ''['' # l) = (if CHR '']'' \<in> set l
      then [Section (rstrip (takeWhile (\<lambda>c. c \<noteq> CHR '']'') (dropWhile IsSpace l)))] else [])"
    "\<not> IsComment c \<Longrightarrow> c \<noteq> CHR ''['' \<Longrightarrow> CHR ''='' \<notin> set (c # l) \<or> c = CHR ''='' \<Longrightarrow> item_of_line (c # l) = []"
    using assms br by (auto simp: item_of_line_def)
  assume k: "\<not> IsComment c" "c \<noteq> CHR ''[''" "c # l = k @ CHR ''='' # x" "k \<noteq> []" "CHR ''='' \<notin> set k"
  have "dropWhile IsSpace (c # l) = c # l" "c \<noteq> CHR ''=''" "CHR ''='' \<in> set (c # l)"
    using assms k by (cases k; auto)+
  moreover have "takeWhile (\<lambda>c. c \<noteq> CHR ''='') (c # l) = k" "dropWhile (\<lambda>c. c \<noteq> CHR ''='') (c # l) = CHR ''='' # x"
    unfolding k(3) using k(5) by (induction k) auto
  ultimately show "item_of_line (c # l) = [Pair (rstrip k) (rstrip (dropWhile IsSpace x))]"
    using k(1,2) unfolding item_of_line_def Let_def by (simp only: list.sel(1,3) list.distinct(2) simp_thms if_False if_True)
qed

lemma items_next_text: "items (next_text (line_end s)) = items (line_end s) \<and> clean (next_text (line_end s)) = clean (line_end s)"
proof (cases "line_end s")
  case Nil
  show ?thesis
    unfolding Nil by (simp add: next_text_def)
next
  case (Cons c r)
  have "next_text (c # r) = after_newline (c # r)"
    by (simp add: next_text_def)
  then show ?thesis
    unfolding Cons using items_after_newline [OF Cons] clean_after_newline [OF Cons] by simp
qed

lemma find_loop_item:
  assumes "plain S" "block w = pre @ s @ NUL # rest" "a_pData w = length pre" "NUL \<notin> set s" "clean s"
  shows "\<exists>b w'. find_loop S w = Some (b, w') \<and> yields_item pre s rest w b w'"
  using assms(2-)
proof (induction s arbitrary: w pre rule: length_induct)
  case (1 s)
  define sp t where "sp = takeWhile IsSpace s" and "t = dropWhile IsSpace s"
  have s: "s = sp @ t"
    by (simp add: sp_def t_def)
  have nul: "NUL \<notin> set sp" "NUL \<notin> set t"
    using "1.prems"(3) s by auto
  have items: "items t = items s" "clean t"
    using "1.prems"(4) by (simp_all add: t_def items_skip_spaces clean_skip_spaces)
  have c0: "char_at (block w) (a_pData w) = Some (hd (s @ [NUL]))"
    using "1.prems"(1,2) by (cases s) (simp_all add: char_at_def)
  have skip: "skip_while IsSpace (block w) (a_pData w) = Some (length pre + length sp)"
    using skip_while_block [OF "1.prems"(3), of IsSpace pre rest] "1.prems"(1,2) by (simp add: sp_def)
  have c1: "char_at (block w) (length pre + length sp) = Some (hd (t @ [NUL]))"
    using char_at_block [of "pre @ sp" "hd (t @ [NUL])" "tl (t @ NUL # rest)"] "1.prems"(1) s by (cases t) simp_all
  let ?w = "w\<lparr>a_pData := length pre + length sp\<rparr>" and ?P = "pre @ sp"
  have w: "block ?w = ?P @ t @ NUL # rest" "a_pData ?w = length ?P"
    using "1.prems"(1) s by simp_all
  show ?case
  proof (cases t)
    case Nil
    have "yields_item pre s rest w False w'" if "block w' = block w" "a_pData w' = length pre + length sp" for w'
      unfolding yields_item_def using that Nil s items nul "1.prems"(1)
      by (intro exI [of _ sp] exI [of _ "[]"]) simp
    moreover have "\<exists>w'. find_loop S w = Some (False, w') \<and> block w' = block w \<and> a_pData w' = length pre + length sp"
    proof (cases s)
      case s0: Nil
      have "find_loop S w = Some (False, w)"
        by (subst find_loop.simps) (simp add: c0 s0)
      then show ?thesis
        using s s0 "1.prems"(2) by auto
    next
      case (Cons x xs)
      then have "hd (s @ [NUL]) \<noteq> NUL"
        using "1.prems"(3) by auto
      then show ?thesis
        using Nil by (intro exI [of _ ?w], subst find_loop.simps) (simp add: c0 c1 skip)
    qed
    ultimately show ?thesis
      by blast
  next
    case (Cons c l)
    have c: "\<not> IsSpace c" "c \<noteq> NUL"
      using Cons hd_dropWhile [of IsSpace s] nul(2) by (auto simp: t_def)
    have "hd (s @ [NUL]) \<noteq> NUL"
      using Cons s nul by (cases sp) auto
    then have run: "find_loop S w = (
        if IsComment c then do {
          (found, m, p, cm) \<leftarrow> LoadMultiLineText (block w) (length pre + length sp) None True;
          find_loop S (w\<lparr>block := m, a_pData := p, a_pComment := cm\<rparr>)
        }
        else do {
          (r, w) \<leftarrow> (if c = CHR ''['' then find_section ?w else find_key S ?w);
          case r of Return b \<Rightarrow> Some (b, w) | Continue \<Rightarrow> find_loop S w
        })"
      using Cons c(2) by (subst find_loop.simps) (simp add: c0 c1 skip)
    have line: "this_line t = c # this_line l" "line_end t = line_end l"
      using c(1) Cons newline_space by auto
    have rest_items: "items s = item_of_line (c # this_line l) @ items (line_end l)" "clean_line (c # this_line l)"
      "clean (line_end l)"
      using items items_line [of t] clean_line_end [of t] line by simp_all
    have len: "length s = length sp + Suc (length l)" "length (line_end l) \<le> length l"
      using s Cons by (simp_all add: length_dropWhile_le)
    have again: ?thesis if w2: "find_loop S w = find_loop S w2" "block w2 = pre @ (sp @ v) @ s2 @ NUL # rest"
      "a_pData w2 = length (pre @ sp @ v)" "length (sp @ v) + length s2 = length s" "v \<noteq> []" "NUL \<notin> set s2" "clean s2"
      "items s2 = items s" "a_pSection w2 = a_pSection w" for w2 v s2
    proof -
      have "length s2 < length s"
        using w2(4,5) by (cases v) auto
      moreover have "block w2 = (pre @ sp @ v) @ s2 @ NUL # rest"
        using w2(2) by simp
      ultimately obtain b w' where "find_loop S w2 = Some (b, w')" "yields_item (pre @ sp @ v) s2 rest w2 b w'"
        using "1.IH"[rule_format, OF _ _ w2(3,6,7)] by blast
      then show ?thesis
        using yields_step [of pre "sp @ v" s2 rest w2 b w' s w] w2 by auto
    qed
    show ?thesis
    proof (cases "IsComment c")
      case True
      obtain v s' where load: "LoadMultiLineText (?P @ t @ NUL # rest) (length ?P) None True
          = Some (True, ?P @ v @ s' @ NUL # rest, length ?P + length v, Some (length ?P))"
        "length v + length s' = length t" "length s' < length t" "suffix s' t" "items s' = items t" "clean t \<longrightarrow> clean s'"
        using load_comment [OF nul(2), of ?P rest True] Cons True by auto
      have "NUL \<notin> set s'"
        using load(4) nul(2) by (auto dest: set_mono_suffix)
      then show ?thesis
        using load w True items run len(1) Cons
        by (intro again [of "w\<lparr>block := ?P @ v @ s' @ NUL # rest, a_pData := length ?P + length v, a_pComment := Some (length ?P)\<rparr>" v s'])
          auto
    next
      case False
      note turn = run [unfolded if_not_P [OF False]]
      show ?thesis
      proof (cases "c = CHR ''[''")
        case True
        then have "CHR '']'' \<in> set (this_line l)"
          using rest_items(2) by (simp add: clean_line_def)
        then obtain v w' p where sec: "find_section ?w = Some (Return True, w')" "block w' = ?P @ v @ line_end l @ NUL # rest"
          "a_pData w' = length ?P + length v" "length v + length (line_end l) = Suc (length l)" "a_pKey w' = None" "a_pVal w' = None"
          "a_pSection w' = Some p" "c_string (?P @ v) p = Some (rstrip (takeWhile (\<lambda>c. c \<noteq> CHR '']'') (dropWhile IsSpace (this_line l))))"
          using find_section_plain [of ?w ?P l rest] w nul(2) Cons True by auto
        have "items s = Section (rstrip (takeWhile (\<lambda>c. c \<noteq> CHR '']'') (dropWhile IsSpace (this_line l)))) # items (line_end l)"
          using rest_items(1) True \<open>CHR '']'' \<in> set (this_line l)\<close> item_of_line_simps(2) [OF c(1)] by simp
        moreover have "NUL \<notin> set (line_end l)"
          using NUL_line_end [OF nul(2)] line(2) by simp
        moreover have "held (?P @ v) (line_end l) p (rstrip (takeWhile (\<lambda>c. c \<noteq> CHR '']'') (dropWhile IsSpace (this_line l))))"
          unfolding held_def by (rule c_string_append [OF sec(8)])
        moreover have "v \<noteq> []"
          using sec(4) len(2) by auto
        ultimately have "yields_item pre s rest w True w'"
          unfolding yields_item_def using sec len rest_items(3)
          by (intro exI [of _ "sp @ v"] exI [of _ "line_end l"]) (simp add: item_found_def)
        then show ?thesis
          using turn True sec(1) by auto
      next
        case nosec: False
        show ?thesis
        proof (cases "CHR ''='' \<notin> set (this_line t) \<or> c = CHR ''=''")
          case True
          then obtain w' where skipped: "find_key S ?w = Some (Continue, w')" "block w' = block ?w" "a_pSection w' = a_pSection ?w"
            "a_pData w' = length ?P + length (this_line t)"
            using find_key_skip [OF w nul(2) assms(1)] Cons by auto
          have "item_of_line (c # this_line l) = []"
            using item_of_line_simps(3) [OF c(1) False nosec] True line(1) by simp
          moreover have "block w' = pre @ (sp @ this_line t) @ line_end t @ NUL # rest"
            unfolding skipped(2) w(1) by simp
          moreover have "NUL \<notin> set (line_end t)"
            by (rule NUL_line_end [OF nul(2)])
          ultimately show ?thesis
            using turn nosec skipped rest_items line len length_line_parts [of l]
            by (intro again [of w' "this_line t" "line_end t"]) simp_all
        next
          case key: False
          then obtain k x where kx: "this_line t = k @ CHR ''='' # x" "CHR ''='' \<notin> set k"
            using split_list_first [of "CHR ''=''" "this_line t"] by blast
          then have "k \<noteq> []"
            using key line(1) by auto
          then obtain v w' p where pair: "find_key S ?w = Some (Return True, w')"
            "block w' = ?P @ v @ next_text (line_end t) @ NUL # rest" "a_pData w' = length ?P + length v"
            "length v + length (next_text (line_end t)) = length t" "v \<noteq> []" "a_pSection w' = a_pSection ?w"
            "a_pKey w' = Some (length ?P)" "a_pVal w' = Some p" "c_string (?P @ v) (length ?P) = Some (rstrip k)"
            "held (?P @ v) (next_text (line_end t)) p (rstrip (dropWhile IsSpace x))"
            using find_key_pair [OF w nul(2) assms(1) kx(1) _ kx(2)] by blast
          have "held (?P @ v) (next_text (line_end t)) (length ?P) (rstrip k)"
            unfolding held_def by (rule c_string_append [OF pair(9)])
          moreover have "item_of_line (c # this_line l) = [Pair (rstrip k) (rstrip (dropWhile IsSpace x))]"
            using item_of_line_simps(4) [OF c(1) False nosec _ \<open>k \<noteq> []\<close> kx(2)] kx(1) line(1) by simp
          then have "items s = Pair (rstrip k) (rstrip (dropWhile IsSpace x)) # items (next_text (line_end t))"
            using rest_items(1) items_next_text [of t] line(2) by simp
          moreover have "clean (next_text (line_end t))"
            using items_next_text [of t] rest_items(3) line(2) by simp
          moreover have "NUL \<notin> set (next_text (line_end t))"
            using NUL_after_newline [OF NUL_line_end [OF nul(2)]] by (simp add: next_text_def)
          ultimately have "yields_item pre s rest w True w'"
            unfolding yields_item_def using pair s
            by (intro exI [of _ "sp @ v"] exI [of _ "next_text (line_end t)"]) (simp add: item_found_def)
          then show ?thesis
            using turn nosec pair(1) by auto
        qed
      qed
    qed
  qed
qed

lemma FindEntry_item:
  assumes "plain S" "block w = pre @ s @ NUL # rest" "a_pData w = length pre" "NUL \<notin> set s" "clean s"
  shows "\<exists>b w'. FindEntry S w = Some (b, w') \<and> yields_item pre s rest w b w'"
proof -
  obtain b w' where loop: "find_loop S (w\<lparr>a_pComment := None\<rparr>) = Some (b, w')"
    "yields_item pre s rest (w\<lparr>a_pComment := None\<rparr>) b w'"
    using find_loop_item [OF assms(1), of "w\<lparr>a_pComment := None\<rparr>" pre s rest] assms(2-5) by auto
  then have "yields_item pre s rest w b w'"
    using yields_step [of pre "[]" s rest "w\<lparr>a_pComment := None\<rparr>" b w' s w] by simp
  then show ?thesis
    using loop(1) by (simp add: FindEntry_def)
qed

end
