(* ===== verification/Ini_Load.thy ===== *)
theory Ini_Load
  imports Ini_File Ini_Object Ini_Items
begin

text \<open>
  Loading a text always returns and keeps the invariant of the object (\<open>load_loop_total\<close>); with the
  settings of the program it sets the values that the lines of the text give (\<open>load_loop_items\<close>).
\<close>

section \<open>Where the pointers come from\<close>

lemma copy_if_source: "copy_if new_ok copy p o' = Some (rc, q, o'') \<Longrightarrow> m_data o'' = m_data o' \<and> (q = p \<or> is_copy q)"
  by (auto simp: copy_if_def CopyString_def Let_def bind_eq_Some_conv split: if_splits)

lemma insert_entry_split: "insert_entry o' x xs = Some (i, ys) \<Longrightarrow> ys = take i xs @ x # drop i xs"
  by (auto simp: insert_entry_def bind_eq_Some_conv)

lemma inserted_members:
  "p \<in># stored (take i D @ x # drop i D) \<longleftrightarrow> p = pItem (fst x) \<or> p \<in># kv_ptrs (snd x) \<or> p \<in># stored D"
  "p \<in> comments (take i D @ x # drop i D) \<longleftrightarrow> Some p = pComment (fst x) \<or> p \<in> kv_comments (snd x) \<or> p \<in> comments D"
  "p \<in># kv_ptrs (take i kv @ y # drop i kv) \<longleftrightarrow> p = pItem (fst y) \<or> p = snd y \<or> p \<in># kv_ptrs kv"
  "p \<in> kv_comments (take i kv @ y # drop i kv) \<longleftrightarrow> Some p = pComment (fst y) \<or> p \<in> kv_comments kv"
  by (auto simp: take_ins_drop kv_ins_drop simp del: stored_simps(3) comments_simps(3) kv_ptrs_simps(3) kv_comments_simps(3))

lemma not_copy: "is_copy p \<Longrightarrow> Data q \<noteq> p"
  by (cases p) auto

lemma add_section_tables:
  assumes "add_section new_ok sec no_key com copy o' = Some (rc, i, o'')"
  shows "m_data o'' = m_data o' \<or> (\<exists>e i. m_data o'' = take i (m_data o') @ (e, []) # drop i (m_data o')
    \<and> (pItem e = sec \<or> is_copy (pItem e)) \<and> (pComment e = None \<or> pComment e = com))"
proof -
  obtain rc1 q o1 where c: "copy_if new_ok copy sec o' = Some (rc1, q, o1)"
    using assms by (cases "copy_if new_ok copy sec o'") (auto simp: add_section_def)
  note src = copy_if_source [OF c]
  show ?thesis
  proof (cases "rc1 < 0")
    case True
    then show ?thesis
      using assms src by (simp add: add_section_def c)
  next
    case False
    let ?e = "\<lparr>pItem = q, pComment = (if no_key then com else None), nOrder = m_nOrder o1 + 1\<rparr>"
    obtain tab where "insert_entry (o1\<lparr>m_nOrder := m_nOrder o1 + 1\<rparr>) (?e, []) (m_data o') = Some (i, tab)" "m_data o'' = tab"
      using assms False src
      by (auto simp: add_section_def c next_order_def bind_eq_Some_conv Let_def simp del: One_nat_def split: if_splits)
    then have "m_data o'' = take i (m_data o') @ (?e, []) # drop i (m_data o')"
      using insert_entry_split by blast
    then show ?thesis
      using src by (intro disjI2 exI [of _ ?e] exI [of _ i]) simp
  qed
qed

lemma upper_bound_le: "upper_bound o' k xs = Some i \<Longrightarrow> i \<le> length xs"
  by (induction xs arbitrary: i) (auto simp: bind_eq_Some_conv split: if_splits)

lemma add_section_source:
  assumes "add_section new_ok sec no_key com copy o' = Some (rc, i, o'')"
  shows "Data q \<in># stored (m_data o'') \<Longrightarrow> Data q \<in># stored (m_data o') \<or> Data q = sec"
    "Data q \<in> comments (m_data o'') \<Longrightarrow> Data q \<in> comments (m_data o') \<or> Some (Data q) = com"
proof -
  consider "m_data o'' = m_data o'"
    | e i where "m_data o'' = take i (m_data o') @ (e, []) # drop i (m_data o')" "pItem e = sec \<or> is_copy (pItem e)"
        "pComment e = None \<or> pComment e = com"
    using add_section_tables [OF assms] by blast
  then have "(Data q \<in># stored (m_data o'') \<longrightarrow> Data q \<in># stored (m_data o') \<or> Data q = sec)
    \<and> (Data q \<in> comments (m_data o'') \<longrightarrow> Data q \<in> comments (m_data o') \<or> Some (Data q) = com)"
  proof cases
    case 2
    show ?thesis
      unfolding 2(1) inserted_members using 2(2,3) not_copy by (auto simp del: stored_simps comments_simps)
  qed simp
  then show "Data q \<in># stored (m_data o'') \<Longrightarrow> Data q \<in># stored (m_data o') \<or> Data q = sec"
    "Data q \<in> comments (m_data o'') \<Longrightarrow> Data q \<in> comments (m_data o') \<or> Some (Data q) = com"
    by blast+
qed

lemma stored_member_iff:
  "p \<in># stored D \<longleftrightarrow> (\<exists>x \<in> set D. p = pItem (fst x) \<or> p \<in># kv_ptrs (snd x))"
  "p \<in> comments D \<longleftrightarrow> (\<exists>x \<in> set D. Some p = pComment (fst x) \<or> p \<in> kv_comments (snd x))"
  by (induction D) auto

lemma stored_put:
  "p \<in># stored (D[i := (e, kv)]) \<Longrightarrow> p \<in># stored D \<or> p = pItem e \<or> p \<in># kv_ptrs kv"
  "p \<in> comments (D[i := (e, kv)]) \<Longrightarrow> p \<in> comments D \<or> Some p = pComment e \<or> p \<in> kv_comments kv"
  unfolding stored_member_iff using set_update_subset_insert [of D i "(e, kv)"] by fastforce+

lemma kv_member_iff:
  "p \<in># kv_ptrs kv \<longleftrightarrow> (\<exists>y \<in> set kv. p = pItem (fst y) \<or> p = snd y)"
  "p \<in> kv_comments kv \<longleftrightarrow> (\<exists>y \<in> set kv. Some p = pComment (fst y))"
  by (induction kv) auto

lemma kv_put_members:
  assumes "j < length kv"
  shows "p \<in># kv_ptrs (kv[j := (fst (kv ! j), v)]) \<Longrightarrow> p \<in># kv_ptrs kv \<or> p = v"
    "p \<in> kv_comments (kv[j := (fst (kv ! j), v)]) \<Longrightarrow> p \<in> kv_comments kv"
  using kv_put [OF assms, of v] by (auto dest: mset_subset_eqD)

lemma section_members:
  "i < length D \<Longrightarrow> D ! i = (e, kv) \<Longrightarrow> pItem e \<in># stored D \<and> (\<forall>p. p \<in># kv_ptrs kv \<longrightarrow> p \<in># stored D)
    \<and> (\<forall>p. Some p = pComment e \<or> p \<in> kv_comments kv \<longrightarrow> p \<in> comments D)"
  unfolding stored_member_iff using nth_mem [of i D] by force

text \<open>\<open>refers o' P K\<close>: the pointers into the block that are names or values satisfy \<open>P\<close>, the comments \<open>K\<close>.\<close>

definition refers :: "(nat \<Rightarrow> bool) \<Rightarrow> (nat \<Rightarrow> bool) \<Rightarrow> CSimpleIni \<Rightarrow> bool" where
  "refers P K o' \<longleftrightarrow> (\<forall>q. Data q \<in># stored (m_data o') \<longrightarrow> P q) \<and> (\<forall>q. Data q \<in> comments (m_data o') \<longrightarrow> K q)"

lemma refersD: "refers P K o' \<Longrightarrow> Data q \<in># stored (m_data o') \<Longrightarrow> P q" "refers P K o' \<Longrightarrow> Data q \<in> comments (m_data o') \<Longrightarrow> K q"
  by (simp_all add: refers_def)

lemma refers_same: "m_data o'' = m_data o' \<Longrightarrow> refers P K o'' = refers P K o'"
  by (simp add: refers_def)

lemma refers_mono: "refers P K o' \<Longrightarrow> (\<And>q. P q \<Longrightarrow> P' q) \<Longrightarrow> (\<And>q. K q \<Longrightarrow> K' q) \<Longrightarrow> refers P' K' o'"
  by (simp add: refers_def)

lemma store_key_refers:
  assumes "store_key new_ok key val com copy create iKey inserted n i o' = Some (rc, o'')" "refers P K o'"
    "\<forall>q. Data q = key \<or> Data q = val \<longrightarrow> P q" "\<forall>q. Some (Data q) = com \<longrightarrow> K q"
    "i < length (m_data o')" "\<not> create \<longrightarrow> the iKey < length (snd (m_data o' ! i))"
  shows "refers P K o''"
proof -
  obtain rc1 key1 o1 where c1: "copy_if new_ok (copy \<and> create) key o' = Some (rc1, key1, o1)"
    using assms(1) by (cases "copy_if new_ok (copy \<and> create) key o'") (auto simp: store_key_def)
  note src1 = copy_if_source [OF c1]
  show ?thesis
  proof (cases "rc1 < 0")
    case True
    then have "o'' = o1"
      using assms(1) by (simp add: store_key_def c1)
    then show ?thesis
      using src1 assms(2) by (simp add: refers_def)
  next
    case False
    obtain rc2 val1 o2 where c2: "copy_if new_ok copy val o1 = Some (rc2, val1, o2)"
      using assms(1) False by (cases "copy_if new_ok copy val o1") (auto simp: store_key_def c1)
    note src2 = copy_if_source [OF c2]
    show ?thesis
    proof (cases "rc2 < 0")
      case True
      then have "o'' = o2"
        using assms(1) False by (simp add: store_key_def c1 c2)
      then show ?thesis
        using src1 src2 assms(2) by (simp add: refers_def)
    next
      case ok: False
      obtain e kv where x: "m_data o' ! i = (e, kv)"
        by (cases "m_data o' ! i")
      let ?y = "(\<lparr>pItem = key1, pComment = com, nOrder = n\<rparr>, val1)"
      obtain kv' where kv': "m_data o'' = (m_data o')[i := (e, kv')]"
        "(\<exists>j. insert_entry o2 ?y kv = Some (j, kv')) \<and> create \<or> \<not> create \<and> kv' = kv[the iKey := (fst (kv ! the iKey), val1)]"
      proof -
        have "(if create then do { (j, kv) \<leftarrow> insert_entry o2 ?y kv; Some kv } else Some (kv[the iKey := (fst (kv ! the iKey), val1)]))
            \<bind> (\<lambda>kv. Some (if inserted then SI_INSERTED else SI_UPDATED, o2\<lparr>m_data := (m_data o2)[i := (e, kv)]\<rparr>)) = Some (rc, o'')"
          using assms(1) False ok src1 src2 x by (simp add: store_key_def c1 c2)
        then show thesis
          using that src1 src2 by (cases create) (auto simp: bind_eq_Some_conv)
      qed
      have new: "p \<in># kv_ptrs kv' \<longrightarrow> p \<in># kv_ptrs kv \<or> p = key1 \<or> p = val1" "p \<in> kv_comments kv' \<longrightarrow> p \<in> kv_comments kv \<or> Some p = com" for p
        using kv'(2) assms(6) kv_put_members [of "the iKey" kv p val1] insert_entry_split [of o2 ?y kv _ kv'] x
        by (auto simp: inserted_members simp del: kv_ptrs_simps(3) kv_comments_simps(3))
      have old: "pItem e \<in># stored (m_data o')" "\<And>p. p \<in># kv_ptrs kv \<Longrightarrow> p \<in># stored (m_data o')"
        "\<And>p. Some p = pComment e \<or> p \<in> kv_comments kv \<Longrightarrow> p \<in> comments (m_data o')"
        using section_members [OF assms(5) x] by blast+
      have "P q" if q: "Data q \<in># stored (m_data o'')" for q
      proof -
        have "Data q \<in># stored (m_data o') \<or> Data q = key1 \<or> Data q = val1"
          using stored_put(1) [of "Data q" "m_data o'" i e kv'] q new(1) [of "Data q"] old(1,2) unfolding kv'(1) by auto
        then show ?thesis
          using refersD(1) [OF assms(2)] assms(3) src1 src2 not_copy [of key1 q] not_copy [of val1 q] by auto
      qed
      moreover have "K q" if q: "Data q \<in> comments (m_data o'')" for q
        using stored_put(2) [of "Data q" "m_data o'" i e kv'] q new(2) [of "Data q"] old(3) refersD(2) [OF assms(2)] assms(4)
        unfolding kv'(1) by blast
      ultimately show ?thesis
        by (simp add: refers_def)
    qed
  qed
qed

lemma find_entry_bound: "find_entry o' k xs = Some (Some i) \<Longrightarrow> i < length xs"
  by (auto simp: find_entry_def bind_eq_Some_conv split: if_splits)

lemma add_key_refers:
  assumes "add_key new_ok sec key val com False copy i o' = Some (rc, o'')" "refers P K o'"
    "\<forall>q. Data q = key \<or> Some (Data q) = val \<longrightarrow> P q" "\<forall>q. Some (Data q) = com \<longrightarrow> K q" "i < length (m_data o')"
  shows "refers P K o''"
proof -
  obtain k iKey o1 where r: "ptr_text o' key = Some k" "find_entry o' k (snd (m_data o' ! i)) = Some iKey" "next_order o' = Some o1"
    "store_key new_ok key (case val of None \<Rightarrow> EmptyMember | Some p \<Rightarrow> p) com copy (iKey = None \<or> m_bAllowMultiKey o1 \<and> \<not> False) iKey
      (iKey = None) (m_nOrder o1) i o1 = Some (rc, o'')"
    using assms(1) by (auto simp: add_key_def bind_eq_Some_conv Let_def)
  have data: "m_data o1 = m_data o'"
    using r(3) by (auto simp: next_order_def split: if_splits)
  have "the iKey < length (snd (m_data o' ! i))" if "iKey \<noteq> None"
    using that r(2) find_entry_bound by fastforce
  then show ?thesis
    using store_key_refers [OF r(4)] assms(2-5) data by (auto simp: refers_same [OF data] split: option.splits)
qed

lemma AddEntry_refers:
  assumes "AddEntry new_ok sec key val com False copy o' = Some (rc, o'')" "refers P K o'"
    "\<forall>q. Data q = sec \<or> Some (Data q) = key \<or> Some (Data q) = val \<longrightarrow> P q" "\<forall>q. Some (Data q) = com \<longrightarrow> K q"
  shows "refers P K o''"
proof -
  let ?c = "case com of None \<Rightarrow> Some (SI_OK, None, o') | Some p \<Rightarrow> do { (rc, p, o') \<leftarrow> copy_if new_ok copy p o'; Some (rc, Some p, o') }"
  obtain rc1 com1 o1 where c1: "?c = Some (rc1, com1, o1)"
    using assms(1) by (cases ?c) (auto simp: AddEntry_def)
  have src: "m_data o1 = m_data o'" "\<forall>q. Some (Data q) = com1 \<longrightarrow> K q"
    using c1 assms(4) by (auto simp: bind_eq_Some_conv dest!: copy_if_source split: option.splits)
  have o1: "refers P K o1"
    using assms(2) refers_same [OF src(1)] by simp
  show ?thesis
  proof (cases "rc1 < 0")
    case True
    then show ?thesis
      using assms(1) o1 unfolding AddEntry_def c1 by simp
  next
    case False
    obtain s iSection where s: "ptr_text o1 sec = Some s" "find_entry o1 s (m_data o1) = Some iSection"
      using assms(1) False unfolding AddEntry_def c1 by (auto simp: bind_eq_Some_conv)
    let ?a = "case iSection of Some i \<Rightarrow> Some (SI_OK, i, o1) | None \<Rightarrow> add_section new_ok sec (key = None) com1 copy o1"
    obtain rc2 i o2 where a: "?a = Some (rc2, i, o2)"
      using assms(1) False s unfolding AddEntry_def c1 by (cases ?a) auto
    have run: "(if rc2 < 0 then Some (rc2, o2) else (case key of
          None \<Rightarrow> Some (if iSection = None then SI_INSERTED else SI_UPDATED, o2)
        | Some key \<Rightarrow> add_key new_ok sec key val com1 False copy i o2)) = Some (rc, o'')"
      using assms(1) False s a unfolding AddEntry_def c1 by simp
    have o2: "refers P K o2 \<and> (rc2 < 0 \<or> i < length (m_data o2))"
    proof (cases iSection)
      case None
      then have sec: "add_section new_ok sec (key = None) com1 copy o1 = Some (rc2, i, o2)"
        using a by simp
      then have "rc2 < 0 \<or> i < length (m_data o2)"
        by (auto simp: add_section_def bind_eq_Some_conv Let_def insert_entry_def dest!: upper_bound_le split: if_splits)
      moreover have "refers P K o2"
        unfolding refers_def
      proof (intro conjI allI impI)
        show "P q" if "Data q \<in># stored (m_data o2)" for q
          using add_section_source(1) [OF sec that] refersD(1) [OF o1] assms(3) by blast
        show "K q" if "Data q \<in> comments (m_data o2)" for q
          using add_section_source(2) [OF sec that] refersD(2) [OF o1] src(2) by blast
      qed
      ultimately show ?thesis
        by blast
    next
      case (Some j)
      then show ?thesis
        using a o1 find_entry_bound [of o1 s "m_data o1" j] s(2) by simp
    qed
    show ?thesis
    proof (cases "rc2 < 0 \<or> key = None")
      case True
      then show ?thesis
        using run o2 by (auto split: if_splits option.splits)
    next
      case False
      then obtain p where "key = Some p" "add_key new_ok sec p val com1 False copy i o2 = Some (rc, o'')"
        using run by (auto split: if_splits)
      then show ?thesis
        using add_key_refers [of new_ok sec p val com1 copy i o2 rc o'' P K] o2 assms(3) src(2) False by auto
    qed
  qed
qed

section \<open>One entry\<close>

lemma opened_le: "opened m n \<Longrightarrow> q \<le> n \<Longrightarrow> opened m q"
  unfolding opened_def using set_drop_subset_set_drop [of q n m] by blast

lemma c_string_opened: "opened m p \<Longrightarrow> c_string m p = Some (left m p)"
  by (simp add: opened_def c_string_def left_def)

lemma parse_ptr_reads:
  assumes "opened m p" "\<not> copy \<longrightarrow> m_pData o' = Some m"
  shows "\<exists>q. parse_ptr copy m p = Some q \<and> keepable copy q \<and> ptr_text o' q = Some (left m p) \<and> (\<forall>n. q = Data n \<longrightarrow> n = p \<and> \<not> copy)"
  using assms by (cases copy) (simp_all add: parse_ptr_def c_string_opened keepable_def)

lemma parse_opt_reads:
  assumes "\<forall>p. x = Some p \<longrightarrow> opened m p" "\<not> copy \<longrightarrow> m_pData o' = Some m"
  shows "\<exists>q. parse_ptr_opt copy m x = Some q \<and> (\<forall>n. q = Some (Data n) \<longrightarrow> x = Some n \<and> \<not> copy)
    \<and> (case x of None \<Rightarrow> q = None | Some p \<Rightarrow> \<exists>r. q = Some r \<and> keepable copy r \<and> ptr_text o' r = Some (left m p))"
proof (cases x)
  case (Some p)
  then show ?thesis
    using parse_ptr_reads [of m p copy o'] assms by (auto simp: parse_ptr_opt_def)
qed (simp add: parse_ptr_opt_def)

text \<open>The names and the value of the entry that the parser has found.\<close>

definition found_section :: "parse \<Rightarrow> string" where
  "found_section w = (case a_pSection w of None \<Rightarrow> [] | Some p \<Rightarrow> left (block w) p)"

definition found_item :: "parse \<Rightarrow> (string \<times> string) option" where
  "found_item w = map_option (\<lambda>p. (left (block w) p, case a_pVal w of None \<Rightarrow> [] | Some q \<Rightarrow> left (block w) q)) (a_pKey w)"

lemma add_found_ok:
  assumes "opened (block w) (a_pData w)" "ptrs_ok w" "safe o'" "\<not> copy \<longrightarrow> m_pData o' = Some (block w)" "m_nOrder o' + 2 < 2 ^ 31"
    "refers P K o'" "\<not> copy \<longrightarrow> (\<forall>q. Some q \<in> {a_pSection w, a_pKey w, a_pVal w} \<longrightarrow> P q) \<and> (\<forall>q. Some q = a_pComment w \<longrightarrow> K q)"
  shows "\<exists>rc o''. add_found new_ok copy w o' = Some (rc, o'') \<and> safe o'' \<and> base_same o' o'' \<and> refers P K o''
    \<and> m_nOrder o' \<le> m_nOrder o'' \<and> m_nOrder o'' \<le> m_nOrder o' + 2
    \<and> (rc = SI_NOMEM \<and> copy \<and> (\<exists>n. \<not> new_ok n) \<and> partial_tab (found_section w) (map_option fst (found_item w)) (tab_of o') (tab_of o'')
       \<or> 0 \<le> rc \<and> tab_of o'' = set_tab (m_bAllowMultiKey o') False (found_section w) (found_item w) (tab_of o'))"
proof -
  have op: "opened (block w) p" if "Some p \<in> {a_pSection w, a_pKey w, a_pVal w, a_pComment w}" for p
    using opened_le [OF assms(1)] assms(2) that by (auto simp: ptrs_ok_def)
  obtain sec where sec: "(case a_pSection w of None \<Rightarrow> Some StaticEmpty | Some p \<Rightarrow> parse_ptr copy (block w) p) = Some sec"
    "ptr_text o' sec = Some (found_section w)" "keepable copy sec" "\<forall>n. sec = Data n \<longrightarrow> a_pSection w = Some n \<and> \<not> copy"
  proof (cases "a_pSection w")
    case None
    then show thesis
      using that [of StaticEmpty] by (simp add: found_section_def keepable_def)
  next
    case (Some p)
    then obtain q where "parse_ptr copy (block w) p = Some q" "keepable copy q" "ptr_text o' q = Some (left (block w) p)"
      "\<forall>n. q = Data n \<longrightarrow> n = p \<and> \<not> copy"
      using parse_ptr_reads [OF op assms(4), of p] by auto
    then show thesis
      using that [of q] Some by (auto simp: found_section_def)
  qed
  obtain key where key: "parse_ptr_opt copy (block w) (a_pKey w) = Some key" "\<forall>n. key = Some (Data n) \<longrightarrow> a_pKey w = Some n \<and> \<not> copy"
    "case a_pKey w of None \<Rightarrow> key = None | Some p \<Rightarrow> \<exists>r. key = Some r \<and> keepable copy r \<and> ptr_text o' r = Some (left (block w) p)"
    using parse_opt_reads [of "a_pKey w" "block w" copy o'] op assms(4) by auto
  obtain val where val: "parse_ptr_opt copy (block w) (a_pVal w) = Some val" "\<forall>n. val = Some (Data n) \<longrightarrow> a_pVal w = Some n \<and> \<not> copy"
    "case a_pVal w of None \<Rightarrow> val = None | Some p \<Rightarrow> \<exists>r. val = Some r \<and> keepable copy r \<and> ptr_text o' r = Some (left (block w) p)"
    using parse_opt_reads [of "a_pVal w" "block w" copy o'] op assms(4) by auto
  obtain com where com: "parse_ptr_opt copy (block w) (a_pComment w) = Some com" "\<forall>n. com = Some (Data n) \<longrightarrow> a_pComment w = Some n \<and> \<not> copy"
    "case a_pComment w of None \<Rightarrow> com = None | Some p \<Rightarrow> \<exists>r. com = Some r \<and> keepable copy r \<and> ptr_text o' r = Some (left (block w) p)"
    using parse_opt_reads [of "a_pComment w" "block w" copy o'] op assms(4) by auto
  let ?t = "case a_pVal w of None \<Rightarrow> [] | Some q \<Rightarrow> left (block w) q" and ?k = "map_option (left (block w)) (a_pKey w)"
  have read: "reads_opt o' key ?k"
    using key(3) by (auto simp: reads_opt_def keepable_def split: option.splits)
  have args: "\<forall>p. key = Some p \<longrightarrow> keepable copy p"
    "case val of None \<Rightarrow> ?t = [] | Some p \<Rightarrow> ptr_text o' p = Some ?t \<and> keepable copy p"
    "case com of None \<Rightarrow> True | Some p \<Rightarrow> keepable copy p \<and> ptr_text o' p \<noteq> None"
    using key(3) val(3) com(3) by (auto split: option.splits)
  have no_force: "False \<longrightarrow> copy"
    by simp
  obtain rc o'' where add: "AddEntry new_ok sec key val com False copy o' = Some (rc, o'')" "safe o''" "base_same o' o''"
    "m_nOrder o' \<le> m_nOrder o''" "m_nOrder o'' \<le> m_nOrder o' + 2"
    "rc = SI_NOMEM \<and> copy \<and> (\<exists>n. \<not> new_ok n) \<and> partial_tab (found_section w) ?k (tab_of o') (tab_of o'')
     \<or> rc = add_code (found_section w) ?k (tab_of o')
       \<and> tab_of o'' = set_tab (m_bAllowMultiKey o') False (found_section w) (map_option (\<lambda>k. (k, ?t)) ?k) (tab_of o')"
    using AddEntry_ok [OF assms(3) sec(2,3) read args no_force assms(5), of new_ok] by (elim exE conjE) (rule that)
  have "refers P K o''"
    by (rule AddEntry_refers [OF add(1) assms(6)]) (use sec(4) key(2) val(2) com(2) assms(7) in auto)
  moreover have "map_option fst (found_item w) = ?k" "found_item w = map_option (\<lambda>k. (k, ?t)) ?k"
    by (simp_all add: found_item_def option.map_comp comp_def)
  moreover have "add_found new_ok copy w o' = Some (rc, o'')"
    by (simp add: add_found_def sec(1) key(1) val(1) com(1) add(1))
  ultimately show ?thesis
    using add(2-6) add_code_nonneg by auto
qed

section \<open>The loop ends\<close>

lemma mem_ok_new_block:
  assumes "mem_ok S K o'" "\<forall>q. Data q \<in># S \<or> Data q \<in> K \<or> m_pFileComment o' = Some (Data q) \<longrightarrow> opened m q"
  shows "mem_ok S K (o'\<lparr>m_pData := Some m\<rparr>)"
proof -
  have "ptr_text (o'\<lparr>m_pData := Some m\<rparr>) p \<noteq> None" if "p \<in># S \<or> p \<in> K \<or> m_pFileComment o' = Some p" "ptr_text o' p \<noteq> None" for p
    using assms(2) that by (cases p) (auto simp: c_string_opened)
  then show ?thesis
    using assms(1) by (simp add: mem_ok_def)
qed

text \<open>What holds between two turns: the pointers into the block are behind the parser.\<close>

definition loading :: "bool \<Rightarrow> parse \<Rightarrow> CSimpleIni \<Rightarrow> bool" where
  "loading copy w o' \<longleftrightarrow> opened (block w) (a_pData w) \<and> ptrs_ok w \<and> safe o' \<and> (\<not> copy \<longrightarrow> m_pData o' = Some (block w)
     \<and> refers (\<lambda>q. q \<le> a_pData w) (\<lambda>q. q \<le> a_pData w) o' \<and> (\<forall>q. m_pFileComment o' = Some (Data q) \<longrightarrow> q \<le> a_pData w))"

lemma hold_block_fields [simp]:
  "m_data (hold_block copy m o') = m_data o'" "m_nOrder (hold_block copy m o') = m_nOrder o'" "m_pFileComment (hold_block copy m o') = m_pFileComment o'"
  "settings (hold_block copy m o') = settings o'" "copy \<Longrightarrow> hold_block copy m o' = o'" "\<not> copy \<Longrightarrow> m_pData (hold_block copy m o') = Some m"
  "m_bAllowMultiKey (hold_block copy m o') = m_bAllowMultiKey o'"
  by (simp_all add: hold_block_def settings_def)

lemma refers_all [simp]: "refers (\<lambda>_. True) (\<lambda>_. True) o'"
  by (simp add: refers_def)

lemma loading_found:
  assumes "loading copy w o'" "FindEntry o' w = Some (b, w')"
  shows "loading copy w' (hold_block copy (block w') o')"
    "b \<longrightarrow> length (left (block w') (a_pData w')) < length (left (block w) (a_pData w))"
proof -
  have inv: "opened (block w) (a_pData w)" "ptrs_ok w" "safe o'" "\<not> copy \<longrightarrow> m_pData o' = Some (block w)
     \<and> refers (\<lambda>q. q \<le> a_pData w) (\<lambda>q. q \<le> a_pData w) o' \<and> (\<forall>q. m_pFileComment o' = Some (Data q) \<longrightarrow> q \<le> a_pData w)"
    using assms(1) by (simp_all add: loading_def)
  have f: "opened (block w') (a_pData w')" "a_pData w \<le> a_pData w'" "ptrs_ok w'"
    "b \<longrightarrow> length (left (block w') (a_pData w')) < length (left (block w) (a_pData w))"
    using FindEntry_total [OF inv(1), of o'] assms(2) inv(2) by (auto simp: advanced_def split: if_splits)
  then show "b \<longrightarrow> length (left (block w') (a_pData w')) < length (left (block w) (a_pData w))"
    by blast
  show "loading copy w' (hold_block copy (block w') o')"
  proof (cases copy)
    case False
    have le: "q \<le> a_pData w'" if "Data q \<in># stored (m_data o') \<or> Data q \<in> comments (m_data o') \<or> m_pFileComment o' = Some (Data q)" for q
      using inv(4) False that f(2) by (fastforce simp: refers_def)
    then have "mem_ok (stored (m_data o')) (comments (m_data o')) (o'\<lparr>m_pData := Some (block w')\<rparr>)"
      using inv(3) opened_le [OF f(1)] by (intro mem_ok_new_block) (auto simp: safe_with_def)
    then show ?thesis
      using f le False by (auto simp: loading_def hold_block_def safe_with_def refers_def)
  qed (use f inv in \<open>simp add: loading_def\<close>)
qed

lemma loading_add:
  assumes "loading copy w o'" "m_nOrder o' + 2 < 2 ^ 31"
  shows "\<exists>rc o''. add_found new_ok copy w o' = Some (rc, o'') \<and> loading copy w o'' \<and> base_same o' o''
    \<and> m_nOrder o'' \<le> m_nOrder o' + 2 \<and> (rc < 0 \<longrightarrow> rc = SI_NOMEM \<and> copy \<and> (\<exists>n. \<not> new_ok n))
    \<and> (0 \<le> rc \<longrightarrow> tab_of o'' = set_tab (m_bAllowMultiKey o') False (found_section w) (found_item w) (tab_of o'))"
proof -
  let ?P = "\<lambda>q. copy \<or> q \<le> a_pData w"
  have inv: "opened (block w) (a_pData w)" "ptrs_ok w" "safe o'" "\<not> copy \<longrightarrow> m_pData o' = Some (block w)"
    "\<not> copy \<longrightarrow> (\<forall>q. m_pFileComment o' = Some (Data q) \<longrightarrow> q \<le> a_pData w)"
    using assms(1) by (simp_all add: loading_def)
  have refs: "refers ?P ?P o'"
    using assms(1) by (cases copy) (simp_all add: loading_def)
  have args: "\<not> copy \<longrightarrow> (\<forall>q. Some q \<in> {a_pSection w, a_pKey w, a_pVal w} \<longrightarrow> ?P q) \<and> (\<forall>q. Some q = a_pComment w \<longrightarrow> ?P q)"
    using inv(2) by (auto simp: ptrs_ok_def)
  obtain rc o'' where r: "add_found new_ok copy w o' = Some (rc, o'')" "safe o''" "base_same o' o''" "refers ?P ?P o''"
    "m_nOrder o'' \<le> m_nOrder o' + 2"
    "rc = SI_NOMEM \<and> copy \<and> (\<exists>n. \<not> new_ok n) \<or> 0 \<le> rc \<and> tab_of o'' = set_tab (m_bAllowMultiKey o') False (found_section w) (found_item w) (tab_of o')"
    using add_found_ok [OF inv(1-4) assms(2) refs args, of new_ok] by blast
  then have "loading copy w o''"
    using inv by (cases copy) (simp_all add: loading_def base_same_def)
  then show ?thesis
    using r by (intro exI [of _ rc] exI [of _ o'']) auto
qed

lemma load_loop_total:
  assumes "loading copy w o'" "m_nOrder o' + 2 * int (length (left (block w) (a_pData w))) < 2 ^ 31"
  shows "\<exists>rc o''. load_loop new_ok copy w o' = Some (rc, o'') \<and> safe o'' \<and> settings o'' = settings o'
    \<and> m_nOrder o'' \<le> m_nOrder o' + 2 * int (length (left (block w) (a_pData w))) \<and> (copy \<longrightarrow> m_pData o'' = m_pData o')
    \<and> (\<not> copy \<longrightarrow> m_pData o'' \<noteq> None) \<and> (rc = SI_OK \<or> rc = SI_NOMEM \<and> copy \<and> (\<exists>n. \<not> new_ok n))"
  using assms
proof (induction "length (left (block w) (a_pData w))" arbitrary: w o' rule: less_induct)
  case less
  obtain b w' where f: "FindEntry o' w = Some (b, w')"
    using FindEntry_total [of w o'] less.prems(1) by (auto simp: loading_def)
  let ?o = "hold_block copy (block w') o'"
  note found = loading_found [OF less.prems(1) f]
  show ?case
  proof (cases b)
    case False
    then have "load_loop new_ok copy w o' = Some (SI_OK, ?o)"
      by (subst load_loop.simps) (simp add: f)
    then show ?thesis
      using found(1) by (cases copy) (simp_all add: loading_def)
  next
    case True
    then have small: "length (left (block w') (a_pData w')) < length (left (block w) (a_pData w))"
      using found(2) by simp
    then have "m_nOrder ?o + 2 < 2 ^ 31"
      using less.prems(2) by simp
    then obtain rc o2 where add: "add_found new_ok copy w' ?o = Some (rc, o2)" "loading copy w' o2" "base_same ?o o2"
      "m_nOrder o2 \<le> m_nOrder ?o + 2" "rc < 0 \<longrightarrow> rc = SI_NOMEM \<and> copy \<and> (\<exists>n. \<not> new_ok n)"
      using loading_add [OF found(1), of new_ok] by blast
    have run: "load_loop new_ok copy w o' = (if rc < 0 then Some (rc, o2) else load_loop new_ok copy w' o2)"
      using True by (subst load_loop.simps) (simp add: f add(1))
    have base: "settings o2 = settings o'" "copy \<longrightarrow> m_pData o2 = m_pData o'" "\<not> copy \<longrightarrow> m_pData o2 \<noteq> None"
      using add(3) by (cases copy, simp_all add: base_same_def)
    show ?thesis
    proof (cases "rc < 0")
      case True
      then show ?thesis
        using run add(2,4,5) base small by (intro exI [of _ rc] exI [of _ o2]) (auto simp: loading_def)
    next
      case False
      have "m_nOrder o2 + 2 * int (length (left (block w') (a_pData w'))) \<le> m_nOrder o' + 2 * int (length (left (block w) (a_pData w)))"
        using add(4) small by simp
      with less.prems(2) have bound: "m_nOrder o2 + 2 * int (length (left (block w') (a_pData w'))) < 2 ^ 31"
        "m_nOrder o3 \<le> m_nOrder o2 + 2 * int (length (left (block w') (a_pData w'))) \<Longrightarrow>
         m_nOrder o3 \<le> m_nOrder o' + 2 * int (length (left (block w) (a_pData w)))" for o3 :: CSimpleIni
        by linarith+
      obtain rc' o3 where "load_loop new_ok copy w' o2 = Some (rc', o3)" "safe o3" "settings o3 = settings o2"
        "m_nOrder o3 \<le> m_nOrder o2 + 2 * int (length (left (block w') (a_pData w')))" "copy \<longrightarrow> m_pData o3 = m_pData o2"
        "\<not> copy \<longrightarrow> m_pData o3 \<noteq> None" "rc' = SI_OK \<or> rc' = SI_NOMEM \<and> copy \<and> (\<exists>n. \<not> new_ok n)"
        using less.hyps [OF small add(2) bound(1)] by (elim exE conjE) (rule that)
      then show ?thesis
        using run base False bound(2) by (intro exI [of _ rc'] exI [of _ o3]) simp
    qed
  qed
qed

section \<open>LoadData returns\<close>

lemma mem_ok_file_comment:
  assumes "mem_ok S K o'" "\<forall>p. c = Some p \<longrightarrow> ptr_text o' p \<noteq> None \<and> (\<forall>s. p \<noteq> Caller s) \<and> (is_copy p \<longrightarrow> p \<notin># S)"
  shows "mem_ok S K (o'\<lparr>m_pFileComment := c\<rparr>)"
proof -
  have "ptr_text (o'\<lparr>m_pFileComment := c\<rparr>) p = ptr_text o' p" for p
    by (rule ptr_text_cong) simp_all
  then show ?thesis
    using assms unfolding mem_ok_def by auto
qed

lemma safe_file_comment:
  "safe o' \<Longrightarrow> \<forall>p. c = Some p \<longrightarrow> ptr_text o' p \<noteq> None \<and> (\<forall>s. p \<noteq> Caller s) \<and> (is_copy p \<longrightarrow> p \<notin># stored (m_data o'))
    \<Longrightarrow> safe (o'\<lparr>m_pFileComment := c\<rparr>)"
  by (simp add: safe_with_def mem_ok_file_comment)

text \<open>Reading a comment at the position of the parser, if there is one.\<close>

lemma comment_here:
  assumes "opened m p"
  shows "\<exists>found m' p' com. LoadMultiLineText m p None False = Some (found, m', p', com)
    \<and> opened m' p' \<and> p \<le> p' \<and> length (left m' p') \<le> length (left m p)
    \<and> (if found then com = Some p else com = None \<and> m' = m \<and> p' = p)"
proof (cases "left m p \<noteq> [] \<and> IsComment (hd (left m p))")
  case True
  then obtain c s where "left m p = c # s" "IsComment c"
    by (cases "left m p") auto
  then show ?thesis
    using load_comment_left [OF assms, of c s False] by force
next
  case False
  then have "\<not> IsComment (hd (left m p @ [NUL]))"
    by (cases "left m p") auto
  then have "LoadMultiLineText m p None False = Some (False, m, p, None)"
    using char_at_left [OF assms] by (simp add: LoadMultiLineText_def ml_loop.simps)
  then show ?thesis
    using assms by (intro exI [of _ False] exI [of _ m] exI [of _ p] exI [of _ None]) simp
qed

lemma FindFileComment_ok:
  assumes "loading copy w o'"
  shows "\<exists>rc w' o''. FindFileComment new_ok copy w o' = Some (rc, w', o'') \<and> loading copy w' o'' \<and> settings o'' = settings o'
    \<and> m_nOrder o'' = m_nOrder o' \<and> m_data o'' = m_data o' \<and> (copy \<longrightarrow> m_pData o'' = m_pData o')
    \<and> length (left (block w') (a_pData w')) \<le> length (left (block w) (a_pData w))
    \<and> (rc = SI_OK \<or> rc = SI_NOMEM \<and> copy \<and> (\<exists>n. \<not> new_ok n))
    \<and> (\<forall>p x. (copy \<or> (\<forall>q. p \<noteq> Data q)) \<and> ptr_text o' p = Some x \<longrightarrow> ptr_text o'' p = Some x)
    \<and> (w' = w \<or> (\<exists>found com. LoadMultiLineText (block w) (a_pData w) None False = Some (found, block w', a_pData w', com)
         \<and> w' = w\<lparr>block := block w', a_pData := a_pData w'\<rparr>))"
proof (cases "m_pFileComment o' = None")
  case False
  then show ?thesis
    using assms by (simp add: FindFileComment_def)
next
  case none: True
  have inv: "opened (block w) (a_pData w)" "ptrs_ok w" "safe o'"
    using assms by (simp_all add: loading_def)
  obtain found m' p' com where c: "LoadMultiLineText (block w) (a_pData w) None False = Some (found, m', p', com)"
    "opened m' p'" "a_pData w \<le> p'" "length (left m' p') \<le> length (left (block w) (a_pData w))"
    "if found then com = Some (a_pData w) else com = None \<and> m' = block w \<and> p' = a_pData w"
    using comment_here [OF inv(1)] by (elim exE conjE) (rule that)
  let ?w = "w\<lparr>block := m', a_pData := p'\<rparr>" and ?o = "hold_block copy m' o'"
  have hold: "ptr_text ?o p = ptr_text o' p" if "copy \<or> (\<forall>q. p \<noteq> Data q)" for p
    using that by (cases p) (auto simp: hold_block_def)
  have hold2: "ptr_text (?o\<lparr>m_pFileComment := c\<rparr>) p = ptr_text ?o p" for p c
    by (rule ptr_text_cong) simp_all
  have w': "ptrs_ok ?w" "opened m' (a_pData w)"
    using inv(2) c(3) opened_le [OF c(2)] by (force simp: ptrs_ok_def, blast)
  have held: "loading copy ?w ?o"
  proof (cases copy)
    case True
    then show ?thesis
      using assms w'(1) c(2) by (simp add: loading_def)
  next
    case False
    have le: "q \<le> p'" if "Data q \<in># stored (m_data o') \<or> Data q \<in> comments (m_data o')" for q
      using assms False that c(3) by (fastforce simp: loading_def refers_def)
    then have "mem_ok (stored (m_data o')) (comments (m_data o')) (o'\<lparr>m_pData := Some m'\<rparr>)"
      using inv(3) opened_le [OF c(2)] none by (intro mem_ok_new_block) (auto simp: safe_with_def)
    then show ?thesis
      using False le none w'(1) c(2) by (auto simp: loading_def hold_block_def safe_with_def refers_def)
  qed
  show ?thesis
  proof (cases found)
    case False
    then have "FindFileComment new_ok copy w o' = Some (SI_OK, ?w, ?o)"
      using none c(1,5) by (simp add: FindFileComment_def parse_ptr_opt_def hold_block_def Let_def)
    then show ?thesis
      using held c(1,4) hold by (intro exI [of _ SI_OK] exI [of _ ?w] exI [of _ ?o]) auto
  next
    case True
    obtain q where q: "parse_ptr copy m' (a_pData w) = Some q" "keepable copy q" "ptr_text ?o q = Some (left m' (a_pData w))"
      "\<forall>n. q = Data n \<longrightarrow> n = a_pData w \<and> \<not> copy" "\<forall>s. q \<noteq> Caller s"
      using w'(2) by (cases copy) (auto simp: parse_ptr_def c_string_opened keepable_def hold_block_def)
    let ?o2 = "?o\<lparr>m_pFileComment := Some q\<rparr>"
    have "safe ?o2"
      using held q(2,3,5) by (intro safe_file_comment) (auto simp: loading_def keepable_def)
    then have ok2: "loading copy ?w ?o2"
      using held q(4) c(3) by (auto simp: loading_def refers_def)
    show ?thesis
    proof (cases copy)
      case False
      then have "FindFileComment new_ok copy w o' = Some (SI_OK, ?w, ?o2)"
        using none c(1,5) True q(1) by (simp add: FindFileComment_def parse_ptr_opt_def)
      then show ?thesis
        using ok2 c(1,4) False hold hold2 by (intro exI [of _ SI_OK] exI [of _ ?w] exI [of _ ?o2]) (simp add: settings_def hold_block_def)
    next
      case cp: True
      have "ptr_text ?o2 q = Some (left m' (a_pData w))" "mem_ok (stored (m_data o')) (comments (m_data o')) ?o2"
        using q(3) ptr_text_cong [of ?o2 ?o q] ok2 by (simp_all add: loading_def safe_with_def)
      then obtain rc r o3 where r: "CopyString new_ok q ?o2 = Some (rc, r, o3)" "same_but_strings ?o2 o3"
        "mem_ok (stored (m_data o')) (comments (m_data o')) o3"
        "if new_ok (allocs ?o2) then rc = SI_OK \<and> is_copy r \<and> ptr_text o3 r = Some (left m' (a_pData w)) \<and> r \<notin> comments (m_data o')
           \<and> m_pFileComment ?o2 \<noteq> Some r \<and> mem_ok (add_mset r (stored (m_data o'))) (comments (m_data o')) o3
           \<and> mem_ok (stored (m_data o')) (insert r (comments (m_data o'))) o3
         else rc = SI_NOMEM \<and> r = q"
        using CopyString_ok [of "stored (m_data o')" "comments (m_data o')" ?o2 q _ new_ok] by blast
      have run: "FindFileComment new_ok copy w o' = (if rc < 0 then Some (rc, ?w, o3) else Some (SI_OK, ?w, o3\<lparr>m_pFileComment := Some r\<rparr>))"
        using none c(1,5) True q(1) cp r(1) by (simp add: FindFileComment_def parse_ptr_opt_def)
      have same: "settings o3 = settings o'" "m_nOrder o3 = m_nOrder o'" "m_data o3 = m_data o'" "m_pData o3 = m_pData o'"
        using r(2) cp by (auto simp: same_but_strings_def settings_def)
      have ok3: "loading copy ?w o3"
        using r(3) same(3) w'(1) c(2) cp by (simp add: loading_def safe_with_def)
      have kept: "ptr_text o3 p = Some x" if "ptr_text o' p = Some x" for p x
        using same_but_strings_fields(6) [OF r(2)] hold hold2 cp that by simp
      have kept2: "ptr_text (o3\<lparr>m_pFileComment := d\<rparr>) p = ptr_text o3 p" for p d
        by (rule ptr_text_cong) simp_all
      show ?thesis
      proof (cases "new_ok (allocs ?o2)")
        case True
        then have "is_copy r" "r \<notin># stored (m_data o')" "ptr_text o3 r \<noteq> None"
          using r(4) by (auto simp: mem_ok_def elim!: is_copy.elims)
        then have "safe (o3\<lparr>m_pFileComment := Some r\<rparr>)"
          using ok3 same(3) by (intro safe_file_comment) (auto simp: loading_def)
        then have "loading copy ?w (o3\<lparr>m_pFileComment := Some r\<rparr>)"
          using ok3 cp by (simp add: loading_def)
        then show ?thesis
          using run r(4) True same c(1,4) cp kept kept2
          by (intro exI [of _ SI_OK] exI [of _ ?w] exI [of _ "o3\<lparr>m_pFileComment := Some r\<rparr>"]) (simp add: settings_def)
      next
        case False
        then show ?thesis
          using run r(4) same ok3 c(1,4) cp kept by (intro exI [of _ rc] exI [of _ ?w] exI [of _ o3]) auto
      qed
    qed
  qed
qed

lemma SetUnicode_fields [simp]:
  "m_data (SetUnicode b o') = m_data o'" "m_nOrder (SetUnicode b o') = m_nOrder o'" "m_pFileComment (SetUnicode b o') = m_pFileComment o'"
  "m_pData (SetUnicode b o') = m_pData o'" "m_strings (SetUnicode b o') = m_strings o'" "allocs (SetUnicode b o') = allocs o'"
  "m_bAllowMultiKey (SetUnicode b o') = m_bAllowMultiKey o'"
  by (simp_all add: SetUnicode_def)

text \<open>The invariant before the block is parsed.\<close>

lemma left_text: "length (left (s @ [NUL]) 0) \<le> length s"
  using left_split(3) [of "s @ [NUL]" 0] by (simp add: opened_def)

lemma loading_start:
  assumes "safe o'"
  shows "loading (m_pData o' \<noteq> None) \<lparr>block = s @ [NUL], a_pData = 0, a_pSection = None, a_pKey = None, a_pVal = None, a_pComment = None\<rparr>
    (hold_block (m_pData o' \<noteq> None) (s @ [NUL]) o')"
proof (cases "m_pData o'")
  case None
  then have no: "Data q \<notin># stored (m_data o')" "Data q \<notin> comments (m_data o')" "m_pFileComment o' \<noteq> Some (Data q)" for q
    using assms by (auto simp: safe_with_def mem_ok_def)
  then have "mem_ok (stored (m_data o')) (comments (m_data o')) (o'\<lparr>m_pData := Some (s @ [NUL])\<rparr>)"
    using assms by (intro mem_ok_new_block) (auto simp: safe_with_def)
  then show ?thesis
    using None no by (auto simp: loading_def ptrs_ok_def opened_def hold_block_def safe_with_def refers_def)
qed (use assms in \<open>auto simp: loading_def ptrs_ok_def opened_def\<close>)

lemma load_block_total:
  assumes "safe o'" "m_nOrder o' + 2 * int (length s) < 2 ^ 31"
  shows "\<exists>rc o''. load_block new_ok (s @ [NUL]) n o' = Some (rc, o'') \<and> safe o'' \<and> settings o'' = settings o'
    \<and> m_nOrder o'' \<le> m_nOrder o' + 2 * int (length s) \<and> m_pData o'' \<noteq> None
    \<and> (rc = SI_OK \<or> rc = SI_NOMEM \<and> m_pData o' \<noteq> None \<and> (\<exists>n. \<not> new_ok n))"
proof -
  let ?copy = "m_pData o' \<noteq> None" and ?w = "\<lparr>block = s @ [NUL], a_pData = 0, a_pSection = None, a_pKey = None, a_pVal = None, a_pComment = None\<rparr>"
  obtain rc w o1 where c: "FindFileComment new_ok ?copy ?w (hold_block ?copy (s @ [NUL]) o') = Some (rc, w, o1)" "loading ?copy w o1"
    "settings o1 = settings o'" "m_nOrder o1 = m_nOrder o'" "?copy \<longrightarrow> m_pData o1 = m_pData o'"
    "length (left (block w) (a_pData w)) \<le> length (left (block ?w) (a_pData ?w))"
    "rc = SI_OK \<or> rc = SI_NOMEM \<and> ?copy \<and> (\<exists>n. \<not> new_ok n)"
    using FindFileComment_ok [OF loading_start [OF assms(1)], of new_ok s] unfolding hold_block_fields
    by (elim exE conjE) (rule that; simp add: hold_block_def split: if_splits)
  have short: "length (left (block w) (a_pData w)) \<le> length s"
    using c(6) left_text [of s] by simp
  show ?thesis
  proof (cases "rc < 0")
    case True
    then have "load_block new_ok (s @ [NUL]) n o' = Some (rc, o1)"
      using c(1) by (simp add: load_block_def Let_def)
    then show ?thesis
      using c True by (intro exI [of _ rc] exI [of _ o1]) (auto simp: loading_def)
  next
    case False
    have "m_nOrder o1 + 2 * int (length (left (block w) (a_pData w))) < 2 ^ 31"
      using c(4) short assms(2) by linarith
    from load_loop_total [OF c(2) this, of new_ok] obtain rc2 o2 where l: "load_loop new_ok ?copy w o1 = Some (rc2, o2)" "safe o2"
      "settings o2 = settings o1" "m_nOrder o2 \<le> m_nOrder o1 + 2 * int (length (left (block w) (a_pData w)))"
      "?copy \<longrightarrow> m_pData o2 = m_pData o1" "\<not> ?copy \<longrightarrow> m_pData o2 \<noteq> None" "rc2 = SI_OK \<or> rc2 = SI_NOMEM \<and> ?copy \<and> (\<exists>n. \<not> new_ok n)"
      by (elim exE conjE) (rule that)
    let ?o = "if rc2 < 0 \<or> ?copy then o2 else o2\<lparr>m_uDataLen := n\<rparr>"
    have "load_block new_ok (s @ [NUL]) n o' = Some (rc2, ?o)"
      using c(1) False l(1,7) by (auto simp: load_block_def Let_def)
    moreover have "safe ?o" "settings ?o = settings o2" "m_nOrder ?o = m_nOrder o2" "m_pData ?o = m_pData o2"
      using l(2) mem_ok_cong [of "o2\<lparr>m_uDataLen := n\<rparr>" o2] by (simp_all add: safe_with_def settings_def)
    ultimately show ?thesis
      using l c(3,4,5) short by (intro exI [of _ rc2] exI [of _ ?o]) auto
  qed
qed

lemma convert_text: "SizeFromStore s = Some (length s)" "ConvertFromStore s (replicate (length s + 1) NUL) (length s) = Some (s @ [NUL])"
proof -
  have "drop n (replicate (n + 1) NUL) = [NUL]" for n
    by (induction n) simp_all
  then show "SizeFromStore s = Some (length s)" "ConvertFromStore s (replicate (length s + 1) NUL) (length s) = Some (s @ [NUL])"
    unfolding SizeFromStore_def ConvertFromStore_def by (simp_all only: less_irrefl if_False)
qed

lemma skip_signature_ok:
  assumes "skip_signature s o' = (t, o'')" "safe o'"
  shows "safe o''" "length t \<le> length s" "m_nOrder o'' = m_nOrder o'" "m_data o'' = m_data o'" "m_pData o'' = m_pData o'"
    "m_bAllowMultiKey o'' = m_bAllowMultiKey o'" "tab_of o'' = tab_of o'"
proof -
  have o2: "o'' = o' \<or> o'' = SetUnicode True o'" "length t \<le> length s"
    using assms(1) by (auto simp: skip_signature_def split: if_splits)
  have "mem_ok S K o'' = mem_ok S K o'" for S K
    by (rule mem_ok_cong) (use o2 in auto)
  then show "safe o''" "length t \<le> length s" "m_nOrder o'' = m_nOrder o'" "m_data o'' = m_data o'" "m_pData o'' = m_pData o'"
    "m_bAllowMultiKey o'' = m_bAllowMultiKey o'"
    using assms(2) o2 by (auto simp: safe_with_def)
  have "ptr_text o'' p = ptr_text o' p" for p
    by (rule ptr_text_cong) (use o2 in auto)
  then show "tab_of o'' = tab_of o'"
    using o2 by (auto intro!: abs_data_cong simp: text_of_def)
qed

lemma mem_ok_allocs: "mem_ok S K o' \<Longrightarrow> mem_ok S K (o'\<lparr>allocs := allocs o' + 1\<rparr>)"
proof -
  assume ok: "mem_ok S K o'"
  have "ptr_text (o'\<lparr>allocs := allocs o' + 1\<rparr>) p = ptr_text o' p" for p
    by (rule ptr_text_cong) simp_all
  then show ?thesis
    using ok unfolding mem_ok_def by (auto simp: less_SucI)
qed

lemma LoadData_ok:
  assumes "safe o'" "m_nOrder o' + 2 * int (length s) < 2 ^ 31"
  shows "\<exists>rc o''. LoadData new_ok (Some s) o' = Some (rc, o'') \<and> safe o'' \<and> m_nOrder o'' \<le> m_nOrder o' + 2 * int (length s)
    \<and> (rc = SI_OK \<or> rc = SI_NOMEM \<and> (\<exists>n. \<not> new_ok n))"
proof -
  obtain t o1 where t: "skip_signature s o' = (t, o1)"
    by (cases "skip_signature s o'")
  note sk = skip_signature_ok [OF t assms(1)]
  let ?o = "o1\<lparr>allocs := allocs o1 + 1\<rparr>"
  have o2: "safe ?o" "m_nOrder ?o = m_nOrder o'"
    using sk(1,3) mem_ok_allocs by (simp_all add: safe_with_def)
  consider "t = []" | "t \<noteq> []" "\<not> new_ok (allocs o1)" | "t \<noteq> []" "new_ok (allocs o1)"
    by blast
  then show ?thesis
  proof cases
    case 1
    then show ?thesis
      using t sk by (simp add: LoadData_def)
  next
    case 2
    then have "LoadData new_ok (Some s) o' = Some (SI_NOMEM, ?o)"
      using t by (simp add: LoadData_def convert_text(1) Let_def)
    then show ?thesis
      using o2 2(2) by auto
  next
    case 3
    then have run: "LoadData new_ok (Some s) o' = load_block new_ok (t @ [NUL]) (length t + 1) ?o"
      using t convert_text(2) [of t] by (simp add: LoadData_def convert_text(1) Let_def)
    have "m_nOrder ?o + 2 * int (length t) < 2 ^ 31"
      using o2(2) sk(2) assms(2) by linarith
    from load_block_total [OF o2(1) this, of new_ok "length t + 1"] show ?thesis
      unfolding run using o2(2) sk(2) by (elim exE conjE) (intro exI conjI, assumption, auto)
  qed
qed

end
