(* ===== verification/Ini_Loaded.thy ===== *)
theory Ini_Loaded
  imports Ini_Load
begin

text \<open>
  What is in the tables after a text has been loaded with the settings of the program: the
  assignments of its lines, in order (\<open>LoadData_values\<close>).
\<close>

section \<open>The assignments of a text\<close>

fun run_items :: "bool \<Rightarrow> string \<Rightarrow> ini_item list \<Rightarrow> tab \<Rightarrow> tab" where
  "run_items multi cur [] X = X"
| "run_items multi cur (Section n # is) X = run_items multi n is (set_tab multi False n None X)"
| "run_items multi cur (Pair k v # is) X = run_items multi cur is (set_tab multi False cur (Some (k, v)) X)"

text \<open>The values a key of a section is given, and the sections that are mentioned.\<close>

fun assigned :: "string \<Rightarrow> ini_item list \<Rightarrow> string \<Rightarrow> string \<Rightarrow> string list" where
  "assigned cur [] s k = []"
| "assigned cur (Section n # is) s k = assigned n is s k"
| "assigned cur (Pair k' v # is) s k =
    (if name_key s = name_key cur \<and> name_key k = name_key k' then [v] else []) @ assigned cur is s k"

fun mentioned :: "string \<Rightarrow> ini_item list \<Rightarrow> string \<Rightarrow> bool" where
  "mentioned cur [] s = False"
| "mentioned cur (Section n # is) s = (name_key s = name_key n \<or> mentioned n is s)"
| "mentioned cur (Pair k v # is) s = (name_key s = name_key cur \<or> mentioned cur is s)"

lemma run_items_spec:
  "ordered_tab X \<Longrightarrow> ordered_tab (run_items multi cur is X)
    \<and> values_of (run_items multi cur is X) (name_key s) (name_key k) = foldl (\<lambda>vs v. new_values multi False v vs) (values_of X (name_key s) (name_key k)) (assigned cur is s k)
    \<and> (has_section (run_items multi cur is X) (name_key s) \<longleftrightarrow> has_section X (name_key s) \<or> mentioned cur is s)"
proof (induction multi cur "is" X rule: run_items.induct)
  case (2 multi cur n "is" X)
  then show ?case
    using set_tab_spec(1,2,3) [OF "2.prems"] by auto
next
  case (3 multi cur k' v "is" X)
  then show ?case
    using set_tab_spec(1,2,4) [OF "3.prems"] by auto
qed simp

section \<open>Strings in the block\<close>

lemma c_string_left: "c_string m p = Some x \<Longrightarrow> left m p = x \<and> opened m p"
  by (auto simp: c_string_def left_def opened_def split: if_splits)

lemma plain_settings: "settings o'' = settings o' \<Longrightarrow> plain o'' = plain o'"
  by (simp add: plain_def settings_def)

text \<open>The tables when the pointers into the block are to strings that are finished.\<close>

definition finished :: "string \<Rightarrow> string \<Rightarrow> nat \<Rightarrow> bool" where
  "finished pre s q \<longleftrightarrow> (\<exists>x. held pre s q x)"

lemma tab_new_block:
  assumes "refers (finished pre s) K o'" "m_pData o' = Some (pre @ s @ NUL # rest)" "s = [] \<Longrightarrow> v = [] \<and> s' = []"
  shows "tab_of (o'\<lparr>m_pData := Some ((pre @ v) @ s' @ NUL # rest')\<rparr>) = tab_of o'"
    "refers (finished (pre @ v) s') K o'"
proof -
  let ?o = "o'\<lparr>m_pData := Some ((pre @ v) @ s' @ NUL # rest')\<rparr>"
  have keep: "held (pre @ v) s' q x" if "held pre s q x" for q x
    using held_mono [OF that] assms(3) by blast
  have "text_of ?o p = text_of o' p" if "p \<in># stored (m_data o')" for p
  proof (cases p)
    case (Data q)
    then have "finished pre s q"
      using refersD(1) [OF assms(1), of q] that by simp
    then obtain x where x: "held pre s q x"
      unfolding finished_def by blast
    have "ptr_text ?o p = Some x"
      using held_c_string [OF keep [OF x], of rest'] Data by simp
    moreover have "ptr_text o' p = Some x"
      using held_c_string [OF x, of rest] assms(2) Data by simp
    ultimately show ?thesis
      by simp
  qed (simp_all add: text_of_def)
  then show "tab_of ?o = tab_of o'"
    by (auto intro!: abs_data_cong)
  show "refers (finished (pre @ v) s') K o'"
    using assms(1) by (rule refers_mono) (auto simp: finished_def dest: keep)
qed

section \<open>The loop over the entries\<close>

text \<open>The parser has passed \<open>pre\<close>, \<open>s\<close> is left, and the lines belong to the section \<open>cur\<close>.\<close>

definition at_text :: "bool \<Rightarrow> string \<Rightarrow> string \<Rightarrow> string \<Rightarrow> string \<Rightarrow> parse \<Rightarrow> CSimpleIni \<Rightarrow> bool" where
  "at_text copy pre s rest cur w o' \<longleftrightarrow> loading copy w o' \<and> ordered_tab (tab_of o') \<and> plain o'
     \<and> block w = pre @ s @ NUL # rest \<and> a_pData w = length pre \<and> NUL \<notin> set s \<and> clean s
     \<and> (case a_pSection w of None \<Rightarrow> cur = [] | Some p \<Rightarrow> held pre s p cur)
     \<and> (\<not> copy \<longrightarrow> refers (finished pre s) (\<lambda>_. True) o')"

definition next_section :: "string \<Rightarrow> ini_item \<Rightarrow> string" where
  "next_section cur i = (case i of Section n \<Rightarrow> n | Pair k v \<Rightarrow> cur)"

definition item_pair :: "ini_item \<Rightarrow> (string \<times> string) option" where
  "item_pair i = (case i of Section n \<Rightarrow> None | Pair k v \<Rightarrow> Some (k, v))"

lemma run_items_Cons:
  "run_items multi cur (i # is) X = run_items multi (next_section cur i) is (set_tab multi False (next_section cur i) (item_pair i) X)"
  by (cases i) (simp_all add: next_section_def item_pair_def)

lemma at_text_find:
  assumes "at_text copy pre s rest cur w o'"
  shows "\<exists>b w' v s'. FindEntry o' w = Some (b, w') \<and> length v + length s' = length s
    \<and> (let o'' = hold_block copy (block w') o' in loading copy w' o'' \<and> tab_of o'' = tab_of o' \<and> settings o'' = settings o'
      \<and> block w' = (pre @ v) @ s' @ NUL # rest \<and> a_pData w' = length (pre @ v) \<and> NUL \<notin> set s' \<and> clean s'
      \<and> (\<not> copy \<longrightarrow> refers (finished (pre @ v) s') (\<lambda>_. True) o'')
      \<and> (if b then \<exists>i. items s = i # items s' \<and> length s' < length s \<and> found_section w' = next_section cur i \<and> found_item w' = item_pair i
           \<and> (case a_pSection w' of None \<Rightarrow> next_section cur i = [] | Some p \<Rightarrow> held (pre @ v) s' p (next_section cur i))
           \<and> (\<forall>q. Some q \<in> {a_pSection w', a_pKey w', a_pVal w'} \<longrightarrow> finished (pre @ v) s' q)
         else items s = []))"
proof -
  have inv: "loading copy w o'" "plain o'" "block w = pre @ s @ NUL # rest" "a_pData w = length pre" "NUL \<notin> set s" "clean s"
    "case a_pSection w of None \<Rightarrow> cur = [] | Some p \<Rightarrow> held pre s p cur" "\<not> copy \<longrightarrow> refers (finished pre s) (\<lambda>_. True) o'"
    using assms by (simp_all add: at_text_def)
  obtain b w' where f: "FindEntry o' w = Some (b, w')" "yields_item pre s rest w b w'"
    using FindEntry_item [OF inv(2-6)] by blast
  then obtain v s' where y: "block w' = pre @ v @ s' @ NUL # rest" "a_pData w' = length pre + length v"
    "length v + length s' = length s" "NUL \<notin> set s'" "clean s'"
    "if b then \<exists>i. items s = i # items s' \<and> item_found (pre @ v) s' i w w' \<and> v \<noteq> [] else items s = []"
    by (auto simp: yields_item_def)
  let ?o = "hold_block copy (block w') o'"
  have end_: "s = [] \<Longrightarrow> v = [] \<and> s' = []"
    using y(3) by simp
  have tabs: "tab_of ?o = tab_of o'" "\<not> copy \<longrightarrow> refers (finished (pre @ v) s') (\<lambda>_. True) ?o"
  proof -
    show "tab_of ?o = tab_of o'"
    proof (cases copy)
      case False
      then show ?thesis
        using tab_new_block(1) [of pre s "\<lambda>_. True" o' rest v s' rest] inv(1,3,8) end_ y(1) by (simp add: hold_block_def loading_def)
    qed simp
    show "\<not> copy \<longrightarrow> refers (finished (pre @ v) s') (\<lambda>_. True) ?o"
    proof
      assume "\<not> copy"
      then have "refers (finished pre s) (\<lambda>_. True) o'" "m_pData o' = Some (pre @ s @ NUL # rest)"
        using inv(1,3,8) by (simp_all add: loading_def)
      from tab_new_block(2) [OF this end_] show "refers (finished (pre @ v) s') (\<lambda>_. True) ?o"
        using refers_same [of ?o o'] by simp
    qed
  qed
  have lift: "held (pre @ v) s' q x" if "held pre s q x" for q x
    using held_mono [OF that] end_ by blast
  have at: "left (block w') q = x" if "held (pre @ v) s' q x" for q x
    using c_string_left [OF held_c_string [OF that, of rest]] y(1) by simp
  have item: "\<exists>i. items s = i # items s' \<and> length s' < length s \<and> found_section w' = next_section cur i \<and> found_item w' = item_pair i
      \<and> (case a_pSection w' of None \<Rightarrow> next_section cur i = [] | Some p \<Rightarrow> held (pre @ v) s' p (next_section cur i))
      \<and> (\<forall>q. Some q \<in> {a_pSection w', a_pKey w', a_pVal w'} \<longrightarrow> finished (pre @ v) s' q)" if found: b
  proof -
    obtain i where i: "items s = i # items s'" "item_found (pre @ v) s' i w w'" "v \<noteq> []"
      using y(6) found by auto
    have short: "length s' < length s"
      using i(3) y(3) by (cases v) simp_all
    show ?thesis
    proof (cases i)
      case (Section n)
      then show ?thesis
        using i(1,2) short at by (intro exI [of _ i]) (auto simp: item_found_def next_section_def item_pair_def found_section_def found_item_def finished_def)
    next
      case (Pair k x)
      then obtain p q where pq: "a_pSection w' = a_pSection w" "a_pKey w' = Some p" "a_pVal w' = Some q" "held (pre @ v) s' p k" "held (pre @ v) s' q x"
        using i(2) by (auto simp: item_found_def)
      have "case a_pSection w of None \<Rightarrow> cur = [] | Some p \<Rightarrow> held (pre @ v) s' p cur"
        using inv(7) lift by (auto split: option.splits)
      then show ?thesis
        using i(1) short pq at Pair
        by (intro exI [of _ i]) (auto simp: next_section_def item_pair_def found_section_def found_item_def finished_def split: option.splits)
    qed
  qed
  have "loading copy w' ?o"
    by (rule loading_found(1) [OF inv(1) f(1)])
  then show ?thesis
    unfolding Let_def using f(1) y tabs item
    by (intro exI [of _ b] exI [of _ w'] exI [of _ v] exI [of _ s']) simp
qed

lemma load_loop_items:
  assumes "at_text copy pre s rest cur w o'" "m_nOrder o' + 2 * int (length s) < 2 ^ 31"
  shows "\<exists>rc o''. load_loop new_ok copy w o' = Some (rc, o'') \<and> ini_ok o'' \<and> settings o'' = settings o'
    \<and> (if rc < 0 then rc = SI_NOMEM \<and> copy \<and> (\<exists>n. \<not> new_ok n)
       else rc = SI_OK \<and> tab_of o'' = run_items (m_bAllowMultiKey o') cur (items s) (tab_of o'))"
  using assms
proof (induction "length s" arbitrary: pre s cur w o' rule: less_induct)
  case less
  have inv: "ordered_tab (tab_of o')" "plain o'"
    using less.prems(1) by (simp_all add: at_text_def)
  obtain b w' v s' where f: "FindEntry o' w = Some (b, w')" "length v + length s' = length s"
    "let o'' = hold_block copy (block w') o' in loading copy w' o'' \<and> tab_of o'' = tab_of o' \<and> settings o'' = settings o'
      \<and> block w' = (pre @ v) @ s' @ NUL # rest \<and> a_pData w' = length (pre @ v) \<and> NUL \<notin> set s' \<and> clean s'
      \<and> (\<not> copy \<longrightarrow> refers (finished (pre @ v) s') (\<lambda>_. True) o'')
      \<and> (if b then \<exists>i. items s = i # items s' \<and> length s' < length s \<and> found_section w' = next_section cur i \<and> found_item w' = item_pair i
           \<and> (case a_pSection w' of None \<Rightarrow> next_section cur i = [] | Some p \<Rightarrow> held (pre @ v) s' p (next_section cur i))
           \<and> (\<forall>q. Some q \<in> {a_pSection w', a_pKey w', a_pVal w'} \<longrightarrow> finished (pre @ v) s' q)
         else items s = [])"
    using at_text_find [OF less.prems(1)] by (elim exE conjE) (rule that)
  let ?o = "hold_block copy (block w') o'"
  have h: "loading copy w' ?o" "tab_of ?o = tab_of o'" "block w' = (pre @ v) @ s' @ NUL # rest" "a_pData w' = length (pre @ v)"
    "NUL \<notin> set s'" "clean s'" "\<not> copy \<longrightarrow> refers (finished (pre @ v) s') (\<lambda>_. True) ?o"
    using f(3) unfolding Let_def by blast+
  have found: "if b then \<exists>i. items s = i # items s' \<and> length s' < length s \<and> found_section w' = next_section cur i \<and> found_item w' = item_pair i
           \<and> (case a_pSection w' of None \<Rightarrow> next_section cur i = [] | Some p \<Rightarrow> held (pre @ v) s' p (next_section cur i))
           \<and> (\<forall>q. Some q \<in> {a_pSection w', a_pKey w', a_pVal w'} \<longrightarrow> finished (pre @ v) s' q)
         else items s = []"
    using f(3) unfolding Let_def by blast
  show ?case
  proof (cases b)
    case False
    have "load_loop new_ok copy w o' = Some (SI_OK, ?o)"
      using False by (subst load_loop.simps) (simp add: f(1))
    moreover have "items s = []"
      using found False by simp
    ultimately show ?thesis
      using h inv(1) by (intro exI [of _ SI_OK] exI [of _ ?o]) (simp add: ini_ok_def loading_def)
  next
    case True
    then obtain i where i: "items s = i # items s'" "length s' < length s" "found_section w' = next_section cur i" "found_item w' = item_pair i"
      "case a_pSection w' of None \<Rightarrow> next_section cur i = [] | Some p \<Rightarrow> held (pre @ v) s' p (next_section cur i)"
      "\<forall>q. Some q \<in> {a_pSection w', a_pKey w', a_pVal w'} \<longrightarrow> finished (pre @ v) s' q"
      using found by auto
    let ?P = "\<lambda>q. copy \<or> finished (pre @ v) s' q"
    have refs: "refers ?P (\<lambda>_. True) ?o"
      using h(7) by (cases copy) simp_all
    have ld: "opened (block w') (a_pData w')" "ptrs_ok w'" "safe ?o" "\<not> copy \<longrightarrow> m_pData ?o = Some (block w')" "m_nOrder ?o + 2 < 2 ^ 31"
      using h(1) i(2) less.prems(2) by (simp_all add: loading_def)
    have args: "\<not> copy \<longrightarrow> (\<forall>q. Some q \<in> {a_pSection w', a_pKey w', a_pVal w'} \<longrightarrow> ?P q) \<and> (\<forall>q. Some q = a_pComment w' \<longrightarrow> True)"
      using i(6) by blast
    obtain rc o2 where a: "add_found new_ok copy w' ?o = Some (rc, o2)" "safe o2" "base_same ?o o2" "refers ?P (\<lambda>_. True) o2"
      "m_nOrder o2 \<le> m_nOrder ?o + 2"
      "rc = SI_NOMEM \<and> copy \<and> (\<exists>n. \<not> new_ok n) \<and> partial_tab (found_section w') (map_option fst (found_item w')) (tab_of ?o) (tab_of o2)
       \<or> 0 \<le> rc \<and> tab_of o2 = set_tab (m_bAllowMultiKey ?o) False (found_section w') (found_item w') (tab_of ?o)"
      using add_found_ok [OF ld refs args, of new_ok] by (elim exE conjE) (rule that)
    obtain rc3 o3 where "add_found new_ok copy w' ?o = Some (rc3, o3)" "loading copy w' o3"
      using loading_add [OF h(1) ld(5), of new_ok] by blast
    then have ld2: "loading copy w' o2"
      using a(1) by simp
    have run: "load_loop new_ok copy w o' = (if rc < 0 then Some (rc, o2) else load_loop new_ok copy w' o2)"
      using True by (subst load_loop.simps) (simp add: f(1) a(1))
    have set2: "settings o2 = settings o'"
      using a(3) by (simp add: base_same_def)
    show ?thesis
    proof (cases "rc < 0")
      case True
      then have "ordered_tab (tab_of o2)"
        using a(6) partial_tab_ordered [OF inv(1)] h(2) by auto
      then show ?thesis
        using run True a(2,6) set2 by (intro exI [of _ rc] exI [of _ o2]) (auto simp: ini_ok_def)
    next
      case False
      then have tab2: "tab_of o2 = set_tab (m_bAllowMultiKey o') False (next_section cur i) (item_pair i) (tab_of o')"
        using a(6) h(2) i(3,4) by auto
      have "at_text copy (pre @ v) s' rest (next_section cur i) w' o2"
        unfolding at_text_def using ld2 h(3-6) i(5) a(4) plain_settings [OF set2] inv set_tab_spec(1) [OF inv(1)] tab2
        by (cases copy) simp_all
      moreover have "m_nOrder o2 + 2 * int (length s') < 2 ^ 31"
        using a(5) i(2) less.prems(2) by simp
      ultimately obtain rc' o4 where "load_loop new_ok copy w' o2 = Some (rc', o4)" "ini_ok o4" "settings o4 = settings o2"
        "if rc' < 0 then rc' = SI_NOMEM \<and> copy \<and> (\<exists>n. \<not> new_ok n)
         else rc' = SI_OK \<and> tab_of o4 = run_items (m_bAllowMultiKey o2) (next_section cur i) (items s') (tab_of o2)"
        using less.hyps [OF i(2)] by blast
      then show ?thesis
        using run False set2 settings_multi [OF set2] i(1) tab2 run_items_Cons by (intro exI [of _ rc'] exI [of _ o4]) simp
    qed
  qed
qed

section \<open>LoadData and LoadFile\<close>

text \<open>The text that is parsed: without the signature, up to the first NUL.\<close>

definition content :: "string \<Rightarrow> string" where
  "content s = takeWhile (\<lambda>c. c \<noteq> NUL) (if take 3 s = SI_UTF8_SIGNATURE then drop 3 s else s)"

lemma content_skip: "skip_signature s o' = (t, o'') \<Longrightarrow> content s = takeWhile (\<lambda>c. c \<noteq> NUL) t"
  by (auto simp: skip_signature_def content_def split: if_splits)

lemma comment_text:
  assumes "NUL \<notin> set s" "clean s"
  shows "\<exists>found com v s'. LoadMultiLineText (s @ NUL # rest) 0 None False = Some (found, v @ s' @ NUL # rest, length v, com)
    \<and> length v + length s' = length s \<and> items s' = items s \<and> clean s' \<and> NUL \<notin> set s'"
proof (cases "s \<noteq> [] \<and> IsComment (hd s)")
  case True
  then obtain v s' where "LoadMultiLineText (s @ NUL # rest) 0 None False = Some (True, v @ s' @ NUL # rest, length v, Some 0)"
    "length v + length s' = length s" "suffix s' s" "items s' = items s" "clean s'"
    using load_comment [OF assms(1), of "[]" rest False] assms(2) by auto
  then show ?thesis
    using assms(1) by (auto dest: set_mono_suffix)
next
  case False
  then have "\<not> IsComment (hd (s @ [NUL]))" "char_at (s @ NUL # rest) 0 = Some (hd (s @ [NUL]))"
    by (cases s; auto simp: char_at_def)+
  then have "LoadMultiLineText (s @ NUL # rest) 0 None False = Some (False, s @ NUL # rest, 0, None)"
    by (simp add: LoadMultiLineText_def ml_loop.simps)
  then show ?thesis
    using assms by (intro exI [of _ False] exI [of _ None] exI [of _ "[]"] exI [of _ s]) simp
qed

lemma load_block_items:
  assumes "ini_ok o'" "plain o'" "clean (takeWhile (\<lambda>c. c \<noteq> NUL) t)" "m_nOrder o' + 2 * int (length t) < 2 ^ 31"
  shows "\<exists>rc o''. load_block new_ok (t @ [NUL]) n o' = Some (rc, o'') \<and> ini_ok o'' \<and> settings o'' = settings o'
    \<and> (if rc < 0 then rc = SI_NOMEM \<and> (\<exists>n. \<not> new_ok n)
       else rc = SI_OK \<and> tab_of o'' = run_items (m_bAllowMultiKey o') [] (items (takeWhile (\<lambda>c. c \<noteq> NUL) t)) (tab_of o'))"
proof -
  let ?copy = "m_pData o' \<noteq> None" and ?w = "\<lparr>block = t @ [NUL], a_pData = 0, a_pSection = None, a_pKey = None, a_pVal = None, a_pComment = None\<rparr>"
  let ?o = "hold_block ?copy (t @ [NUL]) o'"
  define s rest where "s = takeWhile (\<lambda>c. c \<noteq> NUL) t" and "rest = drop (length s + 1) (t @ [NUL])"
  have "left (t @ [NUL]) 0 = s"
    unfolding left_def s_def by (induction t) auto
  then have split: "t @ [NUL] = s @ NUL # rest" "NUL \<notin> set s"
    using left_split [of "t @ [NUL]" 0] by (simp_all add: opened_def rest_def)
  have short: "length s \<le> length t"
    by (simp add: s_def length_takeWhile_le)
  obtain found com v s' where c: "LoadMultiLineText (s @ NUL # rest) 0 None False = Some (found, v @ s' @ NUL # rest, length v, com)"
    "length v + length s' = length s" "items s' = items s" "clean s'" "NUL \<notin> set s'"
    using comment_text [OF split(2) assms(3) [folded s_def], of rest] by (elim exE conjE) (rule that)
  have safe: "safe o'" "ordered_tab (tab_of o')"
    using assms(1) by (simp_all add: ini_ok_def)
  obtain rc w o1 where fc: "FindFileComment new_ok ?copy ?w ?o = Some (rc, w, o1)" "loading ?copy w o1"
    "settings o1 = settings ?o" "m_nOrder o1 = m_nOrder ?o" "m_data o1 = m_data ?o"
    "rc = SI_OK \<or> rc = SI_NOMEM \<and> ?copy \<and> (\<exists>n. \<not> new_ok n)"
    "\<forall>p x. (?copy \<or> (\<forall>q. p \<noteq> Data q)) \<and> ptr_text ?o p = Some x \<longrightarrow> ptr_text o1 p = Some x"
    "w = ?w \<or> (\<exists>found com. LoadMultiLineText (block ?w) (a_pData ?w) None False = Some (found, block w, a_pData w, com)
         \<and> w = ?w\<lparr>block := block w, a_pData := a_pData w\<rparr>)"
    using FindFileComment_ok [OF loading_start [OF safe(1), of t], of new_ok] by (elim exE conjE) (rule that)
  have no: "Data q \<notin># stored (m_data o')" if "\<not> ?copy" for q
    using safe(1) that by (auto simp: safe_with_def mem_ok_def)
  have tab1: "tab_of o1 = tab_of o'"
  proof -
    have "text_of o1 p = text_of o' p" if p: "p \<in># stored (m_data o')" for p
    proof -
      obtain x where x: "ptr_text o' p = Some x"
        using mem_ok_readable [of "stored (m_data o')" "comments (m_data o')" o' p] safe(1) p by (auto simp: safe_with_def)
      have data: "?copy \<or> (\<forall>q. p \<noteq> Data q)"
        using no p by blast
      then have "ptr_text ?o p = Some x"
        using x by (cases p) (auto simp: hold_block_def)
      then show ?thesis
        using fc(7) data x by simp
    qed
    then show ?thesis
      unfolding fc(5) hold_block_fields by (rule abs_data_cong)
  qed
  obtain pre u where w: "block w = pre @ u @ NUL # rest" "a_pData w = length pre" "a_pSection w = None" "items u = items s" "clean u" "NUL \<notin> set u"
    "length u \<le> length s"
  proof (cases "w = ?w")
    case True
    then show thesis
      using that [of "[]" s] split assms(3) by (simp add: s_def)
  next
    case False
    then have "block w = v @ s' @ NUL # rest" "a_pData w = length v" "w = ?w\<lparr>block := block w, a_pData := a_pData w\<rparr>"
      using fc(8) c(1) split(1) by auto
    moreover from this(3) have "a_pSection w = None"
      by (metis parse.select_convs(3) parse.surjective parse.update_convs(1,2))
    ultimately show thesis
      using that [of v s'] c by simp
  qed
  have set1: "settings o1 = settings o'"
    using fc(3) by simp
  have at: "at_text ?copy pre u rest [] w o1"
    unfolding at_text_def using fc(2) tab1 safe(2) plain_settings [OF set1] assms(2) w no refers_same [of o1 o'] fc(5)
    by (auto simp: refers_def)
  have bound: "m_nOrder o1 + 2 * int (length u) < 2 ^ 31"
    using fc(4) w(7) short assms(4) by simp
  show ?thesis
  proof (cases "rc < 0")
    case True
    then have "load_block new_ok (t @ [NUL]) n o' = Some (rc, o1)"
      using fc(1) by (simp add: load_block_def Let_def)
    then show ?thesis
      using True fc(2,6) set1 tab1 safe(2) by (intro exI [of _ rc] exI [of _ o1]) (auto simp: ini_ok_def loading_def)
  next
    case False
    obtain rc2 o2 where l: "load_loop new_ok ?copy w o1 = Some (rc2, o2)" "ini_ok o2" "settings o2 = settings o1"
      "if rc2 < 0 then rc2 = SI_NOMEM \<and> ?copy \<and> (\<exists>n. \<not> new_ok n)
       else rc2 = SI_OK \<and> tab_of o2 = run_items (m_bAllowMultiKey o1) [] (items u) (tab_of o1)"
      using load_loop_items [OF at bound, of new_ok] by (elim exE conjE) (rule that)
    let ?o2 = "if rc2 < 0 \<or> ?copy then o2 else o2\<lparr>m_uDataLen := n\<rparr>"
    have "load_block new_ok (t @ [NUL]) n o' = Some (rc2, ?o2)"
      using fc(1) False l(1,4) by (auto simp: load_block_def Let_def split: if_splits)
    moreover have "ini_ok ?o2" "settings ?o2 = settings o2"
      using l(2) flag_ok(1) [of "o2\<lparr>m_uDataLen := n\<rparr>" o2] by (simp_all add: settings_def)
    moreover have "tab_of ?o2 = tab_of o2"
      using ptr_text_cong [of "o2\<lparr>m_uDataLen := n\<rparr>" o2] by (auto intro!: abs_data_cong simp: text_of_def)
    ultimately show ?thesis
      using l(3,4) set1 tab1 w(4) settings_multi [OF set1] by (intro exI [of _ rc2] exI [of _ ?o2]) (auto simp: s_def)
  qed
qed

lemma LoadData_items:
  assumes "ini_ok o'" "plain o'" "clean (content s)" "m_nOrder o' + 2 * int (length s) < 2 ^ 31"
  shows "\<exists>rc o''. LoadData new_ok (Some s) o' = Some (rc, o'') \<and> ini_ok o''
    \<and> (if rc < 0 then rc = SI_NOMEM \<and> (\<exists>n. \<not> new_ok n)
       else rc = SI_OK \<and> tab_of o'' = run_items (m_bAllowMultiKey o') [] (items (content s)) (tab_of o'))"
proof -
  obtain t o1 where t: "skip_signature s o' = (t, o1)"
    by (cases "skip_signature s o'")
  have safe: "safe o'" "ordered_tab (tab_of o')"
    using assms(1) by (simp_all add: ini_ok_def)
  note sk = skip_signature_ok [OF t safe(1)]
  have o1: "ini_ok o1" "plain o1"
    using sk(1,7) safe(2) t assms(2) by (auto simp: ini_ok_def plain_def skip_signature_def SetUnicode_def split: if_splits)
  let ?o = "o1\<lparr>allocs := allocs o1 + 1\<rparr>"
  have reads: "ptr_text ?o p = ptr_text o1 p" for p
    by (rule ptr_text_cong) simp_all
  have tab: "tab_of ?o = tab_of o'"
  proof -
    have "tab_of ?o = abs_data o1 (m_data o1)"
      using reads by (auto intro!: abs_data_cong simp: text_of_def)
    then show ?thesis
      using sk(7) by simp
  qed
  have o2: "ini_ok ?o" "plain ?o" "m_nOrder ?o = m_nOrder o'" "m_bAllowMultiKey ?o = m_bAllowMultiKey o'"
    using o1 sk(3,6) mem_ok_allocs tab safe(2) by (simp_all add: ini_ok_def safe_with_def plain_def)
  consider "t = []" | "t \<noteq> []" "\<not> new_ok (allocs o1)" | "t \<noteq> []" "new_ok (allocs o1)"
    by blast
  then show ?thesis
  proof cases
    case 1
    then show ?thesis
      using t o1(1) sk(7) content_skip [OF t] by (simp add: LoadData_def)
  next
    case 2
    then have "LoadData new_ok (Some s) o' = Some (SI_NOMEM, ?o)"
      using t by (simp add: LoadData_def convert_text(1) Let_def)
    then show ?thesis
      using o2(1) 2(2) by auto
  next
    case 3
    then have run: "LoadData new_ok (Some s) o' = load_block new_ok (t @ [NUL]) (length t + 1) ?o"
      using t convert_text(2) [of t] by (simp add: LoadData_def convert_text(1) Let_def)
    have "m_nOrder ?o + 2 * int (length t) < 2 ^ 31" "clean (takeWhile (\<lambda>c. c \<noteq> NUL) t)"
      using o2(3) sk(2) assms(3,4) content_skip [OF t] by simp_all
    then obtain rc o3 where "load_block new_ok (t @ [NUL]) (length t + 1) ?o = Some (rc, o3)" "ini_ok o3"
      "if rc < 0 then rc = SI_NOMEM \<and> (\<exists>n. \<not> new_ok n)
       else rc = SI_OK \<and> tab_of o3 = run_items (m_bAllowMultiKey ?o) [] (items (takeWhile (\<lambda>c. c \<noteq> NUL) t)) (tab_of ?o)"
      using load_block_items [OF o2(1,2), of t new_ok "length t + 1"] by blast
    then show ?thesis
      unfolding run tab o2(4) content_skip [OF t, symmetric] by (intro exI [of _ rc] exI [of _ o3]) simp
  qed
qed

lemma LoadData_effect:
  assumes "ini_ok o'" "plain o'" "clean (content s)" "m_nOrder o' + 2 * int (length s) < 2 ^ 31" "\<forall>n. new_ok n"
  shows "\<exists>o''. LoadData new_ok (Some s) o' = Some (SI_OK, o'') \<and> ini_ok o''
    \<and> (\<forall>sec k. texts o'' sec k
         = foldl (\<lambda>vs v. new_values (m_bAllowMultiKey o') False v vs) (texts o' sec k) (assigned [] (items (content s)) sec k))
    \<and> (\<forall>sec. sections o'' sec \<longleftrightarrow> sections o' sec \<or> mentioned [] (items (content s)) sec)"
proof -
  obtain rc o'' where l: "LoadData new_ok (Some s) o' = Some (rc, o'')" "ini_ok o''"
    "if rc < 0 then rc = SI_NOMEM \<and> (\<exists>n. \<not> new_ok n)
     else rc = SI_OK \<and> tab_of o'' = run_items (m_bAllowMultiKey o') [] (items (content s)) (tab_of o')"
    using LoadData_items [OF assms(1-4), of new_ok] by (elim exE conjE) (rule that)
  have "ordered_tab (tab_of o')" "rc = SI_OK" "tab_of o'' = run_items (m_bAllowMultiKey o') [] (items (content s)) (tab_of o')"
    using assms(1,5) l(3) by (auto simp: ini_ok_def split: if_splits)
  then show ?thesis
    using l(1,2) run_items_spec by (intro exI [of _ o'']) (simp add: texts_def sections_def)
qed

lemma foldl_new_values:
  "foldl (\<lambda>vs v. new_values multi False v vs) vs us = (if multi then vs @ us else if us = [] then vs else last us # tl vs)"
  by (induction us arbitrary: vs) (auto simp: new_values_def)

text \<open>
  C7: loading always ends. Whatever the bytes, the settings and the allocations that fail,
  \<open>LoadData\<close> returns: it stays inside its block, reads no string that is gone, and leaves every
  pointer in the tables readable. It returns an error only when an allocation has failed.
\<close>

theorem LoadData_returns:
  assumes "safe o'" "m_nOrder o' + 2 * int (length s) < 2 ^ 31"
  shows "\<exists>rc o''. LoadData new_ok (Some s) o' = Some (rc, o'') \<and> safe o'' \<and> m_nOrder o'' \<le> m_nOrder o' + 2 * int (length s)
    \<and> (rc = SI_OK \<or> rc = SI_NOMEM \<and> (\<exists>n. \<not> new_ok n))"
  by (rule LoadData_ok [OF assms])

lemma LoadData_returns_witness:
  "\<exists>rc o''. LoadData (\<lambda>n. n = 0) (Some (''[a'' @ [CR, LF] @ ''b=<<<T'' @ [LF, NUL])) (CSimpleIni_ctor True True True) = Some (rc, o'') \<and> safe o''"
proof -
  have "m_nOrder (CSimpleIni_ctor True True True) + 2 * int (length (''[a'' @ [CR, LF] @ ''b=<<<T'' @ [LF, NUL])) < 2 ^ 31"
    by (simp add: CSimpleIni_ctor_def)
  then show ?thesis
    using LoadData_returns [of "CSimpleIni_ctor True True True" "''[a'' @ [CR, LF] @ ''b=<<<T'' @ [LF, NUL]" "\<lambda>n. n = 0"]
      ctor_ok(1) [of True True True] unfolding ini_ok_def by blast
qed

text \<open>
  C6: what loading means. With the settings of the program, a text in which every line that begins
  a section name also ends it is loaded as its lines say, read one by one: each assignment sets the
  value of its key in the last section named before it, or is added when multiple keys are allowed,
  and nothing else changes. This holds for the first text, which stays in memory, and for every
  further one, which is copied.
\<close>

theorem LoadData_values:
  assumes "ini_ok o'" "plain o'" "clean (content s)" "m_nOrder o' + 2 * int (length s) < 2 ^ 31" "\<forall>n. new_ok n"
  shows "\<exists>o''. LoadData new_ok (Some s) o' = Some (SI_OK, o'') \<and> ini_ok o''
    \<and> (\<forall>sec k. let us = assigned [] (items (content s)) sec k in
         texts o'' sec k = (if m_bAllowMultiKey o' then texts o' sec k @ us else if us = [] then texts o' sec k else last us # tl (texts o' sec k))
         \<and> (us \<noteq> [] \<and> \<not> m_bAllowMultiKey o' \<longrightarrow> get_text o'' sec k = Some (Some (last us))))
    \<and> (\<forall>sec. sections o'' sec \<longleftrightarrow> sections o' sec \<or> mentioned [] (items (content s)) sec)"
proof -
  obtain o'' where l: "LoadData new_ok (Some s) o' = Some (SI_OK, o'')" "ini_ok o''"
    "\<forall>sec k. texts o'' sec k
         = foldl (\<lambda>vs v. new_values (m_bAllowMultiKey o') False v vs) (texts o' sec k) (assigned [] (items (content s)) sec k)"
    "\<forall>sec. sections o'' sec \<longleftrightarrow> sections o' sec \<or> mentioned [] (items (content s)) sec"
    using LoadData_effect [OF assms] by blast
  have "get_text o'' sec k = Some (Some (last us))" if "texts o'' sec k = last us # vs" for sec k us vs
    using get_text_spec [OF l(2), of sec k] that by simp
  then show ?thesis
    using l unfolding foldl_new_values Let_def by (intro exI [of _ o'']) auto
qed

definition ftp_text :: string where
  "ftp_text = ''; ports'' @ [LF, LF] @ ''[ftp]'' @ [CR, LF] @ '' PORT = 21 '' @ [LF] @ ''[b]'' @ [LF] @ ''k=v'' @ [LF] @ ''[FTP]'' @ [LF] @ ''port=22''"

text \<open>To evaluate \<open>lines_of\<close> once per character.\<close>

lemma lines_of_once:
  "lines_of (c # cs) = (case lines_of cs of [] \<Rightarrow> [[c]] | l # ls \<Rightarrow> if IsNewLineChar c then [] # l # ls else (c # l) # ls)"
proof -
  have "lines_of cs \<noteq> []"
    by (cases cs) simp_all
  then show ?thesis
    by (cases "lines_of cs") simp_all
qed

lemma ftp_text_items:
  "items (content ftp_text) = [Section ''ftp'', Pair ''PORT'' ''21'', Section ''b'', Pair ''k'' ''v'', Section ''FTP'', Pair ''port'' ''22'']"
  "clean (content ftp_text)"
  by (simp_all add: ftp_text_def content_def SI_UTF8_SIGNATURE_def items_def item_of_line_def rstrip_def IsSpace_def IsComment_def
      IsNewLineChar_def clean_def clean_line_def
      lines_of_once del: lines_of.simps(2))

lemma LoadData_values_witness:
  "\<exists>o''. LoadData (\<lambda>_. True) (Some ftp_text) (CSimpleIni_ctor True False False) = Some (SI_OK, o'') \<and> ini_ok o''
    \<and> get_text o'' ''Ftp'' ''Port'' = Some (Some ''22'')"
proof -
  let ?o = "CSimpleIni_ctor True False False"
  have "plain ?o" "m_nOrder ?o + 2 * int (length ftp_text) < 2 ^ 31" "\<not> m_bAllowMultiKey ?o"
    by (simp_all add: plain_def CSimpleIni_ctor_def ftp_text_def)
  moreover have "assigned [] (items (content ftp_text)) ''Ftp'' ''Port'' = [''21'', ''22'']"
    unfolding ftp_text_items by (simp add: name_key_def char_val_def locase_def)
  ultimately show ?thesis
    using LoadData_values [OF ctor_ok(1) [of True False False], of ftp_text "\<lambda>_. True"] ftp_text_items(2) by (auto simp: Let_def)
qed

definition unreadable :: "(nat \<Rightarrow> bool) \<Rightarrow> file_state option \<Rightarrow> CSimpleIni \<Rightarrow> bool" where
  "unreadable new_ok fp o' \<longleftrightarrow> (case fp of
     None \<Rightarrow> True
   | Some f \<Rightarrow> seek f \<noteq> 0 \<or> tell f < 0 \<or> new_ok (allocs o') \<and> int (length (contents f)) < tell f)"

text \<open>
  C23: \<open>LoadFile\<close>. It always returns. \<open>SI_FILE\<close> is returned exactly when the file cannot be opened,
  measured or read in full, and then the tables and their texts are as before; the only other error
  is a failed allocation.
\<close>

theorem LoadFile_outcome:
  assumes "safe o'" "case fp of None \<Rightarrow> True | Some f \<Rightarrow> m_nOrder o' + 2 * tell f < 2 ^ 31"
  shows "\<exists>rc o''. LoadFile new_ok fp o' = Some (rc, o'') \<and> safe o''
    \<and> (rc = SI_FILE \<longleftrightarrow> unreadable new_ok fp o')
    \<and> (rc = SI_FILE \<longrightarrow> m_data o'' = m_data o' \<and> tab_of o'' = tab_of o')
    \<and> (rc = SI_OK \<or> rc = SI_FILE \<or> rc = SI_NOMEM \<and> (\<exists>n. \<not> new_ok n))"
proof (cases fp)
  case None
  then show ?thesis
    using assms(1) by (simp add: LoadFile_def unreadable_def)
next
  case (Some f)
  let ?o = "o'\<lparr>allocs := allocs o' + 1\<rparr>"
  have "ptr_text ?o p = ptr_text o' p" for p
    by (rule ptr_text_cong) simp_all
  then have o2: "safe ?o" "tab_of ?o = tab_of o'"
    using assms(1) mem_ok_allocs by (auto simp: safe_with_def text_of_def intro!: abs_data_cong)
  consider "seek f \<noteq> 0 \<or> tell f < 0" | "seek f = 0" "tell f = 0" | "seek f = 0" "0 < tell f" "\<not> new_ok (allocs o')"
    | "seek f = 0" "0 < tell f" "new_ok (allocs o')" "int (length (contents f)) < tell f"
    | "seek f = 0" "0 < tell f" "new_ok (allocs o')" "tell f \<le> int (length (contents f))"
    by linarith
  then show ?thesis
  proof cases
    case 5
    let ?d = "take (nat (tell f)) (contents f)"
    have len: "int (length ?d) = tell f"
      using 5 by simp
    then have run: "LoadFile new_ok fp o' = LoadData new_ok (Some ?d) ?o"
      using 5 Some by (simp add: LoadFile_def LoadFile_fp_def Let_def)
    have "m_nOrder ?o + 2 * int (length ?d) < 2 ^ 31"
      using assms(2) Some len by simp
    then obtain rc o3 where "LoadData new_ok (Some ?d) ?o = Some (rc, o3)" "safe o3" "rc = SI_OK \<or> rc = SI_NOMEM \<and> (\<exists>n. \<not> new_ok n)"
      using LoadData_ok [OF o2(1), of ?d new_ok] by blast
    then show ?thesis
      unfolding run using 5 Some by (intro exI [of _ rc] exI [of _ o3]) (auto simp: unreadable_def)
  qed (use Some assms(1) o2 in \<open>auto simp: LoadFile_def LoadFile_fp_def unreadable_def Let_def\<close>)
qed

lemma LoadFile_outcome_witness:
  "\<exists>rc o''. LoadFile (\<lambda>_. True) (Some \<lparr>seek = 0, tell = 7, contents = ''a=b''\<rparr>) (CSimpleIni_ctor True False False) = Some (rc, o'') \<and> rc = SI_FILE"
  using LoadFile_outcome [of "CSimpleIni_ctor True False False" "Some \<lparr>seek = 0, tell = 7, contents = ''a=b''\<rparr>" "\<lambda>_. True"]
    ctor_ok(1) [of True False False] by (auto simp: ini_ok_def CSimpleIni_ctor_def unreadable_def)

end
