(* ===== verification/Ini_Saved.thy ===== *)
theory Ini_Saved
  imports Ini_Save Ini_Loaded
begin

text \<open>
  What \<open>Save\<close> writes is read back by \<open>LoadData\<close> (\<open>Save_LoadData\<close>): every step of \<open>Save\<close> writes
  whole lines, whose items are the entries it saves.
\<close>

section \<open>Whole lines\<close>

lemma lines_of_append: "lines_of (a @ LF # b) = lines_of a @ lines_of b"
proof (induction a)
  case (Cons c a)
  obtain l ls where "lines_of a = l # ls"
    using lines_of_nonempty [of a] by (cases "lines_of a") auto
  then show ?case
    using Cons by simp
qed simp

text \<open>A text that is empty or ends with a line feed, with the items of its lines.\<close>

definition chunk :: "string \<Rightarrow> ini_item list \<Rightarrow> bool" where
  "chunk x is \<longleftrightarrow> (x = [] \<or> List.last x = LF) \<and> items x = is \<and> clean x \<and> NUL \<notin> set x \<and> (x \<noteq> [] \<longrightarrow> hd x \<noteq> CHR 0xEF)"

lemma chunk_Nil [simp]: "chunk [] []"
  by (simp add: chunk_def)

lemma chunk_line:
  assumes "items a = is" "clean a" "NUL \<notin> set a" "a \<noteq> [] \<longrightarrow> hd a \<noteq> CHR 0xEF"
  shows "chunk (a @ [LF]) is"
  using assms lines_of_append [of a "[]"] by (cases a) (auto simp: chunk_def items_def clean_def clean_line_def item_of_line_def)

lemma chunk_append: "chunk x is \<Longrightarrow> chunk y js \<Longrightarrow> chunk (x @ y) (is @ js)"
proof -
  assume x: "chunk x is" and y: "chunk y js"
  show ?thesis
  proof (cases "x = []")
    case False
    then have "x = butlast x @ [LF]"
      using x append_butlast_last_id [of x] by (simp add: chunk_def)
    then obtain a where a: "x = a @ [LF]"
      by blast
    have "lines_of x = lines_of a @ [[]]" "lines_of (x @ y) = lines_of a @ lines_of y"
      using lines_of_append [of a "[]"] lines_of_append [of a y] by (simp_all add: a)
    then show ?thesis
      using x y False by (auto simp: chunk_def items_def clean_def item_of_line_def last_append)
  qed (use x y in \<open>simp add: chunk_def\<close>)
qed

section \<open>Steps of the output\<close>

lemma grow_scratch_total: "0 < n \<Longrightarrow> \<exists>m. grow_scratch uLen n = Some m \<and> n \<le> m \<and> uLen \<le> m"
proof (induction "uLen - n" arbitrary: n rule: less_induct)
  case less
  show ?case
  proof (cases "n < uLen")
    case True
    have "uLen - n * 2 < uLen - n" "0 < n * 2"
      using True less.prems by simp_all
    then obtain m where "grow_scratch uLen (n * 2) = Some m" "n * 2 \<le> m" "uLen \<le> m"
      using less.hyps by blast
    then show ?thesis
      using True by (subst grow_scratch.simps) simp
  qed (simp add: grow_scratch.simps)
qed

lemma ConvertToStore_ok: "0 < scratch_size w \<Longrightarrow> \<exists>n > 0. ConvertToStore s w = Some (True, w\<lparr>scratch_size := n, scratch := s\<rparr>)"
proof -
  assume "0 < scratch_size w"
  then obtain m where "grow_scratch (length s + 1) (scratch_size w) = Some m" "scratch_size w \<le> m" "length s + 1 \<le> m"
    using grow_scratch_total [of "scratch_size w" "length s + 1"] by blast
  then show ?thesis
    using \<open>0 < scratch_size w\<close> by (intro exI [of _ m]) (simp add: ConvertToStore_def SizeToStore_def)
qed

lemma Write_fields [simp]: "written (Write s w) = written w @ s" "scratch_size (Write s w) = scratch_size w" "scratch (Write s w) = scratch w"
  by (simp_all add: Write_def)

text \<open>A step that writes a text, and one that writes whole lines with these items.\<close>

definition puts :: "(save_state \<Rightarrow> (bool \<times> save_state) option) \<Rightarrow> string \<Rightarrow> bool" where
  "puts f x \<longleftrightarrow> (\<forall>w. 0 < scratch_size w \<longrightarrow> (\<exists>w'. f w = Some (True, w') \<and> written w' = written w @ x \<and> 0 < scratch_size w'))"

definition emits :: "(save_state \<Rightarrow> (bool \<times> save_state) option) \<Rightarrow> ini_item list \<Rightarrow> bool" where
  "emits f is \<longleftrightarrow> (\<exists>x. puts f x \<and> chunk x is)"

lemma putsD: "puts f x \<Longrightarrow> 0 < scratch_size w \<Longrightarrow> \<exists>w'. f w = Some (True, w') \<and> written w' = written w @ x \<and> 0 < scratch_size w'"
  by (simp add: puts_def)

lemma puts_skip: "puts (\<lambda>w. Some (True, w)) []"
  by (simp add: puts_def)

lemma puts_convert: "puts (\<lambda>w. do { (ok, w) \<leftarrow> ConvertToStore s w; if \<not> ok then Some (False, w) else Some (True, Write (scratch w) w) }) s"
  unfolding puts_def
proof (intro allI impI)
  fix w :: save_state
  assume "0 < scratch_size w"
  then obtain n where "0 < n" "ConvertToStore s w = Some (True, w\<lparr>scratch_size := n, scratch := s\<rparr>)"
    using ConvertToStore_ok by blast
  then show "\<exists>w'. (do { (ok, w) \<leftarrow> ConvertToStore s w; if \<not> ok then Some (False, w) else Some (True, Write (scratch w) w) }) = Some (True, w')
      \<and> written w' = written w @ s \<and> 0 < scratch_size w'"
    by simp
qed

lemma lf_lines_join: "lf_lines t \<noteq> [] \<and> concat (map (\<lambda>l. l @ [LF]) (lf_lines t)) = t @ [LF]"
  by (induction t) (auto split: list.splits)

lemma output_lines_puts: "puts (output_lines ls) (concat (map (\<lambda>l. l @ [LF]) ls))"
proof (induction ls)
  case Nil
  then show ?case
    by (simp add: puts_def)
next
  case (Cons l ls)
  show ?case
    unfolding puts_def
  proof (intro allI impI)
    fix w :: save_state
    assume "0 < scratch_size w"
    then obtain n where n: "0 < n" "ConvertToStore l w = Some (True, w\<lparr>scratch_size := n, scratch := l\<rparr>)"
      using ConvertToStore_ok by blast
    let ?w = "Write SI_NEWLINE_A (Write l (w\<lparr>scratch_size := n, scratch := l\<rparr>))"
    obtain w' where "output_lines ls ?w = Some (True, w')" "written w' = written ?w @ concat (map (\<lambda>l. l @ [LF]) ls)" "0 < scratch_size w'"
      using putsD [OF Cons.IH, of ?w] n(1) by auto
    then show "\<exists>w'. output_lines (l # ls) w = Some (True, w') \<and> written w' = written w @ concat (map (\<lambda>l. l @ [LF]) (l # ls)) \<and> 0 < scratch_size w'"
      using n(2) by (intro exI [of _ w']) (simp add: SI_NEWLINE_A_def)
  qed
qed

lemma OutputMultiLineText_puts: "t \<noteq> [] \<Longrightarrow> puts (OutputMultiLineText t) (t @ [LF])"
  using output_lines_puts [of "lf_lines t"] lf_lines_join [of t] by (simp add: OutputMultiLineText_def [abs_def])

section \<open>The entries\<close>

text \<open>Names, values and comments that fit into the lines of a file.\<close>

definition one_line :: "string \<Rightarrow> bool" where
  "one_line s \<longleftrightarrow> (\<forall>c \<in> set s. c \<noteq> NUL \<and> \<not> IsNewLineChar c) \<and> rstrip s = s \<and> (s \<noteq> [] \<longrightarrow> \<not> IsSpace (hd s))"

definition section_ok :: "string \<Rightarrow> bool" where
  "section_ok s \<longleftrightarrow> one_line s \<and> CHR '']'' \<notin> set s"

definition key_ok :: "string \<Rightarrow> bool" where
  "key_ok k \<longleftrightarrow> one_line k \<and> k \<noteq> [] \<and> CHR ''='' \<notin> set k \<and> hd k \<noteq> CHR ''['' \<and> \<not> IsComment (hd k) \<and> hd k \<noteq> CHR 0xEF"

definition comment_ok :: "string \<Rightarrow> bool" where
  "comment_ok t \<longleftrightarrow> t \<noteq> [] \<and> NUL \<notin> set t \<and> items t = [] \<and> clean t \<and> hd t \<noteq> CHR 0xEF"

lemma items_one_line: "\<forall>c \<in> set l. \<not> IsNewLineChar c \<Longrightarrow> lines_of l = [l]"
  by (induction l) auto

lemma one_line_items: "\<forall>c \<in> set l. \<not> IsNewLineChar c \<Longrightarrow> items l = item_of_line l \<and> clean l = clean_line l"
  by (simp add: items_one_line items_def clean_def)

lemma section_chunk:
  assumes "section_ok s"
  shows "chunk (''['' @ s @ '']'' @ [LF]) [Section s]"
proof -
  let ?l = "CHR ''['' # s @ '']''"
  have line: "\<forall>c \<in> set ?l. \<not> IsNewLineChar c" "NUL \<notin> set ?l"
    using assms by (auto simp: section_ok_def one_line_def IsNewLineChar_def)
  have "dropWhile IsSpace (s @ '']'') = s @ '']''"
    using assms by (cases s) (auto simp: section_ok_def one_line_def)
  moreover have "takeWhile (\<lambda>c. c \<noteq> CHR '']'') (s @ '']'') = s"
    using assms by (simp add: section_ok_def takeWhile_append)
  ultimately have "item_of_line ?l = [Section s]"
    using assms by (simp add: item_of_line_simps(2) [of "CHR ''[''"] section_ok_def one_line_def)
  moreover have "clean_line ?l"
    by (simp add: clean_line_def)
  ultimately have "chunk (?l @ [LF]) [Section s]"
    using line one_line_items [OF line(1)] by (intro chunk_line) auto
  then show ?thesis
    by simp
qed

lemma pair_chunk:
  assumes "key_ok k" "one_line v"
  shows "chunk (k @ (if sp then '' = '' else ''='') @ v @ [LF]) [Pair k v]"
proof -
  let ?k = "k @ (if sp then '' '' else [])" and ?v = "(if sp then '' '' else []) @ v"
  let ?l = "?k @ CHR ''='' # ?v"
  have k: "k \<noteq> []" "CHR ''='' \<notin> set k" "hd k \<noteq> CHR ''[''" "\<not> IsComment (hd k)" "hd k \<noteq> CHR 0xEF" "\<not> IsSpace (hd k)" "rstrip k = k"
    using assms(1) by (auto simp: key_ok_def one_line_def)
  then obtain c u where c: "k = c # u"
    by (cases k) auto
  have line: "\<forall>c \<in> set ?l. \<not> IsNewLineChar c" "NUL \<notin> set ?l"
    using assms by (auto simp: key_ok_def one_line_def IsNewLineChar_def split: if_splits)
  have "rstrip ?k = k"
    using k(7) by (simp add: rstrip_def IsSpace_def)
  moreover have "rstrip (dropWhile IsSpace ?v) = v"
    using assms(2) by (cases v) (auto simp: one_line_def IsSpace_def)
  moreover have "?l = c # (u @ (if sp then '' '' else []) @ CHR ''='' # ?v)"
    using c by simp
  ultimately have "item_of_line ?l = [Pair k v]"
    using item_of_line_simps(4) [of c "u @ (if sp then '' '' else []) @ CHR ''='' # ?v" ?k ?v] k c by (auto split: if_splits)
  moreover have "clean_line ?l"
    using k c by (auto simp: clean_line_def)
  ultimately have "chunk (?l @ [LF]) [Pair k v]"
    using line one_line_items [OF line(1)] k(1,5) by (intro chunk_line) auto
  then show ?thesis
    by (cases sp) simp_all
qed

lemma comment_chunk: "comment_ok t \<Longrightarrow> chunk (t @ [LF]) []"
  by (rule chunk_line) (simp_all add: comment_ok_def)

lemma blank_chunk: "chunk [LF] []"
  using chunk_line [of "[]" "[]"] by simp

section \<open>What the steps write\<close>

lemma puts_bind:
  assumes "puts f x" "puts g y"
  shows "puts (\<lambda>w. do { (ok, w) \<leftarrow> f w; if \<not> ok then Some (False, w) else g w }) (x @ y)"
  unfolding puts_def
proof (intro allI impI)
  fix w :: save_state
  assume "0 < scratch_size w"
  then obtain w1 where w1: "f w = Some (True, w1)" "written w1 = written w @ x" "0 < scratch_size w1"
    using putsD [OF assms(1)] by blast
  then obtain w2 where "g w1 = Some (True, w2)" "written w2 = written w1 @ y" "0 < scratch_size w2"
    using putsD [OF assms(2)] by blast
  then show "\<exists>w'. (do { (ok, w) \<leftarrow> f w; if \<not> ok then Some (False, w) else g w }) = Some (True, w') \<and> written w' = written w @ x @ y \<and> 0 < scratch_size w'"
    using w1 by simp
qed

lemma puts_write: "puts f x \<Longrightarrow> puts (\<lambda>w. f (Write s w)) (s @ x)"
  unfolding puts_def by (metis Write_fields(1,2) append_assoc)

lemma puts_end: "puts (\<lambda>w. Some (True, Write s w)) s"
  by (simp add: puts_def)

lemma puts_cong: "puts f x \<Longrightarrow> x = y \<Longrightarrow> puts f y"
  by simp

lemma emits_bind:
  assumes "emits f is" "emits g js"
  shows "emits (\<lambda>w. do { (ok, w) \<leftarrow> f w; if \<not> ok then Some (False, w) else g w }) (is @ js)"
proof -
  obtain x y where "puts f x" "chunk x is" "puts g y" "chunk y js"
    using assms unfolding emits_def by blast
  then show ?thesis
    unfolding emits_def using puts_bind chunk_append by blast
qed

lemma emits_eq: "emits f is \<Longrightarrow> (\<And>w. g w = f w) \<Longrightarrow> emits g is"
  by (simp add: emits_def puts_def)

lemma emits_skip: "emits (\<lambda>w. Some (True, w)) []"
  unfolding emits_def using puts_skip chunk_Nil by blast


lemma save_text_puts:
  assumes "plain o'"
  shows "puts (save_text o' t) ((if m_bSpaces o' then '' = '' else ''='') @ t)"
  unfolding puts_def
proof (intro allI impI)
  fix w :: save_state
  assume "0 < scratch_size w"
  then obtain n where "0 < n" "ConvertToStore t w = Some (True, w\<lparr>scratch_size := n, scratch := t\<rparr>)"
    using ConvertToStore_ok by blast
  then show "\<exists>w'. save_text o' t w = Some (True, w') \<and> written w' = written w @ (if m_bSpaces o' then '' = '' else ''='') @ t \<and> 0 < scratch_size w'"
    using assms by (simp add: save_text_def plain_def)
qed

lemma save_comment_emits:
  "ptr_text o' p = Some c \<Longrightarrow> comment_ok c \<Longrightarrow> emits (save_comment o' p) []"
  using OutputMultiLineText_puts [of c] comment_chunk [of c]
  unfolding emits_def save_comment_def [abs_def] comment_ok_def by auto

definition comment_saved :: "CSimpleIni \<Rightarrow> text_ptr option \<Rightarrow> bool" where
  "comment_saved o' c \<longleftrightarrow> (\<forall>p. c = Some p \<longrightarrow> (\<exists>t. ptr_text o' p = Some t \<and> comment_ok t))"

lemma save_value_emits:
  assumes "plain o'" "comment_saved o' (pComment v)" "ptr_text o' (pItem k) = Some ks" "key_ok ks" "ptr_text o' (pItem v) = Some t" "one_line t"
  shows "emits (save_value o' k v) [Pair ks t]"
proof -
  let ?c = "\<lambda>w. case pComment v of None \<Rightarrow> Some (True, w) | Some p \<Rightarrow> save_comment o' p (Write SI_NEWLINE_A w)"
  let ?k = "\<lambda>w. do { (ok, w) \<leftarrow> ConvertToStore ks w; if \<not> ok then Some (False, w) else Some (True, Write (scratch w) w) }"
  let ?e = "\<lambda>w. Some (True, Write SI_NEWLINE_A w)"
  let ?sep = "if m_bSpaces o' then '' = '' else ''=''"
  have c: "emits ?c []"
  proof (cases "pComment v")
    case (Some p)
    then obtain x where "puts (save_comment o' p) x" "chunk x []"
      using assms(2) save_comment_emits [of o' p] by (auto simp: comment_saved_def emits_def)
    then have "puts (\<lambda>w. save_comment o' p (Write SI_NEWLINE_A w)) (SI_NEWLINE_A @ x)" "chunk ([LF] @ x) []"
      using puts_write chunk_append [OF blank_chunk] by (blast, fastforce)
    then show ?thesis
      using Some by (auto simp: emits_def SI_NEWLINE_A_def)
  qed (simp add: emits_skip)
  let ?line = "\<lambda>w. do { (ok, w) \<leftarrow> ?k w; if \<not> ok then Some (False, w)
    else do { (ok, w) \<leftarrow> save_text o' t w; if \<not> ok then Some (False, w) else ?e w } }"
  have "puts ?line (ks @ (?sep @ t) @ SI_NEWLINE_A)"
    by (intro puts_bind puts_convert save_text_puts [OF assms(1)] puts_end)
  then have "emits ?line [Pair ks t]"
    using pair_chunk [OF assms(4,6), of "m_bSpaces o'"] unfolding emits_def SI_NEWLINE_A_def by (auto split: if_splits)
  from emits_bind [OF c this] have "emits (\<lambda>w. do { (ok, w) \<leftarrow> ?c w; if \<not> ok then Some (False, w) else ?line w }) [Pair ks t]"
    by simp
  moreover have "save_value o' k v w = (do { (ok, w) \<leftarrow> ?c w; if \<not> ok then Some (False, w) else ?line w })" for w
  proof -
    have key: "\<not> m_bAllowKeyOnly o'"
      using assms(1) by (simp add: plain_def)
    have line: "?line w = do { (ok, w) \<leftarrow> ConvertToStore ks w; if \<not> ok then Some (False, w) else do {
         (ok, w) \<leftarrow> save_text o' t (Write (scratch w) w);
         if \<not> ok then Some (False, w) else Some (True, Write SI_NEWLINE_A w) } }" for w
    proof (cases "ConvertToStore ks w")
      case (Some r)
      then show ?thesis
        by (cases "fst r") (simp_all add: case_prod_beta)
    qed simp
    show ?thesis
      unfolding save_value_def line assms(3,5) by (simp add: key cong: if_cong)
  qed
  ultimately show ?thesis
    by (rule emits_eq)
qed

section \<open>What can be saved\<close>

definition entry_ok :: "CSimpleIni \<Rightarrow> Entry \<times> text_ptr \<Rightarrow> bool" where
  "entry_ok o' y \<longleftrightarrow> key_ok (text_of o' (pItem (fst y))) \<and> one_line (text_of o' (snd y)) \<and> comment_saved o' (pComment (fst y))"

definition savable :: "CSimpleIni \<Rightarrow> bool" where
  "savable o' \<longleftrightarrow> comment_saved o' (m_pFileComment o')
    \<and> (\<forall>x \<in> set (m_data o'). section_ok (text_of o' (pItem (fst x))) \<and> comment_saved o' (pComment (fst x)) \<and> (\<forall>y \<in> set (snd x). entry_ok o' y))"

text \<open>The values that \<open>Save\<close> writes for a key.\<close>

definition kept :: "CSimpleIni \<Rightarrow> string \<Rightarrow> string \<Rightarrow> string list" where
  "kept o' s k = (if m_bAllowMultiKey o' then texts o' s k else take 1 (texts o' s k))"

lemma kept_cong: "name_key s = name_key s' \<Longrightarrow> name_key k = name_key k' \<Longrightarrow> kept o' s k = kept o' s' k'"
  by (simp add: kept_def texts_def)

lemma find_keys_source:
  assumes "find_keys (Some p) (Some q) o' = Some xs"
  shows "\<forall>y \<in> set xs. \<exists>x \<in> set (m_data o'). y \<in> set (snd x)"
proof -
  obtain s i where s: "ptr_text o' p = Some s" "find_entry o' s (m_data o') = Some i"
    using assms by (auto simp: find_keys_def GetSection_def bind_eq_Some_conv)
  show ?thesis
  proof (cases i)
    case None
    then show ?thesis
      using assms s by (auto simp: find_keys_def GetSection_def)
  next
    case (Some j)
    then have j: "j < length (m_data o')"
      using find_entry_bound s(2) by blast
    obtain k l where "ptr_text o' q = Some k" "find_entry o' k (snd (m_data o' ! j)) = Some l"
      "xs = (case l of None \<Rightarrow> [] | Some l \<Rightarrow> drop l (snd (m_data o' ! j)))"
      using assms s Some by (auto simp: find_keys_def GetSection_def bind_eq_Some_conv)
    then have "set xs \<subseteq> set (snd (m_data o' ! j))"
      by (auto split: option.splits dest: in_set_dropD)
    then show ?thesis
      using nth_mem [OF j] by blast
  qed
qed

lemma GetAllValues_at:
  assumes "ini_ok o'" "ptr_text o' p = Some s" "ptr_text o' q = Some k"
  shows "\<exists>found es. GetAllValues (Some p) (Some q) o' = Some (found, es) \<and> map (\<lambda>e. text_of o' (pItem e)) es = kept o' s k
    \<and> (\<forall>e \<in> set es. ptr_text o' (pItem e) \<noteq> None \<and> (\<exists>x \<in> set (m_data o'). \<exists>y \<in> set (snd x). pItem e = snd y \<and> pComment e = pComment (fst y)))"
proof -
  obtain xs where xs: "find_keys (Some p) (Some q) o' = Some xs" "readable o' xs" "\<forall>x \<in> set xs. ptr_text o' (snd x) \<noteq> None"
    "texts o' s k = map (\<lambda>x. text_of o' (snd x)) (takeWhile (\<lambda>x. \<not> IsLess k (text_of o' (pItem (fst x)))) xs)"
    "xs \<noteq> [] \<longrightarrow> \<not> IsLess k (text_of o' (pItem (fst (hd xs))))"
    using find_keys_eq [OF assms] by auto
  note src = find_keys_source [OF xs(1)]
  let ?e = "\<lambda>x. \<lparr>pItem = snd x, pComment = pComment (fst x), nOrder = nOrder (fst x)\<rparr>"
  show ?thesis
  proof (cases xs)
    case Nil
    then show ?thesis
      using xs by (intro exI [of _ False] exI [of _ "[]"]) (simp add: GetAllValues_def kept_def)
  next
    case (Cons x ys)
    let ?vs = "if m_bAllowMultiKey o' then takeWhile (\<lambda>x. \<not> IsLess k (text_of o' (pItem (fst x)))) ys else []"
    have "readable o' ys"
      using xs(2) Cons by simp
    then have run: "GetAllValues (Some p) (Some q) o' = Some (True, map ?e (x # ?vs))"
      using xs(1) Cons same_keys_eq [of o' ys q k] assms(3) by (cases x) (simp add: GetAllValues_def)
    have sub: "set (x # ?vs) \<subseteq> set xs"
      using Cons set_takeWhileD by (fastforce split: if_splits)
    have "\<forall>e \<in> set (map ?e (x # ?vs)). ptr_text o' (pItem e) \<noteq> None \<and> (\<exists>x \<in> set (m_data o'). \<exists>y \<in> set (snd x). pItem e = snd y \<and> pComment e = pComment (fst y))"
    proof
      fix e
      assume "e \<in> set (map ?e (x # ?vs))"
      then obtain y where y: "y \<in> set xs" "e = ?e y"
        using sub unfolding set_map by blast
      then obtain z where "z \<in> set (m_data o')" "y \<in> set (snd z)" "ptr_text o' (snd y) \<noteq> None"
        using xs(3) src by blast
      moreover have "pItem e = snd y" "pComment e = pComment (fst y)"
        using y(2) by simp_all
      ultimately show "ptr_text o' (pItem e) \<noteq> None \<and> (\<exists>x \<in> set (m_data o'). \<exists>y \<in> set (snd x). pItem e = snd y \<and> pComment e = pComment (fst y))"
        by auto
    qed
    moreover have "map (\<lambda>e. text_of o' (pItem e)) (map ?e (x # ?vs)) = kept o' s k"
      using xs(4,5) Cons by (simp add: kept_def comp_def)
    ultimately show ?thesis
      using run by blast
  qed
qed

section \<open>The values, keys and sections\<close>

lemma save_values_emits:
  assumes "plain o'" "ptr_text o' (pItem k) = Some ks" "key_ok ks"
    "\<forall>v \<in> set vs. comment_saved o' (pComment v) \<and> ptr_text o' (pItem v) \<noteq> None \<and> one_line (text_of o' (pItem v))"
  shows "emits (save_values o' k vs) (map (\<lambda>v. Pair ks (text_of o' (pItem v))) vs)"
  using assms(4)
proof (induction vs)
  case Nil
  have "emits (save_values o' k []) []"
    by (rule emits_eq [OF emits_skip]) simp
  then show ?case
    by (simp only: list.map concat.simps)
next
  case (Cons v vs)
  then obtain t where t: "ptr_text o' (pItem v) = Some t"
    by auto
  then have "emits (save_value o' k v) [Pair ks t]"
    using save_value_emits [OF assms(1) _ assms(2,3) t] Cons.prems by simp
  from emits_eq [OF emits_bind [OF this Cons.IH]] Cons.prems t show ?case
    by simp
qed

lemma save_keys_emits:
  assumes "ini_ok o'" "plain o'" "savable o'" "ptr_text o' (pItem sec) = Some s"
    "\<forall>k \<in> set ks. ptr_text o' (pItem k) \<noteq> None \<and> key_ok (text_of o' (pItem k))"
  shows "emits (save_keys o' sec ks) (concat (map (\<lambda>k. map (Pair (text_of o' (pItem k))) (kept o' s (text_of o' (pItem k)))) ks))"
  using assms(5)
proof (induction ks)
  case Nil
  have "emits (save_keys o' sec []) []"
    by (rule emits_eq [OF emits_skip]) simp
  then show ?case
    by (simp only: list.map concat.simps)
next
  case (Cons k ks)
  then obtain n where n: "ptr_text o' (pItem k) = Some n" "key_ok n"
    by auto
  obtain found vs where vs: "GetAllValues (Some (pItem sec)) (Some (pItem k)) o' = Some (found, vs)"
    "map (\<lambda>e. text_of o' (pItem e)) vs = kept o' s n"
    "\<forall>e \<in> set vs. ptr_text o' (pItem e) \<noteq> None \<and> (\<exists>x \<in> set (m_data o'). \<exists>y \<in> set (snd x). pItem e = snd y \<and> pComment e = pComment (fst y))"
    using GetAllValues_at [OF assms(1,4) n(1)] by blast
  have "\<forall>v \<in> set vs. comment_saved o' (pComment v) \<and> ptr_text o' (pItem v) \<noteq> None \<and> one_line (text_of o' (pItem v))"
    using vs(3) assms(3) unfolding savable_def entry_ok_def by metis
  from save_values_emits [OF assms(2) n this] have "emits (save_values o' k vs) (map (\<lambda>v. Pair n (text_of o' (pItem v))) vs)" .
  moreover have "map (\<lambda>v. Pair n (text_of o' (pItem v))) vs = map (Pair n) (kept o' s n)"
    unfolding vs(2) [symmetric] by simp
  ultimately have "emits (save_values o' k vs) (map (Pair n) (kept o' s n))"
    by simp
  from emits_eq [OF emits_bind [OF this Cons.IH]] Cons.prems vs(1) n(1) show ?case
    by simp
qed

abbreviation entry_key :: "CSimpleIni \<Rightarrow> Entry \<Rightarrow> int list" where
  "entry_key o' e \<equiv> name_key (text_of o' (pItem e))"

text \<open>\<open>distinct_keys\<close> gives one entry for every name.\<close>

lemma distinct_keys_after:
  "readable o' kv \<Longrightarrow> sorted (map name_key (names_of o' kv)) \<Longrightarrow>
   (case pLast of None \<Rightarrow> l = None | Some p \<Rightarrow> \<exists>t. ptr_text o' p = Some t \<and> l = Some (name_key t) \<and> (\<forall>n \<in> set (names_of o' kv). name_key t \<le> name_key n)) \<Longrightarrow>
   \<exists>es. distinct_keys o' pLast kv = Some es \<and> set es \<subseteq> fst ` set kv \<and> distinct (map (entry_key o') es)
     \<and> set (map (entry_key o') es) = name_key ` set (names_of o' kv) - set_option l"
proof (induction kv arbitrary: pLast l)
  case (Cons x kv)
  obtain e v where x: "x = (e, v)"
    by (cases x)
  obtain t where t: "ptr_text o' (pItem e) = Some t"
    using Cons.prems(1) x by auto
  have rest: "readable o' kv" "sorted (map name_key (names_of o' kv))" "\<forall>n \<in> set (names_of o' kv). name_key t \<le> name_key n"
    using Cons.prems(1,2) x t by (auto simp: names_of_def)
  have new: "\<exists>es. distinct_keys o' (Some (pItem e)) kv = Some es \<and> set es \<subseteq> fst ` set kv \<and> distinct (map (entry_key o') es)
     \<and> set (map (entry_key o') es) = name_key ` set (names_of o' kv) - {name_key t}"
    using Cons.IH [where pLast = "Some (pItem e)" and l = "Some (name_key t)"] rest t by simp
  show ?case
  proof (cases "l = None \<or> l \<noteq> Some (name_key t)")
    case True
    have small: "l \<noteq> Some (name_key n)" if "n \<in> set (names_of o' kv)" for n
    proof (cases pLast)
      case (Some p)
      then obtain u where "l = Some (name_key u)" "name_key u \<le> name_key t"
        using Cons.prems(3) x t by auto
      then have "name_key u < name_key n"
        using True rest(3) that by fastforce
      then show ?thesis
        using \<open>l = _\<close> by simp
    qed (use Cons.prems(3) in simp)
    have "(case pLast of None \<Rightarrow> Some True | Some p \<Rightarrow> map_option Not (not_less o' p (pItem e))) = Some True"
    proof (cases pLast)
      case (Some p)
      then obtain u where u: "ptr_text o' p = Some u" "l = Some (name_key u)" "name_key u \<le> name_key t"
        using Cons.prems(3) x t by auto
      then have "IsLess u t"
        using True nocase.lt_key by force
      then show ?thesis
        using Some u(1) t by (simp add: not_less_def)
    qed simp
    note run = this
    show ?thesis
    proof -
      obtain es where "distinct_keys o' (Some (pItem e)) kv = Some es" "set es \<subseteq> fst ` set kv" "distinct (map (entry_key o') es)"
        "set (map (entry_key o') es) = name_key ` set (names_of o' kv) - {name_key t}"
        using new by blast
      moreover have "name_key t \<notin> set_option l" "name_key ` set (names_of o' kv) - set_option l = name_key ` set (names_of o' kv)"
        using True small by auto
      ultimately show ?thesis
        using x t run by (intro exI [of _ "e # es"]) auto
    qed
  next
    case False
    then obtain p u where p: "pLast = Some p" "ptr_text o' p = Some u" "name_key u = name_key t" "l = Some (name_key t)"
      using Cons.prems(3) by (auto split: option.splits)
    then have "not_less o' p (pItem e) = Some True"
      using t nocase.lt_key [of u t] by (simp add: not_less_def)
    moreover have "\<exists>es. distinct_keys o' pLast kv = Some es \<and> set es \<subseteq> fst ` set kv \<and> distinct (map (entry_key o') es)
       \<and> set (map (entry_key o') es) = name_key ` set (names_of o' kv) - set_option l"
      using Cons.IH [where pLast = pLast and l = l] rest p by simp
    ultimately show ?thesis
      using x p t by auto
  qed
qed (auto split: option.splits)

text \<open>Sorting and moving the empty name keep the entries.\<close>

lemma sort_insert_mset:
  "ptr_text o' (pItem x) \<noteq> None \<Longrightarrow> \<forall>y \<in> set ys. ptr_text o' (pItem y) \<noteq> None \<Longrightarrow> \<exists>zs. sort_insert o' x ys = Some zs \<and> mset zs = add_mset x (mset ys)"
proof (induction ys)
  case (Cons y ys)
  have "\<exists>b. LoadOrder o' y x = Some b"
    using Cons.prems by (cases "nOrder y = nOrder x") (auto simp: LoadOrder_def)
  then obtain b where "LoadOrder o' y x = Some b"
    by blast
  then show ?case
    using Cons by (cases b) auto
qed simp

lemma sort_entries_mset: "\<forall>y \<in> set ys. ptr_text o' (pItem y) \<noteq> None \<Longrightarrow> \<exists>zs. sort_entries o' ys = Some zs \<and> mset zs = mset ys"
proof (induction ys)
  case (Cons y ys)
  then obtain zs where zs: "sort_entries o' ys = Some zs" "mset zs = mset ys"
    by auto
  moreover have "\<forall>z \<in> set zs. ptr_text o' (pItem z) \<noteq> None"
    using Cons.prems mset_eq_setD [OF zs(2)] by simp
  ultimately show ?case
    using sort_insert_mset [of o' y zs] Cons.prems by auto
qed simp

lemma split_empty_ok:
  "\<forall>y \<in> set es. ptr_text o' (pItem y) \<noteq> None \<Longrightarrow> \<exists>xs ys. split_empty o' es = Some (xs, ys) \<and> es = xs @ ys
     \<and> (\<forall>x \<in> set xs. text_of o' (pItem x) \<noteq> []) \<and> (ys \<noteq> [] \<longrightarrow> text_of o' (pItem (hd ys)) = [])"
  by (induction es) (auto split: if_splits)

lemma empty_first_ok:
  assumes "\<forall>y \<in> set es. ptr_text o' (pItem y) \<noteq> None" "distinct (map (entry_key o') es)"
  shows "\<exists>zs. empty_first o' es = Some zs \<and> mset zs = mset es \<and> (\<forall>x \<in> set (tl zs). text_of o' (pItem x) \<noteq> [])"
proof -
  obtain xs ys where s: "split_empty o' es = Some (xs, ys)" "es = xs @ ys" "\<forall>x \<in> set xs. text_of o' (pItem x) \<noteq> []"
    "ys \<noteq> [] \<longrightarrow> text_of o' (pItem (hd ys)) = []"
    using split_empty_ok [OF assms(1)] by blast
  show ?thesis
  proof (cases ys)
    case Nil
    then show ?thesis
      using s by (cases xs) (auto simp: empty_first_def)
  next
    case (Cons e zs)
    then have "text_of o' (pItem z) \<noteq> []" if "z \<in> set zs" for z
      using assms(2) s(2,4) that by (force simp: name_key_def)
    then show ?thesis
      using s Cons by (auto simp: empty_first_def)
  qed
qed

lemma readable_tables: "ini_ok o' \<Longrightarrow> readable o' (m_data o') \<and> (\<forall>x \<in> set (m_data o'). readable o' (snd x))"
proof -
  assume "ini_ok o'"
  then have "mem_ok (stored (m_data o')) (comments (m_data o')) o'"
    by (simp add: ini_ok_def safe_with_def)
  from mem_ok_tables(1,3) [OF this subset_mset.order_refl] show ?thesis
    by blast
qed

lemma GetAllKeys_at:
  assumes "ini_ok o'" "x \<in> set (m_data o')"
  shows "\<exists>es. GetAllKeys (Some (pItem (fst x))) o' = Some (True, es) \<and> set es \<subseteq> fst ` set (snd x) \<and> distinct (map (entry_key o') es)
     \<and> set (map (entry_key o') es) = name_key ` set (names_of o' (snd x))"
proof -
  obtain i where i: "i < length (m_data o')" "m_data o' ! i = x"
    using assms(2) by (auto simp: in_set_conv_nth)
  obtain s where s: "ptr_text o' (pItem (fst x)) = Some s"
    using readable_tables [OF assms(1)] assms(2) by (auto simp: readable_def)
  have ord: "safe o'" "ordered_tab (tab_of o')"
    using assms(1) by (simp_all add: ini_ok_def)
  have at: "fst (tab_of o' ! i) = s" "snd (tab_of o' ! i) = abs_kv o' (snd x)"
    using i s by simp_all
  have "search IsLess s (map fst (tab_of o')) = Some i"
    using search_strict(1) [OF ord(2), of i] i(1) at(1) by simp
  then have "GetSection (Some (pItem (fst x))) o' = Some (Some (snd x))"
    using find_section_entry [OF ord(1) s] i(2) by simp
  moreover have "sorted (map name_key (names_of o' (snd x)))"
    using ordered_at [OF ord(2), of i] i(1) at(2) by (simp add: names_of_abs)
  then obtain es where "distinct_keys o' None (snd x) = Some es" "set es \<subseteq> fst ` set (snd x)" "distinct (map (entry_key o') es)"
     "set (map (entry_key o') es) = name_key ` set (names_of o' (snd x))"
    using distinct_keys_after [of o' "snd x" None None] readable_tables [OF assms(1)] assms(2) by auto
  ultimately show ?thesis
    by (simp add: GetAllKeys_def)
qed

lemma blank_lines_emits: "emits f is \<Longrightarrow> emits (\<lambda>w. f (blank_lines b w)) is"
proof -
  assume "emits f is"
  then obtain x where x: "puts f x" "chunk x is"
    by (auto simp: emits_def)
  have "puts (\<lambda>w. f (blank_lines b w)) ((if b then [LF, LF] else []) @ x)"
    using puts_write [OF puts_write [OF x(1), of SI_NEWLINE_A], of SI_NEWLINE_A] x(1) by (cases b) (simp_all add: blank_lines_def SI_NEWLINE_A_def)
  moreover have "chunk ((if b then [LF, LF] else []) @ x) is"
    using chunk_append [OF blank_chunk chunk_append [OF blank_chunk x(2)]] x(2) by (cases b) simp_all
  ultimately show ?thesis
    by (auto simp: emits_def)
qed

text \<open>What the section with this entry is saved as.\<close>

definition block_of :: "CSimpleIni \<Rightarrow> string \<times> string list \<Rightarrow> ini_item list" where
  "block_of o' b = (if fst b = [] then [] else [Section (fst b)]) @ concat (map (\<lambda>n. map (Pair n) (kept o' (fst b) n)) (snd b))"

definition names_all :: "CSimpleIni \<Rightarrow> Entry \<times> TKeyVal \<Rightarrow> string list \<Rightarrow> bool" where
  "names_all o' x ks \<longleftrightarrow> distinct (map name_key ks) \<and> set (map name_key ks) = name_key ` set (names_of o' (snd x))"

lemma save_section_emits:
  assumes "ini_ok o'" "plain o'" "savable o'" "x \<in> set (m_data o')"
  shows "\<exists>ks. emits (save_section o' b (fst x)) (block_of o' (text_of o' (pItem (fst x)), ks)) \<and> names_all o' x ks"
proof -
  let ?e = "fst x"
  obtain s where s: "ptr_text o' (pItem ?e) = Some s"
    using readable_tables [OF assms(1)] assms(4) by (auto simp: readable_def)
  have ok: "section_ok s" "comment_saved o' (pComment ?e)" "\<forall>y \<in> set (snd x). entry_ok o' y"
    using assms(3,4) s by (auto simp: savable_def)
  obtain es where es: "GetAllKeys (Some (pItem ?e)) o' = Some (True, es)" "set es \<subseteq> fst ` set (snd x)" "distinct (map (entry_key o') es)"
     "set (map (entry_key o') es) = name_key ` set (names_of o' (snd x))"
    using GetAllKeys_at [OF assms(1,4)] by blast
  have "\<forall>y \<in> set (snd x). ptr_text o' (pItem (fst y)) \<noteq> None"
    using readable_tables [OF assms(1)] assms(4) by (auto simp: readable_def)
  then have read: "\<forall>k \<in> set es. ptr_text o' (pItem k) \<noteq> None \<and> key_ok (text_of o' (pItem k))"
    using es(2) ok(3) by (auto simp: entry_ok_def)
  then obtain zs where zs: "sort_entries o' es = Some zs" "mset zs = mset es"
    using sort_entries_mset [of es o'] by blast
  define ks where "ks = map (\<lambda>k. text_of o' (pItem k)) zs"
  have set_zs: "set zs = set es"
    using zs(2) by (rule mset_eq_setD)
  have keys: "map name_key ks = map (entry_key o') zs"
    by (simp add: ks_def)
  have "distinct (map (entry_key o') zs)"
  proof -
    have "mset (map (entry_key o') zs) = mset (map (entry_key o') es)"
      using zs(2) by simp
    then show ?thesis
      using es(3) mset_eq_imp_distinct_iff by blast
  qed
  then have all: "names_all o' x ks"
    unfolding names_all_def keys using es(4) set_zs by simp
  have "emits (save_keys o' ?e zs) (concat (map (\<lambda>k. map (Pair (text_of o' (pItem k))) (kept o' s (text_of o' (pItem k)))) zs))"
    using save_keys_emits [OF assms(1-3) s] read set_zs by blast
  then have keys_out: "emits (save_keys o' ?e zs) (concat (map (\<lambda>n. map (Pair n) (kept o' s n)) ks))"
    by (simp add: ks_def comp_def)
  let ?h = "\<lambda>w. if s = [] then Some (True, w) else do {
    (ok, w) \<leftarrow> ConvertToStore s w;
    Some (ok, if ok then Write SI_NEWLINE_A (Write '']'' (Write (scratch w) (Write ''['' w))) else w) }"
  have head: "emits ?h (if s = [] then [] else [Section s])"
  proof (cases "s = []")
    case False
    have "puts ?h (''['' @ s @ '']'' @ [LF])"
      unfolding puts_def
    proof (intro allI impI)
      fix w :: save_state
      assume "0 < scratch_size w"
      then obtain n where "0 < n" "ConvertToStore s w = Some (True, w\<lparr>scratch_size := n, scratch := s\<rparr>)"
        using ConvertToStore_ok by blast
      then show "\<exists>w'. ?h w = Some (True, w') \<and> written w' = written w @ ''['' @ s @ '']'' @ [LF] \<and> 0 < scratch_size w'"
        using False by (simp add: SI_NEWLINE_A_def)
    qed
    then show ?thesis
      using False section_chunk [OF ok(1)] by (auto simp: emits_def)
  qed (simp add: emits_skip)
  let ?body = "\<lambda>w. do { (ok, w) \<leftarrow> ?h w; if \<not> ok then Some (False, w) else save_keys o' ?e zs w }"
  have body: "emits ?body (block_of o' (s, ks))"
  proof -
    have "block_of o' (s, ks) = (if s = [] then [] else [Section s]) @ concat (map (\<lambda>n. map (Pair n) (kept o' s n)) ks)"
      by (simp add: block_of_def)
    then show ?thesis
      using emits_bind [OF head keys_out] by (simp only:)
  qed
  have "emits (save_section o' b ?e) (block_of o' (s, ks))"
  proof (cases "pComment ?e")
    case None
    show ?thesis
      by (rule emits_eq [OF blank_lines_emits [OF body, of b]]) (simp add: save_section_def None s es(1) zs(1) cong: if_cong)
  next
    case (Some p)
    then have "emits (save_comment o' p) []"
      using ok(2) save_comment_emits by (auto simp: comment_saved_def)
    from emits_bind [OF blank_lines_emits [OF this, of b] body]
    have "emits (\<lambda>w. do { (ok, w) \<leftarrow> save_comment o' p (blank_lines b w); if \<not> ok then Some (False, w) else ?body w }) (block_of o' (s, ks))"
      by simp
    then show ?thesis
    proof (rule emits_eq)
      fix w
      show "save_section o' b ?e w = do { (ok, w) \<leftarrow> save_comment o' p (blank_lines b w); if \<not> ok then Some (False, w) else ?body w }"
        by (cases "save_comment o' p (blank_lines b w)") (auto simp: save_section_def Some s es(1) zs(1) blank_lines_def cong: if_cong)
    qed
  qed
  then show ?thesis
    using s all by auto
qed

lemma save_sections_emits:
  assumes "ini_ok o'" "plain o'" "savable o'"
  shows "set es \<subseteq> fst ` set (m_data o') \<Longrightarrow> \<exists>bs. emits (save_sections o' b es) (concat (map (block_of o') bs))
    \<and> map fst bs = map (\<lambda>e. text_of o' (pItem e)) es \<and> (\<forall>c \<in> set bs. \<exists>x \<in> set (m_data o'). text_of o' (pItem (fst x)) = fst c \<and> names_all o' x (snd c))"
proof (induction es arbitrary: b)
  case Nil
  have "emits (save_sections o' b []) []"
    by (rule emits_eq [OF emits_skip]) simp
  then show ?case
    by (intro exI [of _ "[]"]) (simp del: save_sections.simps)
next
  case (Cons e es)
  then obtain x where x: "x \<in> set (m_data o')" "e = fst x"
    by auto
  obtain ks where ks: "emits (save_section o' b e) (block_of o' (text_of o' (pItem e), ks))" "names_all o' x ks"
    using save_section_emits [OF assms x(1)] x(2) by blast
  obtain bs where bs: "emits (save_sections o' True es) (concat (map (block_of o') bs))" "map fst bs = map (\<lambda>e. text_of o' (pItem e)) es"
    "\<forall>c \<in> set bs. \<exists>x \<in> set (m_data o'). text_of o' (pItem (fst x)) = fst c \<and> names_all o' x (snd c)"
    using Cons.IH [of True] Cons.prems by auto
  have "emits (save_sections o' b (e # es)) (block_of o' (text_of o' (pItem e), ks) @ concat (map (block_of o') bs))"
    by (rule emits_eq [OF emits_bind [OF ks(1) bs(1)]]) simp
  then show ?case
    using bs(2,3) ks(2) x by (intro exI [of _ "(text_of o' (pItem e), ks) # bs"]) (auto simp del: save_sections.simps)
qed

section \<open>The file and what it assigns\<close>

lemma Save_lines:
  assumes "ini_ok o'" "plain o'" "savable o'"
  shows "\<exists>w' x bs. Save sig o' Converter_ctor = Some (SI_OK, w')
    \<and> written w' = (if m_bStoreIsUtf8 o' \<and> sig then SI_UTF8_SIGNATURE else []) @ x \<and> chunk x (concat (map (block_of o') bs))
    \<and> (\<forall>c \<in> set (tl bs). fst c \<noteq> []) \<and> distinct (map (name_key \<circ> fst) bs)
    \<and> set (map (name_key \<circ> fst) bs) = name_key ` set (names_of o' (m_data o'))
    \<and> (\<forall>c \<in> set bs. \<exists>x \<in> set (m_data o'). text_of o' (pItem (fst x)) = fst c \<and> names_all o' x (snd c))"
proof -
  let ?es = "GetAllSections o'"
  have read: "\<forall>y \<in> set ?es. ptr_text o' (pItem y) \<noteq> None"
    using readable_tables [OF assms(1)] by (auto simp: GetAllSections_def readable_def)
  have keys: "map (entry_key o') ?es = map name_key (names_of o' (m_data o'))"
    by (simp add: GetAllSections_def names_of_def comp_def)
  have "sorted_wrt (<) (map name_key (names_of o' (m_data o')))"
    using assms(1) by (simp add: ini_ok_def ordered_tab_def names_of_abs)
  then have dist: "distinct (map (entry_key o') ?es)"
    unfolding keys by (simp add: strict_sorted_iff)
  obtain ys where ys: "sort_entries o' ?es = Some ys" "mset ys = mset ?es"
    using sort_entries_mset [OF read] by blast
  have "mset (map (entry_key o') ys) = mset (map (entry_key o') ?es)"
    using ys(2) by simp
  then have dist_ys: "distinct (map (entry_key o') ys)"
    using dist mset_eq_imp_distinct_iff by blast
  have "\<forall>y \<in> set ys. ptr_text o' (pItem y) \<noteq> None"
    using read mset_eq_setD [OF ys(2)] by simp
  then obtain zs where zs: "empty_first o' ys = Some zs" "mset zs = mset ys" "\<forall>x \<in> set (tl zs). text_of o' (pItem x) \<noteq> []"
    using empty_first_ok [OF _ dist_ys] by blast
  have set_zs: "set zs = set ?es"
    using zs(2) ys(2) by (metis mset_eq_setD)
  have "mset (map (entry_key o') zs) = mset (map (entry_key o') ys)"
    using zs(2) by simp
  then have dist_zs: "distinct (map (entry_key o') zs)"
    using dist_ys mset_eq_imp_distinct_iff by blast
  obtain bs where bs: "emits (save_sections o' (m_pFileComment o' \<noteq> None) zs) (concat (map (block_of o') bs))"
    "map fst bs = map (\<lambda>e. text_of o' (pItem e)) zs"
    "\<forall>c \<in> set bs. \<exists>x \<in> set (m_data o'). text_of o' (pItem (fst x)) = fst c \<and> names_all o' x (snd c)"
    using save_sections_emits [OF assms, of zs "m_pFileComment o' \<noteq> None"] set_zs by (auto simp: GetAllSections_def)
  have names: "map (name_key \<circ> fst) bs = map (entry_key o') zs"
    using arg_cong [OF bs(2), of "map name_key"] by (simp add: comp_def)
  have "fst c \<noteq> []" if "c \<in> set (tl bs)" for c
  proof -
    have "fst c \<in> set (tl (map fst bs))"
      using that by (simp add: map_tl [symmetric])
    then show ?thesis
      using zs(3) unfolding bs(2) by (auto simp: map_tl [symmetric])
  qed
  moreover have "set (map (name_key \<circ> fst) bs) = name_key ` set (names_of o' (m_data o'))"
    unfolding names using set_zs arg_cong [OF keys, of set] by simp
  moreover have "distinct (map (name_key \<circ> fst) bs)"
    unfolding names by (rule dist_zs)
  moreover have "\<exists>w' x. Save sig o' Converter_ctor = Some (SI_OK, w')
    \<and> written w' = (if m_bStoreIsUtf8 o' \<and> sig then SI_UTF8_SIGNATURE else []) @ x \<and> chunk x (concat (map (block_of o') bs))"
  proof -
    let ?c = "\<lambda>w. case m_pFileComment o' of None \<Rightarrow> Some (True, w) | Some p \<Rightarrow> save_comment o' p w"
    have "emits ?c []"
    proof (cases "m_pFileComment o'")
      case (Some p)
      then show ?thesis
        using assms(3) save_comment_emits [of o' p] by (auto simp: savable_def comment_saved_def)
    qed (simp add: emits_skip)
    from emits_bind [OF this bs(1)] obtain x where
      x: "puts (\<lambda>w. do { (ok, w) \<leftarrow> ?c w; if \<not> ok then Some (False, w) else save_sections o' (m_pFileComment o' \<noteq> None) zs w }) x"
        "chunk x (concat (map (block_of o') bs))"
      by (auto simp: emits_def)
    let ?w = "if m_bStoreIsUtf8 o' \<and> sig then Write SI_UTF8_SIGNATURE Converter_ctor else Converter_ctor"
    have "0 < scratch_size ?w" "written ?w = (if m_bStoreIsUtf8 o' \<and> sig then SI_UTF8_SIGNATURE else [])"
      by (simp_all add: Converter_ctor_def)
    then obtain w' where w': "(do { (ok, w) \<leftarrow> ?c ?w; if \<not> ok then Some (False, w) else save_sections o' (m_pFileComment o' \<noteq> None) zs w }) = Some (True, w')"
      "written w' = (if m_bStoreIsUtf8 o' \<and> sig then SI_UTF8_SIGNATURE else []) @ x"
      using putsD [OF x(1), of ?w] by auto
    then obtain w1 where "?c ?w = Some (True, w1)" "save_sections o' (m_pFileComment o' \<noteq> None) zs w1 = Some (True, w')"
      by (auto simp: bind_eq_Some_conv simp del: save_sections.simps split: if_splits)
    then have "Save sig o' Converter_ctor = Some (SI_OK, w')"
      by (simp add: Save_def ys(1) zs(1) del: save_sections.simps)
    then show ?thesis
      using w'(2) x(2) by blast
  qed
  ultimately show ?thesis
    using bs(3) by blast
qed

lemma assigned_pairs:
  "assigned cur (map (Pair n) vs @ is) s k = (if name_key s = name_key cur \<and> name_key k = name_key n then vs else []) @ assigned cur is s k"
  by (induction vs) auto

lemma assigned_keys:
  "assigned cur (concat (map (\<lambda>n. map (Pair n) (f n)) ks) @ is) s k =
    (if name_key s = name_key cur then concat (map (\<lambda>n. if name_key n = name_key k then f n else []) ks) else []) @ assigned cur is s k"
  by (induction ks) (auto simp: assigned_pairs)

text \<open>The values in one block, and in all.\<close>

definition in_block :: "CSimpleIni \<Rightarrow> string \<Rightarrow> string \<times> string list \<Rightarrow> string list" where
  "in_block o' k c = concat (map (\<lambda>n. if name_key n = name_key k then kept o' (fst c) n else []) (snd c))"

lemma assigned_block:
  "fst c \<noteq> [] \<or> cur = [] \<Longrightarrow>
   assigned cur (block_of o' c @ is) s k = (if name_key (fst c) = name_key s then in_block o' k c else []) @ assigned (fst c) is s k"
  by (cases c) (auto simp: block_of_def assigned_keys in_block_def cong: if_cong)

lemma assigned_named_blocks:
  "\<forall>c \<in> set bs. fst c \<noteq> [] \<Longrightarrow> assigned cur (concat (map (block_of o') bs)) s k
     = concat (map (\<lambda>c. if name_key (fst c) = name_key s then in_block o' k c else []) bs)"
  by (induction bs arbitrary: cur) (auto simp: assigned_block)

lemma assigned_blocks:
  "\<forall>c \<in> set (tl bs). fst c \<noteq> [] \<Longrightarrow> assigned [] (concat (map (block_of o') bs)) s k
     = concat (map (\<lambda>c. if name_key (fst c) = name_key s then in_block o' k c else []) bs)"
  using assigned_named_blocks [of "tl bs"] by (cases bs) (auto simp: assigned_block)

lemma concat_unique:
  assumes "distinct (map f xs)"
  shows "x \<in> set xs \<Longrightarrow> f x = a \<Longrightarrow> concat (map (\<lambda>x. if f x = a then g x else []) xs) = g x"
    "a \<notin> f ` set xs \<Longrightarrow> concat (map (\<lambda>x. if f x = a then g x else []) xs) = []"
proof -
  show none: "a \<notin> f ` set xs \<Longrightarrow> concat (map (\<lambda>x. if f x = a then g x else []) xs) = []" for xs a
    by auto
  show "x \<in> set xs \<Longrightarrow> f x = a \<Longrightarrow> concat (map (\<lambda>x. if f x = a then g x else []) xs) = g x"
    using assms
  proof (induction xs)
    case (Cons y ys)
    show ?case
    proof (cases "f y = a")
      case True
      then have "x = y" "a \<notin> f ` set ys"
        using Cons.prems by (auto simp: image_iff)
      then show ?thesis
        using True none [of a ys] by simp
    qed (use Cons in auto)
  qed simp
qed

text \<open>Every value that is kept is assigned.\<close>

lemma no_key_no_texts:
  assumes "ini_ok o'" "x \<in> set (m_data o')" "name_key k \<notin> name_key ` set (names_of o' (snd x))"
  shows "texts o' (text_of o' (pItem (fst x))) k = []"
proof -
  obtain i where i: "i < length (m_data o')" "m_data o' ! i = x"
    using assms(2) by (auto simp: in_set_conv_nth)
  have "vals name_key (name_key (text_of o' (pItem (fst x)))) (tab_of o') = [abs_kv o' (snd x)]"
    using search_strict(2) [of "tab_of o'" i] assms(1) i by (simp add: ini_ok_def)
  moreover have "vals name_key (name_key k) (abs_kv o' (snd x)) = []"
    using assms(3) unfolding names_of_abs set_map by (intro vals_none) (metis imageI)
  ultimately show ?thesis
    by (simp add: texts_def values_of_def)
qed

lemma no_section_no_texts: "name_key s \<notin> name_key ` set (names_of o' (m_data o')) \<Longrightarrow> texts o' s k = []"
proof -
  assume "name_key s \<notin> name_key ` set (names_of o' (m_data o'))"
  then have "vals name_key (name_key s) (tab_of o') = []"
    unfolding names_of_abs set_map by (intro vals_none) (metis imageI)
  then show ?thesis
    by (simp add: texts_def values_of_def)
qed

lemma in_block_kept:
  assumes "ini_ok o'" "x \<in> set (m_data o')" "text_of o' (pItem (fst x)) = fst c" "names_all o' x (snd c)"
  shows "in_block o' k c = kept o' (fst c) k"
proof -
  have dist: "distinct (map name_key (snd c))" "name_key ` set (snd c) = name_key ` set (names_of o' (snd x))"
    using assms(4) by (simp_all add: names_all_def)
  show ?thesis
  proof (cases "name_key k \<in> name_key ` set (snd c)")
    case True
    then obtain n where n: "n \<in> set (snd c)" "name_key n = name_key k"
      by auto
    then have "in_block o' k c = kept o' (fst c) n"
      unfolding in_block_def by (rule concat_unique(1) [OF dist(1)])
    then show ?thesis
      using kept_cong [OF refl n(2)] by simp
  next
    case False
    then have "in_block o' k c = []"
      unfolding in_block_def by (rule concat_unique(2) [OF dist(1)])
    then show ?thesis
      using no_key_no_texts [OF assms(1,2), of k] False dist(2) assms(3) by (simp add: kept_def)
  qed
qed

lemma assigned_kept:
  assumes "ini_ok o'" "\<forall>c \<in> set (tl bs). fst c \<noteq> []" "distinct (map (name_key \<circ> fst) bs)"
    "set (map (name_key \<circ> fst) bs) = name_key ` set (names_of o' (m_data o'))"
    "\<forall>c \<in> set bs. \<exists>x \<in> set (m_data o'). text_of o' (pItem (fst x)) = fst c \<and> names_all o' x (snd c)"
  shows "assigned [] (concat (map (block_of o') bs)) s k = kept o' s k"
proof -
  have eq: "assigned [] (concat (map (block_of o') bs)) s k = concat (map (\<lambda>c. if (name_key \<circ> fst) c = name_key s then in_block o' k c else []) bs)"
    using assigned_blocks [OF assms(2)] by simp
  show ?thesis
  proof (cases "name_key s \<in> (name_key \<circ> fst) ` set bs")
    case True
    then obtain c where c: "c \<in> set bs" "(name_key \<circ> fst) c = name_key s"
      by auto
    then obtain x where "x \<in> set (m_data o')" "text_of o' (pItem (fst x)) = fst c" "names_all o' x (snd c)"
      using assms(5) by blast
    then have "in_block o' k c = kept o' s k"
      using in_block_kept [OF assms(1)] kept_cong [of "fst c" s k k] c(2) by simp
    then show ?thesis
      unfolding eq concat_unique(1) [OF assms(3) c] .
  next
    case False
    then have "texts o' s k = []"
      using assms(4) by (intro no_section_no_texts) simp
    then show ?thesis
      unfolding eq concat_unique(2) [OF assms(3) False] by (simp add: kept_def)
  qed
qed

section \<open>Saving and loading\<close>

lemma chunk_content:
  assumes "chunk x is"
  shows "content ((if b then SI_UTF8_SIGNATURE else []) @ x) = x"
proof -
  have "takeWhile (\<lambda>c. c \<noteq> NUL) x = x"
    using assms by (auto simp: chunk_def takeWhile_eq_all_conv)
  moreover have "take 3 x \<noteq> SI_UTF8_SIGNATURE"
    using assms by (cases x) (auto simp: chunk_def SI_UTF8_SIGNATURE_def)
  moreover have "take 3 (SI_UTF8_SIGNATURE @ x) = SI_UTF8_SIGNATURE" "drop 3 (SI_UTF8_SIGNATURE @ x) = x"
    by (simp_all add: SI_UTF8_SIGNATURE_def)
  ultimately show ?thesis
    unfolding content_def by (cases b) simp_all
qed

text \<open>
  C9: saving and loading. An object with the settings of the program whose names, values and
  comments fit into the lines of a file is saved without an error; a new object that loads this text
  has the same values for every key of every section, in the same order. Without multiple keys only
  the first value of a key, the one \<open>GetValue\<close> gives, is saved.
\<close>

theorem Save_LoadData:
  assumes "ini_ok o'" "plain o'" "savable o'" "\<forall>n. new_ok n"
  shows "\<exists>s. Save_string sig o' [] = Some (SI_OK, s)
    \<and> (2 * int (length s) < 2 ^ 31 \<longrightarrow> (\<exists>o2. LoadData new_ok (Some s) (CSimpleIni_ctor (m_bStoreIsUtf8 o') (m_bAllowMultiKey o') False) = Some (SI_OK, o2)
         \<and> ini_ok o2 \<and> (\<forall>sec k. texts o2 sec k = (if m_bAllowMultiKey o' then texts o' sec k else take 1 (texts o' sec k))
           \<and> get_text o2 sec k = get_text o' sec k)))"
proof -
  obtain w' x bs where w: "Save sig o' Converter_ctor = Some (SI_OK, w')"
    "written w' = (if m_bStoreIsUtf8 o' \<and> sig then SI_UTF8_SIGNATURE else []) @ x" "chunk x (concat (map (block_of o') bs))"
    "\<forall>c \<in> set (tl bs). fst c \<noteq> []" "distinct (map (name_key \<circ> fst) bs)"
    "set (map (name_key \<circ> fst) bs) = name_key ` set (names_of o' (m_data o'))"
    "\<forall>c \<in> set bs. \<exists>x \<in> set (m_data o'). text_of o' (pItem (fst x)) = fst c \<and> names_all o' x (snd c)"
    using Save_lines [OF assms(1-3), of sig] by (elim exE conjE) (rule that)
  let ?s = "written w'" and ?o = "CSimpleIni_ctor (m_bStoreIsUtf8 o') (m_bAllowMultiKey o') False"
  have save: "Save_string sig o' [] = Some (SI_OK, ?s)"
    using w(1) by (simp add: Save_string_def)
  have new: "plain ?o" "m_nOrder ?o = 0" "m_bAllowMultiKey ?o = m_bAllowMultiKey o'"
    by (simp_all add: plain_def CSimpleIni_ctor_def)
  have cont: "content ?s = x"
    unfolding w(2) by (rule chunk_content [OF w(3)])
  then have lines: "clean (content ?s)" "items (content ?s) = concat (map (block_of o') bs)"
    using w(3) by (simp_all add: chunk_def)
  have "\<exists>o2. LoadData new_ok (Some ?s) ?o = Some (SI_OK, o2) \<and> ini_ok o2
      \<and> (\<forall>sec k. texts o2 sec k = (if m_bAllowMultiKey o' then texts o' sec k else take 1 (texts o' sec k)) \<and> get_text o2 sec k = get_text o' sec k)"
    if "2 * int (length ?s) < 2 ^ 31"
  proof -
    have "m_nOrder ?o + 2 * int (length ?s) < 2 ^ 31"
      using that new(2) by simp
    from LoadData_effect [OF ctor_ok(1) new(1) lines(1) this assms(4)] obtain o2 where
      o2: "LoadData new_ok (Some ?s) ?o = Some (SI_OK, o2)" "ini_ok o2"
        "\<forall>sec k. texts o2 sec k = foldl (\<lambda>vs v. new_values (m_bAllowMultiKey ?o) False v vs) (texts ?o sec k) (assigned [] (items (content ?s)) sec k)"
      by (elim exE conjE) (rule that)
    have t: "texts o2 sec k = kept o' sec k" for sec k
    proof -
      have "texts o2 sec k = foldl (\<lambda>vs v. new_values (m_bAllowMultiKey o') False v vs) [] (kept o' sec k)"
        using o2(3) ctor_ok(2) new(3) assigned_kept [OF assms(1) w(4-7)] lines(2) by simp
      then show ?thesis
        unfolding foldl_new_values by (cases "texts o' sec k") (simp_all add: kept_def)
    qed
    moreover have "get_text o2 sec k = get_text o' sec k" for sec k
      using get_text_spec [OF o2(2), of sec k] get_text_spec [OF assms(1), of sec k] t [of sec k]
      by (cases "texts o' sec k") (simp_all add: kept_def)
    ultimately show ?thesis
      using o2(1,2) by (auto simp: kept_def)
  qed
  then show ?thesis
    using save by blast
qed

definition sample_ini :: CSimpleIni where
  "sample_ini = (CSimpleIni_ctor True True False)
    \<lparr>m_data := [(\<lparr>pItem = Copy 0, pComment = Some (Copy 5), nOrder = 1\<rparr>,
                 [(\<lparr>pItem = Copy 1, pComment = None, nOrder = 3\<rparr>, Copy 2), (\<lparr>pItem = Copy 3, pComment = None, nOrder = 2\<rparr>, Copy 4)])],
     m_strings := [(0, ''ftp''), (1, ''Port''), (2, ''21''), (3, ''port''), (4, ''''), (5, ''; both'')], m_nOrder := 3, allocs := 6\<rparr>"

lemma sample_ini_ok: "ini_ok sample_ini" "plain sample_ini" "savable sample_ini"
proof -
  have names: "name_key ''Port'' = name_key ''port''"
    by (simp add: name_key_def char_val_def locase_def)
  show "ini_ok sample_ini"
    by (auto simp: sample_ini_def CSimpleIni_ctor_def ini_ok_def safe_with_def mem_ok_def ordered_tab_def text_of_def names)
  show "plain sample_ini"
    by (simp add: sample_ini_def CSimpleIni_ctor_def plain_def)
  have "rstrip s = s" if "s \<in> {''ftp'', ''Port'', ''21'', ''port'', ''''}" for s
    using that by (auto simp: rstrip_def IsSpace_def)
  then show "savable sample_ini"
    by (simp add: sample_ini_def CSimpleIni_ctor_def savable_def comment_saved_def section_ok_def entry_ok_def key_ok_def one_line_def
        comment_ok_def text_of_def IsSpace_def IsNewLineChar_def IsComment_def items_def clean_def clean_line_def item_of_line_def
        lines_of_once del: lines_of.simps(2))
qed

lemma convert_small:
  "length s < 1024 \<Longrightarrow> ConvertToStore s \<lparr>written = a, scratch_size = 1024, scratch = b\<rparr>
     = Some (True, \<lparr>written = a, scratch_size = 1024, scratch = s\<rparr>)"
  by (simp add: ConvertToStore_def SizeToStore_def grow_scratch.simps)

lemma sample_ini_saved: "\<exists>s. Save_string True sample_ini [] = Some (SI_OK, s) \<and> length s < 100"
proof -
  have "\<not> IsLess ''ftp'' ''ftp''" "\<not> IsLess ''Port'' ''port''" "\<not> IsLess ''port'' ''port''" "\<not> IsLess ''port'' ''Port''"
    "\<not> IsLess ''Port'' ''Port''"
    by (simp_all add: IsLess_def SI_GenericNoCase_def char_val_def locase_def)
  then show ?thesis
    by (simp add: sample_ini_def CSimpleIni_ctor_def Save_string_def Save_def GetAllSections_def LoadOrder_def empty_first_def
        save_comment_def OutputMultiLineText_def save_section_def save_value_def save_text_def convert_small Write_def SI_NEWLINE_A_def
        Converter_ctor_def SI_UTF8_SIGNATURE_def GetAllKeys_def GetSection_def GetAllValues_def find_keys_def find_entry_def
        not_less_def blank_lines_def)
qed

lemma sample_ini_texts: "texts sample_ini ''FTP'' ''PORT'' = [''21'', []]"
  by (simp add: texts_def values_of_def sample_ini_def CSimpleIni_ctor_def text_of_def name_key_def char_val_def locase_def)

lemma Save_LoadData_witness:
  "\<exists>s o2. Save_string True sample_ini [] = Some (SI_OK, s) \<and> LoadData (\<lambda>_. True) (Some s) (CSimpleIni_ctor True True False) = Some (SI_OK, o2)
     \<and> texts o2 ''FTP'' ''PORT'' = [''21'', []]"
proof -
  have flags: "m_bStoreIsUtf8 sample_ini" "m_bAllowMultiKey sample_ini"
    by (simp_all add: sample_ini_def CSimpleIni_ctor_def)
  obtain s where s: "Save_string True sample_ini [] = Some (SI_OK, s)" "length s < 100"
    using sample_ini_saved by blast
  then have "2 * int (length s) < 2 ^ 31"
    by simp
  then show ?thesis
    using Save_LoadData [OF sample_ini_ok, of "\<lambda>_. True" True] s(1) flags sample_ini_texts by auto
qed

end
