(* ===== verification/Spec2Isabelle.thy ===== *)
theory Spec2Isabelle
  imports Start_Up Csv_Export Reports_Ack Safe_Queue Blocking_Queue Mutex_Lock Channel Atomic Logging Http Log_Stream Ini_Long Ini_Saved
begin

text \<open>
  A model of CenterException, a centre that collects reports on the deletion of personal data:
  clients send packets over TCP, a server cuts them out of the byte stream, a thread pool decrypts,
  parses and stores them in a DM8 database, which the program initialises, backs up, queries and
  exports as CSV files; an FTP service offers the exports.

  The parts and how they interact. \<open>src/src/main.cpp\<close> initialises the database
  (\<open>CSqlGradOperate\<close>), sets up its backups, starts the FTP service and then the server. The server
  (\<open>CMuduoServer\<close>, src/src/server) is called with the buffer of a connection (muduo \<open>Buffer\<close>)
  whenever bytes arrive, parses a \<open>CPacket\<close> (src/src/data/Packet) and hands it to the thread pool of
  \<open>CTaskDeal\<close> (src/src/dealTask), whose task makes a \<open>DataInfoBase\<close> (src/src/data/dataBase) of the
  decrypted JSON text and inserts it through \<open>CSqlGradOperate\<close> (src/src/dm). The classes of
  src/src/data/DMdata are reports of particular versions; they are commented out of the Makefile.

  Theories:
  \<^item> \<open>Prelude\<close>: faults, pointers, effectful calls, decimal numbers, \<open>stoi\<close>. \<open>Bytes\<close>: words and bytes,
    src/src/muduo/net/Endian.h.
  \<^item> \<open>Muduo_Buffer\<close>: src/src/muduo/net/Buffer.h, the vector with its two indices, refined to a byte
    string by \<open>content\<close> (locale \<open>byte_stream\<close>).
  \<^item> \<open>Packet\<close>: constructors, \<open>Data\<close>, \<open>FindHeadStart\<close>, \<open>ConstructData\<close>; round trip, bounds of the reads.
  \<^item> \<open>Server\<close>: \<open>onMessage\<close>, of which \<open>cut_packet\<close> is the part that cuts a packet out of the buffer, and the
    arrival of a packet in pieces (\<open>receive\<close>). \<open>Task_Deal\<close>: the tasks, whose hand-over moves the packet,
    which the move constructor of \<open>CPacket\<close> does not survive.
  \<^item> \<open>Sql_Text\<close>: how a database reads a statement (\<open>sql_lex\<close>), the specification of every statement
    builder, with the locale \<open>insert_header\<close>. \<open>Data_Info\<close>: the report base class. \<open>Report_Json\<close>,
    \<open>Reports_Stream\<close>, \<open>Reports_Quoted\<close>, \<open>Reports_Ack\<close>: the fourteen classes of DMdata, each with
    constructor, \<open>DisplayData\<close>, \<open>TurnStr2Obj\<close>, \<open>GetInserDataInOrder\<close> and an interpretation of
    \<open>report_statement\<close>, which extends \<open>insert_header\<close>.
  \<^item> \<open>Sql_Operate\<close>, \<open>Sql_Schema\<close>, \<open>Sql_Backup\<close>, \<open>Sql_Query\<close>, \<open>Csv_Export\<close>:
    src/src/dm/sqlgradoperate.cpp. The object is a record of its members with the log of its calls
    to the database (\<open>events\<close>), against which the properties are stated; the locale \<open>executor\<close> is
    the contract of the two functions that execute a statement.
  \<^item> \<open>Safe_Queue\<close>: src/src/tools/ThreadSafeQueue.h as the steps of any number of threads, with an
    inductive step relation and invariants of the reachable states. \<open>Blocking_Queue\<close>: muduo's two
    queues (locale \<open>blocking_fifo\<close>). \<open>Mutex_Lock\<close>: the mutex and the condition these use, step by step.
  \<^item> \<open>Timestamp\<close>, \<open>Http\<close>, \<open>String_Piece\<close>, \<open>Log_Stream\<close>, \<open>Logging\<close>, \<open>Channel\<close>, \<open>Atomic\<close>: inline
    code of other muduo headers.
  \<^item> \<open>Start_Up\<close>: src/src/ftp and \<open>main\<close>. This theory: properties that span components.
  \<^item> The library of configuration files, src/include/simpleIni/SimpleIni.h, its instance for \<open>char\<close>:
    \<open>Ini_Text\<close> has \<open>FindEntry\<close>, \<open>LoadMultiLineText\<close>, the spaces and line ends, on a block of text in which
    the parser writes its NULs (\<open>text_block\<close>); \<open>Ini_Store\<close> has the object, its ordered tables with keys
    that are pointers into texts the object owns, and every operation that changes them; \<open>Ini_Get\<close> the
    queries and the conversions of values; \<open>Ini_File\<close> \<open>LoadFile\<close> and \<open>LoadData\<close>; \<open>Ini_Save\<close> \<open>Save\<close> and
    \<open>SaveFile\<close>. \<open>Ini_Parse\<close>, \<open>Ini_Find\<close> and \<open>Ini_Items\<close> prove that the parser makes progress, stays in its
    block and reads the same lines as a parser on plain texts; \<open>Ini_Order\<close> (locale \<open>name_order\<close>) the
    orders of names, \<open>Ini_Memory\<close> which texts are alive, \<open>Ini_Delete\<close> and \<open>Ini_Add\<close> the updates against
    the abstract values of \<open>Ini_Spec\<close>, \<open>Ini_Object\<close> the invariant of every sequence of calls,
    \<open>Ini_Long\<close> the integers, \<open>Ini_Load\<close> and \<open>Ini_Loaded\<close> what loading does, \<open>Ini_Saved\<close> that a saved object
    is loaded back.

  Conventions. A class is a record of its members and a method a function from the object to its
  result and the new object; inheritance is record extension. Machine integers are words, or numbers
  with the reduction written out. Undefined behaviour (a read or write outside an object, an
  indeterminate value, a missing return) and failed asserts are \<open>None\<close> or a \<open>fault\<close>, and so are
  exceptions and \<open>exit\<close>; a fault ends the call, and nothing is claimed about what a machine does
  after it. Loops recurse on the data or on the number of rows or bytes that are left, so that no fuel is
  needed; the loops of SimpleIni's parser, which move a pointer through a text that they change, are
  \<open>partial_function (option)\<close>, and that they return is a theorem (\<open>LoadData_returns\<close>).

  Parameters, code that is not in the repository: the DM library (\<open>dm_api\<close>), jsoncpp (\<open>json_lib\<close>,
  \<open>json_access\<close>, with the contracts \<open>json_contract\<close> and \<open>access_contract\<close>), the class \<open>CSimpleIniEx\<close>
  around SimpleIni (\<open>ini\<close>), \<open>CDmTableInfo\<close>, the thread pool, fineftp, \<open>CftpServerEx\<close>, \<open>utils\<close>, the network loop.
  The contracts have an executable instance, which the witnesses use.

  Not modelled: logging; \<open>onConnection\<close>, which only logs; the destructors of the server; code that
  is commented out; floating-point functions of muduo and of SimpleIni (\<open>GetDoubleValue\<close>,
  \<open>SetDoubleValue\<close>); SimpleIni's conversions for wide characters and its streams of the standard
  library; muduo's functions that are only declared, and its inline functions that return or store one
  member or pass a call on to pthreads or zlib; the headers of jsoncpp and of the DM client, which
  declare functions whose code is not in the repository.
\<close>

section \<open>From the network to the end of the process\<close>

lemma started_server:
  assumes "CMuduoServer_ctor cfg pool = Inr srv"
  shows "\<exists>n. m_taskDeal (snd (Server_Start (\<lambda>_ p. p) srv)) = CTaskDeal_ctor pool n"
  using assms by (auto simp: CMuduoServer_ctor_def bindE_Inr Server_Start_def Start_def CTaskDeal_ctor_def)

text \<open>
  C3: the way of one packet through the program. A server made from a valid configuration receives one
  well-formed packet of a report version, in any pieces of which the first has at least two bytes. The
  handler puts the packet together, and its hand-over writes outside the packet before there is a task.
  Were that write harmless, the worker that runs the task bound to this packet would end the process with
  code -1, before any call to the database: either way the report is not stored.
\<close>

theorem packet_not_stored:
  assumes "json_contract J" "CMuduoServer_ctor cfg [] = Inr srv"
    "packet_wf q" "m_msgVersion q \<in> table_versions"
    "concat (ds @ [d]) = wire q" "d \<noteq> []" "2 \<le> length (hd (ds @ [d]))" "8 + length (wire q) < 2 ^ 63"
  shows "let started = snd (Server_Start (\<lambda>_ p. p) srv) in
    receive queue_run junk (ds @ [d]) fresh_buffer started = None
    \<and> (\<exists>b0 b1 b2 p. receive queue_run junk ds fresh_buffer started = Some (b0, started)
      \<and> append_bytes b0 d = Some b1 \<and> cut_packet junk b1 = Some (b2, Some p) \<and> Muduo_Buffer.content b2 = []
      \<and> run_tasks J A span [CPacket_copy p] (m_taskDeal started) db = (Inl (ProcessExit (-1)), db))"
proof -
  let ?srv = "snd (Server_Start (\<lambda>_ p. p) srv)"
  obtain n where n: "m_taskDeal ?srv = CTaskDeal_ctor [] n"
    using started_server [OF assms(2)] by blast
  obtain b0 b1 b2 p where p: "receive queue_run junk ds fresh_buffer ?srv = Some (b0, ?srv)"
    "append_bytes b0 d = Some b1" "cut_packet junk b1 = Some (b2, Some p)" "CPacket_copy p = CPacket_copy q"
    "Muduo_Buffer.content b2 = []" "receive queue_run junk (ds @ [d]) fresh_buffer ?srv = None"
    using receive_pieces [OF fresh_buffer_inv(1), of ds d q "[]" queue_run junk ?srv] assms(3,5-8) fresh_buffer_inv
    by (auto simp: max_def)
  have "run_tasks J A span [CPacket_copy p] (CTaskDeal_ctor [] n) db = (Inl (ProcessExit (-1)), db)"
    using assms(4) p(4) by (intro run_one_version [OF assms(1)]) (simp add: CPacket_copy_def)
  then show ?thesis
    using p n by (auto simp: Let_def)
qed

lemma packet_not_stored_witness:
  "receive queue_run sample_packet [take 7 (wire sample_packet), drop 7 (wire sample_packet)] fresh_buffer
     (snd (Server_Start (\<lambda>_ p. p) sample_server)) = None"
proof -
  have len: "length (wire sample_packet) = 36"
    using sample_packet_wf by (simp add: length_wire packet_wf_def) (simp add: sample_packet_def CPacket_string_def)
  have "CMuduoServer_ctor (\<lambda>_ _ x. x) [] = Inr sample_server"
    by code_simp
  moreover have "m_msgVersion sample_packet \<in> table_versions"
    by (simp add: sample_packet_def table_versions_def)
  moreover have "drop 7 (wire sample_packet) \<noteq> []"
    using len by simp
  ultimately show ?thesis
    using packet_not_stored [OF sample_json_contract [of JNull], of "\<lambda>_ _ x. x" sample_server sample_packet
        "[take 7 (wire sample_packet)]" "drop 7 (wire sample_packet)" sample_packet "answering 0 Map.empty" "\<lambda>_. ret ()"
        sample_unit_sqlop] sample_packet_wf len by (simp add: Let_def)
qed

text \<open>
  C5: the start of the program. Whatever the database answers, \<open>main\<close> ends in a fault before it makes
  the FTP service or the server: it exits, an exception leaves it, an array is overrun (as when
  \<open>CreateTable\<close> has to make shipped tables whose names do not fit), or the end of a function without a result is
  reached. Which of these it is does not depend on these services. The FTP object could not be made
  either: its constructor reads the member \<open>port\<close> before it has a value, and for any value it may find,
  the reading of the configuration faults.
\<close>

theorem main_never_serves:
  "(\<exists>e t. \<forall>StartEx pool pool_start loop.
      main A info mkdir junk StartEx pool pool_start loop cfg flag w = (Inl e, t))
   \<and> Cftp_ctor new_server Indeterminate load cfg mkdir_ftp = Inl Uninitialised
   \<and> (\<forall>p. \<exists>e. Cftp_ctor new_server (Object p) load cfg mkdir_ftp = Inl e)"
  by (intro conjI allI main_stops Cftp_ctor_fails)

end
